(* ===== verification/Prelude.thy ===== *)
theory Prelude
  imports Complex_Main "HOL-Library.Multiset" "HOL-Library.Char_ord" "HOL-Library.List_Lexorder"
begin

text \<open>
  What every component of the development shares: the values of JavaScript the code uses
  (strings, numbers that may be \<open>NaN\<close>, \<open>Array.prototype.sort\<close>, objects used as
  dictionaries, \<open>crypto.randomUUID\<close>), the generic lemmas about them, and the two
  interfaces that several components provide: a comparator for sorting and a state machine
  with an invariant.

  Strings are lists of \<^typ>\<open>char\<close>; a \<^typ>\<open>char\<close> stands for a UTF-16 code unit below
  256 (Latin-1), so the white space and the case mapping below are those of JavaScript
  restricted to Latin-1.
\<close>

named_theorems id_simps "facts about the identifiers a tree or a store holds"

section \<open>Identifiers\<close>

text \<open>
  \<open>crypto.randomUUID()\<close> is a stream of strings: the n-th call returns \<open>u n\<close>. Code that
  draws identifiers takes the stream and the number of calls made so far, and returns the
  number of calls made in the end. That two calls never return the same string is the
  hypothesis \<open>inj u\<close> of the theorems that need it.
\<close>

type_synonym uuids = "nat \<Rightarrow> string"

definition used_ids :: "uuids \<Rightarrow> nat \<Rightarrow> string set" where
  "used_ids u n = u ` {..<n}"

text \<open>A concrete stream for the witnesses: \<open>x\<close>, \<open>xx\<close>, \<open>xxx\<close>, ...\<close>

definition sample_uuids :: uuids where
  "sample_uuids n = replicate (Suc n) (CHR ''x'')"

lemma inj_sample_uuids [simp]: "inj sample_uuids"
  by (rule injI) (metis sample_uuids_def length_replicate nat.inject)

lemma used_ids_mono: "n \<le> m \<Longrightarrow> used_ids u n \<subseteq> used_ids u m"
  by (auto simp: used_ids_def)

lemma used_ids_Suc: "used_ids u (Suc n) = insert (u n) (used_ids u n)"
  by (auto simp: used_ids_def lessThan_Suc)

lemma fresh_id: "inj u \<Longrightarrow> u n \<notin> used_ids u n"
  by (auto simp: used_ids_def inj_def)

lemma fresh_id_ge: "inj u \<Longrightarrow> n \<le> m \<Longrightarrow> u m \<notin> used_ids u n"
  by (auto simp: used_ids_def dest: injD)

section \<open>Strings\<close>

definition js_space :: "char \<Rightarrow> bool" where
  "js_space c \<longleftrightarrow> of_char c \<in> {9, 10, 11, 12, 13, 32, 160 :: nat}"

definition trim :: "string \<Rightarrow> string" where
  "trim s = rev (dropWhile js_space (rev (dropWhile js_space s)))"

definition newline :: char where
  "newline = CHR 0x0A"

definition lower_char :: "char \<Rightarrow> char" where
  "lower_char c =
     (let n = of_char c :: nat
      in if (65 \<le> n \<and> n \<le> 90) \<or> (192 \<le> n \<and> n \<le> 222 \<and> n \<noteq> 215) then char_of (n + 32) else c)"

definition toLowerCase :: "string \<Rightarrow> string" where
  "toLowerCase s = map lower_char s"

fun starts_with :: "string \<Rightarrow> string \<Rightarrow> bool" where
  "starts_with s [] = True"
| "starts_with [] (p # ps) = False"
| "starts_with (c # cs) (p # ps) = (c = p \<and> starts_with cs ps)"

fun str_includes :: "string \<Rightarrow> string \<Rightarrow> bool" where
  "str_includes [] sub = (sub = [])"
| "str_includes (c # cs) sub = (starts_with (c # cs) sub \<or> str_includes cs sub)"

fun split_on :: "char \<Rightarrow> string \<Rightarrow> string list" where
  "split_on c [] = [[]]"
| "split_on c (x # xs) =
     (if x = c then [] # split_on c xs
      else (case split_on c xs of [] \<Rightarrow> [[x]] | l # ls \<Rightarrow> (x # l) # ls))"

lemma split_on_nonempty [simp]: "split_on c xs \<noteq> []"
  by (induction xs) (auto split: list.splits)

lemma starts_with_iff: "starts_with s p \<longleftrightarrow> (\<exists>t. s = p @ t)"
  by (induction s p rule: starts_with.induct) auto

lemma str_includes_iff: "str_includes s p \<longleftrightarrow> (\<exists>a b. s = a @ p @ b)"
proof (induction s p rule: str_includes.induct)
  case (1 sub)
  then show ?case by auto
next
  case (2 c cs sub)
  have "(\<exists>a b. c # cs = a @ sub @ b)
      \<longleftrightarrow> (\<exists>b. c # cs = sub @ b) \<or> (\<exists>a b. cs = a @ sub @ b)"
    by (metis append_Cons append_Nil append_eq_Cons_conv)
  with 2 show ?case by (simp add: starts_with_iff)
qed

lemma str_includes_Nil [simp]: "str_includes s []"
  by (cases s) simp_all

lemma trim_Nil [simp]: "trim [] = []"
  by (simp add: trim_def)

lemma dropWhile_rev_id:
  "xs = [] \<or> \<not> P (hd xs) \<Longrightarrow> dropWhile P xs = xs"
  by (cases xs) auto

lemma trim_idem [simp]: "trim (trim s) = trim s"
proof -
  define a where "a = dropWhile js_space s"
  define b where "b = dropWhile js_space (rev a)"
  have b: "b = [] \<or> \<not> js_space (hd b)"
    unfolding b_def using hd_dropWhile[of js_space "rev a"] by blast
  have "rev b = [] \<or> \<not> js_space (hd (rev b))"
  proof (cases "rev b = []")
    case False
    obtain p where "rev a = p @ b"
      unfolding b_def by (metis takeWhile_dropWhile_id)
    then have "a = rev b @ rev p"
      by (metis rev_append rev_rev_ident)
    with False have "hd (rev b) = hd a" and "a \<noteq> []" by auto
    with hd_dropWhile[of js_space s] show ?thesis by (simp add: a_def)
  qed simp
  then have "dropWhile js_space (rev b) = rev b"
    by (rule dropWhile_rev_id)
  moreover have "dropWhile js_space b = b"
    by (rule dropWhile_rev_id) (rule b)
  ultimately show ?thesis
    by (simp add: trim_def flip: a_def b_def)
qed

text \<open>A \<open>string | null\<close> as a condition: null and the empty string are false.\<close>

definition truthy :: "string option \<Rightarrow> bool" where
  "truthy s \<longleftrightarrow> s \<noteq> None \<and> s \<noteq> Some []"

lemma truthy_iff: "truthy s \<longleftrightarrow> (\<exists>x. s = Some x \<and> x \<noteq> [])"
  by (cases s) (auto simp: truthy_def)

lemma not_truthy_None [simp]: "\<not> truthy None"
  by (simp add: truthy_def)

section \<open>Numbers\<close>

text \<open>
  A JavaScript number is \<open>NaN\<close> or a number; the rounding of doubles and the infinities are
  not modelled. \<open>Math.min\<close> and \<open>Math.max\<close> return \<open>NaN\<close> when an argument is
  \<open>NaN\<close>.
\<close>

datatype js_number = NaN | Num real

fun math_max :: "js_number \<Rightarrow> js_number \<Rightarrow> js_number" where
  "math_max (Num x) (Num y) = Num (max x y)"
| "math_max _ _ = NaN"

fun math_min :: "js_number \<Rightarrow> js_number \<Rightarrow> js_number" where
  "math_min (Num x) (Num y) = Num (min x y)"
| "math_min _ _ = NaN"

text \<open>\<open>Math.round\<close> rounds halves up.\<close>

definition math_round :: "real \<Rightarrow> int" where "math_round x = \<lfloor>x + 1 / 2\<rfloor>"

section \<open>Lists updated by key\<close>

text \<open>
  The stores keep lists of objects with an identifier and write
  \<open>xs.map((x) => (x.id === k ? f(x) : x))\<close>.
\<close>

definition map_at :: "('a \<Rightarrow> 'k) \<Rightarrow> 'k \<Rightarrow> ('a \<Rightarrow> 'a) \<Rightarrow> 'a list \<Rightarrow> 'a list" where
  "map_at key k f xs = map (\<lambda>x. if key x = k then f x else x) xs"

lemma length_map_at [simp]: "length (map_at key k f xs) = length xs"
  by (simp add: map_at_def)

lemma map_key_map_at:
  "(\<And>x. key (f x) = key x) \<Longrightarrow> map key (map_at key k f xs) = map key xs"
  by (simp add: map_at_def)

lemma set_map_at:
  "set (map_at key k f xs) \<subseteq> f ` {x \<in> set xs. key x = k} \<union> {x \<in> set xs. key x \<noteq> k}"
  by (auto simp: map_at_def)

lemma map_at_absent: "k \<notin> key ` set xs \<Longrightarrow> map_at key k f xs = xs"
  unfolding map_at_def by (rule map_idI) auto

lemma map_at_present:
  assumes "distinct (map key zs)" and "k \<in> key ` set zs"
  obtains xs x ys where "zs = xs @ x # ys" and "key x = k"
    and "k \<notin> key ` set xs" and "k \<notin> key ` set ys" and "map_at key k f zs = xs @ f x # ys"
proof -
  obtain x where x: "x \<in> set zs" "key x = k" using assms(2) by auto
  then obtain xs ys where zs: "zs = xs @ x # ys" by (meson split_list)
  with assms(1) x have k: "k \<notin> key ` set xs" "k \<notin> key ` set ys" by auto
  then have "map_at key k f zs = xs @ f x # ys"
    using map_at_absent[of k key xs f] map_at_absent[of k key ys f] x zs by (simp add: map_at_def)
  with zs x k show ?thesis by (intro that)
qed

lemma find_None_iff_absent: "List.find (\<lambda>x. key x = k) xs = None \<longleftrightarrow> k \<notin> key ` set xs"
  by (auto simp: find_None_iff)

lemma find_distinct_key:
  "distinct (map key xs) \<Longrightarrow> x \<in> set xs \<Longrightarrow> key x = k \<Longrightarrow>
     List.find (\<lambda>x. key x = k) xs = Some x"
  by (induction xs) (auto simp: image_iff)

lemma find_append:
  "List.find P (xs @ ys) =
     (case List.find P xs of Some x \<Rightarrow> Some x | None \<Rightarrow> List.find P ys)"
  by (induction xs) auto

lemma find_SomeD: "List.find P xs = Some x \<Longrightarrow> x \<in> set xs \<and> P x"
  by (auto simp: find_Some_iff)

section \<open>Sorting with a comparator\<close>

text \<open>
  \<open>Array.prototype.sort(cmp)\<close> is stable, so for a consistent comparator its result is
  unique and a stable insertion sort computes it: every element goes behind the elements
  that do not compare greater. (For an inconsistent comparator the language leaves the order
  open; the sort below is one of the orders it allows.) A comparator answers with a number of
  which only the sign counts.
\<close>

fun js_insert :: "('a \<Rightarrow> 'a \<Rightarrow> int) \<Rightarrow> 'a \<Rightarrow> 'a list \<Rightarrow> 'a list" where
  "js_insert cmp x [] = [x]"
| "js_insert cmp x (y # ys) = (if cmp x y < 0 then x # y # ys else y # js_insert cmp x ys)"

definition js_sort :: "('a \<Rightarrow> 'a \<Rightarrow> int) \<Rightarrow> 'a list \<Rightarrow> 'a list" where
  "js_sort cmp xs = fold (js_insert cmp) xs []"

text \<open>\<open>f(a, b) || g(a, b)\<close>: the second comparison decides the ties of the first.\<close>

definition or_else :: "int \<Rightarrow> int \<Rightarrow> int" where
  "or_else x y = (if x \<noteq> 0 then x else y)"

lemma mset_js_insert [simp]: "mset (js_insert cmp x ys) = add_mset x (mset ys)"
  by (induction ys) auto

lemma set_js_insert [simp]: "set (js_insert cmp x ys) = insert x (set ys)"
  by (induction ys) auto

lemma mset_fold_js_insert: "mset (fold (js_insert cmp) xs ys) = mset xs + mset ys"
  by (induction xs arbitrary: ys) auto

lemma mset_js_sort [simp]: "mset (js_sort cmp xs) = mset xs"
  by (simp add: js_sort_def mset_fold_js_insert)

lemma set_js_sort [simp]: "set (js_sort cmp xs) = set xs"
  using mset_js_sort by (rule mset_eq_setD)

lemma length_js_sort [simp]: "length (js_sort cmp xs) = length xs"
  using mset_js_sort by (rule mset_eq_length)

lemma distinct_map_js_sort [simp]: "distinct (map f (js_sort cmp xs)) = distinct (map f xs)"
  by (metis mset_js_sort mset_map mset_eq_imp_distinct_iff)

lemma distinct_js_sort [simp]: "distinct (js_sort cmp xs) = distinct xs"
  using distinct_map_js_sort[of id] by simp

lemma sorted_wrt_distinct:
  "sorted_wrt R xs \<Longrightarrow> distinct (map f xs) \<Longrightarrow> sorted_wrt (\<lambda>a b. R a b \<and> f a \<noteq> f b) xs"
  by (induction xs) auto

lemma js_insert_cong:
  "(\<And>y. y \<in> set ys \<Longrightarrow> cmp x y < 0 \<longleftrightarrow> cmp' x y < 0) \<Longrightarrow> js_insert cmp x ys = js_insert cmp' x ys"
  by (induction ys) auto

lemma fold_js_insert_cong:
  assumes "distinct (xs @ ys)"
    and "\<And>x y. x \<in> set (xs @ ys) \<Longrightarrow> y \<in> set (xs @ ys) \<Longrightarrow> x \<noteq> y \<Longrightarrow> cmp x y < 0 \<longleftrightarrow> cmp' x y < 0"
  shows "fold (js_insert cmp) xs ys = fold (js_insert cmp') xs ys"
  using assms
proof (induction xs arbitrary: ys)
  case (Cons x xs)
  have eq: "js_insert cmp x ys = js_insert cmp' x ys"
    by (rule js_insert_cong, rule Cons.prems(2)) (use Cons.prems(1) in auto)
  have "mset (js_insert cmp' x ys) = mset (x # ys)"
    by simp
  then have "distinct (js_insert cmp' x ys) = distinct (x # ys)"
    by (rule mset_eq_imp_distinct_iff)
  with Cons.prems(1) have "distinct (xs @ js_insert cmp' x ys)"
    by auto
  with eq Cons.IH[of "js_insert cmp' x ys"] Cons.prems(2) show ?case
    by auto
qed simp

lemma js_sort_cong:
  assumes "distinct xs"
    and "\<And>x y. x \<in> set xs \<Longrightarrow> y \<in> set xs \<Longrightarrow> x \<noteq> y \<Longrightarrow> cmp x y < 0 \<longleftrightarrow> cmp' x y < 0"
  shows "js_sort cmp xs = js_sort cmp' xs"
  unfolding js_sort_def by (rule fold_js_insert_cong) (use assms in auto)

text \<open>
  What a sort relies on: the comparator is the sign function of a total preorder. A client
  that sorts gets from it that the result is in order and that elements that compare equal
  keep their order.
\<close>

locale comparator =
  fixes cmp :: "'a \<Rightarrow> 'a \<Rightarrow> int"
  assumes cmp_flip: "cmp x y < 0 \<longleftrightarrow> 0 < cmp y x"
    and cmp_trans: "cmp x y \<le> 0 \<Longrightarrow> cmp y z \<le> 0 \<Longrightarrow> cmp x z \<le> 0"
begin

lemma cmp_refl: "cmp x x = 0"
  using cmp_flip[of x x] by linarith

lemma cmp_total: "cmp x y \<le> 0 \<or> cmp y x \<le> 0"
  using cmp_flip[of y x] by linarith

lemma sorted_js_insert:
  assumes "sorted_wrt (\<lambda>a b. cmp a b \<le> 0) ys"
  shows "sorted_wrt (\<lambda>a b. cmp a b \<le> 0) (js_insert cmp x ys)"
  using assms
proof (induction ys)
  case (Cons y ys)
  show ?case
  proof (cases "cmp x y < 0")
    case True
    then show ?thesis
      using Cons.prems by (auto intro: cmp_trans[of x y] less_imp_le)
  next
    case False
    then have "cmp y x \<le> 0" using cmp_flip[of x y] by (auto simp: not_less)
    with False Cons show ?thesis by auto
  qed
qed simp

lemma sorted_fold_js_insert:
  "sorted_wrt (\<lambda>a b. cmp a b \<le> 0) ys \<Longrightarrow>
     sorted_wrt (\<lambda>a b. cmp a b \<le> 0) (fold (js_insert cmp) xs ys)"
  by (induction xs arbitrary: ys) (auto intro: sorted_js_insert)

lemma js_sort_sorted: "sorted_wrt (\<lambda>a b. cmp a b \<le> 0) (js_sort cmp xs)"
  by (simp add: js_sort_def sorted_fold_js_insert)

lemma filter_js_insert_neg: "\<not> P x \<Longrightarrow> filter P (js_insert cmp x ys) = filter P ys"
  by (induction ys) auto

lemma filter_js_insert_tie:
  assumes "sorted_wrt (\<lambda>a b. cmp a b \<le> 0) ys" and "cmp x k = 0"
  shows "filter (\<lambda>y. cmp y k = 0) (js_insert cmp x ys) = filter (\<lambda>y. cmp y k = 0) ys @ [x]"
  using assms(1)
proof (induction ys)
  case (Cons y ys)
  show ?case
  proof (cases "cmp x y < 0")
    case True
    have "cmp z k \<noteq> 0" if "z = y \<or> z \<in> set ys" for z
    proof
      assume "cmp z k = 0"
      then have "cmp z x \<le> 0"
        using assms(2) cmp_flip[of k x] cmp_flip[of x k] by (auto intro: cmp_trans[of z k])
      moreover have "cmp y z \<le> 0" using that Cons.prems cmp_refl by auto
      ultimately have "cmp y x \<le> 0" by (auto intro: cmp_trans)
      with True show False using cmp_flip[of x y] by simp
    qed
    then have "filter (\<lambda>y. cmp y k = 0) (y # ys) = []"
      by (auto simp: filter_empty_conv)
    with True assms(2) show ?thesis by auto
  next
    case False
    with Cons show ?thesis by auto
  qed
qed (use assms(2) in simp)

lemma filter_fold_js_insert:
  assumes "sorted_wrt (\<lambda>a b. cmp a b \<le> 0) ys"
  shows "filter (\<lambda>y. cmp y k = 0) (fold (js_insert cmp) xs ys) =
           filter (\<lambda>y. cmp y k = 0) ys @ filter (\<lambda>y. cmp y k = 0) xs"
  using assms
proof (induction xs arbitrary: ys)
  case (Cons x xs)
  then show ?case
    using Cons.IH[OF sorted_js_insert[OF Cons.prems]]
    by (auto simp: filter_js_insert_tie filter_js_insert_neg)
qed simp

lemma js_sort_stable:
  "filter (\<lambda>y. cmp y k = 0) (js_sort cmp xs) = filter (\<lambda>y. cmp y k = 0) xs"
  by (simp add: js_sort_def filter_fold_js_insert)

lemma sorted_unique:
  "sorted_wrt (\<lambda>a b. cmp a b \<le> 0) as \<Longrightarrow> sorted_wrt (\<lambda>a b. cmp a b < 0) bs \<Longrightarrow> mset as = mset bs \<Longrightarrow> as = bs"
proof (induction bs arbitrary: as)
  case (Cons b bs)
  then obtain a as' where as: "as = a # as'" by (cases as) auto
  have "a = b"
  proof (rule ccontr)
    assume "a \<noteq> b"
    moreover have "a \<in> set (b # bs)" "b \<in> set (a # as')"
      using arg_cong[OF Cons.prems(3), of set_mset] as by auto
    ultimately have "cmp b a < 0" "cmp a b \<le> 0" using Cons.prems(1,2) as by auto
    then show False using cmp_flip[of b a] by simp
  qed
  with Cons as show ?case by auto
qed simp

lemma js_sort_unique:
  "mset xs = mset ys \<Longrightarrow> sorted_wrt (\<lambda>a b. cmp a b < 0) ys \<Longrightarrow> js_sort cmp xs = ys"
  by (rule sorted_unique[OF js_sort_sorted]) simp_all

end

text \<open>Comparators by a key, and their combination with \<open>||\<close>.\<close>

lemma comparator_or_else:
  assumes f: "comparator f" and g: "comparator g"
  shows "comparator (\<lambda>x y. or_else (f x y) (g x y))"
proof (rule comparator.intro)
  fix x y z
  show "or_else (f x y) (g x y) < 0 \<longleftrightarrow> 0 < or_else (f y x) (g y x)"
    using comparator.cmp_flip[OF f, of x y] comparator.cmp_flip[OF f, of y x]
      comparator.cmp_flip[OF g, of x y]
    by (auto simp: or_else_def)
  assume xy: "or_else (f x y) (g x y) \<le> 0" and yz: "or_else (f y z) (g y z) \<le> 0"
  then have "f x z \<le> 0"
    using comparator.cmp_trans[OF f, of x y z] by (auto simp: or_else_def split: if_splits)
  moreover have "g x z \<le> 0" if "f x z = 0"
  proof -
    have zx: "f z x = 0"
      using that comparator.cmp_flip[OF f, of x z] comparator.cmp_flip[OF f, of z x] by linarith
    have "f x y \<le> 0" "f y z \<le> 0"
      using xy yz by (auto simp: or_else_def split: if_splits)
    moreover from this have "f y x \<le> 0" "f z y \<le> 0"
      using zx by (auto intro: comparator.cmp_trans[OF f, of y z x] comparator.cmp_trans[OF f, of z x y])
    ultimately have "f x y = 0" "f y z = 0"
      using comparator.cmp_flip[OF f, of x y] comparator.cmp_flip[OF f, of y z] by linarith+
    with xy yz show ?thesis
      using comparator.cmp_trans[OF g, of x y z] by (auto simp: or_else_def)
  qed
  ultimately show "or_else (f x z) (g x z) \<le> 0" by (auto simp: or_else_def)
qed

lemma comparator_key: "comparator (\<lambda>x y. key x - key y)" for key :: "'a \<Rightarrow> int"
  by unfold_locales auto

lemma comparator_key_desc: "comparator (\<lambda>x y. key y - key x)" for key :: "'a \<Rightarrow> int"
  by unfold_locales auto

lemma comparator_less_desc:
  "comparator (\<lambda>x y. if key x < key y then 1 else if key y < key x then - 1 else 0)"
  for key :: "'a \<Rightarrow> 'b::linorder"
  by unfold_locales (auto split: if_splits)

lemma comparator_on: "comparator c \<Longrightarrow> comparator (\<lambda>x y. c (f x) (f y))"
  unfolding comparator_def by blast

section \<open>State machines with an invariant\<close>

text \<open>
  A store is a state, a step for each action and a well-formedness predicate every step
  keeps; the predicate then holds after every sequence of actions.
\<close>

fun run_ok :: "('s \<Rightarrow> 'e \<Rightarrow> 's) \<Rightarrow> ('s \<Rightarrow> 'e \<Rightarrow> bool) \<Rightarrow> 's \<Rightarrow> 'e list \<Rightarrow> bool" where
  "run_ok step ok s [] = True"
| "run_ok step ok s (e # es) = (ok s e \<and> run_ok step ok (step s e) es)"

lemma run_ok_all: "run_ok step (\<lambda>s. P) s es = list_all P es"
  by (induction es arbitrary: s) auto

lemma run_ok_True [simp]: "run_ok step (\<lambda>_ _. True) s es"
  by (induction es arbitrary: s) auto

locale invariant_machine =
  fixes start :: 's and step :: "'s \<Rightarrow> 'e \<Rightarrow> 's" and ok :: "'s \<Rightarrow> 'e \<Rightarrow> bool" and inv :: "'s \<Rightarrow> bool"
  assumes inv_start: "inv start"
    and inv_step: "inv s \<Longrightarrow> ok s e \<Longrightarrow> inv (step s e)"
begin

lemma inv_foldl: "inv s \<Longrightarrow> run_ok step ok s es \<Longrightarrow> inv (foldl step s es)"
  by (induction es arbitrary: s) (auto intro: inv_step)

lemma inv_run: "run_ok step ok start es \<Longrightarrow> inv (foldl step start es)"
  by (rule inv_foldl[OF inv_start])

end

end
