(* ===== verification/Bridge_Types.thy ===== *)
theory Bridge_Types
  imports Prelude
begin

text \<open>
  The values exchanged with the Rust backend, from \<open>src/src/lib/tauri-bridge/*.ts\<close>: one
  record per interface with the fields in the source's order, one datatype per union of string
  literals. The field names carry a prefix for the interface, since Isabelle's field names are
  global. \<open>string | null\<close> is \<^typ>\<open>string option\<close>; identifiers are strings; the numbers
  the backend sends as integers (ports, sort orders, exit codes, counters) are \<^typ>\<open>int\<close>.
\<close>

section \<open>Groups, identities, keys and tags\<close>

record group =
  group_id :: string
  group_parent_id :: "string option"
  group_name :: string
  group_sort_order :: int

record group_input =
  gi_parent_id :: "string option"
  gi_name :: string
  gi_sort_order :: int

datatype auth_method = Password | Private_key | Agent

record identity =
  identity_id :: string
  identity_label :: string
  identity_username :: string
  identity_auth_method :: auth_method
  identity_ssh_key_id :: "string option"
  identity_has_password :: bool

record identity_input =
  ii_label :: string
  ii_username :: string
  ii_auth_method :: auth_method
  ii_ssh_key_id :: "string option"
  ii_password :: "string option"

record ssh_key =
  key_id :: string
  key_label :: string
  key_type :: string
  key_public_key :: string
  key_fingerprint :: string
  key_created_at :: string

record generate_key_input =
  gk_label :: string

record import_key_input =
  ik_label :: string
  ik_private_key_pem :: string
  ik_passphrase :: "string option"

record tag =
  tag_id :: string
  tag_label :: string

section \<open>Hosts\<close>

record host =
  host_id :: string
  host_group_id :: "string option"
  host_label :: string
  host_hostname :: string
  host_port :: int
  host_identity_id :: "string option"
  host_vpn_profile_id :: "string option"
  host_color :: "string option"
  host_icon :: "string option"
  host_notes :: "string option"
  host_sort_order :: int
  host_last_connected_at :: "string option"
  host_is_favorite :: bool
  host_tags :: "tag list"

record host_input =
  hi_group_id :: "string option"
  hi_label :: string
  hi_hostname :: string
  hi_port :: int
  hi_identity_id :: "string option"
  hi_vpn_profile_id :: "string option"
  hi_color :: "string option"
  hi_icon :: "string option"
  hi_notes :: "string option"
  hi_sort_order :: int
  hi_tag_ids :: "string list"

record import_summary =
  is_imported :: int
  is_updated :: int
  is_warnings :: "string list"

section \<open>VPN profiles\<close>

record vpn_profile =
  profile_id :: string
  profile_label :: string
  profile_config :: string
  profile_auth_username :: "string option"
  profile_has_auth_password :: bool
  profile_avoid_default_route :: bool
  profile_created_at :: string

record vpn_profile_input =
  vi_label :: string
  vi_config :: string
  vi_auth_username :: "string option"
  vi_auth_password :: "string option"
  vi_avoid_default_route :: bool

datatype vpn_state = VConnecting | VConnected | VDisconnecting | VDisconnected | VError

record vpn_status =
  vpn_state :: vpn_state
  vpn_message :: "string option"

record vpn_connection_status =
  cs_profile_id :: string
  cs_status :: vpn_status

section \<open>Workspaces\<close>

record workspace =
  workspace_id :: string
  workspace_label :: string
  workspace_sort_order :: int
  workspace_created_at :: string
  workspace_tab_count :: int

section \<open>Snippets and command execution\<close>

record snippet =
  snippet_id :: string
  snippet_label :: string
  snippet_body :: string

record snippet_input =
  si_label :: string
  si_body :: string

record exec_output =
  stdout :: string
  stderr :: string
  exit_status :: "int option"
  truncated :: bool

record host_exec_result =
  er_host_id :: string
  er_output :: "exec_output option"
  er_error :: "string option"

section \<open>Terminal session events\<close>

datatype session_event = Data string | Closed_event | Error_event string

section \<open>The AI assistant's calls\<close>

datatype ai_provider = Openai | Anthropic

record tool_call =
  tc_command :: string
  tc_purpose :: string

datatype ai_message_input =
    User_input string
  | Assistant_input "string option" "tool_call option"
  | Tool_result_input string exec_output

datatype ai_turn_result = Turn_text string | Turn_tool_call string string

datatype ai_command_exec_result = Ran exec_output | Needs_confirmation string

section \<open>Example values\<close>

text \<open>A host with nothing but an identifier and a VPN profile, for the witnesses.\<close>

definition sample_host :: "string \<Rightarrow> string option \<Rightarrow> host" where
  "sample_host i v =
     \<lparr>host_id = i, host_group_id = None, host_label = i, host_hostname = i, host_port = 22,
      host_identity_id = None, host_vpn_profile_id = v, host_color = None, host_icon = None,
      host_notes = None, host_sort_order = 0, host_last_connected_at = None,
      host_is_favorite = False, host_tags = []\<rparr>"

lemma sample_host_simps [simp]:
  "host_id (sample_host i v) = i"
  "host_vpn_profile_id (sample_host i v) = v"
  "host_label (sample_host i v) = i"
  "host_group_id (sample_host i v) = None"
  "host_sort_order (sample_host i v) = 0"
  by (simp_all add: sample_host_def)

end
