(* ===== verification/Bridge.thy ===== *)
theory Bridge
  imports Bridge_Types
begin

text \<open>
  The functions of \<open>src/src/lib/tauri-bridge/\<close>: each sends one message, a command name
      and
  named arguments, to the Rust backend with \<open>invoke\<close>. One datatype per module has a
  constructor per function, and one function per module gives the message. What is proved is
  what makes the bridge sound: no two calls send the same message, and every message names a
  handler the backend registers and carries exactly its parameters.
\<close>

section \<open>Messages\<close>

datatype wire =
    W_null
  | W_bool bool
  | W_num int
  | W_string string
  | W_list "wire list"
  | W_object "(string \<times> wire) list"
  | W_channel

type_synonym message = "string \<times> (string \<times> wire) list"

fun wire_option :: "string option \<Rightarrow> wire" where
  "wire_option None = W_null"
| "wire_option (Some s) = W_string s"

record workspace_tab_input =
  wti_host_id :: string
  wti_kind :: string
  wti_pane_count :: int
  wti_layout_json :: "string option"
  wti_sort_order :: int

fun wire_ai_provider :: "ai_provider \<Rightarrow> wire" where
  "wire_ai_provider Openai = W_string ''openai''"
| "wire_ai_provider Anthropic = W_string ''anthropic''"

fun wire_auth_method :: "auth_method \<Rightarrow> wire" where
  "wire_auth_method Password = W_string ''password''"
| "wire_auth_method Private_key = W_string ''private_key''"
| "wire_auth_method Agent = W_string ''agent''"

definition wire_group_input :: "group_input \<Rightarrow> wire" where
  "wire_group_input i = W_object
     [(''parent_id'', wire_option (gi_parent_id i)), (''name'', W_string (gi_name i)),
      (''sort_order'', W_num (gi_sort_order i))]"

definition wire_host_input :: "host_input \<Rightarrow> wire" where
  "wire_host_input i = W_object
     [(''group_id'', wire_option (hi_group_id i)), (''label'', W_string (hi_label i)),
      (''hostname'', W_string (hi_hostname i)), (''port'', W_num (hi_port i)),
      (''identity_id'', wire_option (hi_identity_id i)),
      (''vpn_profile_id'', wire_option (hi_vpn_profile_id i)),
      (''color'', wire_option (hi_color i)),
      (''icon'', wire_option (hi_icon i)), (''notes'', wire_option (hi_notes i)),
      (''sort_order'', W_num (hi_sort_order i)),
      (''tag_ids'', W_list (map W_string (hi_tag_ids i)))]"

definition wire_identity_input :: "identity_input \<Rightarrow> wire" where
  "wire_identity_input i = W_object
     [(''label'', W_string (ii_label i)), (''username'', W_string (ii_username i)),
      (''auth_method'', wire_auth_method (ii_auth_method i)),
      (''ssh_key_id'', wire_option (ii_ssh_key_id i)), (''password'', wire_option (ii_password i))]"

definition wire_generate_key_input :: "generate_key_input \<Rightarrow> wire" where
  "wire_generate_key_input i = W_object [(''label'', W_string (gk_label i))]"

definition wire_import_key_input :: "import_key_input \<Rightarrow> wire" where
  "wire_import_key_input i = W_object
     [(''label'', W_string (ik_label i)), (''private_key_pem'', W_string (ik_private_key_pem i)),
      (''passphrase'', wire_option (ik_passphrase i))]"

definition wire_snippet_input :: "snippet_input \<Rightarrow> wire" where
  "wire_snippet_input i = W_object [(''label'', W_string (si_label i)),
      (''body'', W_string (si_body i))]"

definition wire_vpn_profile_input :: "vpn_profile_input \<Rightarrow> wire" where
  "wire_vpn_profile_input i = W_object
     [(''label'', W_string (vi_label i)), (''config'', W_string (vi_config i)),
      (''auth_username'', wire_option (vi_auth_username i)),
      (''auth_password'', wire_option (vi_auth_password i)),
      (''avoid_default_route'', W_bool (vi_avoid_default_route i))]"

definition wire_workspace_tab_input :: "workspace_tab_input \<Rightarrow> wire" where
  "wire_workspace_tab_input i = W_object
     [(''host_id'', W_string (wti_host_id i)), (''kind'', W_string (wti_kind i)),
      (''pane_count'', W_num (wti_pane_count i)),
      (''layout_json'', wire_option (wti_layout_json i)),
      (''sort_order'', W_num (wti_sort_order i))]"

definition wire_exec_output :: "exec_output \<Rightarrow> wire" where
  "wire_exec_output out = W_object
     [(''stdout'', W_string (stdout out)), (''stderr'', W_string (stderr out)),
      (''exit_status'', (case exit_status out of None \<Rightarrow> W_null | Some n \<Rightarrow>
      W_num n)),
      (''truncated'', W_bool (truncated out))]"

fun wire_tool_call :: "tool_call option \<Rightarrow> wire" where
  "wire_tool_call None = W_null"
| "wire_tool_call (Some c) =
     W_object [(''command'', W_string (tc_command c)), (''purpose'', W_string (tc_purpose c))]"

fun wire_ai_message_input :: "ai_message_input \<Rightarrow> wire" where
  "wire_ai_message_input (User_input t) = W_object [(''role'', W_string ''user''),
      (''text'', W_string t)]"
| "wire_ai_message_input (Assistant_input t c) = W_object
     [(''role'', W_string ''assistant''), (''text'', wire_option t),
      (''tool_call'', wire_tool_call c)]"
| "wire_ai_message_input (Tool_result_input c out) = W_object
     [(''role'', W_string ''tool_result''), (''command'', W_string c),
      (''output'', wire_exec_output out)]"

named_theorems inj_wire "the encodings of arguments are injective"

lemma wire_option_inj [inj_wire]: "wire_option a = wire_option b \<longleftrightarrow> a = b"
  by (cases a; cases b) simp_all

lemma wire_ai_provider_inj [inj_wire]: "wire_ai_provider a = wire_ai_provider b
      \<longleftrightarrow> a = b"
  by (cases a; cases b) simp_all

lemma wire_auth_method_inj [inj_wire]: "wire_auth_method a = wire_auth_method b
      \<longleftrightarrow> a = b"
  by (cases a; cases b) simp_all

lemma map_W_string_inj [inj_wire]: "map W_string xs = map W_string ys \<longleftrightarrow> xs = ys"
  by (rule inj_map_eq_map) (simp add: inj_def)

lemma wire_group_input_inj [inj_wire]: "wire_group_input a = wire_group_input b
      \<longleftrightarrow> a = b"
  by (cases a; cases b) (auto simp: wire_group_input_def inj_wire)

lemma wire_host_input_inj [inj_wire]: "wire_host_input a = wire_host_input b \<longleftrightarrow>
      a = b"
  by (cases a; cases b) (auto simp: wire_host_input_def inj_wire)

lemma wire_identity_input_inj [inj_wire]: "wire_identity_input a = wire_identity_input b
      \<longleftrightarrow> a = b"
  by (cases a; cases b) (auto simp: wire_identity_input_def inj_wire)

lemma wire_generate_key_input_inj [inj_wire]:
  "wire_generate_key_input a = wire_generate_key_input b \<longleftrightarrow> a = b"
  by (cases a; cases b) (auto simp: wire_generate_key_input_def)

lemma wire_import_key_input_inj [inj_wire]: "wire_import_key_input a = wire_import_key_input b
      \<longleftrightarrow> a = b"
  by (cases a; cases b) (auto simp: wire_import_key_input_def inj_wire)

lemma wire_snippet_input_inj [inj_wire]: "wire_snippet_input a = wire_snippet_input b
      \<longleftrightarrow> a = b"
  by (cases a; cases b) (auto simp: wire_snippet_input_def)

lemma wire_vpn_profile_input_inj [inj_wire]:
  "wire_vpn_profile_input a = wire_vpn_profile_input b \<longleftrightarrow> a = b"
  by (cases a; cases b) (auto simp: wire_vpn_profile_input_def inj_wire)

lemma wire_workspace_tab_input_inj: "inj wire_workspace_tab_input"
  by (rule injI, rename_tac a b, case_tac a, case_tac b)
    (auto simp: wire_workspace_tab_input_def inj_wire)

lemma wire_exec_output_inj [inj_wire]: "wire_exec_output a = wire_exec_output b
      \<longleftrightarrow> a = b"
  by (cases a; cases b) (auto simp: wire_exec_output_def split: option.splits)

lemma wire_tool_call_inj [inj_wire]: "wire_tool_call a = wire_tool_call b \<longleftrightarrow> a =
      b"
  by (cases a; cases b) (auto intro: tool_call.equality)

lemma wire_ai_message_input_inj: "inj wire_ai_message_input"
  by (rule injI, rename_tac a b, case_tac a; case_tac b) (auto simp: inj_wire)

lemmas [inj_wire] =
  inj_map_eq_map[OF wire_workspace_tab_input_inj] inj_map_eq_map[OF wire_ai_message_input_inj]

section \<open>The calls, one type per module\<close>

datatype app_call =
    AppVersion
  | AppUpdateMethod
  | AppPackageUpdateInstall string

fun app_invoke :: "app_call \<Rightarrow> message" where
  "app_invoke AppVersion = (''app_version'', [])"
| "app_invoke AppUpdateMethod = (''app_update_method'', [])"
| "app_invoke (AppPackageUpdateInstall version) =
     (''app_package_update_install'', [(''version'', W_string version)])"

datatype ai_call =
    AiSettingsStatus
  | AiSettingsSet ai_provider string "string option"
  | AiSettingsClear ai_provider
  | AiChatSend ai_provider "ai_message_input list"
  | AiCommandExec string string bool
  | AiCommandCheck string

fun ai_invoke :: "ai_call \<Rightarrow> message" where
  "ai_invoke AiSettingsStatus = (''ai_settings_status'', [])"
| "ai_invoke (AiSettingsSet provider apiKey model) =
     (''ai_settings_set'', [(''provider'', wire_ai_provider provider),
      (''apiKey'', W_string apiKey), (''model'', wire_option model)])"
| "ai_invoke (AiSettingsClear provider) =
     (''ai_settings_clear'', [(''provider'', wire_ai_provider provider)])"
| "ai_invoke (AiChatSend provider messages) =
     (''ai_chat_send'', [(''provider'', wire_ai_provider provider),
      (''messages'', W_list (map wire_ai_message_input messages))])"
| "ai_invoke (AiCommandExec hostId command overrideDenylist) =
     (''ai_command_exec'', [(''hostId'', W_string hostId), (''command'', W_string command),
      (''overrideDenylist'', W_bool overrideDenylist)])"
| "ai_invoke (AiCommandCheck command) = (''ai_command_check'', [(''command'', W_string command)])"

datatype vault_call =
    VaultAutoUnlock
  | VaultLock

fun vault_invoke :: "vault_call \<Rightarrow> message" where
  "vault_invoke VaultAutoUnlock = (''vault_auto_unlock'', [])"
| "vault_invoke VaultLock = (''vault_lock'', [])"

datatype group_call =
    GroupList
  | GroupCreate group_input
  | GroupUpdate string group_input
  | GroupDelete string

fun group_invoke :: "group_call \<Rightarrow> message" where
  "group_invoke GroupList = (''group_list'', [])"
| "group_invoke (GroupCreate input) = (''group_create'', [(''input'', wire_group_input input)])"
| "group_invoke (GroupUpdate i input) =
     (''group_update'', [(''id'', W_string i), (''input'', wire_group_input input)])"
| "group_invoke (GroupDelete i) = (''group_delete'', [(''id'', W_string i)])"

datatype host_call =
    HostList
  | HostCreate host_input
  | HostUpdate string host_input
  | HostDelete string
  | HostSetFavorite string bool
  | HostExportCsv
  | HostImportCsv string

fun host_invoke :: "host_call \<Rightarrow> message" where
  "host_invoke HostList = (''host_list'', [])"
| "host_invoke (HostCreate input) = (''host_create'', [(''input'', wire_host_input input)])"
| "host_invoke (HostUpdate i input) =
     (''host_update'', [(''id'', W_string i), (''input'', wire_host_input input)])"
| "host_invoke (HostDelete i) = (''host_delete'', [(''id'', W_string i)])"
| "host_invoke (HostSetFavorite i favorite) =
     (''host_set_favorite'', [(''id'', W_string i), (''favorite'', W_bool favorite)])"
| "host_invoke HostExportCsv = (''host_export_csv'', [])"
| "host_invoke (HostImportCsv content) = (''host_import_csv'', [(''content'', W_string content)])"

datatype stats_call =
    HostStats string

fun stats_invoke :: "stats_call \<Rightarrow> message" where
  "stats_invoke (HostStats hostId) = (''host_stats'', [(''hostId'', W_string hostId)])"

datatype tag_call =
    TagList
  | TagCreate string
  | TagDelete string

fun tag_invoke :: "tag_call \<Rightarrow> message" where
  "tag_invoke TagList = (''tag_list'', [])"
| "tag_invoke (TagCreate label) = (''tag_create'', [(''label'', W_string label)])"
| "tag_invoke (TagDelete i) = (''tag_delete'', [(''id'', W_string i)])"

datatype identity_call =
    IdentityList
  | IdentityCreate identity_input
  | IdentityUpdate string identity_input
  | IdentityDelete string

fun identity_invoke :: "identity_call \<Rightarrow> message" where
  "identity_invoke IdentityList = (''identity_list'', [])"
| "identity_invoke (IdentityCreate input) =
     (''identity_create'', [(''input'', wire_identity_input input)])"
| "identity_invoke (IdentityUpdate i input) =
     (''identity_update'', [(''id'', W_string i), (''input'', wire_identity_input input)])"
| "identity_invoke (IdentityDelete i) = (''identity_delete'', [(''id'', W_string i)])"

datatype key_call =
    KeyList
  | KeyGenerate generate_key_input
  | KeyImport import_key_input
  | KeyDelete string

fun key_invoke :: "key_call \<Rightarrow> message" where
  "key_invoke KeyList = (''key_list'', [])"
| "key_invoke (KeyGenerate input) =
     (''key_generate'', [(''input'', wire_generate_key_input input)])"
| "key_invoke (KeyImport input) = (''key_import'', [(''input'', wire_import_key_input input)])"
| "key_invoke (KeyDelete i) = (''key_delete'', [(''id'', W_string i)])"

datatype known_hosts_call =
    KnownHostsList
  | KnownHostsDelete string int

fun known_hosts_invoke :: "known_hosts_call \<Rightarrow> message" where
  "known_hosts_invoke KnownHostsList = (''known_hosts_list'', [])"
| "known_hosts_invoke (KnownHostsDelete hostname port) =
     (''known_hosts_delete'', [(''hostname'', W_string hostname), (''port'', W_num port)])"

datatype session_call =
    SessionConnect string
  | SessionWrite string string
  | SessionResize string int int
  | SessionDisconnect string

fun session_invoke :: "session_call \<Rightarrow> message" where
  "session_invoke (SessionConnect hostId) =
     (''session_connect'', [(''hostId'', W_string hostId), (''onEvent'', W_channel)])"
| "session_invoke (SessionWrite sessionId data) =
     (''session_write'', [(''sessionId'', W_string sessionId), (''data'', W_string data)])"
| "session_invoke (SessionResize sessionId cols rows) =
     (''session_resize'', [(''sessionId'', W_string sessionId), (''cols'', W_num cols),
      (''rows'', W_num rows)])"
| "session_invoke (SessionDisconnect sessionId) =
     (''session_disconnect'', [(''sessionId'', W_string sessionId)])"

datatype sftp_call =
    SftpConnect string
  | SftpCanonicalize string string
  | SftpList string string
  | SftpMkdir string string
  | SftpRename string string string
  | SftpRemoveFile string string
  | SftpRemoveDir string string
  | SftpDownload string string string
  | SftpUpload string string string
  | SftpDisconnect string

fun sftp_invoke :: "sftp_call \<Rightarrow> message" where
  "sftp_invoke (SftpConnect hostId) = (''sftp_connect'', [(''hostId'', W_string hostId)])"
| "sftp_invoke (SftpCanonicalize sftpId path) =
     (''sftp_canonicalize'', [(''sftpId'', W_string sftpId), (''path'', W_string path)])"
| "sftp_invoke (SftpList sftpId path) =
     (''sftp_list'', [(''sftpId'', W_string sftpId), (''path'', W_string path)])"
| "sftp_invoke (SftpMkdir sftpId path) =
     (''sftp_mkdir'', [(''sftpId'', W_string sftpId), (''path'', W_string path)])"
| "sftp_invoke (SftpRename sftpId from to) =
     (''sftp_rename'', [(''sftpId'', W_string sftpId), (''from'', W_string from),
      (''to'', W_string to)])"
| "sftp_invoke (SftpRemoveFile sftpId path) =
     (''sftp_remove_file'', [(''sftpId'', W_string sftpId), (''path'', W_string path)])"
| "sftp_invoke (SftpRemoveDir sftpId path) =
     (''sftp_remove_dir'', [(''sftpId'', W_string sftpId), (''path'', W_string path)])"
| "sftp_invoke (SftpDownload sftpId remotePath localPath) =
     (''sftp_download'', [(''sftpId'', W_string sftpId), (''remotePath'', W_string remotePath),
      (''localPath'', W_string localPath)])"
| "sftp_invoke (SftpUpload sftpId localPath remotePath) =
     (''sftp_upload'', [(''sftpId'', W_string sftpId), (''localPath'', W_string localPath),
      (''remotePath'', W_string remotePath)])"
| "sftp_invoke (SftpDisconnect sftpId) = (''sftp_disconnect'', [(''sftpId'', W_string sftpId)])"

datatype local_fs_call =
    LocalHomeDir
  | LocalList string
  | LocalReadTextFile string
  | LocalWriteTextFile string string
  | LocalMkdir string
  | LocalRename string string
  | LocalDelete string bool

fun local_fs_invoke :: "local_fs_call \<Rightarrow> message" where
  "local_fs_invoke LocalHomeDir = (''local_home_dir'', [])"
| "local_fs_invoke (LocalList path) = (''local_list'', [(''path'', W_string path)])"
| "local_fs_invoke (LocalReadTextFile path) =
     (''local_read_text_file'', [(''path'', W_string path)])"
| "local_fs_invoke (LocalWriteTextFile path contents) =
     (''local_write_text_file'', [(''path'', W_string path), (''contents'', W_string contents)])"
| "local_fs_invoke (LocalMkdir path) = (''local_mkdir'', [(''path'', W_string path)])"
| "local_fs_invoke (LocalRename from to) =
     (''local_rename'', [(''from'', W_string from), (''to'', W_string to)])"
| "local_fs_invoke (LocalDelete path isDir) =
     (''local_delete'', [(''path'', W_string path), (''isDir'', W_bool isDir)])"

datatype snippet_call =
    SnippetList
  | SnippetCreate snippet_input
  | SnippetUpdate string snippet_input
  | SnippetDelete string
  | SnippetRunOnHosts "string list" string

fun snippet_invoke :: "snippet_call \<Rightarrow> message" where
  "snippet_invoke SnippetList = (''snippet_list'', [])"
| "snippet_invoke (SnippetCreate input) =
     (''snippet_create'', [(''input'', wire_snippet_input input)])"
| "snippet_invoke (SnippetUpdate i input) =
     (''snippet_update'', [(''id'', W_string i), (''input'', wire_snippet_input input)])"
| "snippet_invoke (SnippetDelete i) = (''snippet_delete'', [(''id'', W_string i)])"
| "snippet_invoke (SnippetRunOnHosts hostIds command) =
     (''snippet_run_on_hosts'', [(''hostIds'', W_list (map W_string hostIds)),
      (''command'', W_string command)])"

datatype backup_call =
    GoogleStatus
  | GoogleLogin
  | GoogleLoginCancel
  | GoogleLogout
  | GoogleBackupNow
  | GoogleRestore

fun backup_invoke :: "backup_call \<Rightarrow> message" where
  "backup_invoke GoogleStatus = (''google_status'', [])"
| "backup_invoke GoogleLogin = (''google_login'', [])"
| "backup_invoke GoogleLoginCancel = (''google_login_cancel'', [])"
| "backup_invoke GoogleLogout = (''google_logout'', [])"
| "backup_invoke GoogleBackupNow = (''google_backup_now'', [])"
| "backup_invoke GoogleRestore = (''google_restore'', [])"

datatype vpn_call =
    VpnProfileList
  | VpnProfileCreate vpn_profile_input
  | VpnProfileUpdate string vpn_profile_input
  | VpnProfileDelete string
  | VpnSetupStatus
  | VpnSetupInstall
  | VpnConnect string
  | VpnDisconnect string
  | VpnStatus string
  | VpnActiveStatuses
  | VpnDisconnectAll
  | VpnEnsureHostRoute string

fun vpn_invoke :: "vpn_call \<Rightarrow> message" where
  "vpn_invoke VpnProfileList = (''vpn_profile_list'', [])"
| "vpn_invoke (VpnProfileCreate input) =
     (''vpn_profile_create'', [(''input'', wire_vpn_profile_input input)])"
| "vpn_invoke (VpnProfileUpdate i input) =
     (''vpn_profile_update'', [(''id'', W_string i), (''input'', wire_vpn_profile_input input)])"
| "vpn_invoke (VpnProfileDelete i) = (''vpn_profile_delete'', [(''id'', W_string i)])"
| "vpn_invoke VpnSetupStatus = (''vpn_setup_status'', [])"
| "vpn_invoke VpnSetupInstall = (''vpn_setup_install'', [])"
| "vpn_invoke (VpnConnect profileId) = (''vpn_connect'', [(''profileId'', W_string profileId)])"
| "vpn_invoke (VpnDisconnect profileId) =
     (''vpn_disconnect'', [(''profileId'', W_string profileId)])"
| "vpn_invoke (VpnStatus profileId) = (''vpn_status'', [(''profileId'', W_string profileId)])"
| "vpn_invoke VpnActiveStatuses = (''vpn_active_statuses'', [])"
| "vpn_invoke VpnDisconnectAll = (''vpn_disconnect_all'', [])"
| "vpn_invoke (VpnEnsureHostRoute hostId) =
     (''vpn_ensure_host_route'', [(''hostId'', W_string hostId)])"

datatype workspace_call =
    WorkspaceList
  | WorkspaceListTabs string
  | WorkspaceCreate string "workspace_tab_input list"
  | WorkspaceRename string string
  | WorkspaceDelete string

fun workspace_invoke :: "workspace_call \<Rightarrow> message" where
  "workspace_invoke WorkspaceList = (''workspace_list'', [])"
| "workspace_invoke (WorkspaceListTabs workspaceId) =
     (''workspace_list_tabs'', [(''workspaceId'', W_string workspaceId)])"
| "workspace_invoke (WorkspaceCreate label tabs) =
     (''workspace_create'', [(''label'', W_string label),
      (''tabs'', W_list (map wire_workspace_tab_input tabs))])"
| "workspace_invoke (WorkspaceRename i label) =
     (''workspace_rename'', [(''id'', W_string i), (''label'', W_string label)])"
| "workspace_invoke (WorkspaceDelete i) = (''workspace_delete'', [(''id'', W_string i)])"

datatype bridge_call =
    App_call app_call
  | Ai_call ai_call
  | Vault_call vault_call
  | Group_call group_call
  | Host_call host_call
  | Stats_call stats_call
  | Tag_call tag_call
  | Identity_call identity_call
  | Key_call key_call
  | Known_hosts_call known_hosts_call
  | Session_call session_call
  | Sftp_call sftp_call
  | Local_fs_call local_fs_call
  | Snippet_call snippet_call
  | Backup_call backup_call
  | Vpn_call vpn_call
  | Workspace_call workspace_call

fun invoke_message :: "bridge_call \<Rightarrow> message" where
  "invoke_message (App_call c) = app_invoke c"
| "invoke_message (Ai_call c) = ai_invoke c"
| "invoke_message (Vault_call c) = vault_invoke c"
| "invoke_message (Group_call c) = group_invoke c"
| "invoke_message (Host_call c) = host_invoke c"
| "invoke_message (Stats_call c) = stats_invoke c"
| "invoke_message (Tag_call c) = tag_invoke c"
| "invoke_message (Identity_call c) = identity_invoke c"
| "invoke_message (Key_call c) = key_invoke c"
| "invoke_message (Known_hosts_call c) = known_hosts_invoke c"
| "invoke_message (Session_call c) = session_invoke c"
| "invoke_message (Sftp_call c) = sftp_invoke c"
| "invoke_message (Local_fs_call c) = local_fs_invoke c"
| "invoke_message (Snippet_call c) = snippet_invoke c"
| "invoke_message (Backup_call c) = backup_invoke c"
| "invoke_message (Vpn_call c) = vpn_invoke c"
| "invoke_message (Workspace_call c) = workspace_invoke c"

section \<open>The handlers the backend registers\<close>

text \<open>
  The command names of \<open>generate_handler!\<close> in \<open>src-tauri/src/lib.rs\<close>,
      each with the parameters of its
  function in \<open>src-tauri/src/commands/\<close> that are passed by the frontend, in the camel
      case the
  frontend has to use.
\<close>

definition app_handlers :: "(string \<times> string list) list" where
  "app_handlers =
    [(''app_version'', []),
     (''app_update_method'', []),
     (''app_package_update_install'', [''version''])]"

definition ai_handlers :: "(string \<times> string list) list" where
  "ai_handlers =
    [(''ai_settings_status'', []),
     (''ai_settings_set'', [''provider'', ''apiKey'', ''model'']),
     (''ai_settings_clear'', [''provider'']),
     (''ai_chat_send'', [''provider'', ''messages'']),
     (''ai_command_exec'', [''hostId'', ''command'', ''overrideDenylist'']),
     (''ai_command_check'', [''command''])]"

definition vault_handlers :: "(string \<times> string list) list" where
  "vault_handlers =
    [(''vault_auto_unlock'', []),
     (''vault_lock'', [])]"

definition group_handlers :: "(string \<times> string list) list" where
  "group_handlers =
    [(''group_list'', []),
     (''group_create'', [''input'']),
     (''group_update'', [''id'', ''input'']),
     (''group_delete'', [''id''])]"

definition host_handlers :: "(string \<times> string list) list" where
  "host_handlers =
    [(''host_list'', []),
     (''host_create'', [''input'']),
     (''host_update'', [''id'', ''input'']),
     (''host_delete'', [''id'']),
     (''host_set_favorite'', [''id'', ''favorite'']),
     (''host_export_csv'', []),
     (''host_import_csv'', [''content''])]"

definition stats_handlers :: "(string \<times> string list) list" where
  "stats_handlers =
    [(''host_stats'', [''hostId''])]"

definition tag_handlers :: "(string \<times> string list) list" where
  "tag_handlers =
    [(''tag_list'', []),
     (''tag_create'', [''label'']),
     (''tag_delete'', [''id''])]"

definition identity_handlers :: "(string \<times> string list) list" where
  "identity_handlers =
    [(''identity_list'', []),
     (''identity_create'', [''input'']),
     (''identity_update'', [''id'', ''input'']),
     (''identity_delete'', [''id''])]"

definition key_handlers :: "(string \<times> string list) list" where
  "key_handlers =
    [(''key_list'', []),
     (''key_generate'', [''input'']),
     (''key_import'', [''input'']),
     (''key_delete'', [''id''])]"

definition known_hosts_handlers :: "(string \<times> string list) list" where
  "known_hosts_handlers =
    [(''known_hosts_list'', []),
     (''known_hosts_delete'', [''hostname'', ''port''])]"

definition session_handlers :: "(string \<times> string list) list" where
  "session_handlers =
    [(''session_connect'', [''hostId'', ''onEvent'']),
     (''session_write'', [''sessionId'', ''data'']),
     (''session_resize'', [''sessionId'', ''cols'', ''rows'']),
     (''session_disconnect'', [''sessionId''])]"

definition sftp_handlers :: "(string \<times> string list) list" where
  "sftp_handlers =
    [(''sftp_connect'', [''hostId'']),
     (''sftp_canonicalize'', [''sftpId'', ''path'']),
     (''sftp_list'', [''sftpId'', ''path'']),
     (''sftp_mkdir'', [''sftpId'', ''path'']),
     (''sftp_rename'', [''sftpId'', ''from'', ''to'']),
     (''sftp_remove_file'', [''sftpId'', ''path'']),
     (''sftp_remove_dir'', [''sftpId'', ''path'']),
     (''sftp_download'', [''sftpId'', ''remotePath'', ''localPath'']),
     (''sftp_upload'', [''sftpId'', ''localPath'', ''remotePath'']),
     (''sftp_disconnect'', [''sftpId''])]"

definition local_fs_handlers :: "(string \<times> string list) list" where
  "local_fs_handlers =
    [(''local_home_dir'', []),
     (''local_list'', [''path'']),
     (''local_read_text_file'', [''path'']),
     (''local_write_text_file'', [''path'', ''contents'']),
     (''local_mkdir'', [''path'']),
     (''local_rename'', [''from'', ''to'']),
     (''local_delete'', [''path'', ''isDir''])]"

definition snippet_handlers :: "(string \<times> string list) list" where
  "snippet_handlers =
    [(''snippet_list'', []),
     (''snippet_create'', [''input'']),
     (''snippet_update'', [''id'', ''input'']),
     (''snippet_delete'', [''id'']),
     (''snippet_run_on_hosts'', [''hostIds'', ''command''])]"

definition backup_handlers :: "(string \<times> string list) list" where
  "backup_handlers =
    [(''google_status'', []),
     (''google_login'', []),
     (''google_login_cancel'', []),
     (''google_logout'', []),
     (''google_backup_now'', []),
     (''google_restore'', [])]"

definition vpn_handlers :: "(string \<times> string list) list" where
  "vpn_handlers =
    [(''vpn_profile_list'', []),
     (''vpn_profile_create'', [''input'']),
     (''vpn_profile_update'', [''id'', ''input'']),
     (''vpn_profile_delete'', [''id'']),
     (''vpn_setup_status'', []),
     (''vpn_setup_install'', []),
     (''vpn_connect'', [''profileId'']),
     (''vpn_disconnect'', [''profileId'']),
     (''vpn_status'', [''profileId'']),
     (''vpn_active_statuses'', []),
     (''vpn_disconnect_all'', []),
     (''vpn_ensure_host_route'', [''hostId''])]"

definition workspace_handlers :: "(string \<times> string list) list" where
  "workspace_handlers =
    [(''workspace_list'', []),
     (''workspace_list_tabs'', [''workspaceId'']),
     (''workspace_create'', [''label'', ''tabs'']),
     (''workspace_rename'', [''id'', ''label'']),
     (''workspace_delete'', [''id''])]"

definition registered_handlers :: "(string \<times> string list) list" where
  "registered_handlers =
     app_handlers @ ai_handlers @ vault_handlers @ group_handlers @ host_handlers @
      stats_handlers @ tag_handlers @ identity_handlers @ key_handlers @ known_hosts_handlers @
      session_handlers @ sftp_handlers @ local_fs_handlers @ snippet_handlers @ backup_handlers @
      vpn_handlers @ workspace_handlers"

section \<open>The two sides fit\<close>

definition name_prefix :: "message \<Rightarrow> string" where
  "name_prefix m = takeWhile (\<lambda>x. x \<noteq> CHR ''_'') (fst m)"

lemma app_invoke_prefix: "name_prefix (app_invoke c) = ''app''"
  by (cases c) (simp_all add: name_prefix_def)

lemma inj_app_invoke: "app_invoke c = app_invoke d \<Longrightarrow> c = d"
  by (cases c; cases d) (simp_all add: inj_wire)

lemma app_invoke_registered: "(fst (app_invoke c), map fst (snd (app_invoke c))) \<in> set
      app_handlers"
  by (cases c) (simp_all add: app_handlers_def)

lemma ai_invoke_prefix: "name_prefix (ai_invoke c) = ''ai''"
  by (cases c) (simp_all add: name_prefix_def)

lemma inj_ai_invoke: "ai_invoke c = ai_invoke d \<Longrightarrow> c = d"
  by (cases c; cases d) (simp_all add: inj_wire)

lemma ai_invoke_registered: "(fst (ai_invoke c), map fst (snd (ai_invoke c))) \<in> set ai_handlers"
  by (cases c) (simp_all add: ai_handlers_def)

lemma vault_invoke_prefix: "name_prefix (vault_invoke c) = ''vault''"
  by (cases c) (simp_all add: name_prefix_def)

lemma inj_vault_invoke: "vault_invoke c = vault_invoke d \<Longrightarrow> c = d"
  by (cases c; cases d) (simp_all add: inj_wire)

lemma vault_invoke_registered: "(fst (vault_invoke c), map fst (snd (vault_invoke c))) \<in> set
      vault_handlers"
  by (cases c) (simp_all add: vault_handlers_def)

lemma group_invoke_prefix: "name_prefix (group_invoke c) = ''group''"
  by (cases c) (simp_all add: name_prefix_def)

lemma inj_group_invoke: "group_invoke c = group_invoke d \<Longrightarrow> c = d"
  by (cases c; cases d) (simp_all add: inj_wire)

lemma group_invoke_registered: "(fst (group_invoke c), map fst (snd (group_invoke c))) \<in> set
      group_handlers"
  by (cases c) (simp_all add: group_handlers_def)

lemma host_invoke_prefix: "name_prefix (host_invoke c) = ''host''"
  by (cases c) (simp_all add: name_prefix_def)

lemma inj_host_invoke: "host_invoke c = host_invoke d \<Longrightarrow> c = d"
  by (cases c; cases d) (simp_all add: inj_wire)

lemma host_invoke_registered: "(fst (host_invoke c), map fst (snd (host_invoke c))) \<in> set
      host_handlers"
  by (cases c) (simp_all add: host_handlers_def)

lemma stats_invoke_prefix: "name_prefix (stats_invoke c) = ''host''"
  by (cases c) (simp_all add: name_prefix_def)

lemma inj_stats_invoke: "stats_invoke c = stats_invoke d \<Longrightarrow> c = d"
  by (cases c; cases d) (simp_all add: inj_wire)

lemma stats_invoke_registered: "(fst (stats_invoke c), map fst (snd (stats_invoke c))) \<in> set
      stats_handlers"
  by (cases c) (simp_all add: stats_handlers_def)

lemma tag_invoke_prefix: "name_prefix (tag_invoke c) = ''tag''"
  by (cases c) (simp_all add: name_prefix_def)

lemma inj_tag_invoke: "tag_invoke c = tag_invoke d \<Longrightarrow> c = d"
  by (cases c; cases d) (simp_all add: inj_wire)

lemma tag_invoke_registered: "(fst (tag_invoke c), map fst (snd (tag_invoke c))) \<in> set
      tag_handlers"
  by (cases c) (simp_all add: tag_handlers_def)

lemma identity_invoke_prefix: "name_prefix (identity_invoke c) = ''identity''"
  by (cases c) (simp_all add: name_prefix_def)

lemma inj_identity_invoke: "identity_invoke c = identity_invoke d \<Longrightarrow> c = d"
  by (cases c; cases d) (simp_all add: inj_wire)

lemma identity_invoke_registered: "(fst (identity_invoke c), map fst (snd (identity_invoke c)))
      \<in> set identity_handlers"
  by (cases c) (simp_all add: identity_handlers_def)

lemma key_invoke_prefix: "name_prefix (key_invoke c) = ''key''"
  by (cases c) (simp_all add: name_prefix_def)

lemma inj_key_invoke: "key_invoke c = key_invoke d \<Longrightarrow> c = d"
  by (cases c; cases d) (simp_all add: inj_wire)

lemma key_invoke_registered: "(fst (key_invoke c), map fst (snd (key_invoke c))) \<in> set
      key_handlers"
  by (cases c) (simp_all add: key_handlers_def)

lemma known_hosts_invoke_prefix: "name_prefix (known_hosts_invoke c) = ''known''"
  by (cases c) (simp_all add: name_prefix_def)

lemma inj_known_hosts_invoke: "known_hosts_invoke c = known_hosts_invoke d \<Longrightarrow> c = d"
  by (cases c; cases d) (simp_all add: inj_wire)

lemma known_hosts_invoke_registered: "(fst (known_hosts_invoke c), map fst (snd (known_hosts_invoke
      c))) \<in> set known_hosts_handlers"
  by (cases c) (simp_all add: known_hosts_handlers_def)

lemma session_invoke_prefix: "name_prefix (session_invoke c) = ''session''"
  by (cases c) (simp_all add: name_prefix_def)

lemma inj_session_invoke: "session_invoke c = session_invoke d \<Longrightarrow> c = d"
  by (cases c; cases d) (simp_all add: inj_wire)

lemma session_invoke_registered: "(fst (session_invoke c), map fst (snd (session_invoke c))) \<in>
      set session_handlers"
  by (cases c) (simp_all add: session_handlers_def)

lemma sftp_invoke_prefix: "name_prefix (sftp_invoke c) = ''sftp''"
  by (cases c) (simp_all add: name_prefix_def)

lemma inj_sftp_invoke: "sftp_invoke c = sftp_invoke d \<Longrightarrow> c = d"
  by (cases c; cases d) (simp_all add: inj_wire)

lemma sftp_invoke_registered: "(fst (sftp_invoke c), map fst (snd (sftp_invoke c))) \<in> set
      sftp_handlers"
  by (cases c) (simp_all add: sftp_handlers_def)

lemma local_fs_invoke_prefix: "name_prefix (local_fs_invoke c) = ''local''"
  by (cases c) (simp_all add: name_prefix_def)

lemma inj_local_fs_invoke: "local_fs_invoke c = local_fs_invoke d \<Longrightarrow> c = d"
  by (cases c; cases d) (simp_all add: inj_wire)

lemma local_fs_invoke_registered: "(fst (local_fs_invoke c), map fst (snd (local_fs_invoke c)))
      \<in> set local_fs_handlers"
  by (cases c) (simp_all add: local_fs_handlers_def)

lemma snippet_invoke_prefix: "name_prefix (snippet_invoke c) = ''snippet''"
  by (cases c) (simp_all add: name_prefix_def)

lemma inj_snippet_invoke: "snippet_invoke c = snippet_invoke d \<Longrightarrow> c = d"
  by (cases c; cases d) (simp_all add: inj_wire)

lemma snippet_invoke_registered: "(fst (snippet_invoke c), map fst (snd (snippet_invoke c))) \<in>
      set snippet_handlers"
  by (cases c) (simp_all add: snippet_handlers_def)

lemma backup_invoke_prefix: "name_prefix (backup_invoke c) = ''google''"
  by (cases c) (simp_all add: name_prefix_def)

lemma inj_backup_invoke: "backup_invoke c = backup_invoke d \<Longrightarrow> c = d"
  by (cases c; cases d) (simp_all add: inj_wire)

lemma backup_invoke_registered: "(fst (backup_invoke c), map fst (snd (backup_invoke c))) \<in> set
      backup_handlers"
  by (cases c) (simp_all add: backup_handlers_def)

lemma vpn_invoke_prefix: "name_prefix (vpn_invoke c) = ''vpn''"
  by (cases c) (simp_all add: name_prefix_def)

lemma inj_vpn_invoke: "vpn_invoke c = vpn_invoke d \<Longrightarrow> c = d"
  by (cases c; cases d) (simp_all add: inj_wire)

lemma vpn_invoke_registered: "(fst (vpn_invoke c), map fst (snd (vpn_invoke c))) \<in> set
      vpn_handlers"
  by (cases c) (simp_all add: vpn_handlers_def)

lemma workspace_invoke_prefix: "name_prefix (workspace_invoke c) = ''workspace''"
  by (cases c) (simp_all add: name_prefix_def)

lemma inj_workspace_invoke: "workspace_invoke c = workspace_invoke d \<Longrightarrow> c = d"
  by (cases c; cases d) (simp_all add: inj_wire)

lemma workspace_invoke_registered: "(fst (workspace_invoke c), map fst (snd (workspace_invoke c)))
      \<in> set workspace_handlers"
  by (cases c) (simp_all add: workspace_handlers_def)

lemmas invoke_prefix =
  app_invoke_prefix ai_invoke_prefix vault_invoke_prefix group_invoke_prefix host_invoke_prefix
      stats_invoke_prefix tag_invoke_prefix identity_invoke_prefix key_invoke_prefix
      known_hosts_invoke_prefix session_invoke_prefix sftp_invoke_prefix local_fs_invoke_prefix
      snippet_invoke_prefix backup_invoke_prefix vpn_invoke_prefix workspace_invoke_prefix

lemmas invoke_registered =
  app_invoke_registered ai_invoke_registered vault_invoke_registered group_invoke_registered
      host_invoke_registered stats_invoke_registered tag_invoke_registered
      identity_invoke_registered key_invoke_registered known_hosts_invoke_registered
      session_invoke_registered sftp_invoke_registered local_fs_invoke_registered
      snippet_invoke_registered backup_invoke_registered vpn_invoke_registered
      workspace_invoke_registered

lemmas invoke_inj =
  inj_app_invoke inj_ai_invoke inj_vault_invoke inj_group_invoke inj_host_invoke inj_stats_invoke
      inj_tag_invoke inj_identity_invoke inj_key_invoke inj_known_hosts_invoke inj_session_invoke
      inj_sftp_invoke inj_local_fs_invoke inj_snippet_invoke inj_backup_invoke inj_vpn_invoke
      inj_workspace_invoke

fun module_prefix :: "bridge_call \<Rightarrow> string" where
  "module_prefix (App_call c) = ''app''"
| "module_prefix (Ai_call c) = ''ai''"
| "module_prefix (Vault_call c) = ''vault''"
| "module_prefix (Group_call c) = ''group''"
| "module_prefix (Host_call c) = ''host''"
| "module_prefix (Stats_call c) = ''host''"
| "module_prefix (Tag_call c) = ''tag''"
| "module_prefix (Identity_call c) = ''identity''"
| "module_prefix (Key_call c) = ''key''"
| "module_prefix (Known_hosts_call c) = ''known''"
| "module_prefix (Session_call c) = ''session''"
| "module_prefix (Sftp_call c) = ''sftp''"
| "module_prefix (Local_fs_call c) = ''local''"
| "module_prefix (Snippet_call c) = ''snippet''"
| "module_prefix (Backup_call c) = ''google''"
| "module_prefix (Vpn_call c) = ''vpn''"
| "module_prefix (Workspace_call c) = ''workspace''"

lemma host_not_stats: "host_invoke c \<noteq> stats_invoke d"
  by (cases c; cases d) simp_all

lemma invoke_message_prefix: "name_prefix (invoke_message c) = module_prefix c"
  by (cases c) (simp_all add: invoke_prefix)

lemma invoke_message_inj:
  assumes "invoke_message c = invoke_message d"
  shows "c = d"
proof -
  have "module_prefix c = module_prefix d"
    using assms by (metis invoke_message_prefix)
  with assms show ?thesis
    by (cases c; cases d) (auto simp: host_not_stats host_not_stats[symmetric] dest: invoke_inj)
qed

lemma invoke_message_registered:
  "(fst (invoke_message c), map fst (snd (invoke_message c))) \<in> set registered_handlers"
  by (cases c) (simp_all add: registered_handlers_def invoke_registered)

text \<open>
  the bridge and the backend fit: two different calls never send the same message, and
  every call names a command the backend registers, with exactly the parameters of that
  command, in order.
\<close>
theorem bridge_conforms:
  "inj invoke_message
   \<and> (fst (invoke_message c), map fst (snd (invoke_message c))) \<in> set registered_handlers"
  by (simp add: invoke_message_registered inj_def invoke_message_inj)

end
