(* ===== verification/Command_History.thy ===== *)
theory Command_History
  imports Bridge_Types "HOL-Library.AList"
begin

text \<open>
  The per-host command history, \<open>src/src/state/commandHistoryStore.ts\<close>: recording a command,
  parsing the shell history of the server, and the two rankings by frequency. A JavaScript
  \<open>Map\<close> keeps its keys in the order of their first insertion, so it is an association list
  changed by \<^const>\<open>AList.update\<close>, which replaces in place and appends at the end.
\<close>

section \<open>The store\<close>

record history_entry =
  entry_id :: string
  entry_label :: string
  entry_body :: string
  entry_ranAt :: string
  entry_exitStatus :: "int option"
  entry_error :: "string option"

record remote_history_rank =
  rank_command :: string
  rank_count :: nat

record history_state =
  byHost :: "string \<rightharpoonup> history_entry list"
  remoteTopUsed :: "string \<rightharpoonup> remote_history_rank list"

definition MAX_ENTRIES_PER_HOST :: nat where "MAX_ENTRIES_PER_HOST = 100"

definition initial_history :: history_state where
  "initial_history = \<lparr>byHost = Map.empty, remoteTopUsed = Map.empty\<rparr>"

text \<open>\<open>byHost[hostId] ?? []\<close>\<close>

definition entries_of :: "history_state \<Rightarrow> string \<Rightarrow> history_entry list" where
  "entries_of s h = (case byHost s h of None \<Rightarrow> [] | Some es \<Rightarrow> es)"

text \<open>The new entry gets a drawn identifier and the time of the call, both given.\<close>

definition record_entry :: "string \<Rightarrow> string \<Rightarrow> string \<Rightarrow> history_entry \<Rightarrow> history_state \<Rightarrow> history_state" where
  "record_entry uuid now hostId entry s =
     (let existing = entries_of s hostId;
          new = take MAX_ENTRIES_PER_HOST (entry\<lparr>entry_id := uuid, entry_ranAt := now\<rparr> # existing)
      in s\<lparr>byHost := (byHost s)(hostId \<mapsto> new)\<rparr>)"

definition setRemoteTopUsed :: "string \<Rightarrow> remote_history_rank list \<Rightarrow> history_state \<Rightarrow> history_state" where
  "setRemoteTopUsed hostId ranked s = s\<lparr>remoteTopUsed := (remoteTopUsed s)(hostId \<mapsto> ranked)\<rparr>"

text \<open>A persisted history of an older version is dropped.\<close>

definition migrate :: "history_state \<Rightarrow> history_state" where
  "migrate old = initial_history"

text \<open>A run of the store: commands recorded one after the other for several hosts.\<close>

record recording =
  rec_uuid :: string
  rec_now :: string
  rec_host :: string
  rec_entry :: history_entry

definition record_step :: "history_state \<Rightarrow> recording \<Rightarrow> history_state" where
  "record_step s r = record_entry (rec_uuid r) (rec_now r) (rec_host r) (rec_entry r) s"

definition stamped :: "recording \<Rightarrow> history_entry" where
  "stamped r = (rec_entry r)\<lparr>entry_id := rec_uuid r, entry_ranAt := rec_now r\<rparr>"

text \<open>
  whatever commands are recorded for whatever hosts, the history of a host is its own
  last 100 recordings, newest first, each stamped with its identifier and time; the rankings
  fetched from servers are not touched.
\<close>
theorem record_keeps_newest:
  "entries_of (foldl record_step initial_history rs) h =
       take MAX_ENTRIES_PER_HOST (map stamped (rev (filter (\<lambda>r. rec_host r = h) rs)))
     \<and> remoteTopUsed (foldl record_step initial_history rs) = Map.empty"
proof (induction rs rule: rev_induct)
  case Nil
  then show ?case by (simp add: entries_of_def initial_history_def)
next
  case (snoc r rs)
  have n: "MAX_ENTRIES_PER_HOST = Suc 99" by (simp add: MAX_ENTRIES_PER_HOST_def)
  from snoc show ?case
    by (auto simp: record_step_def record_entry_def entries_of_def stamped_def Let_def n)
qed

section \<open>Parsing the server's history file\<close>

definition is_digit :: "char \<Rightarrow> bool" where
  "is_digit c \<longleftrightarrow> 48 \<le> (of_char c :: nat) \<and> (of_char c :: nat) \<le> 57"

text \<open>\<open>/^#\d+$/\<close>\<close>

definition is_bash_timestamp :: "string \<Rightarrow> bool" where
  "is_bash_timestamp line =
     (case line of [] \<Rightarrow> False | c # ds \<Rightarrow> c = CHR ''#'' \<and> ds \<noteq> [] \<and> list_all is_digit ds)"

text \<open>
  \<open>/^:\s*\d+:\d+;(.*)$/\<close>: the white space, the digits and the separators exclude each other,
  so the match is unique; the dot stops at a line terminator.
\<close>

definition line_terminator :: "char \<Rightarrow> bool" where
  "line_terminator c \<longleftrightarrow> of_char c \<in> {10, 13 :: nat}"

definition after_digits :: "char \<Rightarrow> string \<Rightarrow> string option" where
  "after_digits sep s =
     (case dropWhile is_digit s of
        [] \<Rightarrow> None
      | c # r \<Rightarrow> if c = sep \<and> takeWhile is_digit s \<noteq> [] then Some r else None)"

definition zsh_match :: "string \<Rightarrow> string option" where
  "zsh_match line =
     (case line of
        [] \<Rightarrow> None
      | c # r \<Rightarrow>
          if c \<noteq> CHR '':'' then None
          else (case after_digits (CHR '':'') (dropWhile js_space r) of
              None \<Rightarrow> None
            | Some r1 \<Rightarrow>
                (case after_digits (CHR '';'') r1 of
                   None \<Rightarrow> None
                 | Some cmd \<Rightarrow> if list_ex line_terminator cmd then None else Some cmd)))"

definition parse_line :: "string \<Rightarrow> string option" where
  "parse_line rawLine =
     (let line = trim rawLine
      in if line = [] then None
         else if is_bash_timestamp line then None
         else Some (case zsh_match line of Some cmd \<Rightarrow> trim cmd | None \<Rightarrow> line))"

fun parse_lines :: "string list \<Rightarrow> string list \<Rightarrow> string list" where
  "parse_lines commands [] = commands"
| "parse_lines commands (l # ls) =
     (case parse_line l of None \<Rightarrow> parse_lines commands ls | Some c \<Rightarrow> parse_lines (commands @ [c]) ls)"

definition parseRemoteHistory :: "string \<Rightarrow> string list" where
  "parseRemoteHistory raw = parse_lines [] (split_on newline raw)"

lemma parse_lines_eq: "parse_lines acc ls = acc @ List.map_filter parse_line ls"
  by (induction ls arbitrary: acc) (auto simp: List.map_filter_def split: option.splits)

section \<open>Ranking by frequency\<close>

definition get_or :: "'v \<Rightarrow> ('k \<times> 'v) list \<Rightarrow> 'k \<Rightarrow> 'v" where
  "get_or d m k = (case map_of m k of None \<Rightarrow> d | Some v \<Rightarrow> v)"

fun count_commands ::
  "string list \<Rightarrow> nat \<Rightarrow> (string \<times> nat) list \<Rightarrow> (string \<times> nat) list \<Rightarrow>
     (string \<times> nat) list \<times> (string \<times> nat) list" where
  "count_commands [] i counts lastIndex = (counts, lastIndex)"
| "count_commands (c # cs) i counts lastIndex =
     count_commands cs (Suc i) (AList.update c (get_or 0 counts c + 1) counts) (AList.update c i lastIndex)"

definition rank_order :: "(string \<times> nat) list \<Rightarrow> remote_history_rank \<Rightarrow> remote_history_rank \<Rightarrow> int" where
  "rank_order lastIndex a b =
     or_else (int (rank_count b) - int (rank_count a))
       (int (get_or 0 lastIndex (rank_command b)) - int (get_or 0 lastIndex (rank_command a)))"

definition rankRemoteHistory :: "string list \<Rightarrow> nat \<Rightarrow> remote_history_rank list" where
  "rankRemoteHistory commands limit =
     (case count_commands commands 0 [] [] of (counts, lastIndex) \<Rightarrow>
        take limit (js_sort (rank_order lastIndex)
          (map (\<lambda>(c, n). \<lparr>rank_command = c, rank_count = n\<rparr>) counts)))"

record command_usage_rank =
  usage_label :: string
  usage_body :: string
  usage_count :: nat
  usage_lastRanAt :: string

definition use_entry :: "(string \<times> command_usage_rank) list \<Rightarrow> history_entry \<Rightarrow> (string \<times> command_usage_rank) list" where
  "use_entry byLabel entry =
     (case map_of byLabel (entry_label entry) of
        Some existing \<Rightarrow>
          (let counted = existing\<lparr>usage_count := usage_count existing + 1\<rparr>
           in AList.update (entry_label entry)
                (if usage_lastRanAt existing < entry_ranAt entry
                 then counted\<lparr>usage_lastRanAt := entry_ranAt entry, usage_body := entry_body entry\<rparr>
                 else counted) byLabel)
      | None \<Rightarrow>
          AList.update (entry_label entry)
            \<lparr>usage_label = entry_label entry, usage_body = entry_body entry, usage_count = 1,
             usage_lastRanAt = entry_ranAt entry\<rparr> byLabel)"

definition usage_order :: "command_usage_rank \<Rightarrow> command_usage_rank \<Rightarrow> int" where
  "usage_order a b =
     or_else (int (usage_count b) - int (usage_count a))
       (if usage_lastRanAt a < usage_lastRanAt b then 1 else -1)"

definition topUsedCommands :: "history_entry list \<Rightarrow> nat \<Rightarrow> command_usage_rank list" where
  "topUsedCommands entries limit =
     take limit (js_sort usage_order (map snd (foldl use_entry [] entries)))"

section \<open>What is counted\<close>

definition last_position :: "'a list \<Rightarrow> 'a \<Rightarrow> nat" where
  "last_position xs x = Max {j. j < length xs \<and> xs ! j = x}"

lemma positions_Cons:
  "{j. j < length (d # cs) \<and> (d # cs) ! j = c} =
     (if d = c then {0} else {}) \<union> Suc ` {j. j < length cs \<and> cs ! j = c}"
  by (auto simp: image_iff less_Suc_eq_0_disj)

lemma positions_empty: "c \<notin> set cs \<longleftrightarrow> {j. j < length cs \<and> cs ! j = c} = {}"
  by (auto simp: in_set_conv_nth)

lemma last_position_Cons:
  assumes "c \<in> set cs"
  shows "last_position (d # cs) c = Suc (last_position cs c)"
proof -
  let ?J = "{j. j < length cs \<and> cs ! j = c}"
  have J: "finite ?J" "?J \<noteq> {}" using assms positions_empty[of c cs] by auto
  then have "Max (Suc ` ?J) = Suc (Max ?J)"
    by (metis mono_Max_commute mono_Suc)
  with J show ?thesis
    by (simp only: last_position_def positions_Cons) (simp add: Max_insert)
qed

lemma last_position_head: "c \<notin> set cs \<Longrightarrow> last_position (c # cs) c = 0"
  by (simp only: last_position_def positions_Cons positions_empty) simp

lemma last_position_inj:
  assumes "c \<in> set cs" and "d \<in> set cs" and "last_position cs c = last_position cs d"
  shows "c = d"
proof -
  have "cs ! last_position cs x = x" if "x \<in> set cs" for x
  proof -
    have "last_position cs x \<in> {j. j < length cs \<and> cs ! j = x}"
      unfolding last_position_def using that positions_empty[of x cs] by (intro Max_in) auto
    then show ?thesis by simp
  qed
  with assms show ?thesis by metis
qed

lemma count_commands_counts:
  "map_of (fst (count_commands cs i counts lastIndex)) c =
     (if c \<in> set cs then Some (get_or 0 counts c + count_list cs c) else map_of counts c)"
  by (induction cs arbitrary: i counts lastIndex) (auto simp: get_or_def update_conv')

lemma count_commands_last:
  "map_of (snd (count_commands cs i counts lastIndex)) c =
     (if c \<in> set cs then Some (i + last_position cs c) else map_of lastIndex c)"
  by (induction cs arbitrary: i counts lastIndex)
    (auto simp: update_conv' last_position_Cons last_position_head)

lemma count_commands_distinct:
  "distinct (map fst counts) \<Longrightarrow> distinct (map fst (fst (count_commands cs i counts lastIndex)))"
  by (induction cs arbitrary: i counts lastIndex) (simp_all add: distinct_update)

interpretation rank: comparator "rank_order lastIndex" for lastIndex
  unfolding rank_order_def
  by (intro comparator_or_else comparator_key_desc)

lemma distinct_index_last:
  assumes "distinct (map fst m)"
  shows "map_of m c = Some n \<longleftrightarrow> (c, n) \<in> set m"
  using assms by (auto intro: map_of_is_SomeI map_of_SomeD)

text \<open>
  the ranking of the server's shell history lists every command of the file once, with
  the number of times it occurs; a command that occurs more often comes first, and of two
  that occur equally often the one whose last occurrence is nearer the end of the file. The
  caller gets the first \<open>limit\<close> of these.
\<close>
theorem rankRemoteHistory_effect:
  "\<exists>ranking. rankRemoteHistory cs limit = take limit ranking
     \<and> distinct (map rank_command ranking)
     \<and> rank_command ` set ranking = set cs
     \<and> list_all (\<lambda>r. rank_count r = count_list cs (rank_command r)) ranking
     \<and> sorted_wrt (\<lambda>a b. rank_count b < rank_count a
           \<or> rank_count a = rank_count b
             \<and> last_position cs (rank_command b) < last_position cs (rank_command a)) ranking"
proof -
  define counts where "counts = fst (count_commands cs 0 [] [])"
  define lastIndex where "lastIndex = snd (count_commands cs 0 [] [])"
  define ranks where "ranks = map (\<lambda>(c, n). \<lparr>rank_command = c, rank_count = n\<rparr>) counts"
  define ranking where "ranking = js_sort (rank_order lastIndex) ranks"
  have dc: "distinct (map fst counts)"
    by (simp add: counts_def count_commands_distinct)
  have counts: "(c, n) \<in> set counts \<longleftrightarrow> c \<in> set cs \<and> n = count_list cs c" for c n
    using distinct_index_last[OF dc, of c n]
    by (auto simp: counts_def count_commands_counts get_or_def split: if_splits)
  have names: "map rank_command ranks = map fst counts"
    by (simp add: ranks_def case_prod_beta)
  then have dist: "distinct (map rank_command ranking)"
    using dc by (simp add: ranking_def)
  have set_eq: "set ranking = {r. rank_command r \<in> set cs \<and> rank_count r = count_list cs (rank_command r)}"
  proof (rule set_eqI)
    fix r :: remote_history_rank
    have "r \<in> set ranking \<longleftrightarrow> (rank_command r, rank_count r) \<in> set counts"
      by (cases r) (force simp: ranking_def ranks_def image_iff)
    then show "r \<in> set ranking \<longleftrightarrow>
        r \<in> {r. rank_command r \<in> set cs \<and> rank_count r = count_list cs (rank_command r)}"
      by (simp add: counts)
  qed
  have last: "get_or 0 lastIndex c = last_position cs c" if "c \<in> set cs" for c
    using that by (simp add: lastIndex_def count_commands_last get_or_def)
  have "sorted_wrt (\<lambda>a b. rank_order lastIndex a b \<le> 0 \<and> rank_command a \<noteq> rank_command b) ranking"
    using rank.js_sort_sorted[of lastIndex ranks] dist
    by (intro sorted_wrt_distinct) (simp_all add: ranking_def)
  then have "sorted_wrt (\<lambda>a b. rank_count b < rank_count a
           \<or> rank_count a = rank_count b
             \<and> last_position cs (rank_command b) < last_position cs (rank_command a)) ranking"
  proof (rule sorted_wrt_mono_rel[rotated])
    fix a b
    assume in_r: "a \<in> set ranking" "b \<in> set ranking"
      and ord: "rank_order lastIndex a b \<le> 0 \<and> rank_command a \<noteq> rank_command b"
    then have "last_position cs (rank_command a) \<noteq> last_position cs (rank_command b)"
      using last_position_inj[of "rank_command a" cs "rank_command b"] set_eq by auto
    with in_r ord show "rank_count b < rank_count a \<or> rank_count a = rank_count b
             \<and> last_position cs (rank_command b) < last_position cs (rank_command a)"
      using set_eq by (auto simp: rank_order_def or_else_def last split: if_splits)
  qed
  moreover have "rankRemoteHistory cs limit = take limit ranking"
    by (simp add: rankRemoteHistory_def case_prod_beta ranking_def ranks_def counts_def lastIndex_def)
  moreover have "rank_command ` set ranking = set cs"
  proof -
    have "rank_command ` set ranking = fst ` set counts"
      using arg_cong[OF names, of set] by (simp add: ranking_def)
    also have "\<dots> = set cs" by (auto simp: counts) (use counts in force)
    finally show ?thesis .
  qed
  moreover have "list_all (\<lambda>r. rank_count r = count_list cs (rank_command r)) ranking"
    by (simp add: list_all_iff set_eq)
  ultimately show ?thesis using dist by blast
qed

section \<open>The local ranking\<close>

text \<open>What a rank says of the entries it stands for.\<close>

definition summarises :: "history_entry list \<Rightarrow> command_usage_rank \<Rightarrow> bool" where
  "summarises es x \<longleftrightarrow>
     usage_count x = count_list (map entry_label es) (usage_label x)
     \<and> list_ex (\<lambda>e. entry_label e = usage_label x \<and> entry_ranAt e = usage_lastRanAt x
          \<and> entry_body e = usage_body x) es
     \<and> list_all (\<lambda>e. entry_label e = usage_label x \<longrightarrow> entry_ranAt e \<le> usage_lastRanAt x) es"

definition usage_map_ok :: "history_entry list \<Rightarrow> (string \<times> command_usage_rank) list \<Rightarrow> bool" where
  "usage_map_ok es m \<longleftrightarrow>
     distinct (map fst m) \<and> fst ` set m = entry_label ` set es
     \<and> (\<forall>l x. map_of m l = Some x \<longrightarrow> usage_label x = l \<and> summarises es x)"

lemma summarises_other:
  "summarises es x \<Longrightarrow> entry_label e \<noteq> usage_label x \<Longrightarrow> summarises (es @ [e]) x"
  by (simp add: summarises_def)

lemma summarises_new:
  assumes "l \<notin> entry_label ` set es" and "entry_label e = l"
  shows "summarises (es @ [e])
    \<lparr>usage_label = l, usage_body = entry_body e, usage_count = 1, usage_lastRanAt = entry_ranAt e\<rparr>"
  using assms by (auto simp: summarises_def list_all_iff count_list_0_iff)
    (metis image_eqI)

lemma summarises_again:
  assumes "summarises es x" and "entry_label e = usage_label x"
  shows "summarises (es @ [e])
    (let counted = x\<lparr>usage_count := usage_count x + 1\<rparr>
     in if usage_lastRanAt x < entry_ranAt e
        then counted\<lparr>usage_lastRanAt := entry_ranAt e, usage_body := entry_body e\<rparr> else counted)"
  using assms by (auto simp: summarises_def list_all_iff list_ex_iff Let_def)

lemma usage_map_ok_step:
  assumes "usage_map_ok es m"
  shows "usage_map_ok (es @ [e]) (use_entry m e)"
proof (cases "map_of m (entry_label e)")
  case None
  then have "entry_label e \<notin> entry_label ` set es"
    using assms by (auto simp: usage_map_ok_def map_of_eq_None_iff)
  with None assms show ?thesis
    by (auto simp: usage_map_ok_def use_entry_def distinct_update dom_update update_conv'
        intro: summarises_new[simplified] summarises_other split: if_splits)
next
  case (Some x)
  then have x: "usage_label x = entry_label e" "summarises es x"
    using assms by (auto simp: usage_map_ok_def)
  define x' where "x' = (let counted = x\<lparr>usage_count := usage_count x + 1\<rparr>
     in if usage_lastRanAt x < entry_ranAt e
        then counted\<lparr>usage_lastRanAt := entry_ranAt e, usage_body := entry_body e\<rparr> else counted)"
  have x': "summarises (es @ [e]) x'" "usage_label x' = entry_label e"
    unfolding x'_def using summarises_again[OF x(2), of e] x(1) by (simp_all add: Let_def)
  have step: "use_entry m e = AList.update (entry_label e) x' m"
    by (simp add: use_entry_def Some x'_def Let_def)
  from assms Some x' show ?thesis
    unfolding step usage_map_ok_def
    by (auto simp: distinct_update dom_update update_conv' intro: summarises_other split: if_splits)
qed

lemma usage_map_ok_all: "usage_map_ok es (foldl use_entry [] es)"
proof (induction es rule: rev_induct)
  case Nil
  then show ?case by (simp add: usage_map_ok_def)
qed (simp add: usage_map_ok_step)

text \<open>
  The comparator of the code answers -1 both ways for two ranks that ran last at the same
  time. Where no two did, it agrees with a consistent one.
\<close>

definition usage_order_total :: "command_usage_rank \<Rightarrow> command_usage_rank \<Rightarrow> int" where
  "usage_order_total a b =
     or_else (int (usage_count b) - int (usage_count a))
       (if usage_lastRanAt a < usage_lastRanAt b then 1
        else if usage_lastRanAt b < usage_lastRanAt a then - 1 else 0)"

interpretation usage: comparator usage_order_total
  unfolding usage_order_total_def
  by (intro comparator_or_else comparator_key_desc comparator_less_desc)

lemma usage_order_agrees:
  "usage_lastRanAt a \<noteq> usage_lastRanAt b \<Longrightarrow> usage_order a b = usage_order_total a b"
  by (auto simp: usage_order_def usage_order_total_def)

lemma usage_map_ranks:
  assumes "usage_map_ok es m" and "distinct (map entry_ranAt es)"
  shows "distinct (map usage_label (map snd m))" and "usage_label ` snd ` set m = entry_label ` set es"
    and "list_all (summarises es) (map snd m)" and "distinct (map usage_lastRanAt (map snd m))"
proof -
  have m: "usage_label x = l \<and> summarises es x" if "(l, x) \<in> set m" for l x
    using that assms(1) by (simp add: usage_map_ok_def)
  have labels: "map usage_label (map snd m) = map fst m"
    using m by auto
  then show dl: "distinct (map usage_label (map snd m))"
    using assms(1) by (simp only: usage_map_ok_def)
  from labels have "set (map usage_label (map snd m)) = set (map fst m)"
    by (rule arg_cong)
  then show "usage_label ` snd ` set m = entry_label ` set es"
    using assms(1) by (simp add: usage_map_ok_def image_image)
  show "list_all (summarises es) (map snd m)"
    using m by (auto simp: list_all_iff)
  have "inj_on usage_lastRanAt (snd ` set m)"
  proof (rule inj_onI)
    fix x y
    assume "x \<in> snd ` set m" "y \<in> snd ` set m" and eq: "usage_lastRanAt x = usage_lastRanAt y"
    then have "summarises es x" "summarises es y" using m by auto
    then obtain e f where "e \<in> set es" "f \<in> set es"
      and "entry_label e = usage_label x" "entry_ranAt e = usage_lastRanAt x"
      and "entry_label f = usage_label y" "entry_ranAt f = usage_lastRanAt y"
      by (auto simp: summarises_def list_ex_iff)
    with eq assms(2) have "usage_label x = usage_label y"
      by (metis distinct_map inj_onD)
    with dl \<open>x \<in> snd ` set m\<close> \<open>y \<in> snd ` set m\<close> show "x = y"
      by (auto simp: distinct_map inj_on_def)
  qed
  with dl show "distinct (map usage_lastRanAt (map snd m))"
    by (simp only: distinct_map[of usage_lastRanAt] distinct_map[of usage_label] set_map)
qed

text \<open>
  the local ranking has one rank for every label that was run, with the number of runs,
  the time of the last run and the body that run had. It lists them by the number of runs,
  most first, and of two run equally often the one run last. Runs are stamped with different
  times.
\<close>
theorem topUsedCommands_effect:
  assumes "distinct (map entry_ranAt es)"
  shows "\<exists>ranking. topUsedCommands es limit = take limit ranking
     \<and> distinct (map usage_label ranking)
     \<and> usage_label ` set ranking = entry_label ` set es
     \<and> list_all (summarises es) ranking
     \<and> sorted_wrt (\<lambda>a b. usage_count b < usage_count a
           \<or> usage_count a = usage_count b \<and> usage_lastRanAt b < usage_lastRanAt a) ranking"
proof -
  define ranks where "ranks = map snd (foldl use_entry [] es)"
  define ranking where "ranking = js_sort usage_order ranks"
  note ranks = usage_map_ranks[OF usage_map_ok_all assms, folded ranks_def]
  have total: "ranking = js_sort usage_order_total ranks"
    unfolding ranking_def
  proof (rule js_sort_cong)
    show "distinct ranks" using ranks(4) by (simp add: distinct_map)
    show "usage_order x y < 0 \<longleftrightarrow> usage_order_total x y < 0"
      if "x \<in> set ranks" "y \<in> set ranks" "x \<noteq> y" for x y
      using that ranks(4) by (subst usage_order_agrees) (auto simp: distinct_map inj_on_def)
  qed
  have "sorted_wrt (\<lambda>a b. usage_order_total a b \<le> 0 \<and> usage_lastRanAt a \<noteq> usage_lastRanAt b) ranking"
    using usage.js_sort_sorted[of ranks] ranks(4)
    by (intro sorted_wrt_distinct) (simp_all add: total)
  then have "sorted_wrt (\<lambda>a b. usage_count b < usage_count a
           \<or> usage_count a = usage_count b \<and> usage_lastRanAt b < usage_lastRanAt a) ranking"
    by (rule sorted_wrt_mono_rel[rotated])
      (auto simp: usage_order_total_def or_else_def split: if_splits)
  moreover have "topUsedCommands es limit = take limit ranking"
    by (simp add: topUsedCommands_def ranking_def ranks_def)
  moreover have "usage_label ` set ranking = entry_label ` set es"
    using ranks(2) by (simp add: ranking_def ranks_def image_image)
  moreover have "distinct (map usage_label ranking)" "list_all (summarises es) ranking"
    using ranks(1,3) by (simp_all add: ranking_def list_all_iff)
  ultimately show ?thesis by blast
qed

definition sample_entry :: "string \<Rightarrow> string \<Rightarrow> string \<Rightarrow> history_entry" where
  "sample_entry l b t = \<lparr>entry_id = t, entry_label = l, entry_body = b, entry_ranAt = t,
     entry_exitStatus = Some 0, entry_error = None\<rparr>"

theorem topUsedCommands_effect_witness:
  "\<exists>ranking. topUsedCommands [sample_entry ''disk'' ''df -h'' ''3'', sample_entry ''up'' ''w'' ''2'',
        sample_entry ''disk'' ''df'' ''1''] 1 = take 1 ranking
     \<and> usage_label ` set ranking = {''disk'', ''up''}
     \<and> list_all (summarises [sample_entry ''disk'' ''df -h'' ''3'', sample_entry ''up'' ''w'' ''2'',
        sample_entry ''disk'' ''df'' ''1'']) ranking"
  using topUsedCommands_effect[of "[sample_entry ''disk'' ''df -h'' ''3'', sample_entry ''up'' ''w'' ''2'',
        sample_entry ''disk'' ''df'' ''1'']" 1]
  by (auto simp: sample_entry_def)

section \<open>Reading the history file\<close>

text \<open>
  The three forms a command takes in a history file: alone on its line, preceded by the
  timestamp line of \<open>HISTTIMEFORMAT\<close>, or prefixed by \<open>EXTENDED_HISTORY\<close>.
\<close>

datatype history_form = Bare string | Bash_stamped string string | Zsh_extended string string string

primrec written_command :: "history_form \<Rightarrow> string" where
  "written_command (Bare c) = c"
| "written_command (Bash_stamped t c) = c"
| "written_command (Zsh_extended t d c) = c"

primrec written_lines :: "history_form \<Rightarrow> string list" where
  "written_lines (Bare c) = [c]"
| "written_lines (Bash_stamped t c) = [CHR ''#'' # t, c]"
| "written_lines (Zsh_extended t d c) = [CHR '':'' # CHR '' '' # t @ CHR '':'' # d @ CHR '';'' # c]"

definition written_file :: "history_form list \<Rightarrow> string" where
  "written_file hs = concat (map (\<lambda>l. l @ [newline]) (concat (map written_lines hs)))"

definition one_line :: "string \<Rightarrow> bool" where
  "one_line c \<longleftrightarrow> c \<noteq> [] \<and> trim c = c \<and> \<not> list_ex line_terminator c"

definition digits :: "string \<Rightarrow> bool" where
  "digits s \<longleftrightarrow> s \<noteq> [] \<and> list_all is_digit s"

text \<open>A command that is written alone must not read as one of the other two forms.\<close>

primrec writable :: "history_form \<Rightarrow> bool" where
  "writable (Bare c) \<longleftrightarrow> one_line c \<and> \<not> is_bash_timestamp c \<and> zsh_match c = None"
| "writable (Bash_stamped t c) \<longleftrightarrow> digits t \<and> one_line c \<and> \<not> is_bash_timestamp c \<and> zsh_match c = None"
| "writable (Zsh_extended t d c) \<longleftrightarrow> digits t \<and> digits d \<and> one_line c"

lemma is_digit_not_space: "is_digit c \<Longrightarrow> \<not> js_space c \<and> c \<noteq> CHR '':'' \<and> c \<noteq> CHR '';'' \<and> \<not> line_terminator c"
  by (auto simp: is_digit_def js_space_def line_terminator_def)

lemma line_terminator_newline [simp]: "line_terminator newline"
  by (simp add: line_terminator_def newline_def)

lemma split_on_line:
  "c \<notin> set l \<Longrightarrow> split_on c (l @ c # rest) = l # split_on c rest"
  by (induction l) auto

lemma trim_solid:
  assumes "s \<noteq> []" and "\<not> js_space (hd s)" and "\<not> js_space (last s)"
  shows "trim s = s"
proof -
  have "dropWhile js_space s = s" "dropWhile js_space (rev s) = rev s"
    using assms by (auto intro!: dropWhile_rev_id simp: hd_rev)
  then show ?thesis by (simp add: trim_def)
qed

lemma trim_ends:
  assumes "trim c = c" and "c \<noteq> []"
  shows "\<not> js_space (hd c)" and "\<not> js_space (last c)"
proof -
  let ?r = "dropWhile js_space (rev (dropWhile js_space c))"
  from assms have c: "c = rev ?r" by (simp add: trim_def)
  then have ne: "?r \<noteq> []" using assms(2) by (metis rev.simps(1))
  then have "\<not> js_space (hd ?r)" by (rule hd_dropWhile)
  moreover have "last c = hd ?r" by (subst c) (use ne in \<open>simp add: last_rev\<close>)
  ultimately show "\<not> js_space (last c)" by simp
  have "length ?r \<le> length (dropWhile js_space c)"
    using length_dropWhile_le[of js_space "rev (dropWhile js_space c)"] by simp
  moreover have "length ?r = length c" by (metis c length_rev)
  ultimately have "length (dropWhile js_space c) = length c"
    using length_dropWhile_le[of js_space c] by simp
  then show "\<not> js_space (hd c)" using assms(2) length_dropWhile_le[of js_space "tl c"]
    by (cases c) auto
qed

lemma after_digits_written:
  assumes "digits t" and "\<not> is_digit sep"
  shows "after_digits sep (t @ sep # r) = Some r"
proof -
  from assms have "dropWhile is_digit (t @ sep # r) = sep # r"
      "takeWhile is_digit (t @ sep # r) = t"
    by (auto simp: digits_def list_all_iff dropWhile_append takeWhile_append)
  with assms(1) show ?thesis by (simp add: after_digits_def digits_def)
qed

lemma not_digits: "\<not> is_digit (CHR '':'')" "\<not> is_digit (CHR '';'')"
  by (simp_all add: is_digit_def)

lemma digits_no_space: "digits t \<Longrightarrow> dropWhile js_space (t @ r) = t @ r"
  by (cases t) (auto simp: digits_def is_digit_not_space)

lemma parse_bare:
  "one_line c \<Longrightarrow> \<not> is_bash_timestamp c \<Longrightarrow> zsh_match c = None \<Longrightarrow> parse_line c = Some c"
  by (simp add: parse_line_def one_line_def)

lemma parse_timestamp: "digits t \<Longrightarrow> parse_line (CHR ''#'' # t) = None"
proof -
  assume t: "digits t"
  then have "\<not> js_space (last (CHR ''#'' # t))"
    by (auto simp: digits_def list_all_iff is_digit_not_space)
  then have "trim (CHR ''#'' # t) = CHR ''#'' # t"
    by (intro trim_solid) (simp_all add: js_space_def)
  with t show ?thesis by (simp add: parse_line_def is_bash_timestamp_def digits_def)
qed

lemma parse_extended:
  assumes "digits t" and "digits d" and "one_line c"
  shows "parse_line (CHR '':'' # CHR '' '' # t @ CHR '':'' # d @ CHR '';'' # c) = Some c"
proof -
  let ?l = "CHR '':'' # CHR '' '' # t @ CHR '':'' # d @ CHR '';'' # c"
  have "trim ?l = ?l"
    using assms(3) trim_ends[of c]
    by (intro trim_solid) (simp_all add: one_line_def js_space_def)
  moreover have "zsh_match ?l = Some c"
    using assms not_digits
    by (simp add: zsh_match_def digits_no_space after_digits_written one_line_def js_space_def)
  moreover have "\<not> is_bash_timestamp ?l" by (simp add: is_bash_timestamp_def)
  ultimately show ?thesis using assms(3) by (simp add: parse_line_def one_line_def)
qed

lemma parse_written:
  "writable h \<Longrightarrow> List.map_filter parse_line (written_lines h) = [written_command h]"
  by (cases h) (simp_all add: List.map_filter_def parse_bare parse_timestamp parse_extended)

lemma written_lines_solid: "writable h \<Longrightarrow> l \<in> set (written_lines h) \<Longrightarrow> newline \<notin> set l"
proof -
  have d: "newline \<notin> set t" if "digits t" for t
    using that is_digit_not_space[of newline] line_terminator_newline
    by (auto simp: digits_def list_all_iff)
  have c: "newline \<notin> set c" if "one_line c" for c
    using that by (auto simp: one_line_def list_ex_iff)
  show "writable h \<Longrightarrow> l \<in> set (written_lines h) \<Longrightarrow> newline \<notin> set l"
    by (cases h) (auto simp: newline_def dest: d[unfolded newline_def] c[unfolded newline_def])
qed

lemma split_on_lines:
  "(\<And>l. l \<in> set ls \<Longrightarrow> c \<notin> set l) \<Longrightarrow> split_on c (concat (map (\<lambda>l. l @ [c]) ls)) = ls @ [[]]"
  by (induction ls) (auto simp: split_on_line)

lemma map_filter_append: "List.map_filter f (xs @ ys) = List.map_filter f xs @ List.map_filter f ys"
  by (simp add: List.map_filter_def)

lemma map_filter_concat_written:
  "list_all writable hs \<Longrightarrow>
     List.map_filter parse_line (concat (map written_lines hs)) = map written_command hs"
  by (induction hs) (simp_all add: map_filter_append parse_written)

text \<open>
  C35: whatever mixture of the three forms a shell writes its history in, parsing the file
  gives back exactly the commands in the order they were run, without the metadata.
\<close>
theorem parse_history_roundtrip:
  assumes "list_all writable hs"
  shows "parseRemoteHistory (written_file hs) = map written_command hs"
proof -
  have "split_on newline (written_file hs) = concat (map written_lines hs) @ [[]]"
    unfolding written_file_def
    by (rule split_on_lines) (use assms written_lines_solid in \<open>auto simp: list_all_iff\<close>)
  moreover have "parse_line [] = None" by (simp add: parse_line_def)
  ultimately show ?thesis
    using map_filter_concat_written[OF assms]
    by (simp add: parseRemoteHistory_def parse_lines_eq map_filter_append List.map_filter_def)
qed

theorem parse_history_roundtrip_witness:
  "parseRemoteHistory (written_file [Bare ''ls'', Bash_stamped ''17'' ''df -h'', Zsh_extended ''17'' ''0'' ''w''])
     = [''ls'', ''df -h'', ''w'']"
  by (subst parse_history_roundtrip)
    (simp_all add: digits_def one_line_def is_digit_def line_terminator_def is_bash_timestamp_def
      zsh_match_def trim_def js_space_def)

end
