(* ===== verification/Terminal_Input.thy ===== *)
theory Terminal_Input
  imports Command_History "HOL-Library.Word"
begin

text \<open>
  The pure parts of a terminal pane, \<open>src/src/components/terminal/TerminalView.tsx\<close>: decoding
  the base64 chunks the backend sends, the detection of a password prompt in the output, the
  reconstruction of command lines from keystrokes, and the keyboard shortcuts.
\<close>

section \<open>base64ToBytes\<close>

text \<open>
  \<open>atob\<close> is the forgiving base64 decoding of the web platform: white space is dropped, one or
  two padding signs at the end of a whole number of quartets are dropped, and what remains
  must be made of the 64 digits and must not leave a single digit over. The result has one
  character below 256 per byte.
\<close>

definition ascii_space :: "char \<Rightarrow> bool" where
  "ascii_space c \<longleftrightarrow> of_char c \<in> {9, 10, 12, 13, 32 :: nat}"

definition sextet_of :: "char \<Rightarrow> nat option" where
  "sextet_of c =
     (let n = of_char c :: nat
      in if 65 \<le> n \<and> n \<le> 90 then Some (n - 65)
         else if 97 \<le> n \<and> n \<le> 122 then Some (n - 71)
         else if 48 \<le> n \<and> n \<le> 57 then Some (n + 4)
         else if n = 43 then Some 62
         else if n = 47 then Some 63
         else None)"

definition strip_padding :: "string \<Rightarrow> string" where
  "strip_padding s =
     (if length s mod 4 \<noteq> 0 then s
      else (case rev s of
          a # b # r \<Rightarrow>
            if a = CHR ''='' \<and> b = CHR ''='' then rev r
            else if a = CHR ''='' then rev (b # r) else s
        | _ \<Rightarrow> s))"

fun join_sextets :: "nat list \<Rightarrow> nat list" where
  "join_sextets (a # b # c # d # r) =
     (a * 4 + b div 16) # ((b mod 16) * 16 + c div 4) # ((c mod 4) * 64 + d) # join_sextets r"
| "join_sextets [a, b, c] = [a * 4 + b div 16, (b mod 16) * 16 + c div 4]"
| "join_sextets [a, b] = [a * 4 + b div 16]"
| "join_sextets _ = []"

definition atob :: "string \<Rightarrow> string option" where
  "atob data =
     (let s = strip_padding (filter (\<lambda>c. \<not> ascii_space c) data)
      in if length s mod 4 = 1 \<or> list_ex (\<lambda>c. sextet_of c = None) s then None
         else Some (map char_of (join_sextets (map (\<lambda>c. the (sextet_of c)) s))))"

definition base64ToBytes :: "string \<Rightarrow> 8 word list option" where
  "base64ToBytes base64 =
     map_option (map (\<lambda>ch. of_nat (of_char ch))) (atob base64)"

text \<open>
  The encoding of RFC 4648, which the backend uses for the \<open>data\<close> of a session event, as the
  reference the decoder is measured against.
\<close>

definition digit_of :: "nat \<Rightarrow> char" where
  "digit_of v =
     (if v < 26 then char_of (v + 65) else if v < 52 then char_of (v + 71)
      else if v < 62 then char_of (v - 4) else if v = 62 then CHR ''+'' else CHR ''/'')"

fun split_bytes :: "nat list \<Rightarrow> nat list" where
  "split_bytes (x # y # z # r) =
     (x div 4) # ((x mod 4) * 16 + y div 16) # ((y mod 16) * 4 + z div 64) # (z mod 64) # split_bytes r"
| "split_bytes [x, y] = [x div 4, (x mod 4) * 16 + y div 16, (y mod 16) * 4]"
| "split_bytes [x] = [x div 4, (x mod 4) * 16]"
| "split_bytes [] = []"

definition encode_base64 :: "8 word list \<Rightarrow> string" where
  "encode_base64 bs =
     map digit_of (split_bytes (map unat bs)) @ replicate ((3 - length bs mod 3) mod 3) (CHR ''='')"

lemma join_split_bytes:
  assumes "\<And>b. b \<in> set bs \<Longrightarrow> b < 256"
  shows "join_sextets (split_bytes bs) = bs"
  using assms
proof (induction bs rule: split_bytes.induct)
  case (1 x y z r)
  then have "x < 256" "y < 256" "z < 256" "join_sextets (split_bytes r) = r" by auto
  then show ?case by (simp; presburger)
next
  case (2 x y)
  then have "x < 256" "y < 256" by auto
  then show ?case by (simp; presburger)
next
  case (3 x)
  then have "x < 256" by auto
  then show ?case by simp
qed simp

lemma sextet_bounds:
  "x < 256 \<Longrightarrow> x div 4 < (64 :: nat)"
  "y < 256 \<Longrightarrow> (x mod 4) * 16 + y div 16 < (64 :: nat)"
  "z < 256 \<Longrightarrow> (y mod 16) * 4 + z div 64 < (64 :: nat)"
  "(x mod 4) * 16 < (64 :: nat)" "(y mod 16) * 4 < (64 :: nat)"
proof -
  have m: "x mod 4 < 4" "y mod 16 < 16" by simp_all
  show "x < 256 \<Longrightarrow> x div 4 < 64" by simp
  show "(x mod 4) * 16 < 64" "(y mod 16) * 4 < 64" using m by linarith+
  have "y < 256 \<Longrightarrow> y div 16 < 16" "z < 256 \<Longrightarrow> z div 64 < 4" by simp_all
  then show "y < 256 \<Longrightarrow> (x mod 4) * 16 + y div 16 < 64" "z < 256 \<Longrightarrow> (y mod 16) * 4 + z div 64 < 64"
    using m by linarith+
qed

lemma split_bytes_bound:
  "list_all (\<lambda>b. b < 256) bs \<Longrightarrow> list_all (\<lambda>v. v < 64) (split_bytes bs)"
  by (induction bs rule: split_bytes.induct) (simp_all add: sextet_bounds)

lemma length_split_bytes:
  "(length (split_bytes bs) + (3 - length bs mod 3) mod 3) mod 4 = 0"
  by (induction bs rule: split_bytes.induct) auto

lemma length_split_bytes_mod: "length (split_bytes bs) mod 4 \<noteq> 1"
  by (induction bs rule: split_bytes.induct) auto

lemma of_char_digit:
  "v < 64 \<Longrightarrow> of_char (digit_of v) =
     (if v < 26 then v + 65 else if v < 52 then v + 71 else if v < 62 then v - 4
      else if v = 62 then 43 else 47 :: nat)"
  by (simp add: digit_of_def)

lemma digit_sextet: "v < 64 \<Longrightarrow> sextet_of (digit_of v) = Some v"
  unfolding sextet_of_def Let_def of_char_digit by (auto split: if_splits)

lemma digit_solid: "v < 64 \<Longrightarrow> \<not> ascii_space (digit_of v) \<and> digit_of v \<noteq> CHR ''=''"
proof -
  assume v: "v < 64"
  then have "of_char (digit_of v) \<noteq> (61 :: nat)" "\<not> ascii_space (digit_of v)"
    unfolding ascii_space_def of_char_digit[OF v] by (auto split: if_splits)
  moreover have "of_char (CHR ''='') = (61 :: nat)" by code_simp
  ultimately show ?thesis by metis
qed

lemma strip_padding_padded:
  assumes "\<And>c. c \<in> set s \<Longrightarrow> c \<noteq> CHR ''=''" and "n \<le> 2" and "(length s + n) mod 4 = 0"
  shows "strip_padding (s @ replicate n (CHR ''='')) = s"
proof -
  from assms(2) consider "n = 0" | "n = 1" | "n = 2" by linarith
  then show ?thesis
  proof cases
    case 1
    show ?thesis
    proof (cases "rev s")
      case (Cons a r)
      then have "a \<in> set s" by (metis list.set_intros(1) set_rev)
      with 1 Cons assms(1) show ?thesis by (auto simp: strip_padding_def split: list.split)
    qed (simp add: strip_padding_def 1)
  next
    case 2
    show ?thesis
    proof (cases "rev s")
      case (Cons a r)
      then have "a \<in> set s" "s = rev (a # r)" by (metis list.set_intros(1) set_rev, metis rev_rev_ident)
      with 2 assms show ?thesis by (auto simp: strip_padding_def)
    qed (use 2 assms(3) in auto)
  next
    case 3
    then show ?thesis using assms(3) by (simp add: strip_padding_def numeral_2_eq_2)
  qed
qed

lemma strip_padding_keeps:
  assumes "c \<in> set s" and "c \<noteq> CHR ''=''"
  shows "c \<in> set (strip_padding s)"
proof (cases "rev s")
  case (Cons a r)
  then have s: "s = rev r @ [a]" by (metis rev.simps(2) rev_rev_ident)
  show ?thesis
  proof (cases r)
    case (Cons b r')
    with s assms show ?thesis by (auto simp: strip_padding_def)
  qed (use s assms in \<open>auto simp: strip_padding_def\<close>)
qed (use assms in simp)

lemma byte_bound: "unat b < 256" for b :: "8 word"
  using unsigned_less[of b] by simp

text \<open>
  Decoding what the backend encodes gives the bytes back, whatever they are; white space
  strewn into the text does not matter, and a text with a foreign character is refused.
\<close>
theorem base64_roundtrip:
  "base64ToBytes (encode_base64 bs) = Some bs
     \<and> base64ToBytes (concat (map (\<lambda>c. [c, newline]) (encode_base64 bs))) = Some bs
     \<and> base64ToBytes (CHR ''-'' # encode_base64 bs) = None"
proof -
  let ?v = "split_bytes (map unat bs)" and ?n = "(3 - length bs mod 3) mod 3"
  have small: "b < 256" if "b \<in> set (map unat bs)" for b
    using that byte_bound by auto
  have v: "v < 64" if "v \<in> set ?v" for v
    using split_bytes_bound[of "map unat bs"] small that by (auto simp: list_all_iff)
  have pad: "\<not> ascii_space (CHR ''='')" "ascii_space newline" "\<not> ascii_space (CHR ''-'')"
    by code_simp+
  have solid: "filter (\<lambda>c. \<not> ascii_space c) (encode_base64 bs) = encode_base64 bs"
    using v digit_solid by (auto simp: encode_base64_def pad)
  have strip: "strip_padding (encode_base64 bs) = map digit_of ?v"
    unfolding encode_base64_def
  proof (rule strip_padding_padded)
    show "c \<noteq> CHR ''=''" if "c \<in> set (map digit_of ?v)" for c
      using that v digit_solid by auto
    show "(length (map digit_of ?v) + ?n) mod 4 = 0"
      using length_split_bytes[of "map unat bs"] by simp
  qed (use less_Suc_eq_le in force)
  have sext: "map (\<lambda>c. the (sextet_of c)) (map digit_of ?v) = ?v"
    using v by (simp add: digit_sextet map_idI)
  have all: "\<not> list_ex (\<lambda>c. sextet_of c = None) (map digit_of ?v)"
    using v by (auto simp: list_ex_iff digit_sextet)
  have join: "join_sextets ?v = map unat bs"
    using join_split_bytes small by blast
  have bytes: "map (\<lambda>ch. of_nat (of_char ch)) (map char_of (map unat bs)) = bs"
    using small by (auto simp: map_idI)
  have dec: "atob s = Some (map char_of (map unat bs))"
    if "filter (\<lambda>c. \<not> ascii_space c) s = encode_base64 bs" for s
    using that all length_split_bytes_mod[of "map unat bs"]
    by (simp add: atob_def strip sext join del: map_map)
  have spread: "filter (\<lambda>c. \<not> ascii_space c) (concat (map (\<lambda>c. [c, newline]) s))
      = filter (\<lambda>c. \<not> ascii_space c) s" for s
    by (induction s) (auto simp: pad)
  have "base64ToBytes (CHR ''-'' # encode_base64 bs) = None"
  proof -
    let ?s = "CHR ''-'' # encode_base64 bs"
    have "CHR ''-'' \<in> set (strip_padding ?s)"
      by (rule strip_padding_keeps) (simp, code_simp)
    moreover have "sextet_of (CHR ''-'') = None" by code_simp
    ultimately have "list_ex (\<lambda>c. sextet_of c = None) (strip_padding ?s)"
      by (auto simp: list_ex_iff)
    with solid pad show ?thesis by (simp add: base64ToBytes_def atob_def)
  qed
  with dec solid spread bytes show ?thesis
    by (simp add: base64ToBytes_def del: map_map)
qed

section \<open>Following what the user types\<close>

record typing =
  lineBuffer :: string
  outputTail :: string
  suppressNextLine :: bool

definition initial_typing :: typing where
  "initial_typing = \<lparr>lineBuffer = [], outputTail = [], suppressNextLine = False\<rparr>"

text \<open>\<open>SECRET_PROMPT_RE\<close>, \<open>/password|passphrase/i\<close>, tested anywhere in the text.\<close>

definition secret_prompt :: "string \<Rightarrow> bool" where
  "secret_prompt s \<longleftrightarrow> str_includes (toLowerCase s) ''password'' \<or> str_includes (toLowerCase s) ''passphrase''"

text \<open>\<open>s.slice(-n)\<close> for a positive n.\<close>

definition slice_last :: "nat \<Rightarrow> string \<Rightarrow> string" where
  "slice_last n s = drop (length s - n) s"

definition TAIL_LENGTH :: nat where "TAIL_LENGTH = 256"

text \<open>The branch of the channel callback for a chunk of output, decoded to text.\<close>

definition hear_output :: "string \<Rightarrow> typing \<Rightarrow> typing" where
  "hear_output text t =
     (let tail = slice_last TAIL_LENGTH (outputTail t @ text)
      in if secret_prompt tail then t\<lparr>suppressNextLine := True, outputTail := []\<rparr>
         else t\<lparr>outputTail := tail\<rparr>)"

definition line_end :: "char \<Rightarrow> bool" where
  "line_end ch \<longleftrightarrow> of_char ch \<in> {13, 10 :: nat}"

definition rubout :: "char \<Rightarrow> bool" where
  "rubout ch \<longleftrightarrow> of_char ch \<in> {127, 8 :: nat}"

definition line_abort :: "char \<Rightarrow> bool" where
  "line_abort ch \<longleftrightarrow> of_char ch \<in> {3, 21 :: nat}"

text \<open>
  One character of \<open>onData\<close>'s loop: the new state and the lines recorded in the history (none
  or one).
\<close>

definition type_char :: "char \<Rightarrow> typing \<Rightarrow> typing \<times> string list" where
  "type_char ch t =
     (if line_end ch then
        (let line = trim (lineBuffer t)
         in (t\<lparr>lineBuffer := [], suppressNextLine := False\<rparr>,
             if line \<noteq> [] \<and> \<not> suppressNextLine t then [line] else []))
      else if rubout ch then (t\<lparr>lineBuffer := butlast (lineBuffer t)\<rparr>, [])
      else if line_abort ch then (t\<lparr>lineBuffer := []\<rparr>, [])
      else if 32 \<le> (of_char ch :: nat) then (t\<lparr>lineBuffer := lineBuffer t @ [ch]\<rparr>, [])
      else (t, []))"

fun type_chars :: "string \<Rightarrow> typing \<Rightarrow> typing \<times> string list" where
  "type_chars [] t = (t, [])"
| "type_chars (ch # data) t =
     (let (t', new) = type_char ch t; (t'', more) = type_chars data t' in (t'', new @ more))"

definition escape_char :: char where "escape_char = CHR 0x1B"

definition type_data :: "string \<Rightarrow> typing \<Rightarrow> typing \<times> string list" where
  "type_data data t = (if starts_with data [escape_char] then (t, []) else type_chars data t)"

text \<open>Successive calls of \<open>onData\<close>.\<close>

fun type_chunks :: "string list \<Rightarrow> typing \<Rightarrow> typing \<times> string list" where
  "type_chunks [] t = (t, [])"
| "type_chunks (data # rest) t =
     (let (t', new) = type_data data t; (t'', more) = type_chunks rest t' in (t'', new @ more))"

text \<open>
  The reference: cut everything typed at its line ends, edit each piece on its own, and keep
  the trimmed lines that are not empty.
\<close>

definition edit_char :: "string \<Rightarrow> char \<Rightarrow> string" where
  "edit_char line ch =
     (if rubout ch then butlast line
      else if line_abort ch then []
      else if 32 \<le> (of_char ch :: nat) then line @ [ch] else line)"

fun edited_lines :: "string \<Rightarrow> string \<Rightarrow> string list" where
  "edited_lines line [] = [line]"
| "edited_lines line (ch # data) =
     (if line_end ch then line # edited_lines [] data else edited_lines (edit_char line ch) data)"

definition kept_lines :: "bool \<Rightarrow> string list \<Rightarrow> string list" where
  "kept_lines suppressed ls = filter (\<lambda>l. l \<noteq> []) (map trim (if suppressed then tl ls else ls))"

lemma edited_lines_nonempty [simp]: "edited_lines line data \<noteq> []"
  by (induction data arbitrary: line) auto

lemma type_chars_append:
  "type_chars (d @ e) t =
     (let (t', new) = type_chars d t; (t'', more) = type_chars e t' in (t'', new @ more))"
  by (induction d arbitrary: t) (auto simp: Let_def split: prod.splits)

lemma type_chunks_concat:
  "\<forall>c \<in> set chunks. \<not> starts_with c [escape_char] \<Longrightarrow>
     type_chunks chunks t = type_chars (concat chunks) t"
  by (induction chunks arbitrary: t) (auto simp: type_chars_append type_data_def Let_def)

lemma type_chars_reference:
  "type_chars data t =
     (let ls = edited_lines (lineBuffer t) data
      in (t\<lparr>lineBuffer := last ls, suppressNextLine := suppressNextLine t \<and> length ls = 1\<rparr>,
          kept_lines (suppressNextLine t) (butlast ls)))"
proof (induction data arbitrary: t)
  case Nil
  then show ?case by (simp add: kept_lines_def Let_def)
next
  case (Cons ch data)
  show ?case
  proof (cases "line_end ch")
    case True
    then show ?thesis
      by (auto simp: type_char_def Cons kept_lines_def Let_def)
  next
    case False
    then show ?thesis
      by (auto simp: type_char_def Cons edit_char_def Let_def)
  qed
qed

text \<open>
  C27: However the terminal cuts the keystrokes into chunks, the history receives exactly the
  lines a line editor would submit: the text is cut at its line ends, each piece is edited with
  its rubouts and aborts, and the trimmed, non-empty lines are recorded in order, the first one
  left out if it answers a secret prompt. A chunk that starts with an escape character changes
  nothing.
\<close>
theorem typed_lines_reference:
  assumes "\<forall>c \<in> set chunks. \<not> starts_with c [escape_char]"
  shows "snd (type_chunks chunks t) =
           kept_lines (suppressNextLine t) (butlast (edited_lines (lineBuffer t) (concat chunks)))
     \<and> lineBuffer (fst (type_chunks chunks t)) = last (edited_lines (lineBuffer t) (concat chunks))
     \<and> type_chunks (chunks @ [escape_char # rest]) t = type_chunks chunks t"
proof -
  have "type_chunks (cs @ [escape_char # rest]) t = type_chunks cs t" for cs t
    by (induction cs arbitrary: t) (auto simp: type_data_def Let_def split: prod.splits)
  then show ?thesis
    by (simp add: type_chunks_concat[OF assms] type_chars_reference Let_def)
qed

theorem typed_lines_reference_witness:
  "snd (type_chunks [''lx'', [CHR 0x7F, CHR ''s''], [CHR 0x0D], ''pwd'' @ [CHR 0x0D] @ ''make''] initial_typing)
     = [''ls'', ''pwd'']"
proof -
  have "kept_lines False (butlast (edited_lines []
          (concat [''lx'', [CHR 0x7F, CHR ''s''], [CHR 0x0D], ''pwd'' @ [CHR 0x0D] @ ''make''])))
        = [''ls'', ''pwd'']"
    and "\<forall>c \<in> set [''lx'', [CHR 0x7F, CHR ''s''], [CHR 0x0D], ''pwd'' @ [CHR 0x0D] @ ''make''].
          \<not> starts_with c [escape_char]"
    by code_simp+
  then show ?thesis
    using typed_lines_reference[of "[''lx'', [CHR 0x7F, CHR ''s''], [CHR 0x0D], ''pwd'' @ [CHR 0x0D] @ ''make'']" initial_typing]
    by (simp add: initial_typing_def)
qed

lemma slice_last_slice: "slice_last n (slice_last n a @ b) = slice_last n (a @ b)"
  by (cases "length a \<le> n") (auto simp: slice_last_def add.commute)

lemma slice_last_short: "length s \<le> n \<Longrightarrow> slice_last n s = s"
  by (simp add: slice_last_def)

lemma hear_keeps_suppressed: "suppressNextLine t \<Longrightarrow> suppressNextLine (foldl (\<lambda>t c. hear_output c t) t cs)"
  by (induction cs arbitrary: t) (simp_all add: hear_output_def Let_def)

lemma prompt_heard:
  assumes "length (outputTail t) \<le> TAIL_LENGTH" and "\<not> secret_prompt (outputTail t)"
    and "secret_prompt (slice_last TAIL_LENGTH (outputTail t @ concat cs))"
  shows "suppressNextLine (foldl (\<lambda>t c. hear_output c t) t cs)"
  using assms
proof (induction cs arbitrary: t)
  case Nil
  then show ?case by (simp add: slice_last_short)
next
  case (Cons c cs)
  show ?case
  proof (cases "secret_prompt (slice_last TAIL_LENGTH (outputTail t @ c))")
    case True
    then have "suppressNextLine (hear_output c t)" by (simp add: hear_output_def)
    then show ?thesis by (simp add: hear_keeps_suppressed)
  next
    case False
    then have tail: "outputTail (hear_output c t) = slice_last TAIL_LENGTH (outputTail t @ c)"
      by (simp add: hear_output_def)
    have "length (outputTail (hear_output c t)) \<le> TAIL_LENGTH"
      by (simp add: tail slice_last_def)
    moreover have "secret_prompt (slice_last TAIL_LENGTH (outputTail (hear_output c t) @ concat cs))"
      using Cons.prems(3) by (simp add: tail slice_last_slice)
    ultimately show ?thesis using Cons.IH False by (simp add: tail)
  qed
qed

lemma edited_lines_append:
  "list_all (\<lambda>ch. \<not> line_end ch) p \<Longrightarrow> line_end e \<Longrightarrow>
     edited_lines line (p @ e # q) = foldl edit_char line p # edited_lines [] q"
  by (induction p arbitrary: line) auto

lemma edited_lines_plain:
  "list_all (\<lambda>ch. \<not> line_end ch) p \<Longrightarrow> edited_lines line p = [foldl edit_char line p]"
  by (induction p arbitrary: line) auto

text \<open>
  C26: When the last 256 characters of the output since the last prompt mention a password or
  passphrase, in any case and however the output was cut into chunks, the next line the user
  submits is not recorded, however it is typed, and the recording resumes with the line after
  it.
\<close>
theorem secret_line_not_recorded:
  assumes "length (outputTail t) \<le> TAIL_LENGTH" and "\<not> secret_prompt (outputTail t)"
    and "secret_prompt (slice_last TAIL_LENGTH (outputTail t @ concat output))"
    and "concat chunks = secret @ enter # command @ [enter]"
    and "list_all (\<lambda>ch. \<not> line_end ch) (secret @ command)" and "line_end enter"
    and "\<forall>c \<in> set chunks. \<not> starts_with c [escape_char]"
  shows "snd (type_chunks chunks (foldl (\<lambda>t c. hear_output c t) t output))
           = kept_lines False [foldl edit_char [] command]"
  using prompt_heard[OF assms(1-3)] assms(5,6)
  by (simp add: type_chunks_concat[OF assms(7)] assms(4) type_chars_reference Let_def
      edited_lines_append kept_lines_def)

theorem secret_line_not_recorded_witness:
  "snd (type_chunks [''hunter2'', [CHR 0x0D], ''ls'' @ [CHR 0x0D]]
      (foldl (\<lambda>t c. hear_output c t) initial_typing [''[sudo] Pass'', ''word for ann: '']))
     = [''ls'']"
proof -
  have h: "length (outputTail initial_typing) \<le> TAIL_LENGTH" "\<not> secret_prompt (outputTail initial_typing)"
    "secret_prompt (slice_last TAIL_LENGTH (outputTail initial_typing @ concat [''[sudo] Pass'', ''word for ann: '']))"
    "concat [''hunter2'', [CHR 0x0D], ''ls'' @ [CHR 0x0D]] = ''hunter2'' @ CHR 0x0D # ''ls'' @ [CHR 0x0D]"
    "list_all (\<lambda>ch. \<not> line_end ch) (''hunter2'' @ ''ls'')" "line_end (CHR 0x0D)"
    "\<forall>c \<in> set [''hunter2'', [CHR 0x0D], ''ls'' @ [CHR 0x0D]]. \<not> starts_with c [escape_char]"
    "kept_lines False [foldl edit_char [] ''ls''] = [''ls'']"
    by code_simp+
  show ?thesis
    using secret_line_not_recorded[OF h(1-7)] h(8) by simp
qed

section \<open>Keyboard shortcuts\<close>

record key_event =
  ev_keydown :: bool
  ev_ctrlKey :: bool
  ev_metaKey :: bool
  ev_shiftKey :: bool
  ev_key :: string

datatype key_action = Open_search | Copy_selection | Paste_clipboard

text \<open>
  The custom key handler: whether xterm goes on with the key, whether the default action is
  prevented, and what is done. The shell receives the key only when xterm goes on.
\<close>

definition custom_key :: "bool \<Rightarrow> key_event \<Rightarrow> bool \<times> bool \<times> key_action option" where
  "custom_key hasSelection e =
     (if \<not> ev_keydown e then (True, False, None)
      else let md = ev_ctrlKey e \<or> ev_metaKey e; key = toLowerCase (ev_key e)
        in if md \<and> \<not> ev_shiftKey e \<and> key = ''f'' then (False, True, Some Open_search)
           else if md \<and> \<not> ev_shiftKey e \<and> key = ''c'' then
             (if hasSelection then (False, True, Some Copy_selection) else (True, False, None))
           else if md \<and> ev_shiftKey e \<and> key = ''c'' then
             (False, True, if hasSelection then Some Copy_selection else None)
           else if md \<and> key = ''v'' then (False, True, Some Paste_clipboard)
           else (True, False, None))"

text \<open>Without a selection, the interrupt key is left to the shell, whatever its modifiers.\<close>

lemma interrupt_reaches_shell:
  "\<not> ev_shiftKey e \<Longrightarrow> toLowerCase (ev_key e) = ''c'' \<Longrightarrow> custom_key False e = (True, False, None)"
  by (simp add: custom_key_def Let_def)

lemma copy_needs_selection: "snd (snd (custom_key False e)) \<noteq> Some Copy_selection"
  by (simp add: custom_key_def Let_def)

lemma key_taken_or_passed: "fst (snd (custom_key h e)) = (\<not> fst (custom_key h e))"
  by (simp add: custom_key_def Let_def)

end
