(* ===== verification/Settings_Store.thy ===== *)
theory Settings_Store
  imports Bridge_Types
begin

text \<open>
  The persisted settings, \<open>src/src/state/settingsStore.ts\<close>, and the two drag handles that feed
  it and the tab store, \<open>components/common/ResizeHandle.tsx\<close> and
  \<open>components/common/PaneResizeDivider.tsx\<close>: the record of settings, one definition per action,
  the merge that runs when the persisted value is read back, and the bounds on the panel widths
  and on the auto-lock delay.
\<close>

section \<open>Settings\<close>

datatype theme_mode = Light | Dark | System

datatype cursor_style = Block | Bar | Underline

datatype terminal_theme_key = Theme_dark | Theme_light | Solarized_dark | Solarized_light

record terminal_theme_colors =
  theme_label :: string
  background :: string
  foreground :: string
  cursor :: string

fun TERMINAL_THEME_PRESETS :: "terminal_theme_key \<Rightarrow> terminal_theme_colors" where
  "TERMINAL_THEME_PRESETS Theme_dark =
     \<lparr>theme_label = ''Dark'', background = ''#020617'', foreground = ''#e2e8f0'', cursor = ''#2dd4bf''\<rparr>"
| "TERMINAL_THEME_PRESETS Theme_light =
     \<lparr>theme_label = ''Light'', background = ''#ffffff'', foreground = ''#111827'', cursor = ''#111827''\<rparr>"
| "TERMINAL_THEME_PRESETS Solarized_dark =
     \<lparr>theme_label = ''Solarized Dark'', background = ''#002b36'', foreground = ''#839496'', cursor = ''#839496''\<rparr>"
| "TERMINAL_THEME_PRESETS Solarized_light =
     \<lparr>theme_label = ''Solarized Light'', background = ''#fdf6e3'', foreground = ''#657b83'', cursor = ''#657b83''\<rparr>"

definition MIN_LEFT_SIDEBAR_WIDTH :: real where "MIN_LEFT_SIDEBAR_WIDTH = 180"
definition MAX_LEFT_SIDEBAR_WIDTH :: real where "MAX_LEFT_SIDEBAR_WIDTH = 480"
definition DEFAULT_LEFT_SIDEBAR_WIDTH :: real where "DEFAULT_LEFT_SIDEBAR_WIDTH = 256"
definition MIN_RIGHT_PANEL_WIDTH :: real where "MIN_RIGHT_PANEL_WIDTH = 260"
definition MAX_RIGHT_PANEL_WIDTH :: real where "MAX_RIGHT_PANEL_WIDTH = 560"
definition DEFAULT_RIGHT_PANEL_WIDTH :: real where "DEFAULT_RIGHT_PANEL_WIDTH = 320"
definition MIN_VAULT_AUTO_LOCK_MINUTES :: real where "MIN_VAULT_AUTO_LOCK_MINUTES = 1"
definition MAX_VAULT_AUTO_LOCK_MINUTES :: real where "MAX_VAULT_AUTO_LOCK_MINUTES = 120"
definition DEFAULT_VAULT_AUTO_LOCK_MINUTES :: real where "DEFAULT_VAULT_AUTO_LOCK_MINUTES = 5"

lemmas settings_constants =
  MIN_LEFT_SIDEBAR_WIDTH_def MAX_LEFT_SIDEBAR_WIDTH_def DEFAULT_LEFT_SIDEBAR_WIDTH_def
  MIN_RIGHT_PANEL_WIDTH_def MAX_RIGHT_PANEL_WIDTH_def DEFAULT_RIGHT_PANEL_WIDTH_def
  MIN_VAULT_AUTO_LOCK_MINUTES_def MAX_VAULT_AUTO_LOCK_MINUTES_def DEFAULT_VAULT_AUTO_LOCK_MINUTES_def

definition clamp :: "js_number \<Rightarrow> real \<Rightarrow> real \<Rightarrow> js_number" where
  "clamp v lo hi = math_min (Num hi) (math_max (Num lo) v)"

record settings =
  theme :: theme_mode
  terminalFontFamily :: string
  terminalFontSize :: js_number
  terminalCursorStyle :: cursor_style
  terminalThemeKey :: terminal_theme_key
  leftSidebarVisible :: bool
  leftSidebarWidth :: js_number
  snippetsDrawerOpen :: bool
  rightPanelVisible :: bool
  rightPanelWidth :: js_number
  performancePanelVisible :: bool
  hostDetailsVisible :: bool
  quickCommandAutoRun :: bool
  autoReconnectEnabled :: bool
  vaultAutoLockEnabled :: bool
  vaultAutoLockMinutes :: js_number
  autoCopyOnSelectEnabled :: bool
  aiPanelOpen :: bool
  aiActiveProvider :: "ai_provider option"

definition initial_settings :: settings where
  "initial_settings =
     \<lparr>theme = Dark, terminalFontFamily = ''Menlo, Monaco, 'Courier New', monospace'',
      terminalFontSize = Num 13, terminalCursorStyle = Block, terminalThemeKey = Theme_dark,
      leftSidebarVisible = True, leftSidebarWidth = Num DEFAULT_LEFT_SIDEBAR_WIDTH,
      snippetsDrawerOpen = False, rightPanelVisible = True,
      rightPanelWidth = Num DEFAULT_RIGHT_PANEL_WIDTH, performancePanelVisible = True,
      hostDetailsVisible = True, quickCommandAutoRun = True, autoReconnectEnabled = False,
      vaultAutoLockEnabled = False, vaultAutoLockMinutes = Num DEFAULT_VAULT_AUTO_LOCK_MINUTES,
      autoCopyOnSelectEnabled = True, aiPanelOpen = False, aiActiveProvider = None\<rparr>"

section \<open>Actions\<close>

datatype settings_action =
    Set_theme theme_mode
  | Set_terminal_font_family string
  | Set_terminal_font_size js_number
  | Set_terminal_cursor_style cursor_style
  | Set_terminal_theme_key terminal_theme_key
  | Toggle_left_sidebar
  | Set_left_sidebar_visible bool
  | Set_left_sidebar_width js_number
  | Toggle_snippets_drawer
  | Toggle_right_panel
  | Set_right_panel_visible bool
  | Set_right_panel_width js_number
  | Toggle_performance_panel
  | Toggle_host_details
  | Toggle_quick_command_auto_run
  | Toggle_auto_reconnect
  | Toggle_vault_auto_lock
  | Set_vault_auto_lock_minutes js_number
  | Toggle_auto_copy_on_select
  | Toggle_ai_panel
  | Set_ai_active_provider "ai_provider option"

definition setLeftSidebarWidth :: "js_number \<Rightarrow> settings \<Rightarrow> settings" where
  "setLeftSidebarWidth w s =
     s\<lparr>leftSidebarWidth := clamp w MIN_LEFT_SIDEBAR_WIDTH MAX_LEFT_SIDEBAR_WIDTH\<rparr>"

definition setRightPanelWidth :: "js_number \<Rightarrow> settings \<Rightarrow> settings" where
  "setRightPanelWidth w s =
     s\<lparr>rightPanelWidth := clamp w MIN_RIGHT_PANEL_WIDTH MAX_RIGHT_PANEL_WIDTH\<rparr>"

definition setVaultAutoLockMinutes :: "js_number \<Rightarrow> settings \<Rightarrow> settings" where
  "setVaultAutoLockMinutes n s =
     s\<lparr>vaultAutoLockMinutes := clamp n MIN_VAULT_AUTO_LOCK_MINUTES MAX_VAULT_AUTO_LOCK_MINUTES\<rparr>"

fun settings_step :: "settings \<Rightarrow> settings_action \<Rightarrow> settings" where
  "settings_step s (Set_theme t) = s\<lparr>theme := t\<rparr>"
| "settings_step s (Set_terminal_font_family f) = s\<lparr>terminalFontFamily := f\<rparr>"
| "settings_step s (Set_terminal_font_size n) = s\<lparr>terminalFontSize := n\<rparr>"
| "settings_step s (Set_terminal_cursor_style c) = s\<lparr>terminalCursorStyle := c\<rparr>"
| "settings_step s (Set_terminal_theme_key k) = s\<lparr>terminalThemeKey := k\<rparr>"
| "settings_step s Toggle_left_sidebar = s\<lparr>leftSidebarVisible := \<not> leftSidebarVisible s\<rparr>"
| "settings_step s (Set_left_sidebar_visible v) = s\<lparr>leftSidebarVisible := v\<rparr>"
| "settings_step s (Set_left_sidebar_width w) = setLeftSidebarWidth w s"
| "settings_step s Toggle_snippets_drawer = s\<lparr>snippetsDrawerOpen := \<not> snippetsDrawerOpen s\<rparr>"
| "settings_step s Toggle_right_panel = s\<lparr>rightPanelVisible := \<not> rightPanelVisible s\<rparr>"
| "settings_step s (Set_right_panel_visible v) = s\<lparr>rightPanelVisible := v\<rparr>"
| "settings_step s (Set_right_panel_width w) = setRightPanelWidth w s"
| "settings_step s Toggle_performance_panel = s\<lparr>performancePanelVisible := \<not> performancePanelVisible s\<rparr>"
| "settings_step s Toggle_host_details = s\<lparr>hostDetailsVisible := \<not> hostDetailsVisible s\<rparr>"
| "settings_step s Toggle_quick_command_auto_run = s\<lparr>quickCommandAutoRun := \<not> quickCommandAutoRun s\<rparr>"
| "settings_step s Toggle_auto_reconnect = s\<lparr>autoReconnectEnabled := \<not> autoReconnectEnabled s\<rparr>"
| "settings_step s Toggle_vault_auto_lock = s\<lparr>vaultAutoLockEnabled := \<not> vaultAutoLockEnabled s\<rparr>"
| "settings_step s (Set_vault_auto_lock_minutes n) = setVaultAutoLockMinutes n s"
| "settings_step s Toggle_auto_copy_on_select = s\<lparr>autoCopyOnSelectEnabled := \<not> autoCopyOnSelectEnabled s\<rparr>"
| "settings_step s Toggle_ai_panel = s\<lparr>aiPanelOpen := \<not> aiPanelOpen s\<rparr>"
| "settings_step s (Set_ai_active_provider p) = s\<lparr>aiActiveProvider := p\<rparr>"

text \<open>
  Reading the persisted value back. \<open>{ ...current, ...persisted }\<close> takes whatever fields the
  persisted object has; then three fields are clamped. Only those three are interesting, so the
  persisted object is a function that overrides fields of the current settings. A persisted
  width that is not a number reaches \<open>clamp\<close> as the number \<open>Math.max\<close> converts it to, which
  is \<^const>\<open>NaN\<close> for a text that is no numeral.
\<close>

definition merge_settings :: "(settings \<Rightarrow> settings) \<Rightarrow> settings \<Rightarrow> settings" where
  "merge_settings persisted current =
     (let merged = persisted current
      in merged
          \<lparr>leftSidebarWidth := clamp (leftSidebarWidth merged) MIN_LEFT_SIDEBAR_WIDTH MAX_LEFT_SIDEBAR_WIDTH,
           rightPanelWidth := clamp (rightPanelWidth merged) MIN_RIGHT_PANEL_WIDTH MAX_RIGHT_PANEL_WIDTH,
           vaultAutoLockMinutes :=
             clamp (vaultAutoLockMinutes merged) MIN_VAULT_AUTO_LOCK_MINUTES MAX_VAULT_AUTO_LOCK_MINUTES\<rparr>)"

section \<open>The bounds\<close>

fun num_between :: "real \<Rightarrow> real \<Rightarrow> js_number \<Rightarrow> bool" where
  "num_between lo hi NaN = False"
| "num_between lo hi (Num x) = (lo \<le> x \<and> x \<le> hi)"

definition settings_ok :: "settings \<Rightarrow> bool" where
  "settings_ok s \<longleftrightarrow>
     num_between MIN_LEFT_SIDEBAR_WIDTH MAX_LEFT_SIDEBAR_WIDTH (leftSidebarWidth s) \<and>
     num_between MIN_RIGHT_PANEL_WIDTH MAX_RIGHT_PANEL_WIDTH (rightPanelWidth s) \<and>
     num_between MIN_VAULT_AUTO_LOCK_MINUTES MAX_VAULT_AUTO_LOCK_MINUTES (vaultAutoLockMinutes s)"

text \<open>What the widths are set to is a number; nothing else is asked of an action.\<close>

fun action_ok :: "settings \<Rightarrow> settings_action \<Rightarrow> bool" where
  "action_ok s (Set_left_sidebar_width w) = (w \<noteq> NaN)"
| "action_ok s (Set_right_panel_width w) = (w \<noteq> NaN)"
| "action_ok s (Set_vault_auto_lock_minutes n) = (n \<noteq> NaN)"
| "action_ok s _ = True"

lemma clamp_NaN [simp]: "clamp NaN lo hi = NaN"
  by (simp add: clamp_def)

lemma clamp_Num [simp]: "clamp (Num x) lo hi = Num (min hi (max lo x))"
  by (simp add: clamp_def)

lemma clamp_between: "lo \<le> hi \<Longrightarrow> v \<noteq> NaN \<Longrightarrow> num_between lo hi (clamp v lo hi)"
  by (cases v) auto

lemma clamp_id: "num_between lo hi v \<Longrightarrow> clamp v lo hi = v"
  by (cases v) auto

lemma settings_step_ok: "settings_ok s \<Longrightarrow> action_ok s a \<Longrightarrow> settings_ok (settings_step s a)"
  by (cases a)
    (auto simp: settings_ok_def setLeftSidebarWidth_def setRightPanelWidth_def
      setVaultAutoLockMinutes_def settings_constants intro!: clamp_between)

lemma initial_settings_ok [simp]: "settings_ok initial_settings"
  by (simp add: settings_ok_def initial_settings_def settings_constants)

interpretation settings_machine: invariant_machine initial_settings settings_step action_ok settings_ok
  by unfold_locales (auto intro: settings_step_ok)

lemma merge_settings_ok:
  assumes "leftSidebarWidth (persisted current) \<noteq> NaN" "rightPanelWidth (persisted current) \<noteq> NaN"
    "vaultAutoLockMinutes (persisted current) \<noteq> NaN"
  shows "settings_ok (merge_settings persisted current)"
  using assms
  by (simp add: merge_settings_def Let_def settings_ok_def clamp_between settings_constants)

section \<open>Dragging the edge of a panel\<close>

datatype panel_side = Left_side | Right_side

record drag_state =
  startX :: real
  startWidth :: real

datatype mouse_event = Mouse_down real | Mouse_move real | Mouse_up

text \<open>
  \<open>handleMouseDown\<close> snapshots the position and the \<open>width\<close> property of that moment;
  \<open>handleMouseMove\<close> reports the width for the new position; \<open>handleMouseUp\<close> ends the drag.
  The step returns the new drag state and the argument of \<open>onResize\<close>, if it is called.
\<close>

fun resize_handle :: "panel_side \<Rightarrow> real \<Rightarrow> drag_state option \<Rightarrow> mouse_event \<Rightarrow> drag_state option \<times> real option" where
  "resize_handle side w d (Mouse_down x) = (Some \<lparr>startX = x, startWidth = w\<rparr>, None)"
| "resize_handle side w None (Mouse_move x) = (None, None)"
| "resize_handle side w (Some d) (Mouse_move x) =
     (let delta = x - startX d; signedDelta = (if side = Left_side then delta else - delta)
      in (Some d, Some (startWidth d + signedDelta)))"
| "resize_handle side w d Mouse_up = (None, None)"

text \<open>A divider between panes: the same, with a ratio of the pixels available.\<close>

record divider_drag =
  startPos :: real
  startRatio :: real
  drag_availablePx :: real

fun pane_resize_divider ::
  "real \<Rightarrow> real \<Rightarrow> divider_drag option \<Rightarrow> mouse_event \<Rightarrow> divider_drag option \<times> real option" where
  "pane_resize_divider r px d (Mouse_down x) =
     (Some \<lparr>startPos = x, startRatio = r, drag_availablePx = max 1 px\<rparr>, None)"
| "pane_resize_divider r px None (Mouse_move x) = (None, None)"
| "pane_resize_divider r px (Some d) (Mouse_move x) =
     (let delta = x - startPos d; deltaRatio = delta / drag_availablePx d
      in (Some d, Some (startRatio d + deltaRatio)))"
| "pane_resize_divider r px d Mouse_up = (None, None)"

text \<open>
  The left panel's handle wired to the store, as \<open>AppShell.tsx\<close> renders it: the handle's
  \<open>width\<close> property is the store's current width and \<open>onResize\<close> is the store's setter.
\<close>

definition num_value :: "js_number \<Rightarrow> real" where
  "num_value v = (case v of Num x \<Rightarrow> x | NaN \<Rightarrow> 0)"

fun drag_left :: "drag_state option \<times> settings \<Rightarrow> mouse_event \<Rightarrow> drag_state option \<times> settings" where
  "drag_left (d, s) e =
     (case resize_handle Left_side (num_value (leftSidebarWidth s)) d e of
        (d', None) \<Rightarrow> (d', s)
      | (d', Some w) \<Rightarrow> (d', setLeftSidebarWidth (Num w) s))"

lemma drag_moves:
  "foldl drag_left (Some d, s) (map Mouse_move xs) =
     (Some d, if xs = [] then s else setLeftSidebarWidth (Num (startWidth d + (last xs - startX d))) s)"
proof (induction xs rule: rev_induct)
  case (snoc x xs)
  then show ?case by (simp add: setLeftSidebarWidth_def)
qed simp

section \<open>Properties\<close>

text \<open>
  Whether the app starts with its defaults or with a persisted value, whatever the user then
  does with the settings, as long as the persisted widths and delay and the ones asked for are
  numbers, the left panel stays between 180 and 480 pixels, the right one between 260 and 560,
  and the auto-lock delay between 1 and 120 minutes.
\<close>
theorem settings_bounds:
  assumes "start = initial_settings \<or> start = merge_settings persisted initial_settings"
    and "leftSidebarWidth (persisted initial_settings) \<noteq> NaN"
      "rightPanelWidth (persisted initial_settings) \<noteq> NaN"
      "vaultAutoLockMinutes (persisted initial_settings) \<noteq> NaN"
    and "run_ok settings_step action_ok start as"
  shows "settings_ok (foldl settings_step start as)"
proof -
  have "settings_ok start"
    using assms(1) merge_settings_ok[of persisted initial_settings] assms(2-4) by auto
  then show ?thesis using assms(5) by (rule settings_machine.inv_foldl)
qed

theorem settings_bounds_witness:
  "settings_ok (foldl settings_step
      (merge_settings (leftSidebarWidth_update (\<lambda>_. Num (-4))) initial_settings)
      [Set_right_panel_width (Num 9999), Toggle_left_sidebar])"
  by (rule settings_bounds[of _ "leftSidebarWidth_update (\<lambda>_. Num (-4))"])
    (simp_all add: initial_settings_def)

text \<open>
  Dragging the left panel's edge is independent of the path of the mouse: after pressing at
  \<open>x0\<close> and any moves, the width is the starting width plus the distance to the last position,
  clamped once, however far out of bounds the moves in between went.
\<close>
theorem drag_path_independent:
  assumes "leftSidebarWidth s = Num w" and "xs \<noteq> []"
  shows "snd (foldl drag_left (None, s) (Mouse_down x0 # map Mouse_move xs))
    = s\<lparr>leftSidebarWidth := Num (min 480 (max 180 (w + (last xs - x0))))\<rparr>"
  using assms drag_moves[of "\<lparr>startX = x0, startWidth = w\<rparr>" s xs]
  by (simp add: num_value_def setLeftSidebarWidth_def settings_constants)

theorem drag_path_independent_witness:
  "snd (foldl drag_left (None, initial_settings) (Mouse_down 256 # map Mouse_move [900, 10, 300]))
    = initial_settings\<lparr>leftSidebarWidth := Num 300\<rparr>"
  by (subst drag_path_independent[where w = 256])
    (simp_all add: initial_settings_def settings_constants)

text \<open>
  A persisted width that is not a number survives the clamp that is meant to stop it: it is
  \<open>NaN\<close> after the value is read back, and stays so until the panel is dragged.
\<close>
theorem nan_survives_rehydration:
  "leftSidebarWidth (merge_settings (leftSidebarWidth_update (\<lambda>_. NaN)) s) = NaN
    \<and> leftSidebarWidth (merge_settings id (merge_settings (leftSidebarWidth_update (\<lambda>_. NaN)) s)) = NaN
    \<and> \<not> settings_ok (merge_settings (leftSidebarWidth_update (\<lambda>_. NaN)) s)"
  by (simp add: merge_settings_def Let_def settings_ok_def)

end
