(* ===== verification/Pane_Tree.thy ===== *)
theory Pane_Tree
  imports Bridge_Types
begin

text \<open>
  The split layout of a terminal tab, \<open>src/src/lib/paneTree.ts\<close>: a binary tree whose leaves
  are the panes and whose inner nodes are dividers. One definition per function; the tree
  invariant (distinct pane and divider identifiers, ratios within the bounds) and what split,
  close and resize do to the list of panes.
\<close>

section \<open>The tree and its operations\<close>

datatype direction = Row | Column

record pane_leaf =
  leaf_paneId :: string
  leaf_host :: host

datatype pane_node =
    Leaf pane_leaf
  | Split string direction real pane_node pane_node

definition MIN_RATIO :: real where "MIN_RATIO = 15 / 100"

definition MAX_RATIO :: real where "MAX_RATIO = 85 / 100"

fun countLeaves :: "pane_node \<Rightarrow> nat" where
  "countLeaves (Leaf l) = 1"
| "countLeaves (Split s d r a b) = countLeaves a + countLeaves b"

fun findLeaf :: "pane_node \<Rightarrow> string \<Rightarrow> pane_leaf option" where
  "findLeaf (Leaf l) p = (if leaf_paneId l = p then Some l else None)"
| "findLeaf (Split s d r a b) p =
     (case findLeaf a p of Some l \<Rightarrow> Some l | None \<Rightarrow> findLeaf b p)"

fun collectLeaves :: "pane_node \<Rightarrow> pane_leaf list" where
  "collectLeaves (Leaf l) = [l]"
| "collectLeaves (Split s d r a b) = collectLeaves a @ collectLeaves b"

text \<open>
  \<open>splitLeaf\<close> draws the new divider's identifier from \<open>crypto.randomUUID\<close> at the leaf it
  finds; the new pane's identifier is drawn by the caller.
\<close>

fun splitLeaf ::
  "uuids \<Rightarrow> nat \<Rightarrow> pane_node \<Rightarrow> string \<Rightarrow> direction \<Rightarrow> string \<Rightarrow> host \<Rightarrow> pane_node \<times> nat" where
  "splitLeaf u n (Leaf l) p dir newPaneId newHost =
     (if leaf_paneId l \<noteq> p then (Leaf l, n)
      else (Split (u n) dir (1 / 2) (Leaf l)
              (Leaf \<lparr>leaf_paneId = newPaneId, leaf_host = newHost\<rparr>), Suc n))"
| "splitLeaf u n (Split s d r a b) p dir newPaneId newHost =
     (case splitLeaf u n a p dir newPaneId newHost of (a', n1) \<Rightarrow>
        (case splitLeaf u n1 b p dir newPaneId newHost of (b', n2) \<Rightarrow> (Split s d r a' b', n2)))"

fun removeLeaf :: "pane_node \<Rightarrow> string \<Rightarrow> pane_node option" where
  "removeLeaf (Leaf l) p = (if leaf_paneId l = p then None else Some (Leaf l))"
| "removeLeaf (Split s d r a b) p =
     (if findLeaf a p \<noteq> None
      then (case removeLeaf a p of None \<Rightarrow> Some b | Some a' \<Rightarrow> Some (Split s d r a' b))
      else if findLeaf b p \<noteq> None
      then (case removeLeaf b p of None \<Rightarrow> Some a | Some b' \<Rightarrow> Some (Split s d r a b'))
      else Some (Split s d r a b))"

fun resizeSplit :: "pane_node \<Rightarrow> string \<Rightarrow> real \<Rightarrow> pane_node" where
  "resizeSplit (Leaf l) sid newRatio = Leaf l"
| "resizeSplit (Split s d r a b) sid newRatio =
     (if s = sid then Split s d (max MIN_RATIO (min MAX_RATIO newRatio)) a b
      else Split s d r (resizeSplit a sid newRatio) (resizeSplit b sid newRatio))"

section \<open>Identifiers of a tree\<close>

definition pane_ids :: "pane_node \<Rightarrow> string list" where
  "pane_ids t = map leaf_paneId (collectLeaves t)"

fun split_ids :: "pane_node \<Rightarrow> string list" where
  "split_ids (Leaf l) = []"
| "split_ids (Split s d r a b) = split_ids a @ [s] @ split_ids b"

fun ratio_of :: "pane_node \<Rightarrow> string \<Rightarrow> real option" where
  "ratio_of (Leaf l) sid = None"
| "ratio_of (Split s d r a b) sid =
     (if s = sid then Some r
      else (case ratio_of a sid of Some q \<Rightarrow> Some q | None \<Rightarrow> ratio_of b sid))"

fun ratios_ok :: "pane_node \<Rightarrow> bool" where
  "ratios_ok (Leaf l) = True"
| "ratios_ok (Split s d r a b) =
     (MIN_RATIO \<le> r \<and> r \<le> MAX_RATIO \<and> ratios_ok a \<and> ratios_ok b)"

definition tree_ok :: "pane_node \<Rightarrow> bool" where
  "tree_ok t \<longleftrightarrow> distinct (pane_ids t) \<and> distinct (split_ids t) \<and> ratios_ok t"

lemma pane_ids_simps [simp]:
  "pane_ids (Leaf l) = [leaf_paneId l]"
  "pane_ids (Split s d r a b) = pane_ids a @ pane_ids b"
  by (simp_all add: pane_ids_def)

lemma collectLeaves_nonempty [simp]: "collectLeaves t \<noteq> []"
  by (induction t) auto

lemma pane_ids_nonempty [simp]: "pane_ids t \<noteq> []"
  by (simp add: pane_ids_def)

lemma countLeaves_eq [id_simps]: "countLeaves t = length (collectLeaves t)"
  by (induction t) auto

lemma length_pane_ids [id_simps]: "length (pane_ids t) = countLeaves t"
  by (simp add: pane_ids_def countLeaves_eq)

lemma countLeaves_pos [simp]: "0 < countLeaves t"
  by (induction t) auto

lemma countLeaves_split_ids: "countLeaves t = Suc (length (split_ids t))"
  by (induction t) auto

lemma findLeaf_None_iff [id_simps]: "findLeaf t p = None \<longleftrightarrow> p \<notin> set (pane_ids t)"
  by (induction t) (auto split: option.splits)

lemma findLeaf_Some: "findLeaf t p = Some l \<Longrightarrow> l \<in> set (collectLeaves t) \<and> leaf_paneId l = p"
  by (induction t) (auto split: if_splits option.splits)

text \<open>Looking a pane up in the tree is looking it up in the list of panes.\<close>

lemma findLeaf_eq_find: "findLeaf t p = List.find (\<lambda>l. leaf_paneId l = p) (collectLeaves t)"
  by (induction t) (auto simp: find_append split: option.splits)

section \<open>Splitting a pane\<close>

text \<open>The specification of a split on the list of panes: the new one goes behind pane \<open>p\<close>.\<close>

fun insert_after :: "string \<Rightarrow> pane_leaf \<Rightarrow> pane_leaf list \<Rightarrow> pane_leaf list" where
  "insert_after p new [] = []"
| "insert_after p new (l # ls) =
     (if leaf_paneId l = p then l # new # ls else l # insert_after p new ls)"

lemma insert_after_absent [simp]:
  "p \<notin> leaf_paneId ` set ls \<Longrightarrow> insert_after p new ls = ls"
  by (induction ls) auto

lemma insert_after_append:
  "insert_after p new (xs @ ys) =
     (if p \<in> leaf_paneId ` set xs then insert_after p new xs @ ys else xs @ insert_after p new ys)"
  by (induction xs) auto

lemma mset_insert_after:
  "p \<in> leaf_paneId ` set ls \<Longrightarrow> mset (insert_after p new ls) = add_mset new (mset ls)"
  by (induction ls) auto

lemma set_pane_ids: "set (pane_ids t) = leaf_paneId ` set (collectLeaves t)"
  by (simp add: pane_ids_def)

lemma splitLeaf_absent [simp]:
  "p \<notin> set (pane_ids t) \<Longrightarrow> splitLeaf u n t p dir np h = (t, n)"
  by (induction t arbitrary: n) auto

text \<open>With distinct identifiers the recursion into both children touches one leaf only.\<close>

lemma splitLeaf_Split_cases:
  assumes "distinct (pane_ids (Split s d r a b))"
  shows "splitLeaf u n (Split s d r a b) p dir np h =
    (if p \<in> set (pane_ids a)
     then (case splitLeaf u n a p dir np h of (a', n') \<Rightarrow> (Split s d r a' b, n'))
     else (case splitLeaf u n b p dir np h of (b', n') \<Rightarrow> (Split s d r a b', n')))"
  using assms by (cases "p \<in> set (pane_ids a)") (auto simp: case_prod_beta disjoint_iff)

lemma collectLeaves_splitLeaf:
  "distinct (pane_ids t) \<Longrightarrow>
     collectLeaves (fst (splitLeaf u n t p dir np h)) =
       insert_after p \<lparr>leaf_paneId = np, leaf_host = h\<rparr> (collectLeaves t)"
proof (induction t arbitrary: n)
  case (Split s d r a b)
  then show ?case
    by (subst splitLeaf_Split_cases)
      (auto simp: insert_after_append set_pane_ids case_prod_beta)
qed simp

lemma snd_splitLeaf:
  "distinct (pane_ids t) \<Longrightarrow>
     snd (splitLeaf u n t p dir np h) = (if p \<in> set (pane_ids t) then Suc n else n)"
proof (induction t arbitrary: n)
  case (Split s d r a b)
  then show ?case
    by (subst splitLeaf_Split_cases) (auto simp: case_prod_beta)
qed simp

lemma mset_split_ids_splitLeaf:
  "distinct (pane_ids t) \<Longrightarrow> p \<in> set (pane_ids t) \<Longrightarrow>
     mset (split_ids (fst (splitLeaf u n t p dir np h))) = add_mset (u n) (mset (split_ids t))"
proof (induction t arbitrary: n)
  case (Split s d r a b)
  then show ?case
    by (subst splitLeaf_Split_cases) (auto simp: case_prod_beta)
qed simp

lemma ratios_ok_splitLeaf:
  "ratios_ok t \<Longrightarrow> ratios_ok (fst (splitLeaf u n t p dir np h))"
  by (induction t arbitrary: n) (auto simp: MIN_RATIO_def MAX_RATIO_def case_prod_beta)

lemma mset_pane_ids_splitLeaf:
  assumes "distinct (pane_ids t)" and "p \<in> set (pane_ids t)"
  shows "mset (pane_ids (fst (splitLeaf u n t p dir np h))) = add_mset np (mset (pane_ids t))"
proof -
  have "mset (pane_ids (fst (splitLeaf u n t p dir np h))) =
      image_mset leaf_paneId (mset (insert_after p \<lparr>leaf_paneId = np, leaf_host = h\<rparr> (collectLeaves t)))"
    using assms(1) by (simp add: pane_ids_def collectLeaves_splitLeaf)
  also have "\<dots> = add_mset np (mset (pane_ids t))"
    using assms(2) by (simp add: mset_insert_after set_pane_ids) (simp add: pane_ids_def)
  finally show ?thesis .
qed

lemma distinct_add_mset:
  "mset xs = add_mset x (mset ys) \<Longrightarrow> distinct xs \<longleftrightarrow> x \<notin> set ys \<and> distinct ys"
  by (metis distinct.simps(2) mset.simps(2) mset_eq_imp_distinct_iff)

lemma set_add_mset: "mset xs = add_mset x (mset ys) \<Longrightarrow> set xs = insert x (set ys)"
  by (metis set_mset_add_mset_insert set_mset_mset)

lemma tree_ok_splitLeaf:
  assumes "tree_ok t" and "np \<notin> set (pane_ids t)" and "u n \<notin> set (split_ids t)"
  shows "tree_ok (fst (splitLeaf u n t p dir np h))"
proof (cases "p \<in> set (pane_ids t)")
  case True
  have d: "distinct (pane_ids t)" using assms(1) by (simp add: tree_ok_def)
  show ?thesis
    using assms ratios_ok_splitLeaf[of t]
      distinct_add_mset[OF mset_pane_ids_splitLeaf[OF d True, of u n dir np h]]
      distinct_add_mset[OF mset_split_ids_splitLeaf[OF d True, of u n dir np h]]
    by (simp add: tree_ok_def)
next
  case False
  with assms show ?thesis by simp
qed

text \<open>What a split that finds its pane gives, in one place.\<close>

lemma splitLeaf_facts:
  assumes "tree_ok t" and "p \<in> set (pane_ids t)"
    and "np \<notin> set (pane_ids t)" and "u n \<notin> set (split_ids t)"
    and t': "t' = fst (splitLeaf u n t p dir np h)"
  shows "tree_ok t'" "countLeaves t' = Suc (countLeaves t)"
    "set (pane_ids t') = insert np (set (pane_ids t))"
    "set (split_ids t') = insert (u n) (set (split_ids t))"
    "snd (splitLeaf u n t p dir np h) = Suc n"
proof -
  have d: "distinct (pane_ids t)" using assms(1) by (simp add: tree_ok_def)
  note panes = mset_pane_ids_splitLeaf[OF d assms(2), of u n dir np h, folded t']
  show "tree_ok t'" unfolding t' by (rule tree_ok_splitLeaf) (rule assms)+
  show "countLeaves t' = Suc (countLeaves t)"
    using arg_cong[OF panes, of size] by (simp add: length_pane_ids)
  show "set (pane_ids t') = insert np (set (pane_ids t))"
    using panes by (rule set_add_mset)
  show "set (split_ids t') = insert (u n) (set (split_ids t))"
    unfolding t' by (rule set_add_mset[OF mset_split_ids_splitLeaf[OF d assms(2)]])
  show "snd (splitLeaf u n t p dir np h) = Suc n"
    using d assms(2) by (simp add: snd_splitLeaf)
qed

section \<open>Closing a pane\<close>

lemma removeLeaf_Split:
  "removeLeaf (Split s d r a b) p =
     (if p \<in> set (pane_ids a)
      then (case removeLeaf a p of None \<Rightarrow> Some b | Some a' \<Rightarrow> Some (Split s d r a' b))
      else if p \<in> set (pane_ids b)
      then (case removeLeaf b p of None \<Rightarrow> Some a | Some b' \<Rightarrow> Some (Split s d r a b'))
      else Some (Split s d r a b))"
  by (simp only: removeLeaf.simps findLeaf_None_iff not_not)

declare removeLeaf.simps(2) [simp del] removeLeaf_Split [simp]

lemma removeLeaf_absent [simp]: "p \<notin> set (pane_ids t) \<Longrightarrow> removeLeaf t p = Some t"
  by (cases t) auto

lemma removeLeaf_None_iff: "removeLeaf t p = None \<longleftrightarrow> pane_ids t = [p]"
proof (cases t)
  case (Split s d r a b)
  then show ?thesis
    by (auto simp: append_eq_Cons_conv split: option.splits)
qed auto

lemma filter_other_ids [simp]:
  "p \<notin> set (pane_ids t) \<Longrightarrow> filter (\<lambda>l. leaf_paneId l \<noteq> p) (collectLeaves t) = collectLeaves t"
  by (auto simp: set_pane_ids filter_id_conv)

lemma only_leaf:
  "pane_ids t = [p] \<Longrightarrow> filter (\<lambda>l. leaf_paneId l \<noteq> p) (collectLeaves t) = []"
  by (auto simp: pane_ids_def filter_empty_conv map_eq_Cons_conv)

text \<open>The five ways a close can end at a divider.\<close>

lemma removeLeaf_SplitE:
  assumes "removeLeaf (Split s d r a b) p = Some t'"
  obtains (left_only) "pane_ids a = [p]" "t' = b"
    | (left) a' where "p \<in> set (pane_ids a)" "removeLeaf a p = Some a'" "t' = Split s d r a' b"
    | (right_only) "p \<notin> set (pane_ids a)" "pane_ids b = [p]" "t' = a"
    | (right) b' where "p \<notin> set (pane_ids a)" "removeLeaf b p = Some b'" "t' = Split s d r a b'"
    | (absent) "p \<notin> set (pane_ids a)" "p \<notin> set (pane_ids b)" "t' = Split s d r a b"
proof (cases "p \<in> set (pane_ids a)")
  case True
  show ?thesis
  proof (cases "removeLeaf a p")
    case None
    then have "pane_ids a = [p]" by (simp only: removeLeaf_None_iff)
    moreover have "t' = b" using assms True None by simp
    ultimately show ?thesis using left_only by blast
  next
    case (Some a')
    then have "t' = Split s d r a' b" using assms True by simp
    with Some True show ?thesis using left by blast
  qed
next
  case a: False
  show ?thesis
  proof (cases "p \<in> set (pane_ids b)")
    case True
    show ?thesis
    proof (cases "removeLeaf b p")
      case None
      then have "pane_ids b = [p]" by (simp only: removeLeaf_None_iff)
      moreover have "t' = a" using assms True a None by simp
      ultimately show ?thesis using right_only a by blast
    next
      case (Some b')
      then have "t' = Split s d r a b'" using assms True a by simp
      with Some True show ?thesis using right a by blast
    qed
  next
    case False
    with a assms have "t' = Split s d r a b" by simp
    with a False show ?thesis using absent by blast
  qed
qed

lemma collectLeaves_removeLeaf:
  assumes "distinct (pane_ids t)" and "removeLeaf t p = Some t'"
  shows "collectLeaves t' = filter (\<lambda>l. leaf_paneId l \<noteq> p) (collectLeaves t)"
  using assms
proof (induction t arbitrary: t')
  case (Split s d r a b)
  from Split.prems(2) show ?case
  proof (cases rule: removeLeaf_SplitE)
    case left_only
    with Split.prems(1) show ?thesis by (simp add: only_leaf)
  next
    case (left a')
    with Split.prems(1) Split.IH(1)[OF _ left(2)] show ?thesis by (simp add: disjoint_iff)
  next
    case right_only
    then show ?thesis by (simp add: only_leaf)
  next
    case (right b')
    with Split.prems(1) Split.IH(2)[OF _ right(2)] show ?thesis by simp
  qed simp
qed (auto split: if_splits)

lemma pane_ids_removeLeaf:
  "distinct (pane_ids t) \<Longrightarrow> removeLeaf t p = Some t' \<Longrightarrow> pane_ids t' = filter (\<lambda>q. q \<noteq> p) (pane_ids t)"
  by (simp add: pane_ids_def collectLeaves_removeLeaf[of t p t'] filter_map o_def)

lemma split_ids_removeLeaf:
  "removeLeaf t p = Some t' \<Longrightarrow>
     set (split_ids t') \<subseteq> set (split_ids t) \<and> (distinct (split_ids t) \<longrightarrow> distinct (split_ids t'))"
proof (induction t arbitrary: t')
  case (Split s d r a b)
  from Split.prems show ?case
  proof (cases rule: removeLeaf_SplitE)
    case (left a')
    with Split.IH(1)[OF left(2)] show ?thesis by auto
  next
    case (right b')
    with Split.IH(2)[OF right(2)] show ?thesis by auto
  qed auto
qed (auto split: if_splits)

lemma ratios_ok_removeLeaf: "ratios_ok t \<Longrightarrow> removeLeaf t p = Some t' \<Longrightarrow> ratios_ok t'"
proof (induction t arbitrary: t')
  case (Split s d r a b)
  from Split.prems(2) show ?case
  proof (cases rule: removeLeaf_SplitE)
    case (left a')
    with Split.prems(1) Split.IH(1)[OF _ left(2)] show ?thesis by simp
  next
    case (right b')
    with Split.prems(1) Split.IH(2)[OF _ right(2)] show ?thesis by simp
  qed (use Split.prems(1) in auto)
qed (auto split: if_splits)

lemma tree_ok_removeLeaf: "tree_ok t \<Longrightarrow> removeLeaf t p = Some t' \<Longrightarrow> tree_ok t'"
  using split_ids_removeLeaf[of t p t'] ratios_ok_removeLeaf[of t p t'] pane_ids_removeLeaf[of t p t']
  by (auto simp: tree_ok_def)

text \<open>Closing the pane a split has just opened gives the tree before the split back.\<close>

lemma removeLeaf_splitLeaf:
  assumes "distinct (pane_ids t)" and "p \<in> set (pane_ids t)" and "np \<notin> set (pane_ids t)"
  shows "removeLeaf (fst (splitLeaf u n t p dir np h)) np = Some t"
  using assms
proof (induction t arbitrary: n)
  case (Split s d r a b)
  let ?a = "fst (splitLeaf u n a p dir np h)"
  let ?b = "fst (splitLeaf u n b p dir np h)"
  have ids: "np \<in> set (pane_ids (fst (splitLeaf u n t p dir np h)))"
    if "distinct (pane_ids t)" "p \<in> set (pane_ids t)" for t
    using set_add_mset[OF mset_pane_ids_splitLeaf[OF that, of u n dir np h]] by simp
  show ?case
  proof (cases "p \<in> set (pane_ids a)")
    case True
    with Split ids[of a] show ?thesis
      by (subst splitLeaf_Split_cases) (auto simp: case_prod_beta)
  next
    case False
    with Split ids[of b] show ?thesis
      by (subst splitLeaf_Split_cases) (auto simp: case_prod_beta)
  qed
qed auto

section \<open>Resizing\<close>

lemma collectLeaves_resizeSplit [simp]: "collectLeaves (resizeSplit t sid q) = collectLeaves t"
  by (induction t) auto

lemma split_ids_resizeSplit [simp]: "split_ids (resizeSplit t sid q) = split_ids t"
  by (induction t) auto

lemma pane_ids_resizeSplit [simp]: "pane_ids (resizeSplit t sid q) = pane_ids t"
  by (simp add: pane_ids_def)

lemma countLeaves_resizeSplit [simp]: "countLeaves (resizeSplit t sid q) = countLeaves t"
  by (simp add: countLeaves_eq)

lemma ratios_ok_resizeSplit: "ratios_ok t \<Longrightarrow> ratios_ok (resizeSplit t sid q)"
  by (induction t) (auto simp: MIN_RATIO_def MAX_RATIO_def)

lemma tree_ok_resizeSplit: "tree_ok t \<Longrightarrow> tree_ok (resizeSplit t sid q)"
  by (simp add: tree_ok_def ratios_ok_resizeSplit)

lemma ratio_of_None_iff: "ratio_of t sid = None \<longleftrightarrow> sid \<notin> set (split_ids t)"
  by (induction t) (auto split: option.splits)

lemma ratio_of_resizeSplit:
  "distinct (split_ids t) \<Longrightarrow>
     ratio_of (resizeSplit t sid q) sid' =
       (if sid' = sid \<and> sid \<in> set (split_ids t) then Some (max MIN_RATIO (min MAX_RATIO q))
        else ratio_of t sid')"
proof (induction t)
  case (Split s d r a b)
  show ?case
  proof (cases "s = sid")
    case True
    with Split.prems show ?thesis by simp
  next
    case False
    with Split show ?thesis
      using ratio_of_None_iff[of a sid'] ratio_of_None_iff[of a sid]
      by (auto simp: disjoint_iff split: option.splits)
  qed
qed simp

section \<open>Properties\<close>

text \<open>A small layout for the witnesses.\<close>

definition sample_tree :: pane_node where
  "sample_tree =
     Split ''s'' Row (1 / 2)
       (Leaf \<lparr>leaf_paneId = ''p'', leaf_host = sample_host ''h'' None\<rparr>)
       (Leaf \<lparr>leaf_paneId = ''q'', leaf_host = sample_host ''k'' None\<rparr>)"

lemma sample_tree_ok [simp]: "tree_ok sample_tree"
  by (simp add: sample_tree_def tree_ok_def MIN_RATIO_def MAX_RATIO_def)

lemma sample_tree_ids [simp]:
  "pane_ids sample_tree = [''p'', ''q'']" "split_ids sample_tree = [''s'']"
  by (simp_all add: sample_tree_def)

text \<open>
  C33: Seen as the list of its panes, the tree is edited the way its contract says: a split puts
  the new pane right behind the split one and nowhere else, a close drops exactly the closed
  pane (and answers \<open>null\<close> only for a tree that is that one pane), a resize changes no pane,
  and looking up and counting panes agree with the list.
\<close>
theorem tree_refines_list:
  assumes "tree_ok t"
  shows "collectLeaves (fst (splitLeaf u n t p dir np h)) =
           insert_after p \<lparr>leaf_paneId = np, leaf_host = h\<rparr> (collectLeaves t)
    \<and> map_option collectLeaves (removeLeaf t p) =
           (if map leaf_paneId (collectLeaves t) = [p] then None
            else Some (filter (\<lambda>l. leaf_paneId l \<noteq> p) (collectLeaves t)))
    \<and> collectLeaves (resizeSplit t sid q) = collectLeaves t
    \<and> findLeaf t p = List.find (\<lambda>l. leaf_paneId l = p) (collectLeaves t)
    \<and> countLeaves t = length (collectLeaves t)"
proof -
  have d: "distinct (pane_ids t)" using assms by (simp add: tree_ok_def)
  have "map_option collectLeaves (removeLeaf t p) =
           (if map leaf_paneId (collectLeaves t) = [p] then None
            else Some (filter (\<lambda>l. leaf_paneId l \<noteq> p) (collectLeaves t)))"
    using removeLeaf_None_iff[of t p] collectLeaves_removeLeaf[OF d, of p]
    by (cases "removeLeaf t p") (auto simp: pane_ids_def)
  with collectLeaves_splitLeaf[OF d] show ?thesis
    by (simp add: findLeaf_eq_find countLeaves_eq)
qed

theorem tree_refines_list_witness:
  "map leaf_paneId (collectLeaves (fst (splitLeaf sample_uuids 0 sample_tree ''p'' Column ''new'' (sample_host ''h'' None))))
     = [''p'', ''new'', ''q'']"
  by (subst tree_refines_list[OF sample_tree_ok, THEN conjunct1]) (simp add: sample_tree_def)

text \<open>
  Splitting (with identifiers not yet in the tree), closing and resizing keep a layout well
  formed: pane and divider identifiers stay distinct and every ratio stays between 0.15 and
  0.85.
\<close>
theorem tree_ok_preserved:
  assumes "tree_ok t"
  shows "(np \<notin> set (pane_ids t) \<and> u n \<notin> set (split_ids t) \<longrightarrow>
      tree_ok (fst (splitLeaf u n t p dir np h)))
    \<and> pred_option tree_ok (removeLeaf t p)
    \<and> tree_ok (resizeSplit t sid q)"
  using assms
  by (cases "removeLeaf t p")
    (auto intro: tree_ok_splitLeaf tree_ok_removeLeaf tree_ok_resizeSplit)

theorem tree_ok_preserved_witness:
  "tree_ok (fst (splitLeaf sample_uuids 0 sample_tree ''p'' Row ''new'' (sample_host ''h'' None)))
     \<and> tree_ok (resizeSplit sample_tree ''s'' 7)"
  using tree_ok_preserved[OF sample_tree_ok, of "''new''" sample_uuids 0 "''p''" Row "sample_host ''h'' None" "''s''" 7]
  by (simp add: sample_uuids_def)

text \<open>
  Closing the pane that a split has just opened gives back the very tree there was before
  the split, dividers and ratios included.
\<close>
theorem close_undoes_split:
  assumes "tree_ok t" and "p \<in> set (pane_ids t)" and "np \<notin> set (pane_ids t)"
  shows "removeLeaf (fst (splitLeaf u n t p dir np h)) np = Some t"
  using assms by (intro removeLeaf_splitLeaf) (simp_all add: tree_ok_def)

theorem close_undoes_split_witness:
  "removeLeaf (fst (splitLeaf sample_uuids 0 sample_tree ''q'' Row ''new'' (sample_host ''h'' None))) ''new''
     = Some sample_tree"
  by (rule close_undoes_split) simp_all

text \<open>
  A resize sets the ratio of the named divider to the request clamped into 0.15 to 0.85, and
  leaves every other divider's ratio alone.
\<close>
theorem resizeSplit_effect:
  assumes "tree_ok t"
  shows "ratio_of (resizeSplit t sid q) sid' =
      (if sid' = sid \<and> sid \<in> set (split_ids t)
       then Some (if q < 15 / 100 then 15 / 100 else if 85 / 100 < q then 85 / 100 else q)
       else ratio_of t sid')"
  using assms by (subst ratio_of_resizeSplit) (auto simp: tree_ok_def MIN_RATIO_def MAX_RATIO_def)

theorem resizeSplit_effect_witness:
  "ratio_of (resizeSplit sample_tree ''s'' 3) ''s'' = Some (85 / 100)"
  by (subst resizeSplit_effect[OF sample_tree_ok]) simp

end
