(* ===== verification/Pane_Layout.thy ===== *)
theory Pane_Layout
  imports Pane_Tree
begin

text \<open>
  The second half of \<open>src/src/lib/paneTree.ts\<close>: the flat list of rectangles a layout is
  rendered from (\<open>computeLayout\<close>), and the form a layout is saved in (\<open>serializeLayout\<close>,
  \<open>deserializeLayout\<close>). Pixels and ratios are real numbers; the rounding of doubles is not
  modelled.
\<close>

section \<open>Rectangles\<close>

record rect =
  left :: real
  top :: real
  width :: real
  height :: real

record leaf_layout =
  ll_paneId :: string
  ll_host :: host
  ll_rect :: rect

record divider_layout =
  dl_splitId :: string
  dl_direction :: direction
  dl_ratio :: real
  dl_availablePx :: real
  dl_rect :: rect

record pane_layout =
  leaves :: "leaf_layout list"
  dividers :: "divider_layout list"

definition DIVIDER_THICKNESS_PX :: real where "DIVIDER_THICKNESS_PX = 6"

fun computeLayout :: "pane_node \<Rightarrow> rect \<Rightarrow> pane_layout" where
  "computeLayout (Leaf l) rc =
     \<lparr>leaves = [\<lparr>ll_paneId = leaf_paneId l, ll_host = leaf_host l, ll_rect = rc\<rparr>], dividers = []\<rparr>"
| "computeLayout (Split s d r a b) rc =
     (let isRow = (d = Row);
          total = (if isRow then width rc else height rc);
          availablePx = max 0 (total - DIVIDER_THICKNESS_PX);
          aSize = availablePx * r;
          bSize = availablePx - aSize;
          aRect = (if isRow then rc\<lparr>width := aSize\<rparr> else rc\<lparr>height := aSize\<rparr>);
          dividerRect =
            (if isRow
             then \<lparr>left = left rc + aSize, top = top rc,
                   width = DIVIDER_THICKNESS_PX, height = height rc\<rparr>
             else \<lparr>left = left rc, top = top rc + aSize,
                   width = width rc, height = DIVIDER_THICKNESS_PX\<rparr>);
          bRect =
            (if isRow
             then \<lparr>left = left rc + aSize + DIVIDER_THICKNESS_PX, top = top rc,
                   width = bSize, height = height rc\<rparr>
             else \<lparr>left = left rc, top = top rc + aSize + DIVIDER_THICKNESS_PX,
                   width = width rc, height = bSize\<rparr>);
          aLayout = computeLayout a aRect;
          bLayout = computeLayout b bRect
      in \<lparr>leaves = leaves aLayout @ leaves bLayout,
          dividers = dividers aLayout
            @ [\<lparr>dl_splitId = s, dl_direction = d, dl_ratio = r,
                 dl_availablePx = availablePx, dl_rect = dividerRect\<rparr>]
            @ dividers bLayout\<rparr>)"

text \<open>The two children's rectangles, by name.\<close>

definition avail :: "direction \<Rightarrow> rect \<Rightarrow> real" where
  "avail d rc = max 0 ((if d = Row then width rc else height rc) - DIVIDER_THICKNESS_PX)"

definition a_rect :: "direction \<Rightarrow> real \<Rightarrow> rect \<Rightarrow> rect" where
  "a_rect d r rc =
     (if d = Row then rc\<lparr>width := avail d rc * r\<rparr> else rc\<lparr>height := avail d rc * r\<rparr>)"

definition divider_rect :: "direction \<Rightarrow> real \<Rightarrow> rect \<Rightarrow> rect" where
  "divider_rect d r rc =
     (if d = Row
      then \<lparr>left = left rc + avail d rc * r, top = top rc, width = DIVIDER_THICKNESS_PX, height = height rc\<rparr>
      else \<lparr>left = left rc, top = top rc + avail d rc * r, width = width rc, height = DIVIDER_THICKNESS_PX\<rparr>)"

definition b_rect :: "direction \<Rightarrow> real \<Rightarrow> rect \<Rightarrow> rect" where
  "b_rect d r rc =
     (if d = Row
      then \<lparr>left = left rc + avail d rc * r + DIVIDER_THICKNESS_PX, top = top rc,
            width = avail d rc - avail d rc * r, height = height rc\<rparr>
      else \<lparr>left = left rc, top = top rc + avail d rc * r + DIVIDER_THICKNESS_PX,
            width = width rc, height = avail d rc - avail d rc * r\<rparr>)"

lemma computeLayout_Split:
  "computeLayout (Split s d r a b) rc =
     \<lparr>leaves = leaves (computeLayout a (a_rect d r rc)) @ leaves (computeLayout b (b_rect d r rc)),
      dividers = dividers (computeLayout a (a_rect d r rc))
        @ [\<lparr>dl_splitId = s, dl_direction = d, dl_ratio = r,
             dl_availablePx = avail d rc, dl_rect = divider_rect d r rc\<rparr>]
        @ dividers (computeLayout b (b_rect d r rc))\<rparr>"
  by (simp add: Let_def avail_def a_rect_def b_rect_def divider_rect_def)

declare computeLayout.simps(2) [simp del] computeLayout_Split [simp]

text \<open>
  The layout is flat: the panes appear in the order of the tree, each with its own identifier
  and host, and the dividers likewise, whatever the rectangle.
\<close>

lemma layout_panes:
  "map (\<lambda>l. (ll_paneId l, ll_host l)) (leaves (computeLayout t rc)) =
     map (\<lambda>l. (leaf_paneId l, leaf_host l)) (collectLeaves t)"
  by (induction t arbitrary: rc) auto

lemma layout_pane_ids: "map ll_paneId (leaves (computeLayout t rc)) = pane_ids t"
  by (induction t arbitrary: rc) auto

lemma layout_divider_ids: "map dl_splitId (dividers (computeLayout t rc)) = split_ids t"
  by (induction t arbitrary: rc) auto

section \<open>Panes lie in the rectangle and do not overlap\<close>

text \<open>
  A container narrower than a divider leaves its panes no width at all, and then they are not
  inside it; but a pane with no width or no height covers nothing. So the statement for one
  axis is: no extent, or inside.
\<close>

definition span_in :: "real \<Rightarrow> real \<Rightarrow> real \<Rightarrow> real \<Rightarrow> bool" where
  "span_in x w X W \<longleftrightarrow> 0 \<le> w \<and> (w = 0 \<or> (X \<le> x \<and> x + w \<le> X + W))"

definition rect_in :: "rect \<Rightarrow> rect \<Rightarrow> bool" where
  "rect_in r R \<longleftrightarrow>
     span_in (left r) (width r) (left R) (width R) \<and> span_in (top r) (height r) (top R) (height R)"

definition overlap :: "rect \<Rightarrow> rect \<Rightarrow> bool" where
  "overlap r q \<longleftrightarrow>
     0 < width r \<and> 0 < width q \<and> 0 < height r \<and> 0 < height q \<and>
     left r < left q + width q \<and> left q < left r + width r \<and>
     top r < top q + height q \<and> top q < top r + height r"

fun ratios_unit :: "pane_node \<Rightarrow> bool" where
  "ratios_unit (Leaf l) = True"
| "ratios_unit (Split s d r a b) = (0 \<le> r \<and> r \<le> 1 \<and> ratios_unit a \<and> ratios_unit b)"

lemma ratios_ok_unit: "ratios_ok t \<Longrightarrow> ratios_unit t"
  by (induction t) (auto simp: MIN_RATIO_def MAX_RATIO_def)

lemma avail_nonneg [simp]: "0 \<le> avail d rc"
  by (simp add: avail_def)

lemma avail_part: "0 \<le> r \<Longrightarrow> r \<le> 1 \<Longrightarrow> 0 \<le> avail d rc * r \<and> avail d rc * r \<le> avail d rc"
  by (simp add: mult_left_le)

lemma span_in_trans: "span_in x w Y V \<Longrightarrow> span_in Y V X W \<Longrightarrow> span_in x w X W"
  by (auto simp: span_in_def)

lemma rect_in_trans: "rect_in r q \<Longrightarrow> rect_in q p \<Longrightarrow> rect_in r p"
  by (auto simp: rect_in_def intro: span_in_trans)

lemma rect_in_refl: "0 \<le> width r \<Longrightarrow> 0 \<le> height r \<Longrightarrow> rect_in r r"
  by (simp add: rect_in_def span_in_def)

lemma rect_in_children:
  assumes "0 \<le> r" "r \<le> 1" "0 \<le> width rc" "0 \<le> height rc"
  shows "rect_in (a_rect d r rc) rc" "rect_in (b_rect d r rc) rc"
  using assms avail_part[OF assms(1,2), of d rc]
  by (auto simp: rect_in_def span_in_def a_rect_def b_rect_def avail_def max_def DIVIDER_THICKNESS_PX_def
      split: if_splits)

lemma child_sizes:
  assumes "0 \<le> r" "r \<le> 1" "0 \<le> width rc" "0 \<le> height rc"
  shows "0 \<le> width (a_rect d r rc)" "0 \<le> height (a_rect d r rc)"
    "0 \<le> width (b_rect d r rc)" "0 \<le> height (b_rect d r rc)"
  using assms avail_part[OF assms(1,2), of d rc] by (auto simp: a_rect_def b_rect_def)

lemma layout_in:
  assumes "ratios_unit t" "0 \<le> width rc" "0 \<le> height rc" "l \<in> set (leaves (computeLayout t rc))"
  shows "rect_in (ll_rect l) rc"
  using assms
proof (induction t arbitrary: rc)
  case (Leaf k)
  then show ?case by (auto simp: rect_in_refl)
next
  case (Split s d r a b)
  then have r: "0 \<le> r" "r \<le> 1" by auto
  note sizes = child_sizes[OF r Split.prems(2,3), of d]
  from Split.prems(4) consider "l \<in> set (leaves (computeLayout a (a_rect d r rc)))"
    | "l \<in> set (leaves (computeLayout b (b_rect d r rc)))" by auto
  then show ?case
  proof cases
    case 1
    with Split.IH(1)[OF _ sizes(1,2)] Split.prems(1) have "rect_in (ll_rect l) (a_rect d r rc)" by simp
    then show ?thesis using rect_in_children(1)[OF r Split.prems(2,3)] by (rule rect_in_trans)
  next
    case 2
    with Split.IH(2)[OF _ sizes(3,4)] Split.prems(1) have "rect_in (ll_rect l) (b_rect d r rc)" by simp
    then show ?thesis using rect_in_children(2)[OF r Split.prems(2,3)] by (rule rect_in_trans)
  qed
qed

lemma children_apart:
  assumes "rect_in p (a_rect d r rc)" "rect_in q (b_rect d r rc)"
  shows "\<not> overlap p q"
  using assms
  by (auto simp: rect_in_def span_in_def overlap_def a_rect_def b_rect_def DIVIDER_THICKNESS_PX_def
      split: if_splits)

lemma layout_apart:
  assumes "ratios_unit t" "0 \<le> width rc" "0 \<le> height rc"
  shows "sorted_wrt (\<lambda>k l. \<not> overlap (ll_rect k) (ll_rect l)) (leaves (computeLayout t rc))"
  using assms
proof (induction t arbitrary: rc)
  case (Split s d r a b)
  then have r: "0 \<le> r" "r \<le> 1" and u: "ratios_unit a" "ratios_unit b" by auto
  note sizes = child_sizes[OF r Split.prems(2,3), of d]
  show ?case
    using Split.IH(1)[OF u(1) sizes(1,2)] Split.IH(2)[OF u(2) sizes(3,4)]
      layout_in[OF u(1) sizes(1,2)] layout_in[OF u(2) sizes(3,4)]
    by (simp add: sorted_wrt_append) (meson children_apart)
qed simp

text \<open>
  Where every divider has room, nothing is lost: panes and dividers together cover the
  container's area exactly.
\<close>

definition area :: "rect \<Rightarrow> real" where
  "area r = width r * height r"

fun has_room :: "pane_node \<Rightarrow> rect \<Rightarrow> bool" where
  "has_room (Leaf l) rc = True"
| "has_room (Split s d r a b) rc =
     (DIVIDER_THICKNESS_PX \<le> (if d = Row then width rc else height rc) \<and>
      has_room a (a_rect d r rc) \<and> has_room b (b_rect d r rc))"

lemma area_children:
  assumes "DIVIDER_THICKNESS_PX \<le> (if d = Row then width rc else height rc)"
  shows "area (a_rect d r rc) + area (divider_rect d r rc) + area (b_rect d r rc) = area rc"
  using assms
  by (cases d) (auto simp: area_def a_rect_def b_rect_def divider_rect_def avail_def algebra_simps)

lemma layout_area:
  "has_room t rc \<Longrightarrow>
     (\<Sum>l\<leftarrow>leaves (computeLayout t rc). area (ll_rect l))
       + (\<Sum>d\<leftarrow>dividers (computeLayout t rc). area (dl_rect d)) = area rc"
proof (induction t arbitrary: rc)
  case (Split s d r a b)
  then have "has_room a (a_rect d r rc)" "has_room b (b_rect d r rc)"
    and room: "DIVIDER_THICKNESS_PX \<le> (if d = Row then width rc else height rc)" by auto
  with Split.IH(1)[of "a_rect d r rc"] Split.IH(2)[of "b_rect d r rc"] area_children[OF room, of r]
  show ?case by simp
qed simp

section \<open>Saving and restoring a layout\<close>

datatype serialized_pane_node =
    Saved_leaf string
  | Saved_split direction real serialized_pane_node serialized_pane_node

fun serializeLayout :: "pane_node \<Rightarrow> serialized_pane_node" where
  "serializeLayout (Leaf l) = Saved_leaf (host_id (leaf_host l))"
| "serializeLayout (Split s d r a b) = Saved_split d r (serializeLayout a) (serializeLayout b)"

fun deserializeLayout ::
  "uuids \<Rightarrow> nat \<Rightarrow> serialized_pane_node \<Rightarrow> (string \<rightharpoonup> host) \<Rightarrow> pane_node option \<times> nat" where
  "deserializeLayout u n (Saved_leaf hid) hostsById =
     (case hostsById hid of
        Some h \<Rightarrow> (Some (Leaf \<lparr>leaf_paneId = u n, leaf_host = h\<rparr>), Suc n)
      | None \<Rightarrow> (None, n))"
| "deserializeLayout u n (Saved_split d r a b) hostsById =
     (case deserializeLayout u n a hostsById of (ra, n1) \<Rightarrow>
        (case deserializeLayout u n1 b hostsById of (rb, n2) \<Rightarrow>
           (case (ra, rb) of
              (Some a', Some b') \<Rightarrow> (Some (Split (u n2) d r a' b'), Suc n2)
            | _ \<Rightarrow> (if ra \<noteq> None then ra else rb, n2))))"

text \<open>The specification: what is left of a saved layout when some hosts are gone.\<close>

fun prune :: "(string \<Rightarrow> bool) \<Rightarrow> serialized_pane_node \<Rightarrow> serialized_pane_node option" where
  "prune alive (Saved_leaf h) = (if alive h then Some (Saved_leaf h) else None)"
| "prune alive (Saved_split d r a b) =
     (case (prune alive a, prune alive b) of
        (Some a', Some b') \<Rightarrow> Some (Saved_split d r a' b')
      | (None, b') \<Rightarrow> b'
      | (a', None) \<Rightarrow> a')"

fun saved_hosts :: "serialized_pane_node \<Rightarrow> string list" where
  "saved_hosts (Saved_leaf h) = [h]"
| "saved_hosts (Saved_split d r a b) = saved_hosts a @ saved_hosts b"

fun saved_ratios_ok :: "serialized_pane_node \<Rightarrow> bool" where
  "saved_ratios_ok (Saved_leaf h) = True"
| "saved_ratios_ok (Saved_split d r a b) =
     (MIN_RATIO \<le> r \<and> r \<le> MAX_RATIO \<and> saved_ratios_ok a \<and> saved_ratios_ok b)"

lemma saved_hosts_serialize: "saved_hosts (serializeLayout t) = map (host_id \<circ> leaf_host) (collectLeaves t)"
  by (induction t) auto

lemma saved_hosts_nonempty [simp]: "saved_hosts s \<noteq> []"
  by (induction s) auto

lemma saved_ratios_serialize: "saved_ratios_ok (serializeLayout t) = ratios_ok t"
  by (induction t) auto

lemma prune_all: "\<forall>h \<in> set (saved_hosts s). alive h \<Longrightarrow> prune alive s = Some s"
  by (induction s) auto

lemma prune_hosts:
  "(case prune alive s of None \<Rightarrow> [] | Some s' \<Rightarrow> saved_hosts s') = filter alive (saved_hosts s)"
  by (induction s) (auto split: option.splits)

text \<open>
  Restoring keeps the shape and the hosts; a host map is sound when it files every host under
  its own identifier, as \<open>new Map(hosts.map((h) => [h.id, h]))\<close> does.
\<close>

definition files_by_id :: "(string \<rightharpoonup> host) \<Rightarrow> bool" where
  "files_by_id m \<longleftrightarrow> (\<forall>i h. m i = Some h \<longrightarrow> host_id h = i)"

lemma deserialize_prune:
  "files_by_id m \<Longrightarrow>
     map_option serializeLayout (fst (deserializeLayout u n s m)) = prune (\<lambda>i. m i \<noteq> None) s"
proof (induction s arbitrary: n)
  case (Saved_leaf h)
  then show ?case by (auto simp: files_by_id_def split: option.splits)
next
  case (Saved_split d r a b)
  obtain ra n1 where ra: "deserializeLayout u n a m = (ra, n1)" by fastforce
  obtain rb n2 where rb: "deserializeLayout u n1 b m = (rb, n2)" by fastforce
  from Saved_split.IH(1)[of n] Saved_split.IH(2)[of n1] Saved_split.prems ra rb
  have "prune (\<lambda>i. m i \<noteq> None) a = map_option serializeLayout ra"
    "prune (\<lambda>i. m i \<noteq> None) b = map_option serializeLayout rb"
    by (simp_all)
  with ra rb show ?case by (cases ra; cases rb) simp_all
qed

lemma deserialize_count_mono: "n \<le> snd (deserializeLayout u n s m)"
proof (induction s arbitrary: n)
  case (Saved_split d r a b)
  have "n \<le> snd (deserializeLayout u n a m)"
    "snd (deserializeLayout u n a m) \<le> snd (deserializeLayout u (snd (deserializeLayout u n a m)) b m)"
    by (rule Saved_split.IH)+
  then show ?case by (auto simp: case_prod_beta split: option.splits)
qed (simp split: option.splits)

text \<open>
  The identifiers of a restored layout are exactly the ones drawn, one per pane and one per
  divider; a layout with nothing left draws none.
\<close>

lemma mset_upt_append: "n \<le> m \<Longrightarrow> m \<le> k \<Longrightarrow> mset [n..<m] + mset [m..<k] = mset [n..<k]"
  by (metis le_Suc_ex mset_append upt_add_eq_append)

lemma mset_upt_Suc: "n \<le> m \<Longrightarrow> mset_set {n..<Suc m} = add_mset m (mset_set {n..<m})"
  by (simp add: atLeastLessThanSuc)

lemma deserialize_ids:
  "case deserializeLayout u n s m of
     (None, n') \<Rightarrow> n' = n
   | (Some t, n') \<Rightarrow> mset (pane_ids t) + mset (split_ids t) = image_mset u (mset [n..<n'])"
proof (induction s arbitrary: n)
  case (Saved_leaf h)
  then show ?case by (simp split: option.splits)
next
  case (Saved_split d r a b)
  obtain ra n1 where ra: "deserializeLayout u n a m = (ra, n1)" by fastforce
  obtain rb n2 where rb: "deserializeLayout u n1 b m = (rb, n2)" by fastforce
  note le = deserialize_count_mono[of n u a m] deserialize_count_mono[of n1 u b m]
  show ?case
  proof (cases "ra \<noteq> None \<and> rb \<noteq> None")
    case True
    then obtain ta tb where t: "ra = Some ta" "rb = Some tb" by auto
    have "mset (pane_ids ta) + mset (split_ids ta) + (mset (pane_ids tb) + mset (split_ids tb)) =
        image_mset u (mset [n..<n1] + mset [n1..<n2])"
      using Saved_split.IH(1)[of n] Saved_split.IH(2)[of n1] ra rb t by simp
    also have "mset [n..<n1] + mset [n1..<n2] = mset [n..<n2]"
      by (rule mset_upt_append) (use le ra rb in simp_all)
    finally show ?thesis using ra rb t le by (simp add: ac_simps mset_upt_Suc)
  next
    case False
    then show ?thesis
      using Saved_split.IH(1)[of n] Saved_split.IH(2)[of n1] ra rb
      by (cases ra; cases rb) auto
  qed
qed

lemma deserialize_ratios:
  "saved_ratios_ok s \<Longrightarrow> pred_option ratios_ok (fst (deserializeLayout u n s m))"
proof (induction s arbitrary: n)
  case (Saved_split d r a b)
  have "pred_option ratios_ok (fst (deserializeLayout u n a m))"
    "pred_option ratios_ok (fst (deserializeLayout u (snd (deserializeLayout u n a m)) b m))"
    using Saved_split by simp_all
  with Saved_split.prems show ?case by (auto simp: case_prod_beta split: option.splits)
qed (simp split: option.splits)

lemma deserialize_tree_ok:
  assumes "inj u" and "saved_ratios_ok s" and "deserializeLayout u n s m = (Some t, n')"
  shows "tree_ok t" and "set (pane_ids t) \<union> set (split_ids t) = u ` {n..<n'}"
proof -
  have ids: "mset (pane_ids t @ split_ids t) = mset (map u [n..<n'])"
    using deserialize_ids[where u = u and n = n and s = s and m = m] assms(3) by simp
  then have "distinct (pane_ids t @ split_ids t)"
    using assms(1) by (simp only: mset_eq_imp_distinct_iff[OF ids]) (simp add: distinct_map inj_on_def inj_def)
  moreover have "ratios_ok t"
    using deserialize_ratios[OF assms(2), of u n m] assms(3) by simp
  ultimately show "tree_ok t" using assms by (auto simp: tree_ok_def)
  show "set (pane_ids t) \<union> set (split_ids t) = u ` {n..<n'}"
    using mset_eq_setD[OF ids] by auto
qed

section \<open>Properties\<close>

text \<open>
  The layout is one flat list of panes and one of dividers in the order of the tree, with
  the tree's identifiers and hosts, for every container: closing a pane or resizing a divider
  changes rectangles only, and a surviving pane keeps its identifier and its place among the
  others (which is what keeps its SSH connection mounted).
\<close>
theorem layout_is_flat:
  assumes "tree_ok t"
  shows "map (\<lambda>l. (ll_paneId l, ll_host l)) (leaves (computeLayout t rc)) =
           map (\<lambda>l. (leaf_paneId l, leaf_host l)) (collectLeaves t)
    \<and> map dl_splitId (dividers (computeLayout t rc)) = split_ids t
    \<and> map ll_paneId (leaves (computeLayout (resizeSplit t sid q) rc)) = map ll_paneId (leaves (computeLayout t rc))
    \<and> (\<forall>t'. removeLeaf t p = Some t' \<longrightarrow>
          map ll_paneId (leaves (computeLayout t' rc)) =
          filter (\<lambda>i. i \<noteq> p) (map ll_paneId (leaves (computeLayout t rc))))"
proof (intro conjI allI impI)
  show "map ll_paneId (leaves (computeLayout t' rc)) =
      filter (\<lambda>i. i \<noteq> p) (map ll_paneId (leaves (computeLayout t rc)))" if "removeLeaf t p = Some t'" for t'
    using assms pane_ids_removeLeaf[OF _ that] by (simp add: layout_pane_ids tree_ok_def)
qed (simp_all add: layout_panes layout_divider_ids layout_pane_ids)

theorem layout_is_flat_witness:
  "map ll_paneId (leaves (computeLayout sample_tree \<lparr>left = 0, top = 0, width = 106, height = 50\<rparr>)) = [''p'', ''q'']"
proof -
  have "map (\<lambda>l. (ll_paneId l, ll_host l))
      (leaves (computeLayout sample_tree \<lparr>left = 0, top = 0, width = 106, height = 50\<rparr>)) =
    map (\<lambda>l. (leaf_paneId l, leaf_host l)) (collectLeaves sample_tree)"
    using layout_is_flat[OF sample_tree_ok] by blast
  from arg_cong[OF this, of "map fst"] show ?thesis
    by (simp add: o_def) (simp add: sample_tree_def)
qed

text \<open>
  No pane is drawn over another and none outside its container: a pane with any width lies
  between the container's left and right edges, a pane with any height between its top and
  bottom, and two panes never share a point of their interiors, also when the container is too
  narrow for its dividers.
\<close>
theorem layout_panes_disjoint:
  assumes "tree_ok t" and "0 \<le> width rc" and "0 \<le> height rc"
  shows "(\<forall>l \<in> set (leaves (computeLayout t rc)). rect_in (ll_rect l) rc)
    \<and> sorted_wrt (\<lambda>k l. \<not> overlap (ll_rect k) (ll_rect l)) (leaves (computeLayout t rc))"
proof -
  have "ratios_unit t" using assms(1) by (simp add: tree_ok_def ratios_ok_unit)
  then show ?thesis using layout_in layout_apart assms(2,3) by blast
qed

theorem layout_panes_disjoint_witness:
  "list_all (\<lambda>l. rect_in (ll_rect l) \<lparr>left = 0, top = 0, width = 106, height = 50\<rparr>)
     (leaves (computeLayout sample_tree \<lparr>left = 0, top = 0, width = 106, height = 50\<rparr>))"
  using layout_panes_disjoint[OF sample_tree_ok, of "\<lparr>left = 0, top = 0, width = 106, height = 50\<rparr>"]
  by (simp add: list_all_iff)

text \<open>
  Where every divider has its six pixels, the panes and the dividers together cover exactly
  the container's area.
\<close>
theorem layout_tiles_container:
  assumes "has_room t rc"
  shows "(\<Sum>l\<leftarrow>leaves (computeLayout t rc). area (ll_rect l))
       + (\<Sum>d\<leftarrow>dividers (computeLayout t rc). area (dl_rect d)) = width rc * height rc"
  using layout_area[OF assms] by (simp add: area_def)

theorem layout_tiles_container_witness:
  "(\<Sum>l\<leftarrow>leaves (computeLayout sample_tree \<lparr>left = 0, top = 0, width = 106, height = 50\<rparr>). area (ll_rect l))
     + (\<Sum>d\<leftarrow>dividers (computeLayout sample_tree \<lparr>left = 0, top = 0, width = 106, height = 50\<rparr>). area (dl_rect d)) = 5300"
  by (subst layout_tiles_container) (simp_all add: sample_tree_def DIVIDER_THICKNESS_PX_def)

text \<open>
  Restoring a saved layout gives the saved tree pruned of the hosts that no longer exist: a
  divider with one dead side collapses to the other, and nothing is left only when every host
  is gone. Directions, ratios and host identifiers are the saved ones.
\<close>
theorem deserialize_is_prune:
  assumes "files_by_id m"
  shows "map_option serializeLayout (fst (deserializeLayout u n s m)) = prune (\<lambda>i. m i \<noteq> None) s
    \<and> (fst (deserializeLayout u n s m) = None \<longleftrightarrow> (\<forall>i \<in> set (saved_hosts s). m i = None))"
proof -
  note eq = deserialize_prune[OF assms, of u n s]
  have "prune (\<lambda>i. m i \<noteq> None) s = None \<longleftrightarrow> filter (\<lambda>i. m i \<noteq> None) (saved_hosts s) = []"
    using prune_hosts[of "\<lambda>i. m i \<noteq> None" s] saved_hosts_nonempty
    by (cases "prune (\<lambda>i. m i \<noteq> None) s") (metis option.case option.discI)+
  also have "\<dots> \<longleftrightarrow> (\<forall>i \<in> set (saved_hosts s). m i = None)"
    by (simp add: filter_empty_conv)
  finally show ?thesis using eq by (metis option.map_disc_iff)
qed

theorem deserialize_is_prune_witness:
  "map_option serializeLayout (fst (deserializeLayout sample_uuids 0 (serializeLayout sample_tree)
       [''k'' \<mapsto> sample_host ''k'' None])) = Some (Saved_leaf ''k'')"
proof -
  have "files_by_id [''k'' \<mapsto> sample_host ''k'' None]" by (simp add: files_by_id_def)
  from deserialize_is_prune[OF this] show ?thesis by (simp add: sample_tree_def)
qed

lemma save_restore:
  assumes "inj u" and "files_by_id m" and "tree_ok t"
    and "\<forall>l \<in> set (collectLeaves t). m (host_id (leaf_host l)) \<noteq> None"
  shows "\<exists>t' n'. deserializeLayout u n (serializeLayout t) m = (Some t', n')
    \<and> serializeLayout t' = serializeLayout t \<and> tree_ok t'
    \<and> set (pane_ids t') \<union> set (split_ids t') = u ` {n..<n'}"
proof -
  have "prune (\<lambda>i. m i \<noteq> None) (serializeLayout t) = Some (serializeLayout t)"
    by (rule prune_all) (use assms(4) in \<open>auto simp: saved_hosts_serialize\<close>)
  with deserialize_prune[OF assms(2), of u n "serializeLayout t"]
  obtain t' n' where t': "deserializeLayout u n (serializeLayout t) m = (Some t', n')"
    "serializeLayout t' = serializeLayout t"
    by (cases "deserializeLayout u n (serializeLayout t) m") auto
  have "saved_ratios_ok (serializeLayout t)"
    using assms(3) by (simp add: saved_ratios_serialize tree_ok_def)
  from deserialize_tree_ok[OF assms(1) this t'(1)] t' show ?thesis by blast
qed

text \<open>
  C37: Saving a layout and restoring it while all its hosts still exist gives a layout that
  saves to the same value, is well formed and uses only newly drawn identifiers.
\<close>
theorem save_restore_roundtrip:
  assumes "inj u" and "files_by_id m" and "tree_ok t"
    and "\<forall>l \<in> set (collectLeaves t). m (host_id (leaf_host l)) \<noteq> None"
  shows "\<exists>t' n'. deserializeLayout u n (serializeLayout t) m = (Some t', n')
    \<and> serializeLayout t' = serializeLayout t \<and> tree_ok t'
    \<and> set (pane_ids t') \<union> set (split_ids t') = u ` {n..<n'}"
  using assms by (rule save_restore)

theorem save_restore_roundtrip_witness:
  "\<exists>t' n'. deserializeLayout sample_uuids 0 (serializeLayout sample_tree)
       [''h'' \<mapsto> sample_host ''h'' None, ''k'' \<mapsto> sample_host ''k'' None] = (Some t', n')
     \<and> serializeLayout t' = serializeLayout sample_tree"
proof -
  have "files_by_id [''h'' \<mapsto> sample_host ''h'' None, ''k'' \<mapsto> sample_host ''k'' None]"
    by (simp add: files_by_id_def)
  from save_restore_roundtrip[OF inj_sample_uuids this sample_tree_ok, of 0]
  show ?thesis by (auto simp: sample_tree_def)
qed

end
