(* ===== verification/Sessions_Store.thy ===== *)
theory Sessions_Store
  imports Pane_Layout
begin

text \<open>
  The store of open tabs, \<open>src/src/state/sessionsStore.ts\<close>: its state, one definition per
  action, the actions as a state machine, and the invariant every action keeps (distinct tab
  and pane identifiers, well-formed layouts, at most \<open>MAX_PANES\<close> panes per tab).
\<close>

section \<open>State\<close>

datatype session_kind = Terminal | Sftp

datatype session_status = Connecting | Connected | Closed | Error_status | Reconnecting

record open_session =
  tabId :: string
  kind :: session_kind
  session_host :: host
  layout :: "pane_node option"
  broadcastEnabled :: bool

text \<open>
  \<open>drawn\<close> counts the calls of \<open>crypto.randomUUID\<close> so far; \<open>Record<string, T>\<close> is a
  partial map.
\<close>

record sessions_state =
  openSessions :: "open_session list"
  statuses :: "string \<rightharpoonup> session_status"
  sessionIds :: "string \<rightharpoonup> string"
  drawn :: nat

definition MAX_PANES :: nat where "MAX_PANES = 9"

definition initial_sessions :: sessions_state where
  "initial_sessions = \<lparr>openSessions = [], statuses = Map.empty, sessionIds = Map.empty, drawn = 0\<rparr>"

definition find_tab :: "string \<Rightarrow> open_session list \<Rightarrow> open_session option" where
  "find_tab t ss = List.find (\<lambda>s. tabId s = t) ss"

definition findLiveSessionId ::
  "open_session list \<Rightarrow> (string \<rightharpoonup> string) \<Rightarrow> string \<Rightarrow> string option" where
  "findLiveSessionId ss ids hid =
     (case List.find (\<lambda>s. host_id (session_host s) = hid \<and> kind s = Terminal) ss of
        None \<Rightarrow> None
      | Some tab \<Rightarrow>
          (case layout tab of
             None \<Rightarrow> None
           | Some t \<Rightarrow> (case collectLeaves t of [] \<Rightarrow> None | l # _ \<Rightarrow> ids (leaf_paneId l))))"

section \<open>Actions\<close>

definition openSession ::
  "uuids \<Rightarrow> host \<Rightarrow> session_kind \<Rightarrow> sessions_state \<Rightarrow> string \<times> sessions_state" where
  "openSession u h k s =
     (let newTabId = u (drawn s);
          newLayout = (if k = Terminal
                       then Some (Leaf \<lparr>leaf_paneId = u (Suc (drawn s)), leaf_host = h\<rparr>) else None);
          drawn' = (if k = Terminal then drawn s + 2 else drawn s + 1)
      in (newTabId,
          s\<lparr>openSessions := openSessions s
               @ [\<lparr>tabId = newTabId, kind = k, session_host = h, layout = newLayout, broadcastEnabled = False\<rparr>],
            drawn := drawn'\<rparr>))"

definition closing_panes :: "open_session option \<Rightarrow> pane_leaf list" where
  "closing_panes closing =
     (case closing of
        None \<Rightarrow> []
      | Some tab \<Rightarrow> (case layout tab of None \<Rightarrow> [] | Some t \<Rightarrow> collectLeaves t))"

definition delete_keys :: "string list \<Rightarrow> (string \<rightharpoonup> 'v) \<Rightarrow> (string \<rightharpoonup> 'v)" where
  "delete_keys ks m = fold (\<lambda>k m. m(k := None)) ks m"

definition closeSession :: "string \<Rightarrow> sessions_state \<Rightarrow> sessions_state" where
  "closeSession tid s =
     (let panes = map leaf_paneId (closing_panes (find_tab tid (openSessions s)))
      in s\<lparr>openSessions := filter (\<lambda>x. tabId x \<noteq> tid) (openSessions s),
           statuses := delete_keys panes (statuses s),
           sessionIds := delete_keys panes (sessionIds s)\<rparr>)"

definition setStatus :: "string \<Rightarrow> session_status \<Rightarrow> sessions_state \<Rightarrow> sessions_state" where
  "setStatus p st s = s\<lparr>statuses := (statuses s)(p \<mapsto> st)\<rparr>"

definition setSessionId :: "string \<Rightarrow> string \<Rightarrow> sessions_state \<Rightarrow> sessions_state" where
  "setSessionId p sid s = s\<lparr>sessionIds := (sessionIds s)(p \<mapsto> sid)\<rparr>"

text \<open>
  \<open>splitPane\<close> walks all tabs with two variables of the enclosing closure, the identifiers drawn
  so far and the flag \<open>created\<close>.
\<close>

fun split_in ::
  "uuids \<Rightarrow> string \<Rightarrow> string \<Rightarrow> direction \<Rightarrow> host option \<Rightarrow> string \<Rightarrow>
     open_session list \<Rightarrow> nat \<Rightarrow> bool \<Rightarrow> open_session list \<times> nat \<times> bool" where
  "split_in u tid p dir h newPaneId [] n created = ([], n, created)"
| "split_in u tid p dir h newPaneId (x # xs) n created =
     (let (x', n', created') =
        (if tabId x \<noteq> tid \<or> kind x \<noteq> Terminal then (x, n, created)
         else (case layout x of
             None \<Rightarrow> (x, n, created)
           | Some t \<Rightarrow>
               (if countLeaves t \<ge> MAX_PANES then (x, n, created)
                else (case findLeaf t p of
                    None \<Rightarrow> (x, n, created)
                  | Some leaf \<Rightarrow>
                      (let newHost = (case h of Some g \<Rightarrow> g | None \<Rightarrow> leaf_host leaf);
                           (t', m) = splitLeaf u n t p dir newPaneId newHost
                       in (x\<lparr>layout := Some t'\<rparr>, m, True))))));
          (xs', n'', created'') = split_in u tid p dir h newPaneId xs n' created'
      in (x' # xs', n'', created''))"

definition splitPane ::
  "uuids \<Rightarrow> string \<Rightarrow> string \<Rightarrow> direction \<Rightarrow> host option \<Rightarrow> sessions_state \<Rightarrow>
     string option \<times> sessions_state" where
  "splitPane u tid p dir h s =
     (let newPaneId = u (drawn s);
          (ss, n, created) = split_in u tid p dir h newPaneId (openSessions s) (Suc (drawn s)) False
      in (if created then Some newPaneId else None, s\<lparr>openSessions := ss, drawn := n\<rparr>))"

text \<open>One tab of \<open>closePane\<close>'s map: the new tab and whether the pane was removed from it.\<close>

definition close_in :: "string \<Rightarrow> string \<Rightarrow> open_session \<Rightarrow> open_session \<times> bool" where
  "close_in tid p x =
     (if tabId x \<noteq> tid \<or> kind x \<noteq> Terminal then (x, False)
      else (case layout x of
          None \<Rightarrow> (x, False)
        | Some (Leaf l) \<Rightarrow> (x, False)
        | Some t \<Rightarrow>
            (if findLeaf t p = None then (x, False)
             else (case removeLeaf t p of
                 None \<Rightarrow> (x, False)
               | Some t' \<Rightarrow> (x\<lparr>layout := Some t'\<rparr>, True)))))"

definition closePane :: "string \<Rightarrow> string \<Rightarrow> sessions_state \<Rightarrow> sessions_state" where
  "closePane tid p s =
     (let results = map (close_in tid p) (openSessions s)
      in if \<not> list_ex snd results then s
         else s\<lparr>openSessions := map fst results,
                statuses := (statuses s)(p := None),
                sessionIds := (sessionIds s)(p := None)\<rparr>)"

definition setLayout :: "string \<Rightarrow> pane_node \<Rightarrow> sessions_state \<Rightarrow> sessions_state" where
  "setLayout tid t s =
     s\<lparr>openSessions := map_at tabId tid (\<lambda>x. x\<lparr>layout := Some t\<rparr>) (openSessions s)\<rparr>"

definition resizePaneSplit :: "string \<Rightarrow> string \<Rightarrow> real \<Rightarrow> sessions_state \<Rightarrow> sessions_state" where
  "resizePaneSplit tid sid r s =
     s\<lparr>openSessions := map_at tabId tid
          (\<lambda>x. case layout x of
                 Some t \<Rightarrow> x\<lparr>layout := Some (resizeSplit t sid r)\<rparr>
               | None \<Rightarrow> x) (openSessions s)\<rparr>"

definition toggleBroadcast :: "string \<Rightarrow> sessions_state \<Rightarrow> sessions_state" where
  "toggleBroadcast tid s =
     s\<lparr>openSessions := map_at tabId tid
          (\<lambda>x. x\<lparr>broadcastEnabled := \<not> broadcastEnabled x\<rparr>) (openSessions s)\<rparr>"

text \<open>
  \<open>next.splice(i, 1)\<close> and \<open>next.splice(j, 0, x)\<close> with indices in range. The indices are
  integers, and the guard keeps the out-of-range ones away.
\<close>

definition splice_out :: "nat \<Rightarrow> 'a list \<Rightarrow> 'a list" where
  "splice_out i xs = take i xs @ drop (Suc i) xs"

definition splice_in :: "nat \<Rightarrow> 'a \<Rightarrow> 'a list \<Rightarrow> 'a list" where
  "splice_in i x xs = take i xs @ x # drop i xs"

definition reorderSessions :: "int \<Rightarrow> int \<Rightarrow> sessions_state \<Rightarrow> sessions_state" where
  "reorderSessions fromIndex toIndex s =
     (let xs = openSessions s; n = int (length xs)
      in if fromIndex = toIndex \<or> fromIndex < 0 \<or> fromIndex \<ge> n \<or> toIndex < 0 \<or> toIndex > n then s
         else (let moved = xs ! nat fromIndex;
                   rest = splice_out (nat fromIndex) xs;
                   insertAt = (if fromIndex < toIndex then toIndex - 1 else toIndex)
               in s\<lparr>openSessions :=
                      splice_in (nat (max 0 (min insertAt (int (length rest))))) moved rest\<rparr>))"

section \<open>The invariant\<close>

definition tab_panes :: "open_session \<Rightarrow> string list" where
  "tab_panes x = (case layout x of None \<Rightarrow> [] | Some t \<Rightarrow> pane_ids t)"

definition tab_splits :: "open_session \<Rightarrow> string list" where
  "tab_splits x = (case layout x of None \<Rightarrow> [] | Some t \<Rightarrow> split_ids t)"

definition tab_ok :: "open_session \<Rightarrow> bool" where
  "tab_ok x \<longleftrightarrow>
     (case layout x of
        None \<Rightarrow> kind x = Sftp
      | Some t \<Rightarrow> kind x = Terminal \<and> tree_ok t \<and> countLeaves t \<le> MAX_PANES)"

definition all_panes :: "open_session list \<Rightarrow> string list" where
  "all_panes ss = concat (map tab_panes ss)"

definition tab_ids :: "open_session \<Rightarrow> string set" where
  "tab_ids x = insert (tabId x) (set (tab_panes x) \<union> set (tab_splits x))"

definition sessions_ok :: "uuids \<Rightarrow> sessions_state \<Rightarrow> bool" where
  "sessions_ok u s \<longleftrightarrow>
     distinct (map tabId (openSessions s)) \<and>
     distinct (all_panes (openSessions s)) \<and>
     (\<forall>x \<in> set (openSessions s). tab_ok x \<and> tab_ids x \<subseteq> used_ids u (drawn s))"

lemma all_panes_simps [simp]:
  "all_panes [] = []"
  "all_panes (x # xs) = tab_panes x @ all_panes xs"
  "all_panes (xs @ ys) = all_panes xs @ all_panes ys"
  by (simp_all add: all_panes_def)

lemma set_all_panes: "set (all_panes xs) = (\<Union>x \<in> set xs. set (tab_panes x))"
  by (simp add: all_panes_def)

lemma tab_field_updates [simp]:
  "tab_panes (x\<lparr>broadcastEnabled := b\<rparr>) = tab_panes x"
  "tab_splits (x\<lparr>broadcastEnabled := b\<rparr>) = tab_splits x"
  "tab_ok (x\<lparr>broadcastEnabled := b\<rparr>) = tab_ok x"
  by (simp_all add: tab_panes_def tab_splits_def tab_ok_def split: option.splits)

lemma tab_layout_updates [simp]:
  "tab_panes (x\<lparr>layout := Some t\<rparr>) = pane_ids t"
  "tab_splits (x\<lparr>layout := Some t\<rparr>) = split_ids t"
  by (simp_all add: tab_panes_def tab_splits_def)

lemma sessions_ok_initial [simp]: "sessions_ok u initial_sessions"
  by (simp add: sessions_ok_def initial_sessions_def)

text \<open>Only the tabs and the counter matter to the invariant.\<close>

lemma sessions_ok_cong:
  "openSessions s' = openSessions s \<Longrightarrow> drawn s' = drawn s \<Longrightarrow> sessions_ok u s' = sessions_ok u s"
  by (simp add: sessions_ok_def)

text \<open>
  Replacing one tab: it may keep its panes, drop some, or gain panes whose identifiers were not
  drawn before.
\<close>

lemma tab_used:
  assumes "sessions_ok u s" and "y \<in> set (openSessions s)" and "drawn s \<le> n"
  shows "tab_ok y \<and> tab_ids y \<subseteq> used_ids u n"
  using assms used_ids_mono[OF assms(3), of u] unfolding sessions_ok_def by blast

lemma replace_tab_ok:
  assumes ok: "sessions_ok u s" and ss: "openSessions s = xs @ x # ys"
    and x': "tabId x' = tabId x" "tab_ok x'" "tab_ids x' \<subseteq> used_ids u n" "distinct (tab_panes x')"
    and n: "drawn s \<le> n"
    and panes: "set (tab_panes x') \<inter> used_ids u (drawn s) \<subseteq> set (tab_panes x)"
    and s': "openSessions s' = xs @ x' # ys" "drawn s' = n"
  shows "sessions_ok u s'"
proof -
  have used: "set (tab_panes y) \<subseteq> used_ids u (drawn s)" if "y \<in> set (openSessions s)" for y
    using ok that by (auto simp: sessions_ok_def tab_ids_def)
  have "set (tab_panes x') \<inter> set (all_panes xs @ all_panes ys) = {}"
  proof -
    have "set (all_panes xs @ all_panes ys) \<subseteq> used_ids u (drawn s)"
      using used ss by (auto simp: set_all_panes)
    moreover have "set (tab_panes x) \<inter> set (all_panes xs @ all_panes ys) = {}"
      using ok ss by (auto simp: sessions_ok_def)
    ultimately show ?thesis using panes by blast
  qed
  moreover have "distinct (all_panes xs @ all_panes ys)"
    using ok ss by (auto simp: sessions_ok_def)
  ultimately have "distinct (all_panes (xs @ x' # ys))"
    using x'(4) by auto
  moreover have "distinct (map tabId (xs @ x' # ys))"
    using ok ss x'(1) by (simp add: sessions_ok_def)
  moreover have "tab_ok y \<and> tab_ids y \<subseteq> used_ids u n" if "y \<in> set (xs @ x' # ys)" for y
    using that ss x'(2,3) tab_used[OF ok _ n, of y] by auto
  ultimately show ?thesis using s' by (simp add: sessions_ok_def)
qed

lemma tab_ok_tree: "tab_ok x \<Longrightarrow> layout x = Some t \<Longrightarrow> tree_ok t"
  by (simp add: tab_ok_def)

lemma tab_ok_distinct: "tab_ok x \<Longrightarrow> distinct (tab_panes x)"
  by (auto simp: tab_ok_def tab_panes_def tree_ok_def split: option.splits)

lemma append_tab_ok:
  assumes ok: "sessions_ok u s"
    and x: "tabId x \<notin> used_ids u (drawn s)" "set (tab_panes x) \<inter> used_ids u (drawn s) = {}"
      "tab_ok x" "tab_ids x \<subseteq> used_ids u n"
    and n: "drawn s \<le> n"
    and s': "openSessions s' = openSessions s @ [x]" "drawn s' = n"
  shows "sessions_ok u s'"
proof -
  have "tab_ok y \<and> tab_ids y \<subseteq> used_ids u n" if "y \<in> set (openSessions s @ [x])" for y
    using that x(3,4) tab_used[OF ok _ n, of y] by auto
  moreover have "tabId x \<notin> tabId ` set (openSessions s)"
    "set (tab_panes x) \<inter> set (all_panes (openSessions s)) = {}"
    using ok x(1,2) by (auto simp: sessions_ok_def tab_ids_def set_all_panes)
  moreover have "distinct (tab_panes x)"
    using x(3) by (rule tab_ok_distinct)
  ultimately show ?thesis
    using ok s' by (auto simp: sessions_ok_def)
qed

lemma openSession_ok:
  assumes ok: "sessions_ok u s" and inj: "inj u"
  shows "sessions_ok u (snd (openSession u h k s))"
proof (rule append_tab_ok[OF ok])
  let ?x = "\<lparr>tabId = u (drawn s), kind = k, session_host = h,
      layout = (if k = Terminal then Some (Leaf \<lparr>leaf_paneId = u (Suc (drawn s)), leaf_host = h\<rparr>) else None),
      broadcastEnabled = False\<rparr>"
  show "openSessions (snd (openSession u h k s)) = openSessions s @ [?x]"
    by (simp add: openSession_def Let_def)
  show "tabId ?x \<notin> used_ids u (drawn s)" "set (tab_panes ?x) \<inter> used_ids u (drawn s) = {}"
    using inj by (simp_all add: fresh_id_ge tab_panes_def)
  show "tab_ok ?x"
    by (cases k) (simp_all add: tab_ok_def tree_ok_def MAX_PANES_def)
  show "tab_ids ?x \<subseteq> used_ids u (drawn s + (if k = Terminal then 2 else 1))"
    by (auto simp: tab_ids_def tab_panes_def tab_splits_def used_ids_def)
qed (simp_all add: openSession_def Let_def)

lemma closeSession_ok: "sessions_ok u s \<Longrightarrow> sessions_ok u (closeSession tid s)"
proof -
  have "distinct (all_panes (filter P xs))" if "distinct (all_panes xs)" for P xs
    using that by (induction xs) (auto simp: set_all_panes)
  then show "sessions_ok u s \<Longrightarrow> sessions_ok u (closeSession tid s)"
    by (auto simp: sessions_ok_def closeSession_def Let_def distinct_map_filter)
qed

lemma setStatus_ok [simp]: "sessions_ok u (setStatus p st s) = sessions_ok u s"
  by (rule sessions_ok_cong) (simp_all add: setStatus_def)

lemma setSessionId_ok [simp]: "sessions_ok u (setSessionId p i s) = sessions_ok u s"
  by (rule sessions_ok_cong) (simp_all add: setSessionId_def)

text \<open>A tab by its identifier: with distinct identifiers there is one place to look.\<close>

lemma tab_at:
  assumes "distinct (map tabId ss)" and "tid \<in> tabId ` set ss"
  obtains xs x ys where "ss = xs @ x # ys" and "tabId x = tid"
    and "tid \<notin> tabId ` set xs" and "tid \<notin> tabId ` set ys" and "find_tab tid ss = Some x"
proof -
  obtain xs x ys where ss: "ss = xs @ x # ys" "tabId x = tid"
    "tid \<notin> tabId ` set xs" "tid \<notin> tabId ` set ys"
    using map_at_present[OF assms, of id] by metis
  moreover have "find_tab tid ss = Some x"
    unfolding find_tab_def using assms(1) by (rule find_distinct_key) (simp_all add: ss)
  ultimately show ?thesis by (rule that)
qed

lemma find_tab_None: "find_tab tid ss = None \<longleftrightarrow> tid \<notin> tabId ` set ss"
  by (simp add: find_tab_def find_None_iff_absent)

lemma find_tab_SomeD: "find_tab tid ss = Some x \<Longrightarrow> x \<in> set ss \<and> tabId x = tid"
  by (auto simp: find_tab_def dest: find_SomeD)

subsection \<open>Splitting\<close>

lemma split_in_absent [simp]:
  "tid \<notin> tabId ` set xs \<Longrightarrow> split_in u tid p dir h np xs n c = (xs, n, c)"
  by (induction xs arbitrary: n c) auto

lemma split_in_skip [simp]:
  "tid \<notin> tabId ` set xs \<Longrightarrow>
     split_in u tid p dir h np (xs @ zs) n c =
       (case split_in u tid p dir h np zs n c of (zs', n', c') \<Rightarrow> (xs @ zs', n', c'))"
  by (induction xs arbitrary: n c) (auto split: prod.splits)

definition can_split :: "string \<Rightarrow> string \<Rightarrow> sessions_state \<Rightarrow> bool" where
  "can_split tid p s =
     (case find_tab tid (openSessions s) of
        None \<Rightarrow> False
      | Some x \<Rightarrow>
          (case layout x of
             None \<Rightarrow> False
           | Some t \<Rightarrow> kind x = Terminal \<and> countLeaves t < MAX_PANES \<and> p \<in> set (pane_ids t)))"

lemma splitPane_refused:
  assumes "distinct (map tabId (openSessions s))" and "\<not> can_split tid p s"
  shows "splitPane u tid p dir h s = (None, s\<lparr>drawn := Suc (drawn s)\<rparr>)"
proof (cases "tid \<in> tabId ` set (openSessions s)")
  case True
  then obtain xs x ys where tab: "openSessions s = xs @ x # ys" "tabId x = tid"
    "tid \<notin> tabId ` set xs" "tid \<notin> tabId ` set ys" "find_tab tid (openSessions s) = Some x"
    using tab_at[OF assms(1)] by metis
  have "findLeaf t p = None" if "layout x = Some t" "kind x = Terminal" "\<not> MAX_PANES \<le> countLeaves t" for t
    using assms(2) tab(5) that by (simp add: can_split_def findLeaf_None_iff)
  then have "split_in u tid p dir h np (x # ys) n False = (x # ys, n, False)" for np n
    using tab(2,4) by (auto split: option.splits)
  with tab show ?thesis by (simp add: splitPane_def Let_def)
qed (simp add: splitPane_def)

lemma splitPane_done:
  assumes d: "distinct (map tabId (openSessions s))" and "can_split tid p s"
  obtains xs x ys t leaf where
    "openSessions s = xs @ x # ys" "tabId x = tid" "find_tab tid (openSessions s) = Some x"
    "kind x = Terminal" "layout x = Some t" "countLeaves t < MAX_PANES" "findLeaf t p = Some leaf"
    "splitPane u tid p dir h s =
       (Some (u (drawn s)),
        s\<lparr>openSessions := xs @ x\<lparr>layout := Some (fst (splitLeaf u (Suc (drawn s)) t p dir (u (drawn s))
              (case h of Some g \<Rightarrow> g | None \<Rightarrow> leaf_host leaf)))\<rparr> # ys,
          drawn := snd (splitLeaf u (Suc (drawn s)) t p dir (u (drawn s))
              (case h of Some g \<Rightarrow> g | None \<Rightarrow> leaf_host leaf))\<rparr>)"
proof -
  from assms(2) have "tid \<in> tabId ` set (openSessions s)"
    using find_tab_None[of tid "openSessions s"] by (auto simp: can_split_def split: option.splits)
  then obtain xs x ys where tab: "openSessions s = xs @ x # ys" "tabId x = tid"
    "tid \<notin> tabId ` set xs" "tid \<notin> tabId ` set ys" "find_tab tid (openSessions s) = Some x"
    using tab_at[OF d] by metis
  with assms(2) obtain t where t: "kind x = Terminal" "layout x = Some t" "countLeaves t < MAX_PANES"
    "p \<in> set (pane_ids t)"
    by (auto simp: can_split_def split: option.splits)
  then obtain leaf where leaf: "findLeaf t p = Some leaf"
    using findLeaf_None_iff[of t p] by auto
  show ?thesis
    by (rule that[OF tab(1,2,5) t(1-3) leaf])
      (use tab t leaf in \<open>simp add: splitPane_def case_prod_beta Let_def\<close>)
qed

lemma splitPane_ok:
  assumes ok: "sessions_ok u s" and inj: "inj u"
  shows "sessions_ok u (snd (splitPane u tid p dir h s))"
proof -
  have d: "distinct (map tabId (openSessions s))" using ok by (simp add: sessions_ok_def)
  show ?thesis
  proof (cases "can_split tid p s")
    case False
    have "sessions_ok u (s\<lparr>drawn := Suc (drawn s)\<rparr>)"
      using ok tab_used[OF ok, of _ "Suc (drawn s)"] by (auto simp: sessions_ok_def)
    with False show ?thesis using splitPane_refused[OF d] by simp
  next
    case True
    from d True obtain xs x ys t leaf where sp: "openSessions s = xs @ x # ys" "tabId x = tid"
      "find_tab tid (openSessions s) = Some x" "kind x = Terminal" "layout x = Some t"
      "countLeaves t < MAX_PANES" "findLeaf t p = Some leaf"
      "splitPane u tid p dir h s =
         (Some (u (drawn s)),
          s\<lparr>openSessions := xs @ x\<lparr>layout := Some (fst (splitLeaf u (Suc (drawn s)) t p dir (u (drawn s))
                (case h of Some g \<Rightarrow> g | None \<Rightarrow> leaf_host leaf)))\<rparr> # ys,
            drawn := snd (splitLeaf u (Suc (drawn s)) t p dir (u (drawn s))
                (case h of Some g \<Rightarrow> g | None \<Rightarrow> leaf_host leaf))\<rparr>)"
      by (rule splitPane_done)
    let ?n = "drawn s"
    let ?g = "case h of Some g \<Rightarrow> g | None \<Rightarrow> leaf_host leaf"
    let ?t = "fst (splitLeaf u (Suc ?n) t p dir (u ?n) ?g)"
    have x: "tab_ok x" "tab_ids x \<subseteq> used_ids u ?n" using ok sp(1) by (auto simp: sessions_ok_def)
    have t: "tree_ok t" using x(1) sp(5) by (rule tab_ok_tree)
    have p: "p \<in> set (pane_ids t)" using sp(7) findLeaf_None_iff[of t p] by auto
    have used: "set (pane_ids t) \<subseteq> used_ids u ?n" "set (split_ids t) \<subseteq> used_ids u ?n" "tid \<in> used_ids u ?n"
      using x(2) sp(2,5) by (auto simp: tab_ids_def tab_panes_def tab_splits_def)
    have fresh: "u ?n \<notin> used_ids u ?n" "u (Suc ?n) \<notin> used_ids u ?n"
      using inj by (simp_all add: fresh_id_ge)
    have "u ?n \<notin> set (pane_ids t)" "u (Suc ?n) \<notin> set (split_ids t)"
      using used fresh by auto
    note new = splitLeaf_facts[where u = u and n = "Suc ?n" and dir = dir and h = ?g, OF t p this refl]
    show ?thesis
    proof (rule replace_tab_ok[OF ok sp(1)])
      show "tab_ok (x\<lparr>layout := Some ?t\<rparr>)"
        using new(1,2) sp(4,6) by (simp add: tab_ok_def)
      show "tab_ids (x\<lparr>layout := Some ?t\<rparr>) \<subseteq> used_ids u (Suc (Suc ?n))"
        using used new(3,4) sp(2) by (auto simp: tab_ids_def used_ids_Suc)
      show "distinct (tab_panes (x\<lparr>layout := Some ?t\<rparr>))"
        using new(1) by (simp add: tree_ok_def)
      show "set (tab_panes (x\<lparr>layout := Some ?t\<rparr>)) \<inter> used_ids u ?n \<subseteq> set (tab_panes x)"
        using new(3) fresh sp(5) by (auto simp: tab_panes_def)
    qed (use sp(8) new(5) in simp_all)
  qed
qed

subsection \<open>Closing a pane\<close>

definition can_close :: "string \<Rightarrow> string \<Rightarrow> sessions_state \<Rightarrow> bool" where
  "can_close tid p s =
     (case find_tab tid (openSessions s) of
        None \<Rightarrow> False
      | Some x \<Rightarrow>
          (case layout x of
             None \<Rightarrow> False
           | Some t \<Rightarrow> kind x = Terminal \<and> 1 < countLeaves t \<and> p \<in> set (pane_ids t)))"

lemma close_in_other [simp]: "tabId x \<noteq> tid \<Longrightarrow> close_in tid p x = (x, False)"
  by (simp add: close_in_def)

lemma close_in_others:
  "tid \<notin> tabId ` set xs \<Longrightarrow>
     map fst (map (close_in tid p) xs) = xs \<and> \<not> list_ex snd (map (close_in tid p) xs)"
  by (induction xs) auto

text \<open>The inner \<open>next === null\<close> branch is dead: a divider never collapses to nothing.\<close>

lemma close_in_eq:
  "close_in tid p x =
     (case layout x of
        Some t \<Rightarrow>
          (if tabId x = tid \<and> kind x = Terminal \<and> 1 < countLeaves t \<and> p \<in> set (pane_ids t)
           then (x\<lparr>layout := removeLeaf t p\<rparr>, True) else (x, False))
      | None \<Rightarrow> (x, False))"
proof (cases "layout x")
  case (Some t)
  show ?thesis
  proof (cases t)
    case (Split sid d r a b)
    have "removeLeaf t p \<noteq> None"
      using Split removeLeaf_None_iff[of t p] by (auto simp: append_eq_Cons_conv)
    moreover have "findLeaf t p = None \<longleftrightarrow> p \<notin> set (pane_ids t)"
      by (rule findLeaf_None_iff)
    moreover have "1 < countLeaves t"
      unfolding Split countLeaves.simps using countLeaves_pos[of a] countLeaves_pos[of b] by linarith
    ultimately show ?thesis
      using Some Split by (auto simp: close_in_def simp del: findLeaf.simps removeLeaf_Split split: option.splits)
  qed (use Some in \<open>simp add: close_in_def\<close>)
qed (simp add: close_in_def)

lemma closePane_refused:
  assumes "distinct (map tabId (openSessions s))" and "\<not> can_close tid p s"
  shows "closePane tid p s = s"
proof (cases "tid \<in> tabId ` set (openSessions s)")
  case True
  then obtain xs x ys where tab: "openSessions s = xs @ x # ys" "tabId x = tid"
    "tid \<notin> tabId ` set xs" "tid \<notin> tabId ` set ys" "find_tab tid (openSessions s) = Some x"
    using tab_at[OF assms(1)] by metis
  have "snd (close_in tid p x) = False"
    using assms(2) tab(2,5) by (auto simp: close_in_eq can_close_def split: option.splits)
  then show ?thesis
    using tab close_in_others[of tid xs p] close_in_others[of tid ys p]
    by (simp add: closePane_def Let_def)
next
  case False
  then show ?thesis using close_in_others[of tid _ p] by (simp add: closePane_def Let_def)
qed

lemma closePane_done:
  assumes d: "distinct (map tabId (openSessions s))" and "can_close tid p s"
  obtains xs x ys t t' where
    "openSessions s = xs @ x # ys" "tabId x = tid" "find_tab tid (openSessions s) = Some x"
    "kind x = Terminal" "layout x = Some t" "p \<in> set (pane_ids t)" "removeLeaf t p = Some t'"
    "closePane tid p s =
       s\<lparr>openSessions := xs @ x\<lparr>layout := Some t'\<rparr> # ys,
         statuses := (statuses s)(p := None), sessionIds := (sessionIds s)(p := None)\<rparr>"
proof -
  from assms(2) have "tid \<in> tabId ` set (openSessions s)"
    using find_tab_None[of tid "openSessions s"] by (auto simp: can_close_def split: option.splits)
  then obtain xs x ys where tab: "openSessions s = xs @ x # ys" "tabId x = tid"
    "tid \<notin> tabId ` set xs" "tid \<notin> tabId ` set ys" "find_tab tid (openSessions s) = Some x"
    using tab_at[OF d] by metis
  with assms(2) obtain t where t: "kind x = Terminal" "layout x = Some t" "1 < countLeaves t"
    "p \<in> set (pane_ids t)"
    by (auto simp: can_close_def split: option.splits)
  have "pane_ids t \<noteq> [p]" using t(3) length_pane_ids[of t] by auto
  then obtain t' where t': "removeLeaf t p = Some t'"
    using removeLeaf_None_iff[of t p] by auto
  show ?thesis
    by (rule that[OF tab(1,2,5) t(1,2,4) t'])
      (use tab t t' close_in_others[of tid xs p] close_in_others[of tid ys p]
        in \<open>simp add: closePane_def Let_def close_in_eq\<close>)
qed

lemma tab_splits_removeLeaf:
  "removeLeaf t p = Some t' \<Longrightarrow> set (split_ids t') \<subseteq> set (split_ids t)"
  using split_ids_removeLeaf by blast

lemma closePane_ok:
  assumes ok: "sessions_ok u s"
  shows "sessions_ok u (closePane tid p s)"
proof -
  have d: "distinct (map tabId (openSessions s))" using ok by (simp add: sessions_ok_def)
  show ?thesis
  proof (cases "can_close tid p s")
    case False
    with ok show ?thesis by (simp add: closePane_refused[OF d])
  next
    case True
    with d show ?thesis
    proof (rule closePane_done)
      fix xs x ys t t'
      assume cp: "openSessions s = xs @ x # ys" "kind x = Terminal" "layout x = Some t"
        "removeLeaf t p = Some t'"
        "closePane tid p s = s\<lparr>openSessions := xs @ x\<lparr>layout := Some t'\<rparr> # ys,
           statuses := (statuses s)(p := None), sessionIds := (sessionIds s)(p := None)\<rparr>"
      have x: "tab_ok x" "tab_ids x \<subseteq> used_ids u (drawn s)" using ok cp(1) by (auto simp: sessions_ok_def)
      have t: "tree_ok t" using x(1) cp(3) by (rule tab_ok_tree)
      have t': "tree_ok t'" using t cp(4) by (rule tree_ok_removeLeaf)
      have ids: "pane_ids t' = filter (\<lambda>q. q \<noteq> p) (pane_ids t)"
        using t cp(4) by (intro pane_ids_removeLeaf) (simp_all add: tree_ok_def)
      have "countLeaves t' \<le> countLeaves t"
        using arg_cong[OF ids, of length] length_filter_le[of "\<lambda>q. q \<noteq> p" "pane_ids t"]
        by (simp add: length_pane_ids)
      with x(1) t' cp(2,3) have ok': "tab_ok (x\<lparr>layout := Some t'\<rparr>)"
        by (simp add: tab_ok_def)
      have sub: "tab_ids (x\<lparr>layout := Some t'\<rparr>) \<subseteq> tab_ids x"
        using ids tab_splits_removeLeaf[OF cp(4)] cp(3)
        by (auto simp: tab_ids_def tab_panes_def tab_splits_def)
      show ?thesis
        by (rule replace_tab_ok[OF ok cp(1), of "x\<lparr>layout := Some t'\<rparr>" "drawn s"])
          (use ok' sub x(2) t' ids cp(3,5) in \<open>auto simp: tab_panes_def tree_ok_def\<close>)
    qed
  qed
qed

subsection \<open>Replacing, resizing, broadcasting, reordering\<close>

text \<open>A map over one tab that keeps its identifiers and its well-formedness.\<close>

lemma map_tab_ok:
  assumes ok: "sessions_ok u s"
    and f: "\<And>x. x \<in> set (openSessions s) \<Longrightarrow> tabId x = tid \<Longrightarrow>
      tabId (f x) = tabId x \<and> tab_ok (f x) \<and> tab_panes (f x) = tab_panes x \<and> tab_splits (f x) = tab_splits x"
  shows "sessions_ok u (s\<lparr>openSessions := map_at tabId tid f (openSessions s)\<rparr>)"
proof (cases "tid \<in> tabId ` set (openSessions s)")
  case True
  have d: "distinct (map tabId (openSessions s))" using ok by (simp add: sessions_ok_def)
  obtain xs x ys where tab: "openSessions s = xs @ x # ys" "tabId x = tid"
    "map_at tabId tid f (openSessions s) = xs @ f x # ys"
    using map_at_present[OF d True, of f] by metis
  have x: "tab_ok x" "tab_ids x \<subseteq> used_ids u (drawn s)" using ok tab(1) by (auto simp: sessions_ok_def)
  show ?thesis
    by (rule replace_tab_ok[OF ok tab(1), of "f x" "drawn s"])
      (use f[of x] tab x tab_ok_distinct[of "f x"] in \<open>auto simp: tab_ids_def\<close>)
next
  case False
  then show ?thesis using ok by (simp add: map_at_absent)
qed

lemma toggleBroadcast_ok: "sessions_ok u s \<Longrightarrow> sessions_ok u (toggleBroadcast tid s)"
  unfolding toggleBroadcast_def by (rule map_tab_ok) (auto simp: sessions_ok_def)

lemma resizePaneSplit_ok: "sessions_ok u s \<Longrightarrow> sessions_ok u (resizePaneSplit tid sid r s)"
  unfolding resizePaneSplit_def
  by (rule map_tab_ok)
    (auto simp: sessions_ok_def tab_ok_def tab_panes_def tab_splits_def tree_ok_resizeSplit split: option.splits)

lemma mset_splice:
  assumes "i < length xs"
  shows "mset (splice_in j (xs ! i) (splice_out i xs)) = mset xs"
proof -
  have "mset (splice_in j x zs) = add_mset x (mset zs)" for x :: 'a and zs
  proof -
    have "mset (take j zs) + mset (drop j zs) = mset zs"
      by (metis append_take_drop_id mset_append)
    then show ?thesis by (simp add: splice_in_def)
  qed
  moreover have "mset xs = add_mset (xs ! i) (mset (splice_out i xs))"
    using assms by (subst id_take_nth_drop[OF assms]) (simp add: splice_out_def)
  ultimately show ?thesis by simp
qed

lemma mset_reorderSessions: "mset (openSessions (reorderSessions i j s)) = mset (openSessions s)"
  by (auto simp: reorderSessions_def Let_def intro!: mset_splice)

lemma reorderSessions_ok:
  assumes "sessions_ok u s"
  shows "sessions_ok u (reorderSessions i j s)"
proof -
  let ?s = "reorderSessions i j s"
  have m: "mset (openSessions ?s) = mset (openSessions s)" by (rule mset_reorderSessions)
  have "mset (map tabId (openSessions ?s)) = mset (map tabId (openSessions s))"
    using m by simp
  moreover have "mset (all_panes xs) = sum_mset (image_mset (mset \<circ> tab_panes) (mset xs))" for xs
    by (induction xs) auto
  with m have "mset (all_panes (openSessions ?s)) = mset (all_panes (openSessions s))" by simp
  moreover have "drawn ?s = drawn s" by (simp add: reorderSessions_def Let_def)
  ultimately show ?thesis
    using assms mset_eq_setD[OF m] unfolding sessions_ok_def by (metis mset_eq_imp_distinct_iff)
qed

text \<open>
  A tab dragged from index \<open>i\<close> to \<open>j\<close> ends up right before what stood at \<open>j\<close> (at the end
  for \<open>j = n\<close>), the others keep their order.
\<close>

lemma splice_forward:
  assumes "i < j" "j \<le> length xs"
  shows "splice_in (j - 1) (xs ! i) (splice_out i xs) = take i xs @ drop (Suc i) (take j xs) @ xs ! i # drop j xs"
proof -
  have "j - 1 \<le> i \<longleftrightarrow> j - 1 = i" using assms(1) by auto
  then show ?thesis using assms by (auto simp: splice_in_def splice_out_def min_def take_drop)
qed

lemma splice_backward:
  assumes "j < i" "i < length xs"
  shows "splice_in j (xs ! i) (splice_out i xs) = take j xs @ xs ! i # drop j (take i xs) @ drop (Suc i) xs"
  using assms by (simp add: splice_in_def splice_out_def min_def)

text \<open>
  Restoring a saved layout, the two calls of \<open>handleOpenWorkspace\<close> that change this store: the
  layout is rebuilt with fresh identifiers and put in place of the tab's.
\<close>

definition restoreLayout ::
  "uuids \<Rightarrow> string \<Rightarrow> serialized_pane_node \<Rightarrow> (string \<rightharpoonup> host) \<Rightarrow> sessions_state \<Rightarrow> sessions_state" where
  "restoreLayout u tid saved hostsById s =
     (case deserializeLayout u (drawn s) saved hostsById of
        (None, n) \<Rightarrow> s\<lparr>drawn := n\<rparr>
      | (Some t, n) \<Rightarrow> setLayout tid t (s\<lparr>drawn := n\<rparr>))"

lemma length_filter_saved:
  "files_by_id m \<Longrightarrow> deserializeLayout u n saved m = (Some t, n') \<Longrightarrow>
     countLeaves t \<le> length (saved_hosts saved)"
proof -
  assume m: "files_by_id m" and t: "deserializeLayout u n saved m = (Some t, n')"
  have "prune (\<lambda>i. m i \<noteq> None) saved = Some (serializeLayout t)"
    using deserialize_prune[OF m, of u n saved] t by simp
  then have "saved_hosts (serializeLayout t) = filter (\<lambda>i. m i \<noteq> None) (saved_hosts saved)"
    using prune_hosts[of "\<lambda>i. m i \<noteq> None" saved] by simp
  then have "length (saved_hosts (serializeLayout t)) \<le> length (saved_hosts saved)" by simp
  then show "countLeaves t \<le> length (saved_hosts saved)"
    by (simp add: saved_hosts_serialize countLeaves_eq)
qed

lemma restoreLayout_ok:
  assumes ok: "sessions_ok u s" and inj: "inj u" and m: "files_by_id m"
    and saved: "saved_ratios_ok saved" "length (saved_hosts saved) \<le> MAX_PANES"
    and terminal: "\<And>x. x \<in> set (openSessions s) \<Longrightarrow> tabId x = tid \<Longrightarrow> kind x = Terminal"
  shows "sessions_ok u (restoreLayout u tid saved m s)"
proof (cases "deserializeLayout u (drawn s) saved m")
  case (Pair r n)
  have n: "drawn s \<le> n" using deserialize_count_mono[of "drawn s" u saved m] Pair by simp
  have ok': "sessions_ok u (s\<lparr>drawn := n\<rparr>)"
    using ok tab_used[OF ok _ n] by (auto simp: sessions_ok_def)
  show ?thesis
  proof (cases r)
    case None
    with Pair ok' show ?thesis by (simp add: restoreLayout_def)
  next
    case (Some t)
    note t = deserialize_tree_ok[OF inj saved(1) Pair[unfolded Some]]
    have new: "set (pane_ids t) \<inter> used_ids u (drawn s) = {}"
    proof -
      have "u k \<notin> used_ids u (drawn s)" if "k \<in> {drawn s..<n}" for k
        using that by (intro fresh_id_ge[OF inj]) simp
      moreover have "set (pane_ids t) \<subseteq> u ` {drawn s..<n}" using t(2) by blast
      ultimately show ?thesis by blast
    qed
    show ?thesis
    proof (cases "tid \<in> tabId ` set (openSessions s)")
      case True
      have d: "distinct (map tabId (openSessions s))" using ok by (simp add: sessions_ok_def)
      obtain xs x ys where tab: "openSessions s = xs @ x # ys" "tabId x = tid"
        "map_at tabId tid (\<lambda>x. x\<lparr>layout := Some t\<rparr>) (openSessions s) = xs @ x\<lparr>layout := Some t\<rparr> # ys"
        using map_at_present[OF d True, of "\<lambda>x. x\<lparr>layout := Some t\<rparr>"] by metis
      have x: "tabId x \<in> used_ids u (drawn s)" "kind x = Terminal"
        using ok tab(1) terminal[of x] tab(2) by (auto simp: sessions_ok_def tab_ids_def)
      have "tab_ok (x\<lparr>layout := Some t\<rparr>)"
        using x(2) t(1) length_filter_saved[OF m Pair[unfolded Some]] saved(2) by (simp add: tab_ok_def)
      moreover have "tab_ids (x\<lparr>layout := Some t\<rparr>) \<subseteq> used_ids u n"
        using x(1) t(2) n by (auto simp: tab_ids_def used_ids_def)
      ultimately show ?thesis
        using Pair Some tab new t(1)
        by (intro replace_tab_ok[OF ok tab(1), of "x\<lparr>layout := Some t\<rparr>" n])
          (auto simp: restoreLayout_def setLayout_def tree_ok_def n)
    next
      case False
      with Pair Some ok' show ?thesis by (simp add: restoreLayout_def setLayout_def map_at_absent)
    qed
  qed
qed

section \<open>The store as a state machine\<close>

datatype sessions_event =
    Open_tab host session_kind
  | Close_tab string
  | Set_status string session_status
  | Set_session_id string string
  | Split_pane string string direction "host option"
  | Close_pane string string
  | Resize_split string string real
  | Restore_layout string serialized_pane_node "string \<rightharpoonup> host"
  | Toggle_broadcast string
  | Reorder int int

fun sessions_step :: "uuids \<Rightarrow> sessions_state \<Rightarrow> sessions_event \<Rightarrow> sessions_state" where
  "sessions_step u s (Open_tab h k) = snd (openSession u h k s)"
| "sessions_step u s (Close_tab tid) = closeSession tid s"
| "sessions_step u s (Set_status p st) = setStatus p st s"
| "sessions_step u s (Set_session_id p i) = setSessionId p i s"
| "sessions_step u s (Split_pane tid p dir h) = snd (splitPane u tid p dir h s)"
| "sessions_step u s (Close_pane tid p) = closePane tid p s"
| "sessions_step u s (Resize_split tid sid r) = resizePaneSplit tid sid r s"
| "sessions_step u s (Restore_layout tid saved m) = restoreLayout u tid saved m s"
| "sessions_step u s (Toggle_broadcast tid) = toggleBroadcast tid s"
| "sessions_step u s (Reorder i j) = reorderSessions i j s"

text \<open>
  Only the restoring of a layout has a precondition: the layout was saved from a layout of this
  store (its ratios and its number of panes are in bounds), it goes into a terminal tab, and
  the hosts are filed by their identifiers.
\<close>

fun sessions_event_ok :: "sessions_state \<Rightarrow> sessions_event \<Rightarrow> bool" where
  "sessions_event_ok s (Restore_layout tid saved m) =
     (saved_ratios_ok saved \<and> length (saved_hosts saved) \<le> MAX_PANES \<and> files_by_id m \<and>
      (\<forall>x \<in> set (openSessions s). tabId x = tid \<longrightarrow> kind x = Terminal))"
| "sessions_event_ok s _ = True"

lemma sessions_step_ok:
  assumes "inj u" "sessions_ok u s" "sessions_event_ok s e"
  shows "sessions_ok u (sessions_step u s e)"
  using assms
  by (cases e)
    (simp_all add: openSession_ok closeSession_ok splitPane_ok closePane_ok resizePaneSplit_ok
      restoreLayout_ok toggleBroadcast_ok reorderSessions_ok)

interpretation sessions: invariant_machine initial_sessions "sessions_step u" sessions_event_ok
    "\<lambda>s. inj u \<longrightarrow> sessions_ok u s" for u
  by unfold_locales (auto intro: sessions_step_ok)

section \<open>Properties\<close>

text \<open>
  C1: In every state the tab store can reach by opening, closing, splitting, resizing,
  restoring, reordering and broadcasting, no two tabs and no two panes share an identifier,
  every terminal tab has a well-formed layout of at most nine panes with ratios in bounds, and
  every SFTP tab has none.
\<close>
theorem sessions_reachable_ok:
  assumes "inj u" and "run_ok (sessions_step u) sessions_event_ok initial_sessions es"
  shows "sessions_ok u (foldl (sessions_step u) initial_sessions es)"
  using sessions.inv_run[OF assms(2)] assms(1) by blast

theorem sessions_reachable_ok_witness:
  "sessions_ok sample_uuids (foldl (sessions_step sample_uuids) initial_sessions
     [Open_tab (sample_host ''a'' None) Terminal, Split_pane ''x'' ''xx'' Row None, Open_tab (sample_host ''b'' None) Sftp,
      Close_pane ''x'' ''xx'', Reorder 0 2])"
  by (rule sessions_reachable_ok) simp_all

text \<open>
  C7: Splitting is refused, with the tabs unchanged, unless the tab is an open terminal tab with
  fewer than nine panes that has the pane; otherwise exactly one pane is added, right behind the
  split one, on the given host or on the host of the split pane, and no other tab changes.
\<close>
theorem splitPane_effect:
  assumes "sessions_ok u s"
  shows "if can_split tid p s
    then \<exists>xs x ys t leaf t'. openSessions s = xs @ x # ys \<and> tabId x = tid \<and> layout x = Some t
      \<and> findLeaf t p = Some leaf \<and> fst (splitPane u tid p dir h s) = Some (u (drawn s))
      \<and> openSessions (snd (splitPane u tid p dir h s)) = xs @ x\<lparr>layout := Some t'\<rparr> # ys
      \<and> collectLeaves t' = insert_after p \<lparr>leaf_paneId = u (drawn s),
            leaf_host = (case h of Some g \<Rightarrow> g | None \<Rightarrow> leaf_host leaf)\<rparr> (collectLeaves t)
    else fst (splitPane u tid p dir h s) = None
      \<and> openSessions (snd (splitPane u tid p dir h s)) = openSessions s"
proof (cases "can_split tid p s")
  case True
  have d: "distinct (map tabId (openSessions s))" using assms by (simp add: sessions_ok_def)
  from d True show ?thesis
  proof (rule splitPane_done[where dir = dir and h = h and u = u])
    fix xs x ys t leaf
    assume sp: "openSessions s = xs @ x # ys" "tabId x = tid" "layout x = Some t" "findLeaf t p = Some leaf"
      "splitPane u tid p dir h s =
       (Some (u (drawn s)),
        s\<lparr>openSessions := xs @ x\<lparr>layout := Some (fst (splitLeaf u (Suc (drawn s)) t p dir (u (drawn s))
              (case h of Some g \<Rightarrow> g | None \<Rightarrow> leaf_host leaf)))\<rparr> # ys,
          drawn := snd (splitLeaf u (Suc (drawn s)) t p dir (u (drawn s))
              (case h of Some g \<Rightarrow> g | None \<Rightarrow> leaf_host leaf))\<rparr>)"
    have "distinct (pane_ids t)"
      using assms sp(1,3) by (auto simp: sessions_ok_def tab_ok_def tree_ok_def)
    note leaves = collectLeaves_splitLeaf[OF this]
    let ?t' = "fst (splitLeaf u (Suc (drawn s)) t p dir (u (drawn s))
        (case h of Some g \<Rightarrow> g | None \<Rightarrow> leaf_host leaf))"
    have "openSessions s = xs @ x # ys \<and> tabId x = tid \<and> layout x = Some t
      \<and> findLeaf t p = Some leaf \<and> fst (splitPane u tid p dir h s) = Some (u (drawn s))
      \<and> openSessions (snd (splitPane u tid p dir h s)) = xs @ x\<lparr>layout := Some ?t'\<rparr> # ys
      \<and> collectLeaves ?t' = insert_after p \<lparr>leaf_paneId = u (drawn s),
            leaf_host = (case h of Some g \<Rightarrow> g | None \<Rightarrow> leaf_host leaf)\<rparr> (collectLeaves t)"
      using sp leaves by simp
    with True show ?thesis by (simp only: if_True) blast
  qed
next
  case False
  with assms show ?thesis by (simp add: splitPane_refused sessions_ok_def)
qed

theorem splitPane_effect_witness:
  "let s = snd (openSession sample_uuids (sample_host ''a'' None) Terminal initial_sessions)
   in can_split ''x'' ''xx'' s \<and>
      (\<exists>xs x ys t leaf t'. openSessions s = xs @ x # ys \<and> tabId x = ''x'' \<and> layout x = Some t
      \<and> findLeaf t ''xx'' = Some leaf
      \<and> fst (splitPane sample_uuids ''x'' ''xx'' Row None s) = Some (sample_uuids (drawn s))
      \<and> openSessions (snd (splitPane sample_uuids ''x'' ''xx'' Row None s)) = xs @ x\<lparr>layout := Some t'\<rparr> # ys
      \<and> collectLeaves t' = insert_after ''xx'' \<lparr>leaf_paneId = sample_uuids (drawn s),
            leaf_host = leaf_host leaf\<rparr> (collectLeaves t))"
proof -
  let ?s = "snd (openSession sample_uuids (sample_host ''a'' None) Terminal initial_sessions)"
  have can: "can_split ''x'' ''xx'' ?s"
    by (simp add: can_split_def find_tab_def openSession_def initial_sessions_def sample_uuids_def
        MAX_PANES_def Let_def)
  have "sessions_ok sample_uuids ?s" by (rule openSession_ok) simp_all
  from splitPane_effect[OF this, of "''x''" "''xx''" Row None] can show ?thesis
    by (simp only: if_True Let_def option.case simp_thms)
qed

text \<open>
  C9: Closing a pane is refused, with the whole store unchanged, for a tab's only pane and for a
  pane that is not in the tab; otherwise the pane disappears from its tab together with its
  status and its session, the tab keeps its other panes in order, and every other pane keeps its
  status and its session.
\<close>
theorem closePane_effect:
  assumes "sessions_ok u s"
  shows "if can_close tid p s
    then (\<exists>xs x ys t t'. openSessions s = xs @ x # ys \<and> tabId x = tid \<and> layout x = Some t
        \<and> openSessions (closePane tid p s) = xs @ x\<lparr>layout := Some t'\<rparr> # ys
        \<and> collectLeaves t' = filter (\<lambda>l. leaf_paneId l \<noteq> p) (collectLeaves t))
      \<and> statuses (closePane tid p s) = (statuses s)(p := None)
      \<and> sessionIds (closePane tid p s) = (sessionIds s)(p := None)
    else closePane tid p s = s"
proof (cases "can_close tid p s")
  case True
  have d: "distinct (map tabId (openSessions s))" using assms by (simp add: sessions_ok_def)
  from d True show ?thesis
  proof (rule closePane_done)
    fix xs x ys t t'
    assume cp: "openSessions s = xs @ x # ys" "tabId x = tid" "layout x = Some t"
      "removeLeaf t p = Some t'"
      "closePane tid p s = s\<lparr>openSessions := xs @ x\<lparr>layout := Some t'\<rparr> # ys,
         statuses := (statuses s)(p := None), sessionIds := (sessionIds s)(p := None)\<rparr>"
    have "distinct (pane_ids t)"
      using assms cp(1,3) by (auto simp: sessions_ok_def tab_ok_def tree_ok_def)
    from collectLeaves_removeLeaf[OF this cp(4)]
    have "openSessions s = xs @ x # ys \<and> tabId x = tid \<and> layout x = Some t
        \<and> openSessions (closePane tid p s) = xs @ x\<lparr>layout := Some t'\<rparr> # ys
        \<and> collectLeaves t' = filter (\<lambda>l. leaf_paneId l \<noteq> p) (collectLeaves t)"
      using cp by simp
    moreover have "statuses (closePane tid p s) = (statuses s)(p := None)
        \<and> sessionIds (closePane tid p s) = (sessionIds s)(p := None)"
      using cp(5) by simp
    ultimately show ?thesis using True by (simp only: if_True) blast
  qed
next
  case False
  with assms show ?thesis by (simp add: closePane_refused sessions_ok_def)
qed

theorem closePane_effect_witness:
  "closePane ''x'' ''xx'' (snd (openSession sample_uuids (sample_host ''a'' None) Terminal initial_sessions))
     = snd (openSession sample_uuids (sample_host ''a'' None) Terminal initial_sessions)"
proof -
  let ?s = "snd (openSession sample_uuids (sample_host ''a'' None) Terminal initial_sessions)"
  have "\<not> can_close ''x'' ''xx'' ?s"
    by (simp add: can_close_def find_tab_def openSession_def initial_sessions_def sample_uuids_def Let_def)
  moreover have "sessions_ok sample_uuids ?s" by (rule openSession_ok) simp_all
  ultimately show ?thesis using closePane_effect[of sample_uuids ?s "''x''" "''xx''"] by simp
qed

text \<open>
  Closing a tab removes exactly that tab and the statuses and sessions of all its panes, and
  leaves the other tabs and the entries of their panes as they were.
\<close>
theorem closeSession_effect:
  assumes "sessions_ok u s" and "find_tab tid (openSessions s) = Some x"
  shows "openSessions (closeSession tid s) = remove1 x (openSessions s)
    \<and> (\<forall>p. statuses (closeSession tid s) p = (if p \<in> set (tab_panes x) then None else statuses s p))
    \<and> (\<forall>p. sessionIds (closeSession tid s) p = (if p \<in> set (tab_panes x) then None else sessionIds s p))"
proof -
  have keys: "delete_keys ks m p = (if p \<in> set ks then None else m p)" for ks p and m :: "string \<rightharpoonup> 'v"
    unfolding delete_keys_def by (induction ks arbitrary: m) auto
  have panes: "map leaf_paneId (closing_panes (Some x)) = tab_panes x"
    by (simp add: closing_panes_def tab_panes_def pane_ids_def split: option.splits)
  have d: "distinct (map tabId (openSessions s))" using assms(1) by (simp add: sessions_ok_def)
  obtain xs ys where ss: "openSessions s = xs @ x # ys" "tid \<notin> tabId ` set xs" "tid \<notin> tabId ` set ys" "tabId x = tid"
    using tab_at[OF d, of tid] find_tab_SomeD[OF assms(2)] assms(2) by (metis image_eqI option.inject)
  have other: "filter (\<lambda>y. tabId y \<noteq> tid) zs = zs" if "tid \<notin> tabId ` set zs" for zs
    using that by (induction zs) auto
  from ss other[OF ss(2)] other[OF ss(3)] have "filter (\<lambda>y. tabId y \<noteq> tid) (openSessions s) = xs @ ys" by simp
  moreover have "remove1 x (openSessions s) = xs @ ys"
    using ss by (auto simp: remove1_append)
  ultimately show ?thesis
    using assms(2) by (simp add: closeSession_def Let_def keys panes)
qed

theorem closeSession_effect_witness:
  "let s = setStatus ''xx'' Connected (snd (openSession sample_uuids (sample_host ''a'' None) Terminal initial_sessions))
   in openSessions (closeSession ''x'' s) = [] \<and> statuses (closeSession ''x'' s) ''xx'' = None"
proof -
  let ?s = "setStatus ''xx'' Connected (snd (openSession sample_uuids (sample_host ''a'' None) Terminal initial_sessions))"
  have ok: "sessions_ok sample_uuids ?s" by (simp add: openSession_ok)
  obtain x where x: "find_tab ''x'' (openSessions ?s) = Some x" "openSessions ?s = [x]" "tab_panes x = [''xx'']"
    by (simp add: find_tab_def openSession_def initial_sessions_def sample_uuids_def setStatus_def tab_panes_def Let_def)
  show ?thesis using closeSession_effect[OF ok x(1)] x(2,3) by (simp add: Let_def)
qed

text \<open>
  Dragging a tab never loses or duplicates one, and with valid indices the dragged tab ends
  up right before the tab that stood at the target index in the original order (at the end for
  the length), the others keeping their order.
\<close>
theorem reorderSessions_effect:
  fixes s :: sessions_state
  defines "xs \<equiv> openSessions s"
  shows "mset (openSessions (reorderSessions (int i) (int j) s)) = mset xs
    \<and> (i < j \<and> j \<le> length xs \<longrightarrow> openSessions (reorderSessions (int i) (int j) s)
         = take i xs @ drop (Suc i) (take j xs) @ xs ! i # drop j xs)
    \<and> (j < i \<and> i < length xs \<longrightarrow> openSessions (reorderSessions (int i) (int j) s)
         = take j xs @ xs ! i # drop j (take i xs) @ drop (Suc i) xs)"
proof (intro conjI impI)
  show "mset (openSessions (reorderSessions (int i) (int j) s)) = mset xs"
    unfolding xs_def by (rule mset_reorderSessions)
  have len: "length (splice_out i xs) = length xs - 1" if "i < length xs"
    using that by (simp add: splice_out_def)
  show "openSessions (reorderSessions (int i) (int j) s)
      = take i xs @ drop (Suc i) (take j xs) @ xs ! i # drop j xs" if "i < j \<and> j \<le> length xs"
  proof -
    have "min (int j - 1) (int (length (splice_out i xs))) = int (j - 1)"
      using that len by (simp add: of_nat_diff)
    moreover have "nat (int j - 1) = j - 1" by simp
    ultimately show ?thesis
      using that splice_forward[of i j xs]
      by (simp add: reorderSessions_def Let_def xs_def)
  qed
  show "openSessions (reorderSessions (int i) (int j) s)
      = take j xs @ xs ! i # drop j (take i xs) @ drop (Suc i) xs" if "j < i \<and> i < length xs"
  proof -
    have "nat (max 0 (min (int j) (int (length (splice_out i xs))))) = j"
      using that len by (simp add: min_def max_def)
    with that splice_backward[of j i xs] show ?thesis
      by (simp add: reorderSessions_def Let_def xs_def)
  qed
qed

theorem reorderSessions_effect_witness:
  "let s = snd (openSession sample_uuids (sample_host ''b'' None) Sftp
             (snd (openSession sample_uuids (sample_host ''a'' None) Sftp initial_sessions)))
   in map tabId (openSessions (reorderSessions 0 2 s)) = [''xx'', ''x'']"
proof -
  let ?s = "snd (openSession sample_uuids (sample_host ''b'' None) Sftp
             (snd (openSession sample_uuids (sample_host ''a'' None) Sftp initial_sessions)))"
  have ids: "map tabId (openSessions ?s) = [''x'', ''xx'']"
    by (simp add: openSession_def initial_sessions_def sample_uuids_def Let_def)
  then have len: "length (openSessions ?s) = 2"
    by (metis length_map length_Cons list.size(3) numeral_2_eq_2)
  have "openSessions (reorderSessions (int 0) (int 2) ?s) =
      drop (Suc 0) (take 2 (openSessions ?s)) @ openSessions ?s ! 0 # drop 2 (openSessions ?s)"
    using reorderSessions_effect[where i = 0 and j = 2 and s = ?s] len by simp
  moreover obtain x y where "openSessions ?s = [x, y]" "tabId x = ''x''" "tabId y = ''xx''"
    using ids by (auto simp: map_eq_Cons_conv)
  ultimately show ?thesis by (simp add: Let_def)
qed

end
