(* ===== verification/Refetch.thy ===== *)
theory Refetch
  imports Bridge_Types
begin

text \<open>
  How the stores keep a copy of the backend's lists. Every mutation is followed by a full
  refetch, refetches overlap, and their answers arrive in any order. Here: the interleaving
  of commits in the backend, refetches started, answers computed by the backend and answers
  processed by the store; the contract of a store that numbers its refetches and drops the
  answer of any but the newest one; and what that contract gives.

  A refetch asks for several lists at once (\<open>Promise.all\<close>), and the backend may answer each
  at a different time: an answer is the state the backend was in when it computed it.
\<close>

section \<open>The interleavings\<close>

record ('k, 'p, 'b) request =
  request_kind :: 'k
  request_number :: nat
  request_answers :: "'p \<rightharpoonup> 'b"

text \<open>
  \<open>in_flight\<close> holds the refetches that were started and not processed yet, by the order in
  which they were started.
\<close>

record ('s, 'k, 'p, 'b) world =
  world_store :: 's
  world_backend :: 'b
  in_flight :: "nat \<rightharpoonup> ('k, 'p, 'b) request"
  started :: nat

text \<open>
  \<open>Commit b\<close>: a mutation (of this window or of anyone else) leaves the backend in state
  \<open>b\<close>; \<open>Start k\<close>: a refetch of kind \<open>k\<close> runs to its first \<open>await\<close>;
  \<open>Answer i p\<close>: the backend computes the answer to part \<open>p\<close> of the refetch \<open>i\<close>;
  \<open>Resume i\<close>: all answers of \<open>i\<close> are there and the code after the \<open>await\<close> runs;
  \<open>Reject i\<close>: one of the calls of \<open>i\<close> fails, so that code never runs. Events that cannot
  happen change nothing.
\<close>

datatype ('k, 'p, 'b) world_event =
  Commit 'b | Start 'k | Answer nat 'p | Resume nat | Reject nat

fun world_step ::
  "('k \<Rightarrow> 's \<Rightarrow> nat \<times> 's) \<Rightarrow> ('k \<Rightarrow> nat \<Rightarrow> ('p \<Rightarrow> 'b) \<Rightarrow> 's \<Rightarrow> 's) \<Rightarrow> ('k \<Rightarrow> 'p list) \<Rightarrow>
     ('s, 'k, 'p, 'b) world \<Rightarrow> ('k, 'p, 'b) world_event \<Rightarrow> ('s, 'k, 'p, 'b) world" where
  "world_step begin_load finish_load parts w (Commit b) = w\<lparr>world_backend := b\<rparr>"
| "world_step begin_load finish_load parts w (Start k) =
     (case begin_load k (world_store w) of (n, s) \<Rightarrow>
        w\<lparr>world_store := s,
          in_flight := (in_flight w)(started w \<mapsto>
            \<lparr>request_kind = k, request_number = n, request_answers = Map.empty\<rparr>),
          started := Suc (started w)\<rparr>)"
| "world_step begin_load finish_load parts w (Answer i p) =
     (case in_flight w i of
        None \<Rightarrow> w
      | Some r \<Rightarrow>
          if p \<in> set (parts (request_kind r)) \<and> request_answers r p = None
          then w\<lparr>in_flight := (in_flight w)(i \<mapsto>
                 r\<lparr>request_answers := (request_answers r)(p \<mapsto> world_backend w)\<rparr>)\<rparr>
          else w)"
| "world_step begin_load finish_load parts w (Resume i) =
     (case in_flight w i of
        None \<Rightarrow> w
      | Some r \<Rightarrow>
          if list_all (\<lambda>p. request_answers r p \<noteq> None) (parts (request_kind r))
          then w\<lparr>world_store := finish_load (request_kind r) (request_number r)
                   (\<lambda>p. the (request_answers r p)) (world_store w),
                 in_flight := (in_flight w)(i := None)\<rparr>
          else w)"
| "world_step begin_load finish_load parts w (Reject i) = w\<lparr>in_flight := (in_flight w)(i := None)\<rparr>"

definition start_world :: "'s \<Rightarrow> 'b \<Rightarrow> ('s, 'k, 'p, 'b) world" where
  "start_world s b = \<lparr>world_store = s, world_backend = b, in_flight = Map.empty, started = 0\<rparr>"

text \<open>
  The part of a run after the last refetch was started: nothing is committed, no other
  refetch is started and the refetch \<open>i\<close> does not fail.
\<close>

fun quiet :: "nat \<Rightarrow> ('k, 'p, 'b) world_event \<Rightarrow> bool" where
  "quiet i (Commit b) = False"
| "quiet i (Start k) = False"
| "quiet i (Reject j) = (j \<noteq> i)"
| "quiet i _ = True"

section \<open>The contract and what it gives\<close>

text \<open>
  \<open>latest\<close> is the number of the newest refetch; \<open>shows k b s\<close> says that what a refetch of
  kind \<open>k\<close> loads is in the store \<open>s\<close> as it is in the backend state \<open>b\<close>.
\<close>

locale guarded_refetch =
  fixes begin_load :: "'k \<Rightarrow> 's \<Rightarrow> nat \<times> 's"
    and finish_load :: "'k \<Rightarrow> nat \<Rightarrow> ('p \<Rightarrow> 'b) \<Rightarrow> 's \<Rightarrow> 's"
    and parts :: "'k \<Rightarrow> 'p list"
    and latest :: "'s \<Rightarrow> nat"
    and shows_all :: "'k \<Rightarrow> 'b \<Rightarrow> 's \<Rightarrow> bool"
  assumes begin_number: "fst (begin_load k s) = Suc (latest s)"
    and begin_latest: "latest (snd (begin_load k s)) = Suc (latest s)"
    and finish_latest: "latest (finish_load k n a s) = latest s"
    and finish_stale: "n \<noteq> latest s \<Longrightarrow> finish_load k n a s = s"
    and finish_newest: "(\<And>p. p \<in> set (parts k) \<Longrightarrow> a p = b) \<Longrightarrow> shows_all k b (finish_load k (latest s) a s)"
begin

abbreviation step_world where
  "step_world \<equiv> world_step begin_load finish_load parts"

definition numbered :: "('s, 'k, 'p, 'b) world \<Rightarrow> bool" where
  "numbered w \<longleftrightarrow>
     (\<forall>i r. in_flight w i = Some r \<longrightarrow> i < started w \<and> request_number r \<le> latest (world_store w))"

lemma numbered_step: "numbered w \<Longrightarrow> numbered (step_world w e)"
  by (cases e)
    (auto simp: numbered_def finish_latest begin_number begin_latest case_prod_beta less_Suc_eq le_Suc_eq
      split: option.splits)

lemma numbered_run: "numbered w \<Longrightarrow> numbered (foldl step_world w es)"
  by (induction es arbitrary: w) (auto intro: numbered_step)

text \<open>The newest refetch \<open>i\<close>, on its way or processed.\<close>

definition newest_ok :: "nat \<Rightarrow> 'k \<Rightarrow> 'b \<Rightarrow> ('s, 'k, 'p, 'b) world \<Rightarrow> bool" where
  "newest_ok i k b w \<longleftrightarrow>
     world_backend w = b
     \<and> (\<forall>j r. in_flight w j = Some r \<longrightarrow> j \<noteq> i \<longrightarrow> request_number r \<noteq> latest (world_store w))
     \<and> (case in_flight w i of
          Some r \<Rightarrow> request_kind r = k \<and> request_number r = latest (world_store w)
            \<and> (\<forall>p x. request_answers r p = Some x \<longrightarrow> x = b)
        | None \<Rightarrow> shows_all k b (world_store w))"

lemma newest_ok_start:
  assumes "numbered w"
  shows "newest_ok (started w) k (world_backend w) (step_world w (Start k))"
  using assms
  by (auto simp: newest_ok_def numbered_def begin_number begin_latest case_prod_beta) force

lemma newest_ok_step:
  assumes "newest_ok i k b w" and "quiet i e"
  shows "newest_ok i k b (step_world w e)"
proof (cases e)
  case (Answer j p)
  with assms show ?thesis
    by (auto simp: newest_ok_def split: option.splits if_splits) metis
next
  case (Resume j)
  show ?thesis
  proof (cases "in_flight w j")
    case None
    with Resume assms show ?thesis by simp
  next
    case (Some r)
    show ?thesis
    proof (cases "list_all (\<lambda>p. request_answers r p \<noteq> None) (parts (request_kind r))")
      case ready: True
      show ?thesis
      proof (cases "j = i")
        case True
        with assms Some have r: "request_kind r = k" "request_number r = latest (world_store w)"
          and b: "request_answers r p = Some x \<Longrightarrow> x = b" for p x
          by (auto simp: newest_ok_def)
        have "shows_all k b (finish_load k (latest (world_store w)) (\<lambda>p. the (request_answers r p)) (world_store w))"
          by (rule finish_newest) (use ready r b in \<open>auto simp: list_all_iff\<close>)
        with True Resume Some ready r assms show ?thesis
          by (auto simp: newest_ok_def finish_latest)
      next
        case False
        with assms Some have "request_number r \<noteq> latest (world_store w)"
          by (auto simp: newest_ok_def)
        with False Resume Some ready assms show ?thesis
          by (auto simp: newest_ok_def finish_stale split: option.splits)
      qed
    next
      case False
      with Resume Some assms show ?thesis by (auto simp: newest_ok_def)
    qed
  qed
qed (use assms in \<open>auto simp: newest_ok_def split: option.splits\<close>)

lemma newest_ok_run:
  "newest_ok i k b w \<Longrightarrow> list_all (quiet i) es \<Longrightarrow> newest_ok i k b (foldl step_world w es)"
  by (induction es arbitrary: w) (auto intro: newest_ok_step)

text \<open>
  Whatever happened before, and in whatever order answers arrive: once the refetch started
  last has been processed, the store shows the backend as it is.
\<close>

lemma newest_wins:
  assumes "w = foldl step_world (start_world s b) es"
    and "list_all (quiet (started w)) es'"
    and "w' = foldl step_world w (Start k # es')"
    and "in_flight w' (started w) = None"
  shows "shows_all k (world_backend w') (world_store w')"
proof -
  have "numbered w"
    unfolding assms(1) by (rule numbered_run) (simp add: numbered_def start_world_def)
  from newest_ok_run[OF newest_ok_start[OF this] assms(2)]
  have "newest_ok (started w) k (world_backend w) w'"
    by (simp add: assms(3))
  with assms(4) show ?thesis by (simp add: newest_ok_def)
qed

end

end
