(* ===== verification/Group_Tree.thy ===== *)
theory Group_Tree
  imports Bridge_Types "HOL-Library.AList"
begin

text \<open>
  The tree of groups and hosts: \<open>src/src/lib/groupTree.ts\<close>, which gives one level of it in
  order, and the sidebar's tree \<open>src/src/components/sidebar/HostTree.tsx\<close>, which renders it
  recursively with a search text, tag filters and collapsed groups.

  \<open>localeCompare\<close> compares two strings by the collation of the user's locale, so it is an
  argument \<open>lc\<close>; what is used of it is that it is a comparator.
\<close>

section \<open>One level\<close>

record group_children =
  childGroups :: "group list"
  childHosts :: "host list"

definition group_order :: "(string \<Rightarrow> string \<Rightarrow> int) \<Rightarrow> group \<Rightarrow> group \<Rightarrow> int" where
  "group_order lc a b =
     or_else (group_sort_order a - group_sort_order b) (lc (group_name a) (group_name b))"

definition host_order :: "(string \<Rightarrow> string \<Rightarrow> int) \<Rightarrow> host \<Rightarrow> host \<Rightarrow> int" where
  "host_order lc a b =
     or_else (host_sort_order a - host_sort_order b) (lc (host_label a) (host_label b))"

definition getGroupChildren ::
  "(string \<Rightarrow> string \<Rightarrow> int) \<Rightarrow> group list \<Rightarrow> host list \<Rightarrow> string option \<Rightarrow> group_children" where
  "getGroupChildren lc gs hs parentId =
     \<lparr>childGroups = js_sort (group_order lc) (filter (\<lambda>g. group_parent_id g = parentId) gs),
      childHosts = js_sort (host_order lc) (filter (\<lambda>h. host_group_id h = parentId) hs)\<rparr>"

text \<open>A collation makes both orders comparators, so both lists are in order.\<close>

locale collation = comparator lc for lc :: "string \<Rightarrow> string \<Rightarrow> int"

sublocale collation \<subseteq> by_group: comparator "group_order lc"
  unfolding group_order_def
  by (intro comparator_or_else comparator_key)
    (rule comparator_on, unfold_locales)

sublocale collation \<subseteq> by_host: comparator "host_order lc"
  unfolding host_order_def
  by (intro comparator_or_else comparator_key)
    (rule comparator_on, unfold_locales)

text \<open>The collation of the C locale, by code units.\<close>

definition code_unit_order :: "string \<Rightarrow> string \<Rightarrow> int" where
  "code_unit_order a b = (if a < b then - 1 else if b < a then 1 else 0)"

interpretation c_locale: collation code_unit_order
  by unfold_locales (auto simp: code_unit_order_def split: if_splits)

lemma children_groups [simp]:
  "set (childGroups (getGroupChildren lc gs hs p)) = {g \<in> set gs. group_parent_id g = p}"
  "mset (childGroups (getGroupChildren lc gs hs p)) = {#g \<in># mset gs. group_parent_id g = p#}"
  by (auto simp: getGroupChildren_def)

lemma children_hosts [simp]:
  "set (childHosts (getGroupChildren lc gs hs p)) = {h \<in> set hs. host_group_id h = p}"
  "mset (childHosts (getGroupChildren lc gs hs p)) = {#h \<in># mset hs. host_group_id h = p#}"
  by (auto simp: getGroupChildren_def)

context collation
begin

lemma by_group_comparator: "comparator (group_order lc)"
  by (rule by_group.comparator_axioms)

lemma groups_in_order:
  "sorted_wrt (\<lambda>a b. group_sort_order a < group_sort_order b
       \<or> group_sort_order a = group_sort_order b \<and> lc (group_name a) (group_name b) \<le> 0)
     (childGroups (getGroupChildren lc gs hs p))"
  unfolding getGroupChildren_def group_children.simps
  by (rule sorted_wrt_mono_rel[OF _ by_group.js_sort_sorted])
    (auto simp: group_order_def or_else_def split: if_splits)

lemma hosts_in_order:
  "sorted_wrt (\<lambda>a b. host_sort_order a < host_sort_order b
       \<or> host_sort_order a = host_sort_order b \<and> lc (host_label a) (host_label b) \<le> 0)
     (childHosts (getGroupChildren lc gs hs p))"
  unfolding getGroupChildren_def group_children.simps
  by (rule sorted_wrt_mono_rel[OF _ by_host.js_sort_sorted])
    (auto simp: host_order_def or_else_def split: if_splits)

lemma groups_stable:
  "filter (\<lambda>g. group_order lc g k = 0) (childGroups (getGroupChildren lc gs hs p)) =
     filter (\<lambda>g. group_order lc g k = 0) (filter (\<lambda>g. group_parent_id g = p) gs)"
  by (simp add: getGroupChildren_def by_group.js_sort_stable)

end

section \<open>The sidebar's tree\<close>

text \<open>\<open>!query\<close> is true of the empty text only.\<close>

record tree_view =
  search :: string
  tagFilter :: "string set"
  collapsed :: "string set"

definition tree_query :: "tree_view \<Rightarrow> string" where
  "tree_query v = toLowerCase (trim (search v))"

definition isFiltering :: "tree_view \<Rightarrow> bool" where
  "isFiltering v \<longleftrightarrow> tree_query v \<noteq> [] \<or> tagFilter v \<noteq> {}"

definition hostMatches :: "tree_view \<Rightarrow> host \<Rightarrow> bool" where
  "hostMatches v h =
     (if \<not> isFiltering v then True
      else
        (let query = tree_query v;
             textOk = query = []
               \<or> str_includes (toLowerCase (host_label h)) query
               \<or> str_includes (toLowerCase (host_hostname h)) query
               \<or> list_ex (\<lambda>t. str_includes (toLowerCase (tag_label t)) query) (host_tags h);
             tagOk = tagFilter v = {} \<or> list_ex (\<lambda>t. tag_id t \<in> tagFilter v) (host_tags h)
         in textOk \<and> tagOk))"

definition toggle :: "string \<Rightarrow> string set \<Rightarrow> string set" where
  "toggle i prev = (if i \<in> prev then prev - {i} else insert i prev)"

definition expandAllGroups :: "group list \<Rightarrow> string set \<Rightarrow> string set" where
  "expandAllGroups gs prev = fold (\<lambda>g s. s - {group_id g}) gs prev"

definition collapseAllGroups :: "group list \<Rightarrow> string set \<Rightarrow> string set" where
  "collapseAllGroups gs prev = fold (\<lambda>g s. insert (group_id g) s) gs prev"

text \<open>
  The effect that runs when the hosts change: filters whose tag no host has any more are
  dropped.
\<close>

definition prune_tag_filter :: "host list \<Rightarrow> string set \<Rightarrow> string set" where
  "prune_tag_filter hs prev =
     (let usedIds = set (map tag_id (concat (map host_tags hs))); new = Set.filter (\<lambda>i. i \<in> usedIds) prev
      in if card new = card prev then prev else new)"

text \<open>
  \<open>groupHasMatch\<close> and \<open>renderLevel\<close> call themselves for the subgroups. The data does not
  exclude a group that is its own ancestor, where the calls would not end, so both take
  the depth of the calls left and return \<^const>\<open>None\<close> when it is used up.
\<close>

fun some_m :: "('a \<Rightarrow> bool option) \<Rightarrow> 'a list \<Rightarrow> bool option" where
  "some_m f [] = Some False"
| "some_m f (x # xs) =
     (case f x of None \<Rightarrow> None | Some True \<Rightarrow> Some True | Some False \<Rightarrow> some_m f xs)"

fun map_m :: "('a \<Rightarrow> 'b option) \<Rightarrow> 'a list \<Rightarrow> 'b list option" where
  "map_m f [] = Some []"
| "map_m f (x # xs) =
     (case f x of None \<Rightarrow> None
      | Some y \<Rightarrow> (case map_m f xs of None \<Rightarrow> None | Some ys \<Rightarrow> Some (y # ys)))"

fun filter_m :: "('a \<Rightarrow> bool option) \<Rightarrow> 'a list \<Rightarrow> 'a list option" where
  "filter_m f [] = Some []"
| "filter_m f (x # xs) =
     (case f x of None \<Rightarrow> None
      | Some b \<Rightarrow> (case filter_m f xs of None \<Rightarrow> None | Some ys \<Rightarrow> Some (if b then x # ys else ys)))"

fun group_has_match ::
  "bool \<Rightarrow> (host \<Rightarrow> bool) \<Rightarrow> group list \<Rightarrow> host list \<Rightarrow> nat \<Rightarrow> string \<Rightarrow> bool option" where
  "group_has_match filtering matches gs hs 0 groupId = None"
| "group_has_match filtering matches gs hs (Suc f) groupId =
     (if \<not> filtering then Some True
      else if list_ex (\<lambda>h. host_group_id h = Some groupId \<and> matches h) hs then Some True
      else some_m (\<lambda>g. group_has_match filtering matches gs hs f (group_id g))
             (filter (\<lambda>g. group_parent_id g = Some groupId) gs))"

definition groupHasMatch :: "tree_view \<Rightarrow> group list \<Rightarrow> host list \<Rightarrow> nat \<Rightarrow> string \<Rightarrow> bool option" where
  "groupHasMatch v gs hs f groupId = group_has_match (isFiltering v) (hostMatches v) gs hs f groupId"

datatype tree_row = Group_row group nat | Host_row host nat

text \<open>
  The rows of one level, in the order they are rendered. A subgroup's rows are rendered when
  the tree is filtered or the group is not collapsed.
\<close>

fun render_level ::
  "(string \<Rightarrow> string \<Rightarrow> int) \<Rightarrow> bool \<Rightarrow> (host \<Rightarrow> bool) \<Rightarrow> string set \<Rightarrow> group list \<Rightarrow> host list \<Rightarrow>
     nat \<Rightarrow> string option \<Rightarrow> nat \<Rightarrow> tree_row list option" where
  "render_level lc filtering matches shut gs hs 0 parentId depth = None"
| "render_level lc filtering matches shut gs hs (Suc f) parentId depth =
     (let cs = getGroupChildren lc gs hs parentId in
      case filter_m (\<lambda>g. group_has_match filtering matches gs hs (Suc f) (group_id g)) (childGroups cs) of
        None \<Rightarrow> None
      | Some shownGroups \<Rightarrow>
          (case map_m (\<lambda>g.
              if filtering \<or> group_id g \<notin> shut
              then (case render_level lc filtering matches shut gs hs f (Some (group_id g)) (Suc depth) of
                      None \<Rightarrow> None | Some rows \<Rightarrow> Some (Group_row g depth # rows))
              else Some [Group_row g depth]) shownGroups of
             None \<Rightarrow> None
           | Some blocks \<Rightarrow>
               Some (concat blocks @ map (\<lambda>h. Host_row h depth) (filter matches (childHosts cs)))))"

definition renderLevel ::
  "(string \<Rightarrow> string \<Rightarrow> int) \<Rightarrow> tree_view \<Rightarrow> group list \<Rightarrow> host list \<Rightarrow> nat \<Rightarrow> string option \<Rightarrow> nat \<Rightarrow>
     tree_row list option" where
  "renderLevel lc v gs hs f parentId depth =
     render_level lc (isFiltering v) (hostMatches v) (collapsed v) gs hs f parentId depth"

section \<open>What hangs below a level\<close>

text \<open>The groups at a given depth, counted from the groups without a parent.\<close>

inductive at_depth :: "group list \<Rightarrow> nat \<Rightarrow> group \<Rightarrow> bool" for gs where
  root: "g \<in> set gs \<Longrightarrow> group_parent_id g = None \<Longrightarrow> at_depth gs 0 g"
| child: "at_depth gs d p \<Longrightarrow> g \<in> set gs \<Longrightarrow> group_parent_id g = Some (group_id p) \<Longrightarrow> at_depth gs (Suc d) g"

inductive_cases at_depth_SucE: "at_depth gs (Suc d) g"
inductive_cases at_depth_0E: "at_depth gs 0 g"

inductive below :: "group list \<Rightarrow> string option \<Rightarrow> host \<Rightarrow> bool" for gs where
  direct: "host_group_id h = p \<Longrightarrow> below gs p h"
| through: "g \<in> set gs \<Longrightarrow> group_parent_id g = p \<Longrightarrow> below gs (Some (group_id g)) h \<Longrightarrow> below gs p h"

inductive_simps below_unfold: "below gs p h"

lemma at_depth_mem: "at_depth gs d g \<Longrightarrow> g \<in> set gs"
  by (induction rule: at_depth.induct) simp_all

lemma same_group:
  "distinct (map group_id gs) \<Longrightarrow> g \<in> set gs \<Longrightarrow> g' \<in> set gs \<Longrightarrow> group_id g = group_id g' \<Longrightarrow> g = g'"
  by (auto simp: distinct_map inj_on_def)

lemma at_depth_unique:
  assumes "distinct (map group_id gs)" and "at_depth gs d g" and "at_depth gs d' g"
  shows "d = d'"
  using assms(2,3)
proof (induction arbitrary: d' rule: at_depth.induct)
  case (root g)
  then show ?case by (auto elim: at_depth.cases)
next
  case (child d p g)
  from child.prems child.hyps(3) obtain e p' where "d' = Suc e" "at_depth gs e p'"
    "group_parent_id g = Some (group_id p')"
    by (auto elim: at_depth.cases)
  moreover from this child.hyps have "p' = p"
    by (metis assms(1) at_depth_mem option.inject same_group)
  ultimately show ?case using child.IH by simp
qed

lemma at_depth_chain: "at_depth gs d g \<Longrightarrow> e \<le> d \<Longrightarrow> \<exists>g'. at_depth gs e g'"
  by (induction rule: at_depth.induct) (auto simp: le_Suc_eq intro: at_depth.intros)

lemma at_depth_bound:
  assumes "distinct (map group_id gs)" and "at_depth gs d g"
  shows "d < length gs"
proof -
  have "\<forall>e\<in>{..d}. \<exists>g'. at_depth gs e g'" using assms(2) at_depth_chain by auto
  then obtain f where f: "at_depth gs e (f e)" if "e \<le> d" for e
    by (metis atMost_iff)
  have "inj_on f {..d}"
    by (rule inj_onI) (metis assms(1) at_depth_unique atMost_iff f)
  moreover have "f ` {..d} \<subseteq> set gs" using f at_depth_mem by auto
  ultimately have "card {..d} \<le> card (set gs)" by (meson card_inj_on_le finite_set)
  also have "\<dots> \<le> length gs" by (rule card_length)
  finally show ?thesis by simp
qed

definition level_at :: "group list \<Rightarrow> nat \<Rightarrow> string option \<Rightarrow> bool" where
  "level_at gs d p \<longleftrightarrow>
     (case p of None \<Rightarrow> d = 0 | Some i \<Rightarrow> (\<exists>e g. d = Suc e \<and> at_depth gs e g \<and> group_id g = i))"

lemma level_at_child:
  assumes "level_at gs d p" and "g \<in> set gs" and "group_parent_id g = p"
  shows "level_at gs (Suc d) (Some (group_id g))"
  using assms by (auto simp: level_at_def split: option.splits intro: at_depth.intros)

lemma level_at_bound:
  "distinct (map group_id gs) \<Longrightarrow> level_at gs d p \<Longrightarrow> d \<le> length gs"
  by (auto simp: level_at_def Suc_le_eq dest: at_depth_bound split: option.splits)

section \<open>The recursion ends\<close>

lemma some_m_total:
  "(\<And>x. x \<in> set xs \<Longrightarrow> f x = Some (P x)) \<Longrightarrow> some_m f xs = Some (list_ex P xs)"
  by (induction xs) (auto split: bool.splits)

lemma filter_m_total:
  "(\<And>x. x \<in> set xs \<Longrightarrow> f x = Some (P x)) \<Longrightarrow> filter_m f xs = Some (filter P xs)"
  by (induction xs) auto

lemma map_m_total:
  "(\<And>x. x \<in> set xs \<Longrightarrow> f x = Some (g x)) \<Longrightarrow> map_m f xs = Some (map g xs)"
  by (induction xs) auto

lemma group_has_match_spec:
  assumes "distinct (map group_id gs)" and "level_at gs d (Some i)" and "length gs < d + f"
  shows "group_has_match filtering matches gs hs f i =
    Some (\<not> filtering \<or> (\<exists>h\<in>set hs. matches h \<and> below gs (Some i) h))"
  using assms(2,3)
proof (induction f arbitrary: d i)
  case 0
  then show ?case using level_at_bound[OF assms(1)] by fastforce
next
  case (Suc f)
  have "some_m (\<lambda>g. group_has_match filtering matches gs hs f (group_id g))
          (filter (\<lambda>g. group_parent_id g = Some i) gs) =
        Some (list_ex (\<lambda>g. \<not> filtering \<or> (\<exists>h\<in>set hs. matches h \<and> below gs (Some (group_id g)) h))
          (filter (\<lambda>g. group_parent_id g = Some i) gs))"
  proof (rule some_m_total)
    fix g assume "g \<in> set (filter (\<lambda>g. group_parent_id g = Some i) gs)"
    then have "level_at gs (Suc d) (Some (group_id g))"
      using Suc.prems(1) by (intro level_at_child) auto
    then show "group_has_match filtering matches gs hs f (group_id g) =
        Some (\<not> filtering \<or> (\<exists>h\<in>set hs. matches h \<and> below gs (Some (group_id g)) h))"
      by (rule Suc.IH) (use Suc.prems(2) in simp)
  qed
  then show ?case
    by (auto simp: list_ex_iff below_unfold[of gs "Some i"]) blast+
qed

section \<open>What is rendered\<close>

fun row_hosts :: "tree_row list \<Rightarrow> host list" where
  "row_hosts [] = []"
| "row_hosts (Group_row g d # rs) = row_hosts rs"
| "row_hosts (Host_row h d # rs) = h # row_hosts rs"

lemma row_hosts_append [simp]: "row_hosts (xs @ ys) = row_hosts xs @ row_hosts ys"
  by (induction xs rule: row_hosts.induct) auto

lemma row_hosts_concat: "row_hosts (concat xss) = concat (map row_hosts xss)"
  by (induction xss) auto

lemma row_hosts_Host_rows [simp]: "row_hosts (map (\<lambda>h. Host_row h d) hs) = hs"
  by (induction hs) auto

lemma distinct_concat_map:
  "distinct gl \<Longrightarrow> (\<And>g. g \<in> set gl \<Longrightarrow> distinct (f g)) \<Longrightarrow>
   (\<And>g g'. g \<in> set gl \<Longrightarrow> g' \<in> set gl \<Longrightarrow> g \<noteq> g' \<Longrightarrow> set (f g) \<inter> set (f g') = {}) \<Longrightarrow>
     distinct (concat (map f gl))"
  by (induction gl) auto

lemma level_at_unique:
  "distinct (map group_id gs) \<Longrightarrow> level_at gs d p \<Longrightarrow> level_at gs d' p \<Longrightarrow> d = d'"
  by (auto simp: level_at_def split: option.splits)
    (metis at_depth_mem at_depth_unique same_group)

lemma below_depth: "below gs p h \<Longrightarrow> level_at gs d p \<Longrightarrow> \<exists>e\<ge>d. level_at gs e (host_group_id h)"
proof (induction arbitrary: d rule: below.induct)
  case (through g p h)
  from through.IH[OF level_at_child[OF through.prems through.hyps(1,2)]] show ?case
    using Suc_leD by blast
qed auto

lemma below_same_level:
  assumes "distinct (map group_id gs)"
    and "below gs p h" and "below gs q h" and "level_at gs d p" and "level_at gs d q"
  shows "p = q"
  using assms(2-)
proof (induction arbitrary: d q rule: below.induct)
  case (direct h p)
  from direct.prems(1) show ?case
  proof cases
    case (through g)
    with direct level_at_child[OF direct.prems(3) through(1,2)] show ?thesis
      using below_depth[of gs "Some (group_id g)" h "Suc d"] level_at_unique[OF assms(1), of d p]
      by (metis Suc_n_not_le_n)
  qed (use direct in simp)
next
  case (through g p h)
  note g = level_at_child[OF through.prems(2) through.hyps(1,2)]
  from through.prems(1) show ?case
  proof cases
    case direct
    with below_depth[OF through.hyps(3) g] through.prems(3) show ?thesis
      using level_at_unique[OF assms(1), of d q] by (metis Suc_n_not_le_n)
  next
    case (through g')
    note g' = level_at_child[OF \<open>level_at gs d q\<close> through(1,2)]
    have "Some (group_id g) = Some (group_id g')"
      by (rule through.IH[OF _ g g']) (rule through(3))
    then show ?thesis
      using through(1,2) \<open>g \<in> set gs\<close> \<open>group_parent_id g = p\<close> same_group[OF assms(1)] by auto
  qed
qed

definition shows_hosts ::
  "group list \<Rightarrow> host list \<Rightarrow> (host \<Rightarrow> bool) \<Rightarrow> string option \<Rightarrow> tree_row list \<Rightarrow> bool" where
  "shows_hosts gs hs matches p rows \<longleftrightarrow>
     distinct (row_hosts rows) \<and> set (row_hosts rows) = {h \<in> set hs. matches h \<and> below gs p h}"

lemma distinct_ids_list: "distinct (map f xs) \<Longrightarrow> distinct (filter P xs)"
  by (simp add: distinct_map)

lemma shows_hosts_level:
  assumes ids: "distinct (map group_id gs)" "distinct (map host_id hs)"
    and level: "level_at gs d p"
    and gl: "distinct gl" "set gl = {g \<in> set gs. group_parent_id g = p \<and>
      (\<not> filtering \<or> (\<exists>h\<in>set hs. matches h \<and> below gs (Some (group_id g)) h))}"
    and unfiltered: "filtering \<or> (\<forall>h. matches h)"
    and blocks: "\<And>g. g \<in> set gl \<Longrightarrow> shows_hosts gs hs matches (Some (group_id g)) (block g)"
  shows "shows_hosts gs hs matches p
    (concat (map block gl) @
     map (\<lambda>h. Host_row h n) (filter matches (childHosts (getGroupChildren lc gs hs p))))"
proof -
  let ?own = "filter matches (childHosts (getGroupChildren lc gs hs p))"
  have sub: "level_at gs (Suc d) (Some (group_id g))" if "g \<in> set gl" for g
    using that gl(2) level_at_child[OF level] by auto
  have b: "distinct (row_hosts (block g))"
      "set (row_hosts (block g)) = {h \<in> set hs. matches h \<and> below gs (Some (group_id g)) h}"
    if "g \<in> set gl" for g
    using blocks[OF that] by (simp_all add: shows_hosts_def)
  have "distinct (concat (map (\<lambda>g. row_hosts (block g)) gl))"
  proof (rule distinct_concat_map[OF gl(1) b(1)])
    fix g g'
    assume g: "g \<in> set gl" "g' \<in> set gl" "g \<noteq> g'"
    then have "group_id g \<noteq> group_id g'"
      using gl(2) same_group[OF ids(1)] by auto
    then show "set (row_hosts (block g)) \<inter> set (row_hosts (block g')) = {}"
      using below_same_level[OF ids(1) _ _ sub[OF g(1)] sub[OF g(2)]] b(2) g by auto
  qed
  moreover have "distinct ?own"
    using distinct_ids_list[OF ids(2)] by (simp add: getGroupChildren_def)
  moreover have "host_group_id h \<noteq> p" if "g \<in> set gl" "h \<in> set (row_hosts (block g))" for g h
  proof
    assume "host_group_id h = p"
    moreover have "below gs (Some (group_id g)) h" using that b(2) by auto
    ultimately show False
      using below_depth[OF _ sub[OF that(1)], of h] level_at_unique[OF ids(1) level]
      by (metis Suc_n_not_le_n)
  qed
  moreover have "set (concat (map (\<lambda>g. row_hosts (block g)) gl)) \<union> set ?own =
      {h \<in> set hs. matches h \<and> below gs p h}"
    using unfiltered by (auto simp: b(2) gl(2) below_unfold[of gs p])
  ultimately show ?thesis
    by (auto simp: shows_hosts_def row_hosts_concat comp_def)
qed

lemma render_level_shows:
  assumes ids: "distinct (map group_id gs)" "distinct (map host_id hs)"
    and open_: "filtering \<or> shut = {} \<and> (\<forall>h. matches h)"
    and "level_at gs d p" and "length gs < d + f"
  shows "\<exists>rows. render_level lc filtering matches shut gs hs f p n = Some rows
    \<and> shows_hosts gs hs matches p rows"
  using assms(4,5)
proof (induction f arbitrary: d p n)
  case 0
  then show ?case using level_at_bound[OF ids(1)] by fastforce
next
  case (Suc f)
  define cs where "cs = childGroups (getGroupChildren lc gs hs p)"
  define keep where "keep g \<longleftrightarrow> \<not> filtering \<or> (\<exists>h\<in>set hs. matches h \<and> below gs (Some (group_id g)) h)" for g :: group
  have sub: "level_at gs (Suc d) (Some (group_id g))" if "g \<in> set cs" for g
    using that level_at_child[OF Suc.prems(1)] by (auto simp: cs_def)
  have 1: "filter_m (\<lambda>g. group_has_match filtering matches gs hs (Suc f) (group_id g)) cs
      = Some (filter keep cs)"
  proof (rule filter_m_total)
    fix g assume "g \<in> set cs"
    show "group_has_match filtering matches gs hs (Suc f) (group_id g) = Some (keep g)"
      unfolding keep_def
      by (rule group_has_match_spec[OF ids(1) sub[OF \<open>g \<in> set cs\<close>]]) (use Suc.prems(2) in simp)
  qed
  have "\<exists>rows. render_level lc filtering matches shut gs hs f (Some (group_id g)) (Suc n) = Some rows
      \<and> shows_hosts gs hs matches (Some (group_id g)) rows" if "g \<in> set cs" for g
    by (rule Suc.IH[OF sub[OF that]]) (use Suc.prems(2) in simp)
  then obtain rows where rows: "render_level lc filtering matches shut gs hs f (Some (group_id g)) (Suc n)
        = Some (rows g)" "shows_hosts gs hs matches (Some (group_id g)) (rows g)" if "g \<in> set cs" for g
    by metis
  define block where "block g = Group_row g n # rows g" for g :: group
  have 2: "map_m (\<lambda>g. if filtering \<or> group_id g \<notin> shut
        then (case render_level lc filtering matches shut gs hs f (Some (group_id g)) (Suc n) of
                None \<Rightarrow> None | Some rows \<Rightarrow> Some (Group_row g n # rows))
        else Some [Group_row g n]) (filter keep cs) = Some (map block (filter keep cs))"
    by (rule map_m_total) (use open_ rows(1) in \<open>auto simp: block_def\<close>)
  have "shows_hosts gs hs matches p (concat (map block (filter keep cs)) @
     map (\<lambda>h. Host_row h n) (filter matches (childHosts (getGroupChildren lc gs hs p))))"
  proof (rule shows_hosts_level[OF ids Suc.prems(1), where filtering = filtering])
    have "distinct cs"
      using distinct_ids_list[OF ids(1)] by (simp add: cs_def getGroupChildren_def)
    then show "distinct (filter keep cs)" by simp
    show "filtering \<or> (\<forall>h. matches h)" using open_ by auto
    show "shows_hosts gs hs matches (Some (group_id g)) (block g)" if "g \<in> set (filter keep cs)" for g
      using rows(2)[of g] that by (simp add: shows_hosts_def block_def)
  qed (auto simp: cs_def keep_def)
  then show ?case
    by (simp add: Let_def 1 2 flip: cs_def del: group_has_match.simps)
qed

section \<open>The lists beside the tree\<close>

definition RECENT_LIMIT :: nat where "RECENT_LIMIT = 5"

text \<open>
  \<open>Array.from(new Map(...).values())\<close>: one tag per identifier, the last one seen, in the
  order of the first.
\<close>

definition usedTags :: "(string \<Rightarrow> string \<Rightarrow> int) \<Rightarrow> host list \<Rightarrow> tag list" where
  "usedTags lc hs =
     (let entries = map (\<lambda>t. (tag_id t, t)) (concat (map host_tags hs));
          m = fold (\<lambda>(k, t). AList.update k t) entries []
      in js_sort (\<lambda>a b. lc (tag_label a) (tag_label b)) (map snd m))"

definition favoriteHosts :: "(string \<Rightarrow> string \<Rightarrow> int) \<Rightarrow> host list \<Rightarrow> host list" where
  "favoriteHosts lc hs =
     js_sort (\<lambda>a b. lc (host_label a) (host_label b)) (filter host_is_favorite hs)"

definition recent_order :: "host \<Rightarrow> host \<Rightarrow> int" where
  "recent_order a b =
     (if the (host_last_connected_at b) < the (host_last_connected_at a) then - 1 else 1)"

definition recentHosts :: "host list \<Rightarrow> host list" where
  "recentHosts hs =
     take RECENT_LIMIT (js_sort recent_order (filter (\<lambda>h. truthy (host_last_connected_at h)) hs))"

datatype tree_section =
    Favorites_section "host list" | Recent_section "host list" | All_section nat "tree_row list"
  | Filtered_section "tree_row list" | No_results

text \<open>What is shown: a filtered tree or a message, or the three sections.\<close>

definition tree_sections ::
  "(string \<Rightarrow> string \<Rightarrow> int) \<Rightarrow> tree_view \<Rightarrow> group list \<Rightarrow> host list \<Rightarrow> nat \<Rightarrow> tree_section list option" where
  "tree_sections lc v gs hs f =
     (if gs = [] \<and> hs = [] then Some []
      else if isFiltering v then
        (if \<not> list_ex (hostMatches v) hs then Some [No_results]
         else map_option (\<lambda>rows. [Filtered_section rows]) (renderLevel lc v gs hs f None 0))
      else
        (let open_section = (\<lambda>i hs. if i \<in> collapsed v then [] else hs);
             favs = (if favoriteHosts lc hs = [] then []
                     else [Favorites_section (open_section ''__favorites'' (favoriteHosts lc hs))]);
             recs = (if recentHosts hs = [] then []
                     else [Recent_section (open_section ''__recent'' (recentHosts hs))])
         in if ''__all'' \<in> collapsed v then Some (favs @ recs @ [All_section (length hs) []])
            else map_option (\<lambda>rows. favs @ recs @ [All_section (length hs) rows])
                   (renderLevel lc v gs hs f None 0)))"

section \<open>Properties\<close>

text \<open>
  one level of the tree, whatever the collation: exactly the groups and hosts whose parent
  is the given one, in ascending sort order, ties by the collation of the names, and full ties
  in the order of the lists.
\<close>
theorem getGroupChildren_effect:
  assumes "comparator lc"
  shows "mset (childGroups (getGroupChildren lc gs hs p)) = {#g \<in># mset gs. group_parent_id g = p#}
    \<and> mset (childHosts (getGroupChildren lc gs hs p)) = {#h \<in># mset hs. host_group_id h = p#}
    \<and> sorted_wrt (\<lambda>a b. group_sort_order a < group_sort_order b
         \<or> group_sort_order a = group_sort_order b \<and> lc (group_name a) (group_name b) \<le> 0)
       (childGroups (getGroupChildren lc gs hs p))
    \<and> sorted_wrt (\<lambda>a b. host_sort_order a < host_sort_order b
         \<or> host_sort_order a = host_sort_order b \<and> lc (host_label a) (host_label b) \<le> 0)
       (childHosts (getGroupChildren lc gs hs p))
    \<and> filter (\<lambda>g. group_order lc g k = 0) (childGroups (getGroupChildren lc gs hs p)) =
       filter (\<lambda>g. group_order lc g k = 0) (filter (\<lambda>g. group_parent_id g = p) gs)"
proof -
  have c: "collation lc" using assms by (rule collation.intro)
  show ?thesis
    using collation.groups_in_order[OF c] collation.hosts_in_order[OF c] collation.groups_stable[OF c]
    by simp
qed

theorem getGroupChildren_effect_witness:
  "map group_name (childGroups (getGroupChildren code_unit_order
      [\<lparr>group_id = ''1'', group_parent_id = None, group_name = ''b'', group_sort_order = 1\<rparr>,
       \<lparr>group_id = ''2'', group_parent_id = None, group_name = ''a'', group_sort_order = 1\<rparr>] [] None)) = [''a'', ''b'']
   \<and> sorted_wrt (\<lambda>a b. group_sort_order a < group_sort_order b
         \<or> group_sort_order a = group_sort_order b \<and> code_unit_order (group_name a) (group_name b) \<le> 0)
      (childGroups (getGroupChildren code_unit_order
      [\<lparr>group_id = ''1'', group_parent_id = None, group_name = ''b'', group_sort_order = 1\<rparr>,
       \<lparr>group_id = ''2'', group_parent_id = None, group_name = ''a'', group_sort_order = 1\<rparr>] [] None))"
  using getGroupChildren_effect[OF c_locale.comparator_axioms]
  by (simp add: getGroupChildren_def js_sort_def group_order_def or_else_def code_unit_order_def)

text \<open>
  C31: the sidebar's tree is complete and its recursion ends. With any search and tag filter, or
  with no group collapsed, rendering it needs no more nested calls than there are groups plus
  one, and it shows exactly the hosts that match and whose chain of groups leads to the top
  level, each once: no match is lost behind a group that does not match itself.
\<close>
theorem tree_shows_matching:
  assumes "distinct (map group_id gs)" and "distinct (map host_id hs)"
    and "isFiltering v \<or> collapsed v = {}" and "length gs < f"
  shows "\<exists>rows. renderLevel lc v gs hs f None 0 = Some rows
    \<and> distinct (row_hosts rows)
    \<and> set (row_hosts rows) = {h \<in> set hs. hostMatches v h \<and> below gs None h}"
proof -
  have "isFiltering v \<or> collapsed v = {} \<and> (\<forall>h. hostMatches v h)"
    using assms(3) by (auto simp: hostMatches_def)
  then show ?thesis
    using render_level_shows[OF assms(1,2), of "isFiltering v" "collapsed v" "hostMatches v" 0 None f lc 0]
      assms(4)
    by (simp add: renderLevel_def shows_hosts_def level_at_def)
qed

definition sample_group :: "string \<Rightarrow> string option \<Rightarrow> group" where
  "sample_group i p = \<lparr>group_id = i, group_parent_id = p, group_name = i, group_sort_order = 0\<rparr>"

theorem tree_shows_matching_witness:
  "\<exists>rows. renderLevel code_unit_order \<lparr>search = ''eb1'', tagFilter = {}, collapsed = {''g''}\<rparr>
      [sample_group ''g'' None, sample_group ''s'' (Some ''g'')]
      [(sample_host ''web1'' None)\<lparr>host_group_id := Some ''s''\<rparr>, sample_host ''db'' None] 3 None 0 = Some rows
    \<and> distinct (row_hosts rows)
    \<and> set (row_hosts rows) = {(sample_host ''web1'' None)\<lparr>host_group_id := Some ''s''\<rparr>}"
proof -
  let ?v = "\<lparr>search = ''eb1'', tagFilter = {}, collapsed = {''g''}\<rparr>"
  let ?gs = "[sample_group ''g'' None, sample_group ''s'' (Some ''g'')]"
  let ?h = "(sample_host ''web1'' None)\<lparr>host_group_id := Some ''s''\<rparr>"
  have q: "tree_query ?v = ''eb1''"
    by (simp add: tree_query_def trim_def toLowerCase_def lower_char_def js_space_def)
  have f: "isFiltering ?v" by (simp add: isFiltering_def q)
  have "below ?gs (Some ''s'') ?h" by (rule below.direct) simp
  then have g: "below ?gs (Some ''g'') ?h"
    by - (rule below.through[of "sample_group ''s'' (Some ''g'')"], simp_all add: sample_group_def)
  have "below ?gs None ?h"
    by (rule below.through[of "sample_group ''g'' None"]) (use g in \<open>simp_all add: sample_group_def\<close>)
  then have "{h \<in> set [?h, sample_host ''db'' None]. hostMatches ?v h \<and> below ?gs None h} = {?h}"
    by (auto simp: hostMatches_def f q sample_host_def toLowerCase_def lower_char_def)
  then show ?thesis
    using tree_shows_matching[of ?gs "[?h, sample_host ''db'' None]" ?v 3 code_unit_order] f
    by (simp add: sample_group_def)
qed

end
