(* ===== verification/Entity_Stores.thy ===== *)
theory Entity_Stores
  imports Refetch Bridge Group_Tree
begin

text \<open>
  The stores that mirror the backend's lists: \<open>hostsStore.ts\<close>, \<open>snippetsStore.ts\<close>,
  \<open>tagsStore.ts\<close> and \<open>workspacesStore.ts\<close> under \<open>src/src/state/\<close>. The first two number
  their refetches and are instances of the contract of \<open>Refetch\<close>; the other two do not, and
  the last section shows what they lose by it.
\<close>

section \<open>The hosts store\<close>

record hosts_state =
  groups :: "group list"
  hosts :: "host list"
  identities :: "identity list"
  keys :: "ssh_key list"
  hosts_loaded :: bool
  hosts_loadRequestId :: nat

definition initial_hosts :: hosts_state where
  "initial_hosts = \<lparr>groups = [], hosts = [], identities = [], keys = [], hosts_loaded = False,
     hosts_loadRequestId = 0\<rparr>"

text \<open>What the four list commands answer in a state of the backend.\<close>

record hosts_tables =
  db_groups :: "group list"
  db_hosts :: "host list"
  db_identities :: "identity list"
  db_keys :: "ssh_key list"

datatype hosts_part = Groups_part | Hosts_part | Identities_part | Keys_part

definition hosts_parts :: "unit \<Rightarrow> hosts_part list" where
  "hosts_parts k = [Groups_part, Hosts_part, Identities_part, Keys_part]"

text \<open>\<open>loadAll\<close> up to its \<open>await\<close>, and from there on.\<close>

definition hosts_loadAll_begin :: "unit \<Rightarrow> hosts_state \<Rightarrow> nat \<times> hosts_state" where
  "hosts_loadAll_begin k s =
     (let requestId = Suc (hosts_loadRequestId s)
      in (requestId, s\<lparr>hosts_loadRequestId := requestId\<rparr>))"

definition hosts_loadAll_finish ::
  "unit \<Rightarrow> nat \<Rightarrow> (hosts_part \<Rightarrow> hosts_tables) \<Rightarrow> hosts_state \<Rightarrow> hosts_state" where
  "hosts_loadAll_finish k requestId answer s =
     (if requestId \<noteq> hosts_loadRequestId s then s
      else s\<lparr>groups := db_groups (answer Groups_part), hosts := db_hosts (answer Hosts_part),
             identities := db_identities (answer Identities_part), keys := db_keys (answer Keys_part),
             hosts_loaded := True\<rparr>)"

definition hosts_show :: "unit \<Rightarrow> hosts_tables \<Rightarrow> hosts_state \<Rightarrow> bool" where
  "hosts_show k b s \<longleftrightarrow>
     hosts_loaded s \<and> groups s = db_groups b \<and> hosts s = db_hosts b
     \<and> identities s = db_identities b \<and> keys s = db_keys b"

interpretation hosts_refetch:
  guarded_refetch hosts_loadAll_begin hosts_loadAll_finish hosts_parts hosts_loadRequestId hosts_show
  by unfold_locales
    (auto simp: hosts_loadAll_begin_def hosts_loadAll_finish_def hosts_parts_def hosts_show_def Let_def)

section \<open>The snippets store\<close>

record snippets_state =
  snippets :: "snippet list"
  snippets_loadRequestId :: nat

definition initial_snippets :: snippets_state where
  "initial_snippets = \<lparr>snippets = [], snippets_loadRequestId = 0\<rparr>"

definition snippets_parts :: "unit \<Rightarrow> unit list" where
  "snippets_parts k = [()]"

definition loadSnippets_begin :: "unit \<Rightarrow> snippets_state \<Rightarrow> nat \<times> snippets_state" where
  "loadSnippets_begin k s =
     (let requestId = Suc (snippets_loadRequestId s)
      in (requestId, s\<lparr>snippets_loadRequestId := requestId\<rparr>))"

definition loadSnippets_finish ::
  "unit \<Rightarrow> nat \<Rightarrow> (unit \<Rightarrow> snippet list) \<Rightarrow> snippets_state \<Rightarrow> snippets_state" where
  "loadSnippets_finish k requestId answer s =
     (if requestId \<noteq> snippets_loadRequestId s then s else s\<lparr>snippets := answer ()\<rparr>)"

definition snippets_show :: "unit \<Rightarrow> snippet list \<Rightarrow> snippets_state \<Rightarrow> bool" where
  "snippets_show k b s \<longleftrightarrow> snippets s = b"

interpretation snippets_refetch:
  guarded_refetch loadSnippets_begin loadSnippets_finish snippets_parts snippets_loadRequestId snippets_show
  by unfold_locales
    (auto simp: loadSnippets_begin_def loadSnippets_finish_def snippets_parts_def snippets_show_def Let_def)

section \<open>The tags and workspaces stores\<close>

text \<open>
  Both load without a number: what arrives is stored. The two stores differ in the type of
  their elements only.
\<close>

record tags_state =
  tags :: "tag list"
  tags_loaded :: bool

definition initial_tags :: tags_state where
  "initial_tags = \<lparr>tags = [], tags_loaded = False\<rparr>"

definition tags_loadAll_begin :: "unit \<Rightarrow> tags_state \<Rightarrow> nat \<times> tags_state" where
  "tags_loadAll_begin k s = (0, s)"

definition tags_loadAll_finish :: "unit \<Rightarrow> nat \<Rightarrow> (unit \<Rightarrow> tag list) \<Rightarrow> tags_state \<Rightarrow> tags_state" where
  "tags_loadAll_finish k n answer s = s\<lparr>tags := answer (), tags_loaded := True\<rparr>"

record workspaces_state =
  workspaces :: "workspace list"
  workspaces_loaded :: bool

definition initial_workspaces :: workspaces_state where
  "initial_workspaces = \<lparr>workspaces = [], workspaces_loaded = False\<rparr>"

definition workspaces_loadAll_begin :: "unit \<Rightarrow> workspaces_state \<Rightarrow> nat \<times> workspaces_state" where
  "workspaces_loadAll_begin k s = (0, s)"

definition workspaces_loadAll_finish ::
  "unit \<Rightarrow> nat \<Rightarrow> (unit \<Rightarrow> workspace list) \<Rightarrow> workspaces_state \<Rightarrow> workspaces_state" where
  "workspaces_loadAll_finish k n answer s = s\<lparr>workspaces := answer (), workspaces_loaded := True\<rparr>"

section \<open>Mutations\<close>

text \<open>
  What a mutation does, in order: calls to the backend that succeed or are refused, reloads
  of the whole store, and a call that is sent without waiting for its answer. Which calls are
  refused is given by \<open>refuses\<close>, and \<open>reload_error\<close> is the error of the reload, if it fails.
  The outcome is the effects and the error thrown.
\<close>

datatype effect = Sent bridge_call | Refused bridge_call | Reloading | Background bridge_call

type_synonym outcome = "effect list \<times> string option"

definition then_reload :: "(bridge_call \<Rightarrow> string option) \<Rightarrow> string option \<Rightarrow> bridge_call \<Rightarrow> outcome" where
  "then_reload refuses reload_error c =
     (case refuses c of Some e \<Rightarrow> ([Refused c], Some e) | None \<Rightarrow> ([Sent c, Reloading], reload_error))"

datatype hosts_mutation =
    CreateGroup group_input
  | UpdateGroup string group_input
  | DeleteGroup string
  | CreateHost host_input
  | DeleteHost string
  | ToggleHostFavorite string bool
  | ImportHostsCsv string
  | CreateIdentity identity_input
  | UpdateIdentity string identity_input
  | DeleteIdentity string
  | GenerateKey generate_key_input
  | ImportKey import_key_input
  | DeleteKey string

fun hosts_mutation_call :: "hosts_mutation \<Rightarrow> bridge_call" where
  "hosts_mutation_call (CreateGroup i) = Group_call (GroupCreate i)"
| "hosts_mutation_call (UpdateGroup g i) = Group_call (GroupUpdate g i)"
| "hosts_mutation_call (DeleteGroup g) = Group_call (GroupDelete g)"
| "hosts_mutation_call (CreateHost i) = Host_call (HostCreate i)"
| "hosts_mutation_call (DeleteHost h) = Host_call (HostDelete h)"
| "hosts_mutation_call (ToggleHostFavorite h f) = Host_call (HostSetFavorite h f)"
| "hosts_mutation_call (ImportHostsCsv c) = Host_call (HostImportCsv c)"
| "hosts_mutation_call (CreateIdentity i) = Identity_call (IdentityCreate i)"
| "hosts_mutation_call (UpdateIdentity d i) = Identity_call (IdentityUpdate d i)"
| "hosts_mutation_call (DeleteIdentity d) = Identity_call (IdentityDelete d)"
| "hosts_mutation_call (GenerateKey i) = Key_call (KeyGenerate i)"
| "hosts_mutation_call (ImportKey i) = Key_call (KeyImport i)"
| "hosts_mutation_call (DeleteKey k) = Key_call (KeyDelete k)"

definition hosts_mutate :: "(bridge_call \<Rightarrow> string option) \<Rightarrow> string option \<Rightarrow> hosts_mutation \<Rightarrow> outcome" where
  "hosts_mutate refuses reload_error m = then_reload refuses reload_error (hosts_mutation_call m)"

text \<open>\<open>updateHost\<close> also asks for a route, for the host the backend returned.\<close>

definition updateHost ::
  "(bridge_call \<Rightarrow> string option) \<Rightarrow> string option \<Rightarrow> string \<Rightarrow> host_input \<Rightarrow> host \<Rightarrow> outcome" where
  "updateHost refuses reload_error i input updated =
     (case then_reload refuses reload_error (Host_call (HostUpdate i input)) of
        (es, Some e) \<Rightarrow> (es, Some e)
      | (es, None) \<Rightarrow>
          (if truthy (host_vpn_profile_id updated)
           then es @ [Background (Vpn_call (VpnEnsureHostRoute (host_id updated)))] else es, None))"

text \<open>
  \<open>reorderGroups\<close>: one update per group with its index as the sort order, until one is
  refused; the reload in \<open>finally\<close> happens in any case, and its error replaces the first one.
\<close>

definition reorder_call :: "nat \<times> group \<Rightarrow> bridge_call" where
  "reorder_call = (\<lambda>(sortOrder, g). Group_call (GroupUpdate (group_id g)
     \<lparr>gi_parent_id = group_parent_id g, gi_name = group_name g, gi_sort_order = int sortOrder\<rparr>))"

fun send_all :: "(bridge_call \<Rightarrow> string option) \<Rightarrow> bridge_call list \<Rightarrow> outcome" where
  "send_all refuses [] = ([], None)"
| "send_all refuses (c # cs) =
     (case refuses c of
        Some e \<Rightarrow> ([Refused c], Some e)
      | None \<Rightarrow> (case send_all refuses cs of (es, r) \<Rightarrow> (Sent c # es, r)))"

definition reorderGroups :: "(bridge_call \<Rightarrow> string option) \<Rightarrow> string option \<Rightarrow> group list \<Rightarrow> outcome" where
  "reorderGroups refuses reload_error gs =
     (case send_all refuses (map reorder_call (enumerate 0 gs)) of
        (es, r) \<Rightarrow> (es @ [Reloading], case reload_error of Some e \<Rightarrow> Some e | None \<Rightarrow> r))"

datatype snippets_mutation =
  CreateSnippet snippet_input | UpdateSnippet string snippet_input | DeleteSnippet string

fun snippets_mutation_call :: "snippets_mutation \<Rightarrow> bridge_call" where
  "snippets_mutation_call (CreateSnippet i) = Snippet_call (SnippetCreate i)"
| "snippets_mutation_call (UpdateSnippet s i) = Snippet_call (SnippetUpdate s i)"
| "snippets_mutation_call (DeleteSnippet s) = Snippet_call (SnippetDelete s)"

definition snippets_mutate :: "(bridge_call \<Rightarrow> string option) \<Rightarrow> string option \<Rightarrow> snippets_mutation \<Rightarrow> outcome" where
  "snippets_mutate refuses reload_error m = then_reload refuses reload_error (snippets_mutation_call m)"

datatype tags_mutation = CreateTag string | DeleteTag string

fun tags_mutation_call :: "tags_mutation \<Rightarrow> bridge_call" where
  "tags_mutation_call (CreateTag l) = Tag_call (TagCreate l)"
| "tags_mutation_call (DeleteTag t) = Tag_call (TagDelete t)"

definition tags_mutate :: "(bridge_call \<Rightarrow> string option) \<Rightarrow> string option \<Rightarrow> tags_mutation \<Rightarrow> outcome" where
  "tags_mutate refuses reload_error m = then_reload refuses reload_error (tags_mutation_call m)"

datatype workspaces_mutation =
    CreateWorkspace string "workspace_tab_input list" | RenameWorkspace string string | DeleteWorkspace string

fun workspaces_mutation_call :: "workspaces_mutation \<Rightarrow> bridge_call" where
  "workspaces_mutation_call (CreateWorkspace l ts) = Workspace_call (WorkspaceCreate l ts)"
| "workspaces_mutation_call (RenameWorkspace w l) = Workspace_call (WorkspaceRename w l)"
| "workspaces_mutation_call (DeleteWorkspace w) = Workspace_call (WorkspaceDelete w)"

definition workspaces_mutate ::
  "(bridge_call \<Rightarrow> string option) \<Rightarrow> string option \<Rightarrow> workspaces_mutation \<Rightarrow> outcome" where
  "workspaces_mutate refuses reload_error m = then_reload refuses reload_error (workspaces_mutation_call m)"

text \<open>\<open>exportHostsCsv\<close>, \<open>runOnHosts\<close> and \<open>listTabs\<close> pass the call on and keep nothing.\<close>

definition exportHostsCsv :: bridge_call where
  "exportHostsCsv = Host_call HostExportCsv"

definition runOnHosts :: "string list \<Rightarrow> string \<Rightarrow> bridge_call" where
  "runOnHosts hostIds command = Snippet_call (SnippetRunOnHosts hostIds command)"

definition listTabs :: "string \<Rightarrow> bridge_call" where
  "listTabs workspaceId = Workspace_call (WorkspaceListTabs workspaceId)"

section \<open>Properties\<close>

text \<open>
  C3: the hosts store converges: whatever mutations, refetches and answers came before, and in
  whatever order the answers that are still on their way arrive, once the refetch that was
  started last has been processed the store shows the backend's groups, hosts, identities and
  keys as they are, provided nothing was committed since that refetch was started and it
  did not fail.
\<close>
theorem hosts_store_converges:
  assumes "w = foldl (world_step hosts_loadAll_begin hosts_loadAll_finish hosts_parts)
      (start_world initial_hosts b) es"
    and "list_all (quiet (started w)) es'"
    and "w' = foldl (world_step hosts_loadAll_begin hosts_loadAll_finish hosts_parts) w (Start () # es')"
    and "in_flight w' (started w) = None"
  shows "hosts_loaded (world_store w') \<and> groups (world_store w') = db_groups (world_backend w')
    \<and> hosts (world_store w') = db_hosts (world_backend w')
    \<and> identities (world_store w') = db_identities (world_backend w')
    \<and> keys (world_store w') = db_keys (world_backend w')"
  using hosts_refetch.newest_wins[OF assms] by (simp add: hosts_show_def)

definition sample_tables :: "host list \<Rightarrow> hosts_tables" where
  "sample_tables hs = \<lparr>db_groups = [], db_hosts = hs, db_identities = [], db_keys = []\<rparr>"

theorem hosts_store_converges_witness:
  "hosts (world_store (foldl (world_step hosts_loadAll_begin hosts_loadAll_finish hosts_parts)
      (start_world initial_hosts (sample_tables []))
      [Start (), Answer 0 Hosts_part, Commit (sample_tables [sample_host ''h'' None]), Start (),
       Answer 1 Groups_part, Answer 1 Hosts_part, Answer 1 Identities_part, Answer 1 Keys_part, Resume 1,
       Answer 0 Groups_part, Answer 0 Identities_part, Answer 0 Keys_part, Resume 0]))
    = [sample_host ''h'' None]"
  using hosts_store_converges[OF refl, of "sample_tables []"
      "[Start (), Answer 0 Hosts_part, Commit (sample_tables [sample_host ''h'' None])]"
      "[Answer 1 Groups_part, Answer 1 Hosts_part, Answer 1 Identities_part, Answer 1 Keys_part, Resume 1,
        Answer 0 Groups_part, Answer 0 Identities_part, Answer 0 Keys_part, Resume 0]", OF _ refl]
  by (simp add: start_world_def hosts_loadAll_begin_def hosts_loadAll_finish_def hosts_parts_def
      Let_def sample_tables_def)

text \<open>
  the stores of tags and of workspaces have no such guard: when the backend gains an element
  between two overlapping refetches and the older one's answer arrives last, everything has
  been processed, nothing failed, and the element is missing from the store. The snippets
  store, with the guard, shows the element after the same run.
\<close>
theorem unguarded_stores_race:
  "tags (world_store (foldl (world_step tags_loadAll_begin tags_loadAll_finish snippets_parts)
      (start_world initial_tags [])
      [Start (), Answer 0 (), Commit [t], Start (), Answer 1 (), Resume 1, Resume 0])) = []
   \<and> workspaces (world_store (foldl (world_step workspaces_loadAll_begin workspaces_loadAll_finish snippets_parts)
      (start_world initial_workspaces [])
      [Start (), Answer 0 (), Commit [ws], Start (), Answer 1 (), Resume 1, Resume 0])) = []
   \<and> snippets (world_store (foldl (world_step loadSnippets_begin loadSnippets_finish snippets_parts)
      (start_world initial_snippets [])
      [Start (), Answer 0 (), Commit [s], Start (), Answer 1 (), Resume 1, Resume 0])) = [s]"
  by (simp add: start_world_def tags_loadAll_begin_def tags_loadAll_finish_def initial_tags_def
      workspaces_loadAll_begin_def workspaces_loadAll_finish_def initial_workspaces_def
      loadSnippets_begin_def loadSnippets_finish_def initial_snippets_def snippets_parts_def Let_def)

section \<open>Reordering groups\<close>

text \<open>
  The backend's table of groups after an update of a row, \<open>UPDATE groups SET ... WHERE id\<close>,
  and after a list of effects.
\<close>

fun group_row_update :: "group list \<Rightarrow> effect \<Rightarrow> group list" where
  "group_row_update gs (Sent (Group_call (GroupUpdate i input))) =
     map_at group_id i (\<lambda>g. g\<lparr>group_parent_id := gi_parent_id input, group_name := gi_name input,
       group_sort_order := gi_sort_order input\<rparr>) gs"
| "group_row_update gs e = gs"

definition renumber :: "nat \<Rightarrow> group list \<Rightarrow> group list" where
  "renumber n gs = map (\<lambda>(i, g). g\<lparr>group_sort_order := int i\<rparr>) (enumerate n gs)"

lemma renumber_simps [simp]:
  "renumber n [] = []"
  "renumber n (g # gs) = g\<lparr>group_sort_order := int n\<rparr> # renumber (Suc n) gs"
  by (simp_all add: renumber_def)

lemma renumber_keeps:
  "map group_id (renumber n gs) = map group_id gs"
  "g \<in> set (renumber n gs) \<Longrightarrow> \<exists>g'\<in>set gs. group_parent_id g = group_parent_id g' \<and> int n \<le> group_sort_order g"
proof -
  show "map group_id (renumber n gs) = map group_id gs"
    by (induction gs arbitrary: n) simp_all
  show "g \<in> set (renumber n gs) \<Longrightarrow> \<exists>g'\<in>set gs. group_parent_id g = group_parent_id g' \<and> int n \<le> group_sort_order g"
    by (induction gs arbitrary: n) fastforce+
qed

lemma renumber_sorted: "sorted_wrt (\<lambda>a b. group_order lc a b < 0) (renumber n gs)"
  by (induction gs arbitrary: n)
    (auto simp: group_order_def or_else_def dest!: renumber_keeps(2))

lemma set_map_at_eq:
  "set (map_at key k f xs) = f ` {x \<in> set xs. key x = k} \<union> {x \<in> set xs. key x \<noteq> k}"
  by (auto simp: map_at_def)

lemma updates_renumber:
  assumes "distinct (map group_id T)" and "distinct (map group_id gs)" and "set gs \<subseteq> set T"
  shows "map group_id (foldl group_row_update T (map (Sent \<circ> reorder_call) (enumerate n gs))) = map group_id T
    \<and> set (foldl group_row_update T (map (Sent \<circ> reorder_call) (enumerate n gs))) =
       (set T - set gs) \<union> set (renumber n gs)"
  using assms
proof (induction gs arbitrary: n T)
  case (Cons g gs)
  define T1 where "T1 = group_row_update T (Sent (reorder_call (n, g)))"
  have same: "x = g" if "x \<in> set T" "group_id x = group_id g" for x
    using that Cons.prems same_group[of T x g] by auto
  have ids: "map group_id T1 = map group_id T"
    by (simp add: T1_def reorder_call_def map_key_map_at)
  have only_g: "{x \<in> set T. group_id x = group_id g} = {g}"
    using same Cons.prems(3) by auto
  have "set T1 = {g\<lparr>group_sort_order := int n\<rparr>} \<union> {x \<in> set T. group_id x \<noteq> group_id g}"
    unfolding T1_def reorder_call_def by (simp add: set_map_at_eq only_g)
  then have T1: "set T1 = insert (g\<lparr>group_sort_order := int n\<rparr>) (set T - {g})"
    using same by auto
  have "set gs \<subseteq> set T1" using Cons.prems T1 by auto
  moreover have "g\<lparr>group_sort_order := int n\<rparr> \<notin> set gs"
  proof
    assume "g\<lparr>group_sort_order := int n\<rparr> \<in> set gs"
    then have "group_id (g\<lparr>group_sort_order := int n\<rparr>) \<in> group_id ` set gs" by (rule imageI)
    then show False using Cons.prems(2) by simp
  qed
  moreover have "g \<notin> set gs" using Cons.prems(2) by auto
  ultimately show ?case
    using Cons.IH[of T1 "Suc n"] Cons.prems(1,2) ids T1 by (auto simp flip: T1_def)
qed simp

lemma send_all_prefix:
  "send_all refuses cs =
     (map Sent (takeWhile (\<lambda>c. refuses c = None) cs) @
        map Refused (take 1 (dropWhile (\<lambda>c. refuses c = None) cs)),
      case dropWhile (\<lambda>c. refuses c = None) cs of [] \<Rightarrow> None | c # _ \<Rightarrow> refuses c)"
  by (induction cs) (auto split: option.splits)

lemma updates_append [simp]:
  "foldl group_row_update gs (map Refused cs) = gs"
  "group_row_update gs Reloading = gs"
  by (induction cs) simp_all

lemma updates_others:
  assumes "distinct (map group_id T)" and "distinct (map group_id gs)" and "set gs \<subseteq> set T"
    and "\<And>g. g \<in> set gs \<Longrightarrow> group_parent_id g = p"
  shows "filter (\<lambda>g. group_parent_id g \<noteq> p)
      (foldl group_row_update T (map (Sent \<circ> reorder_call) (enumerate n gs))) =
    filter (\<lambda>g. group_parent_id g \<noteq> p) T"
  using assms
proof (induction gs arbitrary: n T)
  case (Cons g gs)
  have "group_id g \<in> group_id ` set T" using Cons.prems(3) by auto
  then obtain xs x ys where T: "T = xs @ x # ys" "group_id x = group_id g"
    and at: "map_at group_id (group_id g) (\<lambda>x. x\<lparr>group_parent_id := group_parent_id g,
        group_name := group_name g, group_sort_order := int n\<rparr>) T =
      xs @ x\<lparr>group_parent_id := group_parent_id g, group_name := group_name g, group_sort_order := int n\<rparr> # ys"
    by (rule map_at_present[OF Cons.prems(1)])
  then have step: "group_row_update T (Sent (reorder_call (n, g))) =
      xs @ x\<lparr>group_parent_id := group_parent_id g, group_name := group_name g, group_sort_order := int n\<rparr> # ys"
    by (simp add: reorder_call_def)
  have x: "x = g"
    using same_group[OF Cons.prems(1), of x g] T Cons.prems(3) by auto
  have sub: "set gs \<subseteq> set xs \<union> set ys" using Cons.prems(2,3) T x by auto
  define T1 where "T1 = group_row_update T (Sent (reorder_call (n, g)))"
  have T1: "T1 = xs @ x\<lparr>group_parent_id := group_parent_id g, group_name := group_name g,
      group_sort_order := int n\<rparr> # ys"
    by (simp only: T1_def step)
  have "distinct (map group_id T1)" "set gs \<subseteq> set T1"
    and "filter (\<lambda>g. group_parent_id g \<noteq> p) T1 = filter (\<lambda>g. group_parent_id g \<noteq> p) T"
    using Cons.prems(1,4) sub by (auto simp: T1 T x)
  with Cons.IH[of T1 "Suc n"] Cons.prems(2,4) show ?case by (simp flip: T1_def)
qed simp

lemma reorder_shows_order:
  assumes "comparator lc" and "distinct (map group_id T)"
    and "mset gs = {#g \<in># mset T. group_parent_id g = p#}"
  shows "childGroups (getGroupChildren lc
           (foldl group_row_update T (fst (reorderGroups (\<lambda>c. None) None gs))) hs p) = renumber 0 gs
     \<and> filter (\<lambda>g. group_parent_id g \<noteq> p) (foldl group_row_update T (fst (reorderGroups (\<lambda>c. None) None gs)))
         = filter (\<lambda>g. group_parent_id g \<noteq> p) T"
proof -
  have gs: "set gs = {g \<in> set T. group_parent_id g = p}"
    using arg_cong[OF assms(3), of set_mset] by simp
  have "distinct gs \<longleftrightarrow> distinct (filter (\<lambda>g. group_parent_id g = p) T)"
    by (rule mset_eq_imp_distinct_iff) (use assms(3) in simp)
  then have "distinct gs" using assms(2) by (simp add: distinct_map)
  then have dgs: "distinct (map group_id gs)"
    using assms(2) gs by (auto simp: distinct_map inj_on_def)
  define R where "R = foldl group_row_update T (map (Sent \<circ> reorder_call) (enumerate 0 gs))"
  have eff: "foldl group_row_update T (fst (reorderGroups (\<lambda>c. None) None gs)) = R"
    by (simp add: reorderGroups_def send_all_prefix R_def takeWhile_eq_all_conv[THEN iffD2]
        dropWhile_eq_Nil_conv[THEN iffD2])
  have R: "map group_id R = map group_id T" "set R = (set T - set gs) \<union> set (renumber 0 gs)"
    using updates_renumber[OF assms(2) dgs] gs by (auto simp: R_def)
  have "distinct R" "distinct (renumber 0 gs)"
    using R(1) assms(2) dgs renumber_keeps(1)[of 0 gs] by (metis distinct_map)+
  moreover have "group_parent_id g = p" if "g \<in> set (renumber 0 gs)" for g
    using renumber_keeps(2)[OF that] gs by auto
  then have "{g \<in> set R. group_parent_id g = p} = set (renumber 0 gs)"
    using R(2) gs by auto
  ultimately have "mset (filter (\<lambda>g. group_parent_id g = p) R) = mset (renumber 0 gs)"
    by (intro set_eq_iff_mset_eq_distinct[THEN iffD1]) auto
  then have "childGroups (getGroupChildren lc R hs p) = renumber 0 gs"
    unfolding getGroupChildren_def group_children.simps
    using comparator.js_sort_unique[OF _ _ renumber_sorted] collation.intro[OF assms(1)]
    by (metis collation.by_group_comparator)
  moreover have "filter (\<lambda>g. group_parent_id g \<noteq> p) R = filter (\<lambda>g. group_parent_id g \<noteq> p) T"
    unfolding R_def by (rule updates_others[OF assms(2) dgs]) (use gs in auto)
  ultimately show ?thesis by (simp add: eff)
qed

text \<open>
  reordering. When the groups given are the children of one parent, in any order, and the
  backend accepts the updates, the level is shown in exactly that order afterwards, whatever the
  sort orders were before and whatever the collation, and every group outside the level is
  untouched. In any case the updates up to the first one that is refused have been sent, none
  after it, its error is thrown, and the store reloads, so it never keeps showing an order that
  was not saved.
\<close>
theorem reorderGroups_effect:
  assumes "comparator lc" and "distinct (map group_id T)"
    and "mset gs = {#g \<in># mset T. group_parent_id g = p#}"
  shows "childGroups (getGroupChildren lc
           (foldl group_row_update T (fst (reorderGroups (\<lambda>c. None) None gs))) hs p) = renumber 0 gs
     \<and> filter (\<lambda>g. group_parent_id g \<noteq> p) (foldl group_row_update T (fst (reorderGroups (\<lambda>c. None) None gs)))
         = filter (\<lambda>g. group_parent_id g \<noteq> p) T
     \<and> reorderGroups refuses None gs =
        (map Sent (takeWhile (\<lambda>c. refuses c = None) (map reorder_call (enumerate 0 gs))) @
           map Refused (take 1 (dropWhile (\<lambda>c. refuses c = None) (map reorder_call (enumerate 0 gs)))) @
           [Reloading],
         case dropWhile (\<lambda>c. refuses c = None) (map reorder_call (enumerate 0 gs)) of
           [] \<Rightarrow> None | c # _ \<Rightarrow> refuses c)"
  using reorder_shows_order[OF assms] by (simp add: reorderGroups_def send_all_prefix)

theorem reorderGroups_effect_witness:
  "childGroups (getGroupChildren code_unit_order
      (foldl group_row_update [sample_group ''a'' None, sample_group ''b'' None, sample_group ''c'' (Some ''a'')]
        (fst (reorderGroups (\<lambda>c. None) None [sample_group ''b'' None, sample_group ''a'' None]))) [] None)
    = renumber 0 [sample_group ''b'' None, sample_group ''a'' None]"
  by (rule reorderGroups_effect[OF c_locale.comparator_axioms, THEN conjunct1])
    (simp_all add: sample_group_def add_mset_commute)

end
