(* ===== verification/Friendly_Error.thy ===== *)
theory Friendly_Error
  imports Prelude
begin

text \<open>
  The texts shown for errors: \<open>src/src/lib/friendlyError.ts\<close>, which puts a headline before the
  backend's message when it recognises it, and the texts of the updater,
  \<open>src/src/lib/updater.ts\<close>. A regular expression is modelled by the predicate it decides.
\<close>

section \<open>Errors of commands\<close>

text \<open>
  \<open>/^p.+q$/\<close>: the text starts with \<open>p\<close>, ends with \<open>q\<close>, and has at least one character in
  between, none of them a line terminator.
\<close>

definition matches_between :: "string \<Rightarrow> string \<Rightarrow> string \<Rightarrow> bool" where
  "matches_between p q s =
     (let n = length s - length p - length q; middle = take n (drop (length p) s)
      in starts_with s p \<and> n > 0 \<and> length p + length q < length s
         \<and> drop (length p + n) s = q
         \<and> list_all (\<lambda>c. of_char c \<notin> {10, 13 :: nat}) middle)"

record rule_entry =
  rule_test :: "string \<Rightarrow> bool"
  rule_friendly :: string

definition RULES :: "rule_entry list" where
  "RULES =
    [\<lparr>rule_test = (\<lambda>s. starts_with s ''connection refused by ''),
      rule_friendly = ''Couldn't connect - the host actively refused the connection. Check the port is correct and something is actually listening there.''\<rparr>,
     \<lparr>rule_test = matches_between ''connection to '' '' timed out'',
      rule_friendly = ''Connecting timed out. Check the host is reachable (and, if it's behind a VPN, that the VPN is actually connected).''\<rparr>,
     \<lparr>rule_test = (\<lambda>s. starts_with s ''could not resolve hostname ''),
      rule_friendly = ''Couldn't resolve that hostname. Double-check it's spelled correctly.''\<rparr>,
     \<lparr>rule_test = (\<lambda>s. starts_with s ''authentication failed:''),
      rule_friendly = ''The server rejected the credentials for this identity. Check the username/password or key, or that this identity is set up for the right account.''\<rparr>,
     \<lparr>rule_test = (\<lambda>s. s = ''vault is locked''),
      rule_friendly = ''The vault is locked. Try restarting the app.''\<rparr>,
     \<lparr>rule_test = (\<lambda>s. starts_with s ''VPN privilege setup hasn't been run yet''),
      rule_friendly = ''This host's VPN needs a one-time setup step before it can connect - open the VPN tab and run setup.''\<rparr>]"

definition friendlyError :: "string \<Rightarrow> string" where
  "friendlyError raw =
     (case List.find (\<lambda>r. rule_test r raw) RULES of
        Some rule \<Rightarrow> rule_friendly rule @ '' ('' @ raw @ '')''
      | None \<Rightarrow> raw)"

section \<open>Errors of the updater\<close>

definition RELEASES_URL :: string where
  "RELEASES_URL = ''https://github.com/connecthub-client/ConnectHub/releases/latest''"

text \<open>\<open>/network|fetch|request|connection|timed? out/i\<close>\<close>

definition network_words :: "string list" where
  "network_words = [''network'', ''fetch'', ''request'', ''connection'', ''timed out'', ''time out'']"

definition friendlyUpdaterError :: "string \<Rightarrow> string" where
  "friendlyUpdaterError message =
     (if str_includes message ''valid release JSON'' \<or> str_includes message ''release JSON''
      then ''The update service returned an invalid response. Please try again shortly.''
      else if str_includes message ''invalid updater binary format''
      then ''Automatic install isn't supported for this installation. Download the new version from the releases page instead.''
      else if list_ex (str_includes (toLowerCase message)) network_words
      then ''ConnectHub couldn't reach the update service. Check your connection and try again.''
      else message)"

section \<open>The rules do not overlap\<close>

lemma starts_with_same_prefix:
  "starts_with s p \<Longrightarrow> starts_with s q \<Longrightarrow> starts_with p q \<or> starts_with q p"
  by (induction s p arbitrary: q rule: starts_with.induct; case_tac q) auto

definition rule_prefixes :: "string list" where
  "rule_prefixes = [''connection refused by '', ''connection to '', ''could not resolve hostname '',
     ''authentication failed:'', ''vault is locked'', ''VPN privilege setup hasn't been run yet'']"

lemma rule_prefix:
  assumes "i < length RULES" and "rule_test (RULES ! i) s"
  shows "starts_with s (rule_prefixes ! i)"
proof -
  have "i \<in> {0, 1, 2, 3, 4, 5}" using assms(1) by (auto simp: RULES_def)
  with assms(2) show ?thesis
    by (auto simp: RULES_def rule_prefixes_def matches_between_def Let_def starts_with_iff)
qed

lemma prefixes_incomparable:
  assumes "i < 6" and "j < 6" and "starts_with (rule_prefixes ! i) (rule_prefixes ! j)"
  shows "i = j"
proof -
  have "list_all (\<lambda>i. list_all (\<lambda>j. starts_with (rule_prefixes ! i) (rule_prefixes ! j) \<longrightarrow> i = j) [0..<6]) [0..<6]"
    by code_simp
  with assms show ?thesis by (simp add: list_all_iff)
qed

lemma rules_exclusive:
  assumes "i < length RULES" "j < length RULES" "rule_test (RULES ! i) s" "rule_test (RULES ! j) s"
  shows "i = j"
proof -
  have len: "length RULES = 6" by (simp add: RULES_def)
  from starts_with_same_prefix[OF rule_prefix[OF assms(1,3)] rule_prefix[OF assms(2,4)]]
  show ?thesis using prefixes_incomparable assms(1,2) len by metis
qed

text \<open>
  nothing is hidden and the order of the rules does not matter: whatever the error, the text
  shown contains the whole original message, at most one rule recognises it, and it is shown
  unchanged exactly when none does.
\<close>
theorem friendlyError_keeps_message:
  "str_includes (friendlyError raw) raw
   \<and> (friendlyError raw = raw \<longleftrightarrow> \<not> list_ex (\<lambda>r. rule_test r raw) RULES)
   \<and> length (filter (\<lambda>r. rule_test r raw) RULES) \<le> 1"
proof (intro conjI)
  show "str_includes (friendlyError raw) raw"
  proof (cases "List.find (\<lambda>r. rule_test r raw) RULES")
    case None
    then show ?thesis by (simp add: friendlyError_def str_includes_iff) (metis append_Nil append_Nil2)
  next
    case (Some r)
    then have "friendlyError raw = (rule_friendly r @ '' ('') @ raw @ '')''"
      by (simp add: friendlyError_def)
    then show ?thesis unfolding str_includes_iff by blast
  qed
  show "friendlyError raw = raw \<longleftrightarrow> \<not> list_ex (\<lambda>r. rule_test r raw) RULES"
  proof (cases "List.find (\<lambda>r. rule_test r raw) RULES")
    case None
    then have "friendlyError raw = raw" by (simp add: friendlyError_def)
    with None show ?thesis by (auto simp: find_None_iff list_ex_iff)
  next
    case (Some r)
    then have "length (friendlyError raw) > length raw" by (simp add: friendlyError_def)
    with Some show ?thesis by (auto simp: list_ex_iff dest: find_SomeD)
  qed
  have "card {i. i < length RULES \<and> rule_test (RULES ! i) raw} \<le> 1"
    unfolding One_nat_def
    by (subst card_le_Suc0_iff_eq) (use rules_exclusive in auto)
  then show "length (filter (\<lambda>r. rule_test r raw) RULES) \<le> 1"
    by (simp add: length_filter_conv_card)
qed

end
