(* ===== verification/Terminal_View.thy ===== *)
theory Terminal_View
  imports Terminal_Input Settings_Store Sessions_Store Entity_Stores Friendly_Error
begin

text \<open>
  A terminal pane, \<open>src/src/components/terminal/TerminalView.tsx\<close>, from mount to unmount: the
  connection with its bounded retries, the events of the backend's channel, the keystrokes and
  their fan-out to the other panes of a broadcasting tab, the resizes, the clipboard and the
  split picker. The pane is a state machine over its own refs and variables and the three
  stores it writes to; what it asks of the backend, of xterm and of the clipboard is appended
  to a list of effects. A promise is an event: the call adds its number to \<open>pending\<close>, and the
  event that settles it may come at any later time.
\<close>

section \<open>State\<close>

record pane_props =
  props_host :: host
  props_tabId :: string
  props_paneId :: string

datatype pane_effect =
    Bridge_effect bridge_call
  | Screen_write "8 word list"
  | Terminal_paste string
  | Clipboard_write string
  | Clipboard_read
  | Focus_terminal
  | Focus_search
  | Reload_hosts

text \<open>
  The last three fields are the shared stores. \<open>timers\<close> are the retry timers that are due to
  fire, with their delays; \<open>reconnectTimeout\<close> is the handle the code keeps, which names the
  last one only. \<open>pending\<close> are the calls of \<open>sessionConnect\<close> not yet settled, numbered by
  \<open>attempts\<close>; the number also names the channel of the call. The
  callback does not look at which call its channel belongs to.
\<close>

record terminal_view =
  sessionIdRef :: "string option"
  local_status :: session_status
  view_error :: "string option"
  disposed :: bool
  reconnectAttempts :: nat
  reconnectTimeout :: "nat option"
  timers :: "(nat \<times> int) list"
  timers_set :: nat
  attempts :: nat
  pending :: "nat list"
  keys :: typing
  term_cols :: int
  term_rows :: int
  selection :: "string option"
  selection_timer :: bool
  searchOpen :: bool
  effects :: "pane_effect list"
  tab_store :: sessions_state
  history_store :: history_state
  prefs :: settings

definition RECONNECT_BACKOFF_MS :: "int list" where
  "RECONNECT_BACKOFF_MS = [2000, 4000, 8000, 16000, 30000]"

definition HISTORY_FETCH_COMMAND :: string where
  "HISTORY_FETCH_COMMAND =
     ''if [ -f \"$HOME/.zsh_history\" ]; then tail -n 150 \"$HOME/.zsh_history\"; else tail -n 150 \"$HOME/.bash_history\" 2>/dev/null; fi''"

definition emit :: "pane_effect list \<Rightarrow> terminal_view \<Rightarrow> terminal_view" where
  "emit es v = v\<lparr>effects := effects v @ es\<rparr>"

definition session_write :: "string \<Rightarrow> string \<Rightarrow> pane_effect" where
  "session_write sid data = Bridge_effect (Session_call (SessionWrite sid data))"

definition session_disconnect :: "string \<Rightarrow> pane_effect" where
  "session_disconnect sid = Bridge_effect (Session_call (SessionDisconnect sid))"

definition session_resize :: "string \<Rightarrow> terminal_view \<Rightarrow> pane_effect" where
  "session_resize sid v = Bridge_effect (Session_call (SessionResize sid (term_cols v) (term_rows v)))"

definition set_status :: "pane_props \<Rightarrow> session_status \<Rightarrow> terminal_view \<Rightarrow> terminal_view" where
  "set_status p st v =
     v\<lparr>local_status := st, tab_store := setStatus (props_paneId p) st (tab_store v)\<rparr>"

section \<open>Connecting\<close>

definition handleDisconnect :: "pane_props \<Rightarrow> session_status \<Rightarrow> terminal_view \<Rightarrow> terminal_view" where
  "handleDisconnect p settled v =
     (if disposed v then v
      else (let v1 = v\<lparr>sessionIdRef := None\<rparr>
        in if settled = Error_status \<and> autoReconnectEnabled (prefs v1)
                \<and> reconnectAttempts v1 < length RECONNECT_BACKOFF_MS
           then (let delay = RECONNECT_BACKOFF_MS ! reconnectAttempts v1;
                     v2 = set_status p Reconnecting (v1\<lparr>reconnectAttempts := reconnectAttempts v1 + 1\<rparr>)
                 in v2\<lparr>reconnectTimeout := Some (timers_set v2),
                       timers := timers v2 @ [(timers_set v2, delay)],
                       timers_set := timers_set v2 + 1\<rparr>)
           else set_status p settled v1))"

text \<open>\<open>clearTimeout(reconnectTimeout)\<close>: the timer named by the handle no longer fires.\<close>

definition clear_reconnect :: "terminal_view \<Rightarrow> terminal_view" where
  "clear_reconnect v = v\<lparr>timers := filter (\<lambda>(i, d). reconnectTimeout v \<noteq> Some i) (timers v)\<rparr>"

definition connectSession :: "pane_props \<Rightarrow> terminal_view \<Rightarrow> terminal_view" where
  "connectSession p v =
     (if disposed v then v
      else (let v1 = (clear_reconnect v)\<lparr>view_error := None\<rparr>;
                v2 = set_status p (if reconnectAttempts v1 > 0 then Reconnecting else Connecting) v1
            in emit [Bridge_effect (Session_call (SessionConnect (host_id (props_host p))))]
                 (v2\<lparr>pending := pending v2 @ [attempts v2], attempts := attempts v2 + 1\<rparr>)))"

text \<open>
  The channel's callback. \<open>decode\<close> is the browser's \<open>TextDecoder\<close>, which the model leaves open;
  a chunk that is not base64 makes \<open>atob\<close> throw before anything has happened.
\<close>

definition channel_event ::
  "(8 word list \<Rightarrow> string) \<Rightarrow> pane_props \<Rightarrow> session_event \<Rightarrow> terminal_view \<Rightarrow> terminal_view" where
  "channel_event decode p ev v =
     (if disposed v then v
      else (case ev of
          Data data \<Rightarrow>
            (case base64ToBytes data of
               None \<Rightarrow> v
             | Some bytes \<Rightarrow>
                 emit [Screen_write bytes] (v\<lparr>keys := hear_output (decode bytes) (keys v)\<rparr>))
        | Closed_event \<Rightarrow> handleDisconnect p Closed v
        | Error_event message \<Rightarrow> handleDisconnect p Error_status (v\<lparr>view_error := Some message\<rparr>)))"

definition connect_resolved :: "pane_props \<Rightarrow> string \<Rightarrow> terminal_view \<Rightarrow> terminal_view" where
  "connect_resolved p sid v =
     (if disposed v then emit [session_disconnect sid] v
      else (let v1 = set_status p Connected (v\<lparr>sessionIdRef := Some sid, reconnectAttempts := 0\<rparr>);
                v2 = emit [session_resize sid v1, Reload_hosts] v1;
                v3 = v2\<lparr>tab_store := setSessionId (props_paneId p) sid (tab_store v2)\<rparr>
            in emit [Bridge_effect (runOnHosts [host_id (props_host p)] HISTORY_FETCH_COMMAND)] v3))"

definition connect_rejected :: "pane_props \<Rightarrow> string \<Rightarrow> terminal_view \<Rightarrow> terminal_view" where
  "connect_rejected p e v = handleDisconnect p Error_status (v\<lparr>view_error := Some (friendlyError e)\<rparr>)"

text \<open>The remote history arrives: \<open>result?.output?.stdout\<close> may be missing or empty.\<close>

definition history_fetched :: "pane_props \<Rightarrow> host_exec_result list \<Rightarrow> terminal_view \<Rightarrow> terminal_view" where
  "history_fetched p results v =
     (if disposed v then v
      else (case results of
          [] \<Rightarrow> v
        | result # _ \<Rightarrow>
            (case er_output result of
               None \<Rightarrow> v
             | Some out \<Rightarrow>
                 (if stdout out = [] then v
                  else (let commands = parseRemoteHistory (stdout out)
                        in if commands = [] then v
                           else v\<lparr>history_store := setRemoteTopUsed (host_id (props_host p))
                                   (rankRemoteHistory commands 10) (history_store v)\<rparr>)))))"

text \<open>The button is rendered in the banner of an ended session only.\<close>

definition reconnect_shown :: "terminal_view \<Rightarrow> bool" where
  "reconnect_shown v \<longleftrightarrow> local_status v = Error_status \<or> local_status v = Closed"

definition click_reconnect :: "pane_props \<Rightarrow> terminal_view \<Rightarrow> terminal_view" where
  "click_reconnect p v =
     (if reconnect_shown v then connectSession p (v\<lparr>reconnectAttempts := 0\<rparr>) else v)"

section \<open>Keystrokes\<close>

definition sibling_writes :: "pane_props \<Rightarrow> sessions_state \<Rightarrow> string \<Rightarrow> pane_effect list" where
  "sibling_writes p s data =
     (case find_tab (props_tabId p) (openSessions s) of
        None \<Rightarrow> []
      | Some tab \<Rightarrow>
          (case (broadcastEnabled tab, layout tab) of
             (True, Some t) \<Rightarrow>
               List.map_filter
                 (\<lambda>leaf. if leaf_paneId leaf = props_paneId p then None
                         else case sessionIds s (leaf_paneId leaf) of
                                None \<Rightarrow> None
                              | Some sid \<Rightarrow> if sid = [] then None else Some (session_write sid data))
                 (collectLeaves t)
           | _ \<Rightarrow> []))"

text \<open>
  A recorded line gets the next drawn identifier; \<open>clock\<close> gives the time of the call.
\<close>

definition record_line :: "uuids \<Rightarrow> (nat \<Rightarrow> string) \<Rightarrow> pane_props \<Rightarrow> terminal_view \<Rightarrow> string \<Rightarrow> terminal_view" where
  "record_line u clock p v line =
     (let n = drawn (tab_store v);
          entry = \<lparr>entry_id = [], entry_label = line, entry_body = line, entry_ranAt = [],
                   entry_exitStatus = None, entry_error = None\<rparr>
      in v\<lparr>history_store := record_entry (u n) (clock n) (host_id (props_host p)) entry (history_store v),
           tab_store := (tab_store v)\<lparr>drawn := n + 1\<rparr>\<rparr>)"

definition on_data :: "uuids \<Rightarrow> (nat \<Rightarrow> string) \<Rightarrow> pane_props \<Rightarrow> string \<Rightarrow> terminal_view \<Rightarrow> terminal_view" where
  "on_data u clock p data v =
     (if disposed v then v
      else (let own = (if truthy (sessionIdRef v) then [session_write (the (sessionIdRef v)) data] else []);
                v1 = emit (own @ sibling_writes p (tab_store v) data) v;
                (keys', lines) = type_data data (keys v1)
            in foldl (record_line u clock p) (v1\<lparr>keys := keys'\<rparr>) lines))"

section \<open>Size, selection, clipboard, search\<close>

text \<open>\<open>fit\<close> sets the terminal's columns and rows, which the event brings along.\<close>

definition fit_and_resize :: "int \<Rightarrow> int \<Rightarrow> terminal_view \<Rightarrow> terminal_view" where
  "fit_and_resize c r v =
     (let v1 = v\<lparr>term_cols := c, term_rows := r\<rparr>
      in if truthy (sessionIdRef v1) then emit [session_resize (the (sessionIdRef v1)) v1] v1 else v1)"

definition resize_observed :: "real \<Rightarrow> real \<Rightarrow> int \<Rightarrow> int \<Rightarrow> terminal_view \<Rightarrow> terminal_view" where
  "resize_observed w h c r v =
     (if disposed v \<or> w = 0 \<or> h = 0 then v else fit_and_resize c r v)"

definition copySelectionToClipboard :: "terminal_view \<Rightarrow> terminal_view" where
  "copySelectionToClipboard v =
     (case selection v of
        None \<Rightarrow> v
      | Some text \<Rightarrow> if text = [] then v else emit [Clipboard_write text] v)"

definition clipboard_answer :: "string option \<Rightarrow> terminal_view \<Rightarrow> terminal_view" where
  "clipboard_answer text v =
     emit ((if truthy text then [Terminal_paste (the text)] else []) @ [Focus_terminal]) v"

definition selection_changed :: "string option \<Rightarrow> terminal_view \<Rightarrow> terminal_view" where
  "selection_changed sel v =
     (if disposed v then v else v\<lparr>selection := sel, selection_timer := True\<rparr>)"

definition selection_settled :: "terminal_view \<Rightarrow> terminal_view" where
  "selection_settled v =
     (if \<not> selection_timer v then v
      else (let v1 = v\<lparr>selection_timer := False\<rparr>
            in if \<not> autoCopyOnSelectEnabled (prefs v1) then v1
               else if selection v1 \<noteq> None then copySelectionToClipboard v1 else v1))"

definition key_pressed :: "key_event \<Rightarrow> terminal_view \<Rightarrow> terminal_view" where
  "key_pressed e v =
     (if disposed v then v
      else (case snd (snd (custom_key (selection v \<noteq> None) e)) of
          Some Open_search \<Rightarrow> emit [Focus_search] (v\<lparr>searchOpen := True\<rparr>)
        | Some Copy_selection \<Rightarrow> copySelectionToClipboard v
        | Some Paste_clipboard \<Rightarrow> emit [Clipboard_read] v
        | None \<Rightarrow> v))"

definition closeSearch :: "terminal_view \<Rightarrow> terminal_view" where
  "closeSearch v = emit [Focus_terminal] (v\<lparr>searchOpen := False\<rparr>)"

definition unmount :: "terminal_view \<Rightarrow> terminal_view" where
  "unmount v =
     (if disposed v then v
      else (let v1 = (clear_reconnect (v\<lparr>disposed := True\<rparr>))\<lparr>selection_timer := False\<rparr>
            in if truthy (sessionIdRef v1) then emit [session_disconnect (the (sessionIdRef v1))] v1 else v1))"

section \<open>The split picker\<close>

record split_picker =
  splitPickerOpen :: bool
  splitDirection :: direction
  splitHostId :: string
  splitBusy :: bool
  splitError :: "string option"

definition confirm_split_start :: "host list \<Rightarrow> split_picker \<Rightarrow> (direction \<times> host option) \<times> split_picker" where
  "confirm_split_start all_hosts s =
     ((splitDirection s, if splitHostId s \<noteq> [] then List.find (\<lambda>h. host_id h = splitHostId s) all_hosts else None),
      s\<lparr>splitBusy := True, splitError := None\<rparr>)"

definition confirm_split_finish :: "bool \<times> string option \<Rightarrow> split_picker \<Rightarrow> split_picker" where
  "confirm_split_finish result s =
     (let s1 = s\<lparr>splitBusy := False\<rparr>
      in case result of
           (False, message) \<Rightarrow>
             s1\<lparr>splitError := Some (case message of Some m \<Rightarrow> m | None \<Rightarrow> ''Could not split.'')\<rparr>
         | (True, _) \<Rightarrow> s1\<lparr>splitPickerOpen := False, splitHostId := []\<rparr>)"

section \<open>The pane as a state machine\<close>

datatype pane_event =
    Channel_event nat session_event
  | Connect_resolved nat string
  | Connect_rejected nat string
  | Retry_timer nat
  | Click_reconnect
  | History_fetched "host_exec_result list"
  | User_data string
  | Resize_observed real real int int
  | Options_changed int int
  | Selection_changed "string option"
  | Selection_settled
  | Key_pressed key_event
  | Clipboard_answer "string option"
  | Close_search
  | Unmount
  | Other_settings settings_action
  | Other_sessions sessions_event

record pane_env =
  env_uuids :: uuids
  env_clock :: "nat \<Rightarrow> string"
  env_decode :: "8 word list \<Rightarrow> string"
  env_props :: pane_props

fun pane_step :: "pane_env \<Rightarrow> terminal_view \<Rightarrow> pane_event \<Rightarrow> terminal_view" where
  "pane_step env v (Channel_event a ev) = channel_event (env_decode env) (env_props env) ev v"
| "pane_step env v (Connect_resolved a sid) =
     (if a \<in> set (pending v)
      then connect_resolved (env_props env) sid (v\<lparr>pending := filter (\<lambda>b. b \<noteq> a) (pending v)\<rparr>) else v)"
| "pane_step env v (Connect_rejected a e) =
     (if a \<in> set (pending v)
      then connect_rejected (env_props env) e (v\<lparr>pending := filter (\<lambda>b. b \<noteq> a) (pending v)\<rparr>) else v)"
| "pane_step env v (Retry_timer i) =
     (if i \<in> fst ` set (timers v)
      then connectSession (env_props env) (v\<lparr>timers := filter (\<lambda>(j, d). j \<noteq> i) (timers v)\<rparr>) else v)"
| "pane_step env v Click_reconnect = click_reconnect (env_props env) v"
| "pane_step env v (History_fetched results) = history_fetched (env_props env) results v"
| "pane_step env v (User_data data) = on_data (env_uuids env) (env_clock env) (env_props env) data v"
| "pane_step env v (Resize_observed w h c r) = resize_observed w h c r v"
| "pane_step env v (Options_changed c r) = (if disposed v then v else fit_and_resize c r v)"
| "pane_step env v (Selection_changed sel) = selection_changed sel v"
| "pane_step env v Selection_settled = selection_settled v"
| "pane_step env v (Key_pressed e) = key_pressed e v"
| "pane_step env v (Clipboard_answer text) = clipboard_answer text v"
| "pane_step env v Close_search = (if disposed v then v else closeSearch v)"
| "pane_step env v Unmount = unmount v"
| "pane_step env v (Other_settings a) = v\<lparr>prefs := settings_step (prefs v) a\<rparr>"
| "pane_step env v (Other_sessions e) =
     v\<lparr>tab_store := sessions_step (env_uuids env) (tab_store v) e\<rparr>"

definition mounted :: "sessions_state \<Rightarrow> history_state \<Rightarrow> settings \<Rightarrow> int \<Rightarrow> int \<Rightarrow> terminal_view" where
  "mounted s hist st c r =
     \<lparr>sessionIdRef = None, local_status = Connecting, view_error = None, disposed = False,
      reconnectAttempts = 0, reconnectTimeout = None, timers = [], timers_set = 0, attempts = 0,
      pending = [], keys = initial_typing, term_cols = c, term_rows = r, selection = None,
      selection_timer = False, searchOpen = False, effects = [], tab_store = s, history_store = hist,
      prefs = st\<rparr>"

abbreviation pane_run :: "pane_env \<Rightarrow> terminal_view \<Rightarrow> pane_event list \<Rightarrow> terminal_view" where
  "pane_run env \<equiv> foldl (pane_step env)"

definition pane_start :: "pane_env \<Rightarrow> sessions_state \<Rightarrow> history_state \<Rightarrow> settings \<Rightarrow> int \<Rightarrow> int \<Rightarrow> terminal_view" where
  "pane_start env s hist st c r = connectSession (env_props env) (mounted s hist st c r)"

section \<open>Lemmas\<close>

lemma emit_fields [simp]:
  "sessionIdRef (emit es v) = sessionIdRef v" "local_status (emit es v) = local_status v"
  "view_error (emit es v) = view_error v" "disposed (emit es v) = disposed v"
  "reconnectAttempts (emit es v) = reconnectAttempts v" "reconnectTimeout (emit es v) = reconnectTimeout v"
  "timers (emit es v) = timers v" "timers_set (emit es v) = timers_set v" "attempts (emit es v) = attempts v"
  "pending (emit es v) = pending v" "keys (emit es v) = keys v" "effects (emit es v) = effects v @ es"
  "tab_store (emit es v) = tab_store v" "history_store (emit es v) = history_store v" "prefs (emit es v) = prefs v"
  "selection (emit es v) = selection v" "selection_timer (emit es v) = selection_timer v"
  by (simp_all add: emit_def)

lemma set_status_fields [simp]:
  "sessionIdRef (set_status p st v) = sessionIdRef v" "local_status (set_status p st v) = st"
  "view_error (set_status p st v) = view_error v" "disposed (set_status p st v) = disposed v"
  "reconnectAttempts (set_status p st v) = reconnectAttempts v"
  "reconnectTimeout (set_status p st v) = reconnectTimeout v"
  "timers (set_status p st v) = timers v" "timers_set (set_status p st v) = timers_set v"
  "attempts (set_status p st v) = attempts v" "pending (set_status p st v) = pending v"
  "keys (set_status p st v) = keys v" "effects (set_status p st v) = effects v"
  "tab_store (set_status p st v) = setStatus (props_paneId p) st (tab_store v)"
  "history_store (set_status p st v) = history_store v" "prefs (set_status p st v) = prefs v"
  by (simp_all add: set_status_def)

lemma record_line_fields [simp]:
  "sessionIdRef (record_line u c p v l) = sessionIdRef v" "local_status (record_line u c p v l) = local_status v"
  "disposed (record_line u c p v l) = disposed v"
  "reconnectAttempts (record_line u c p v l) = reconnectAttempts v"
  "reconnectTimeout (record_line u c p v l) = reconnectTimeout v"
  "timers (record_line u c p v l) = timers v" "attempts (record_line u c p v l) = attempts v"
  "pending (record_line u c p v l) = pending v" "effects (record_line u c p v l) = effects v"
  by (simp_all add: record_line_def Let_def)

lemma record_lines_fields [simp]:
  "sessionIdRef (foldl (record_line u c p) v ls) = sessionIdRef v"
  "local_status (foldl (record_line u c p) v ls) = local_status v"
  "disposed (foldl (record_line u c p) v ls) = disposed v"
  "reconnectAttempts (foldl (record_line u c p) v ls) = reconnectAttempts v"
  "reconnectTimeout (foldl (record_line u c p) v ls) = reconnectTimeout v"
  "timers (foldl (record_line u c p) v ls) = timers v" "attempts (foldl (record_line u c p) v ls) = attempts v"
  "pending (foldl (record_line u c p) v ls) = pending v" "effects (foldl (record_line u c p) v ls) = effects v"
  by (induction ls arbitrary: v) simp_all

lemma clear_reconnect_fields [simp]:
  "sessionIdRef (clear_reconnect v) = sessionIdRef v" "disposed (clear_reconnect v) = disposed v"
  "local_status (clear_reconnect v) = local_status v"
  "reconnectAttempts (clear_reconnect v) = reconnectAttempts v" "attempts (clear_reconnect v) = attempts v"
  "reconnectTimeout (clear_reconnect v) = reconnectTimeout v" "timers_set (clear_reconnect v) = timers_set v"
  "pending (clear_reconnect v) = pending v" "effects (clear_reconnect v) = effects v"
  "tab_store (clear_reconnect v) = tab_store v" "history_store (clear_reconnect v) = history_store v"
  "prefs (clear_reconnect v) = prefs v" "keys (clear_reconnect v) = keys v"
  "timers (clear_reconnect v) = filter (\<lambda>(i, d). reconnectTimeout v \<noteq> Some i) (timers v)"
  by (simp_all add: clear_reconnect_def)

text \<open>The steps that concern the connection; the other ones leave its fields alone.\<close>

fun connection_event :: "pane_event \<Rightarrow> bool" where
  "connection_event (Channel_event a (Data d)) = False"
| "connection_event (Channel_event a ev) = True"
| "connection_event (Connect_resolved a s) = True"
| "connection_event (Connect_rejected a e) = True"
| "connection_event (Retry_timer i) = True"
| "connection_event Click_reconnect = True"
| "connection_event Unmount = True"
| "connection_event e = False"

lemmas pane_defs = channel_event_def history_fetched_def on_data_def resize_observed_def
  fit_and_resize_def selection_changed_def selection_settled_def key_pressed_def clipboard_answer_def
  closeSearch_def copySelectionToClipboard_def Let_def

lemma other_step:
  assumes "\<not> connection_event e"
  shows "sessionIdRef (pane_step env v e) = sessionIdRef v"
    "local_status (pane_step env v e) = local_status v"
    "disposed (pane_step env v e) = disposed v"
    "reconnectAttempts (pane_step env v e) = reconnectAttempts v"
    "reconnectTimeout (pane_step env v e) = reconnectTimeout v"
    "timers (pane_step env v e) = timers v" "attempts (pane_step env v e) = attempts v"
    "pending (pane_step env v e) = pending v"
    "set (effects v) \<subseteq> set (effects (pane_step env v e))"
  using assms
  by (induction e rule: connection_event.induct;
      auto simp: pane_defs split: option.split list.split prod.split key_action.split)+

section \<open>Retries\<close>

text \<open>
  Between two successes or clicks, every attempt after the first spends one entry of the
  schedule.
\<close>

fun resets_retries :: "pane_event \<Rightarrow> bool" where
  "resets_retries (Connect_resolved a s) = True"
| "resets_retries Click_reconnect = True"
| "resets_retries e = False"

definition retries_ok :: "terminal_view \<Rightarrow> bool" where
  "retries_ok v \<longleftrightarrow> reconnectAttempts v \<le> length RECONNECT_BACKOFF_MS
     \<and> snd ` set (timers v) \<subseteq> set RECONNECT_BACKOFF_MS"

lemma backoff_nth: "n < length RECONNECT_BACKOFF_MS \<Longrightarrow> RECONNECT_BACKOFF_MS ! n \<in> set RECONNECT_BACKOFF_MS"
  by (rule nth_mem)

lemma handleDisconnect_retries: "retries_ok v \<Longrightarrow> retries_ok (handleDisconnect p st v)"
  using backoff_nth by (auto simp: handleDisconnect_def retries_ok_def Let_def)

lemma connectSession_retries: "retries_ok v \<Longrightarrow> retries_ok (connectSession p v)"
  by (auto simp: connectSession_def retries_ok_def Let_def)

lemma retries_ok_cong:
  "reconnectAttempts v' = reconnectAttempts v \<or> reconnectAttempts v' = 0 \<Longrightarrow>
     set (timers v') \<subseteq> set (timers v) \<Longrightarrow> retries_ok v \<Longrightarrow> retries_ok v'"
  unfolding retries_ok_def by fastforce

lemma pane_step_retries:
  assumes "retries_ok v"
  shows "retries_ok (pane_step env v e)"
proof (cases "connection_event e")
  case False
  then show ?thesis using retries_ok_cong[OF _ _ assms] other_step by (metis order_refl)
next
  case True
  then show ?thesis
    using assms
  proof (induction e rule: connection_event.induct)
    case (3 a s)
    then show ?case
      by (auto intro: retries_ok_cong simp: connect_resolved_def Let_def)
  next
    case (6)
    then show ?case
      by (auto intro!: connectSession_retries intro: retries_ok_cong simp: click_reconnect_def)
  next
    case 7
    then show ?case
      by (auto intro: retries_ok_cong simp: unmount_def Let_def)
  qed (auto intro!: handleDisconnect_retries connectSession_retries intro: retries_ok_cong
      simp: channel_event_def connect_rejected_def)
qed

definition retry_budget :: "terminal_view \<Rightarrow> bool" where
  "retry_budget v \<longleftrightarrow> attempts v + length (timers v) \<le> 1 + reconnectAttempts v"

lemma retry_budget_updates [simp]:
  "retry_budget (v\<lparr>view_error := x\<rparr>) = retry_budget v" "retry_budget (v\<lparr>pending := y\<rparr>) = retry_budget v"
  by (simp_all add: retry_budget_def)

lemma length_filter_fst:
  "i \<in> fst ` set xs \<Longrightarrow> Suc (length (filter (\<lambda>(j, d). j \<noteq> i) xs)) \<le> length xs"
  using length_filter_less[of _ xs "\<lambda>(j, d). j \<noteq> i"] by force

lemma connectSession_budget:
  "Suc (attempts v + length (timers v)) \<le> 1 + reconnectAttempts v \<Longrightarrow> retry_budget (connectSession p v)"
  by (auto simp: connectSession_def retry_budget_def Let_def
      intro: order_trans[OF add_left_mono[OF length_filter_le]])

lemma handleDisconnect_budget: "retry_budget v \<Longrightarrow> retry_budget (handleDisconnect p st v)"
  by (auto simp: handleDisconnect_def retry_budget_def Let_def)

lemma pane_step_budget:
  assumes "retry_budget v" "\<not> resets_retries e"
  shows "retry_budget (pane_step env v e)"
proof (cases "connection_event e")
  case False
  then show ?thesis using assms by (simp add: retry_budget_def other_step)
next
  case True
  then show ?thesis
    using assms
  proof (induction e rule: connection_event.induct)
    case (5 i)
    show ?case
    proof (cases "i \<in> fst ` set (timers v)")
      case True
      then show ?thesis
        using length_filter_fst[of i "timers v"] 5(2)
        by (simp add: retry_budget_def[of v] connectSession_budget)
    qed (use 5 in simp)
  next
    case 7
    then show ?case
      by (auto simp: unmount_def retry_budget_def Let_def
          intro: order_trans[OF add_left_mono[OF length_filter_le]])
  qed (auto simp: handleDisconnect_budget channel_event_def connect_rejected_def)
qed

lemma pane_run_retries: "retries_ok v \<Longrightarrow> retries_ok (pane_run env v es)"
  by (induction es arbitrary: v) (simp_all add: pane_step_retries)

lemma pane_run_budget:
  "retry_budget v \<Longrightarrow> \<forall>e \<in> set es. \<not> resets_retries e \<Longrightarrow> retry_budget (pane_run env v es)"
  by (induction es arbitrary: v) (simp_all add: pane_step_budget)

lemma pane_start_retries: "retries_ok (pane_start env s hist st c r)" "retry_budget (pane_start env s hist st c r)"
  by (simp_all add: pane_start_def mounted_def connectSession_def retries_ok_def retry_budget_def Let_def)

lemma attempts_mono: "attempts v \<le> attempts (pane_step env v e)"
proof (cases "connection_event e")
  case False
  then show ?thesis by (simp add: other_step)
next
  case True
  then show ?thesis
    by (induction e rule: connection_event.induct)
      (auto simp: channel_event_def connect_rejected_def connect_resolved_def handleDisconnect_def
        connectSession_def click_reconnect_def unmount_def Let_def)
qed

lemma attempts_positive: "1 \<le> attempts (pane_run env (pane_start env s hist st c r) es)"
proof -
  have "attempts v \<le> attempts (pane_run env v es)" for v
    by (induction es arbitrary: v) (simp, metis attempts_mono foldl_Cons le_trans)
  from this[of "pane_start env s hist st c r"] show ?thesis
    by (simp add: pane_start_def mounted_def connectSession_def Let_def)
qed

text \<open>
  C39: As long as no connection succeeds and nobody clicks Reconnect, a pane asks the backend
  for at most six connections, whatever else happens; and in every run the delays it waits are
  entries of the schedule.
\<close>
theorem reconnects_bounded:
  assumes "\<forall>e \<in> set es. \<not> resets_retries e"
  shows "attempts (pane_run env (pane_start env s hist st c r) es) \<le> 6
     \<and> length (timers (pane_run env (pane_start env s hist st c r) es)) \<le> 5
     \<and> (\<forall>es' i d. (i, d) \<in> set (timers (pane_run env (pane_start env s hist st c r) es'))
          \<longrightarrow> d \<in> set RECONNECT_BACKOFF_MS)"
proof -
  let ?v = "pane_run env (pane_start env s hist st c r) es"
  have "attempts ?v + length (timers ?v) \<le> 1 + reconnectAttempts ?v" "reconnectAttempts ?v \<le> 5"
    and pos: "1 \<le> attempts ?v"
    using pane_run_budget[OF pane_start_retries(2) assms, of env env s hist st c r]
      pane_run_retries[OF pane_start_retries(1), of env env s hist st c r es]
      attempts_positive[of env s hist st c r es]
    by (simp_all add: retry_budget_def retries_ok_def RECONNECT_BACKOFF_MS_def)
  then have "attempts ?v \<le> 6" "length (timers ?v) \<le> 5" by linarith+
  moreover have "d \<in> set RECONNECT_BACKOFF_MS"
    if "(i, d) \<in> set (timers (pane_run env (pane_start env s hist st c r) es'))" for es' i d
    using pane_run_retries[OF pane_start_retries(1)] that unfolding retries_ok_def by force
  ultimately show ?thesis by blast
qed

text \<open>A pane for the witnesses: the tab \<open>x\<close> with the panes \<open>xx\<close> and, once split, \<open>xxx\<close>.\<close>

definition sample_decode :: "8 word list \<Rightarrow> string" where
  "sample_decode = map (\<lambda>b. char_of (unat b))"

definition sample_env :: pane_env where
  "sample_env =
     \<lparr>env_uuids = sample_uuids, env_clock = (\<lambda>n. ''now''), env_decode = sample_decode,
      env_props = \<lparr>props_host = sample_host ''h'' None, props_tabId = ''x'', props_paneId = ''xx''\<rparr>\<rparr>"

definition sample_tabs :: sessions_state where
  "sample_tabs = snd (openSession sample_uuids (sample_host ''h'' None) Terminal initial_sessions)"

definition sample_prefs :: settings where
  "sample_prefs = initial_settings\<lparr>autoReconnectEnabled := True\<rparr>"

definition sample_pane :: terminal_view where
  "sample_pane = pane_start sample_env sample_tabs initial_history sample_prefs 80 24"

theorem reconnects_bounded_witness:
  "attempts (pane_run sample_env (pane_start sample_env sample_tabs initial_history sample_prefs 80 24)
     [Connect_rejected 0 ''timed out'', Retry_timer 0, Connect_rejected 1 ''timed out'']) \<le> 6"
  using reconnects_bounded[of "[Connect_rejected 0 ''timed out'', Retry_timer 0, Connect_rejected 1 ''timed out'']"]
  by simp

text \<open>An outage: every attempt is rejected, and every retry timer fires.\<close>

definition outage :: "string \<Rightarrow> nat \<Rightarrow> pane_event list" where
  "outage e k = concat (map (\<lambda>i. [Connect_rejected i e, Retry_timer i]) [0..<k])"

lemma connectSession_fields:
  assumes "\<not> disposed v"
  shows "disposed (connectSession p v) = False" "attempts (connectSession p v) = Suc (attempts v)"
    "pending (connectSession p v) = pending v @ [attempts v]"
    "reconnectAttempts (connectSession p v) = reconnectAttempts v"
    "timers_set (connectSession p v) = timers_set v" "prefs (connectSession p v) = prefs v"
    "timers (connectSession p v) = filter (\<lambda>(i, d). reconnectTimeout v \<noteq> Some i) (timers v)"
    "sessionIdRef (connectSession p v) = sessionIdRef v"
    "reconnectTimeout (connectSession p v) = reconnectTimeout v"
    "local_status (connectSession p v) = (if reconnectAttempts v > 0 then Reconnecting else Connecting)"
    "effects (connectSession p v) =
       effects v @ [Bridge_effect (Session_call (SessionConnect (host_id (props_host p))))]"
  using assms by (simp_all add: connectSession_def Let_def)

lemma rejected_schedules:
  fixes env :: pane_env and e :: string
  assumes "\<not> disposed v" "autoReconnectEnabled (prefs v)" "timers v = []"
    and "reconnectAttempts v = k" "k < length RECONNECT_BACKOFF_MS" "timers_set v = k" "pending v = [k]"
    and "attempts v = Suc k"
  defines "w \<equiv> pane_step env v (Connect_rejected k e)"
  shows "\<not> disposed w" "autoReconnectEnabled (prefs w)" "timers w = [(k, RECONNECT_BACKOFF_MS ! k)]"
    "reconnectAttempts w = Suc k" "timers_set w = Suc k" "pending w = []" "attempts w = Suc k"
    "local_status w = Reconnecting"
  using assms by (simp_all add: connect_rejected_def handleDisconnect_def Let_def)

lemma outage_state:
  fixes env :: pane_env and e :: string and s :: sessions_state and hist :: history_state and c r :: int
  assumes "autoReconnectEnabled st" and "k \<le> length RECONNECT_BACKOFF_MS"
  defines "w \<equiv> pane_run env (pane_start env s hist st c r) (outage e k)"
  shows "\<not> disposed w \<and> autoReconnectEnabled (prefs w) \<and> timers w = [] \<and> reconnectAttempts w = k
     \<and> timers_set w = k \<and> pending w = [k] \<and> attempts w = Suc k"
  using assms(2) unfolding w_def
proof (induction k)
  case 0
  then show ?case using assms(1)
    by (simp add: outage_def pane_start_def mounted_def connectSession_fields)
next
  case (Suc k)
  let ?v = "pane_run env (pane_start env s hist st c r) (outage e k)"
  let ?w = "pane_step env ?v (Connect_rejected k e)"
  from Suc have v: "\<not> disposed ?v" "autoReconnectEnabled (prefs ?v)" "timers ?v = []"
    "reconnectAttempts ?v = k" "k < length RECONNECT_BACKOFF_MS" "timers_set ?v = k" "pending ?v = [k]"
    "attempts ?v = Suc k"
    by simp_all
  note w = rejected_schedules[OF v, where env = env and e = e]
  have "pane_run env (pane_start env s hist st c r) (outage e (Suc k)) = pane_step env ?w (Retry_timer k)"
    by (simp add: outage_def del: pane_step.simps)
  also have "pane_step env ?w (Retry_timer k) =
      connectSession (env_props env) (?w\<lparr>timers := []\<rparr>)"
    using w(3) by (simp del: pane_step.simps add: pane_step.simps(4))
  finally show ?case
    using w by (simp add: connectSession_fields del: pane_step.simps)
qed

text \<open>
  With automatic reconnection on, an outage makes the pane retry after 2, 4, 8, 16 and 30
  seconds, one timer at a time; when the attempt after the last delay is rejected too, the pane
  settles in the error state, with nothing left to fire and the Reconnect button shown.
\<close>
theorem outage_gives_up:
  assumes "autoReconnectEnabled st"
  shows "(\<forall>k < 5. timers (pane_run env (pane_start env s hist st c r) (outage e k @ [Connect_rejected k e]))
             = [(k, [2000, 4000, 8000, 16000, 30000] ! k)])
     \<and> (let w = pane_run env (pane_start env s hist st c r) (outage e 5 @ [Connect_rejected 5 e])
        in local_status w = Error_status \<and> reconnect_shown w \<and> timers w = [] \<and> pending w = []
           \<and> view_error w = Some (friendlyError e) \<and> attempts w = 6)"
proof (rule conjI)
  let ?v = "\<lambda>k. pane_run env (pane_start env s hist st c r) (outage e k)"
  have len: "length RECONNECT_BACKOFF_MS = 5" by (simp add: RECONNECT_BACKOFF_MS_def)
  show "\<forall>k < 5. timers (pane_run env (pane_start env s hist st c r) (outage e k @ [Connect_rejected k e]))
             = [(k, [2000, 4000, 8000, 16000, 30000] ! k)]"
  proof (intro allI impI)
    fix k :: nat
    assume k: "k < 5"
    then have "k \<le> length RECONNECT_BACKOFF_MS" by (simp add: len)
    from outage_state[OF assms this, where env = env and s = s and hist = hist and c = c and r = r and e = e] k
    have "timers (pane_step env (?v k) (Connect_rejected k e)) = [(k, RECONNECT_BACKOFF_MS ! k)]"
      by (intro rejected_schedules(3)) (auto simp: len)
    then show "timers (pane_run env (pane_start env s hist st c r) (outage e k @ [Connect_rejected k e]))
             = [(k, [2000, 4000, 8000, 16000, 30000] ! k)]"
      by (simp add: RECONNECT_BACKOFF_MS_def del: pane_step.simps)
  qed
  have "5 \<le> length RECONNECT_BACKOFF_MS" by (simp add: len)
  from outage_state[OF assms this, where env = env and s = s and hist = hist and c = c and r = r and e = e]
  show "let w = pane_run env (pane_start env s hist st c r) (outage e 5 @ [Connect_rejected 5 e])
        in local_status w = Error_status \<and> reconnect_shown w \<and> timers w = [] \<and> pending w = []
           \<and> view_error w = Some (friendlyError e) \<and> attempts w = 6"
    by (simp add: connect_rejected_def handleDisconnect_def Let_def len reconnect_shown_def)
qed

theorem outage_gives_up_witness:
  "local_status (pane_run sample_env (pane_start sample_env sample_tabs initial_history sample_prefs 80 24)
      (outage ''refused'' 5 @ [Connect_rejected 5 ''refused''])) = Error_status"
  using outage_gives_up[of sample_prefs sample_env sample_tabs initial_history 80 24 "''refused''"]
  by (simp add: Let_def sample_prefs_def del: foldl_append)

end
