(* ===== verification/Terminal_Safety.thy ===== *)
theory Terminal_Safety
  imports Terminal_View
begin

text \<open>
  What a terminal pane promises about the backend's sessions: after it is gone it asks for
  nothing but the end of late sessions, it never loses track of a session while the backend
  keeps its protocol, and a broadcast reaches every other pane once; and what happens when
  events come in an order the code does not expect.
\<close>

section \<open>After the pane is gone\<close>

fun backend_effect :: "pane_effect \<Rightarrow> bool" where
  "backend_effect (Bridge_effect c) = True"
| "backend_effect e = False"

definition backend_calls :: "terminal_view \<Rightarrow> pane_effect list" where
  "backend_calls v = filter backend_effect (effects v)"

text \<open>The sessions of calls that were under way, in the order in which they resolve.\<close>

fun late_sessions :: "nat list \<Rightarrow> pane_event list \<Rightarrow> string list" where
  "late_sessions ps [] = []"
| "late_sessions ps (Connect_resolved a sid # es) =
     (if a \<in> set ps then sid # late_sessions (filter (\<lambda>b. b \<noteq> a) ps) es else late_sessions ps es)"
| "late_sessions ps (Connect_rejected a e # es) = late_sessions (filter (\<lambda>b. b \<noteq> a) ps) es"
| "late_sessions ps (e # es) = late_sessions ps es"

fun other_sessions :: "pane_event list \<Rightarrow> sessions_event list" where
  "other_sessions [] = []"
| "other_sessions (Other_sessions e # es) = e # other_sessions es"
| "other_sessions (e # es) = other_sessions es"

lemma backend_effect_kinds [simp]:
  "backend_effect (session_disconnect sid)" "backend_effect (session_write sid d)"
  "backend_effect (session_resize sid v)"
  by (simp_all add: session_disconnect_def session_write_def session_resize_def)

lemma disposed_connection [simp]:
  "disposed v \<Longrightarrow> handleDisconnect p st v = v" "disposed v \<Longrightarrow> connectSession p v = v"
  by (simp_all add: handleDisconnect_def connectSession_def)

lemma filter_absent [simp]: "a \<notin> set ps \<Longrightarrow> filter (\<lambda>b. b \<noteq> a) ps = ps"
  by (induction ps) auto

lemma disposed_step:
  assumes "disposed v" "\<not> selection_timer v"
  shows "disposed (pane_step env v e) \<and> \<not> selection_timer (pane_step env v e)
     \<and> history_store (pane_step env v e) = history_store v
     \<and> tab_store (pane_step env v e) = foldl (sessions_step (env_uuids env)) (tab_store v) (other_sessions [e])
     \<and> backend_calls (pane_step env v e) = backend_calls v @ map session_disconnect (late_sessions (pending v) [e])
     \<and> late_sessions (pending v) (e # es) = late_sessions (pending v) [e] @ late_sessions (pending (pane_step env v e)) es"
  using assms
  by (cases e)
    (auto simp: channel_event_def connect_resolved_def connect_rejected_def click_reconnect_def
      history_fetched_def on_data_def resize_observed_def selection_changed_def selection_settled_def
      key_pressed_def clipboard_answer_def unmount_def backend_calls_def)

lemma other_sessions_Cons: "other_sessions (e # es) = other_sessions [e] @ other_sessions es"
  by (cases e) simp_all

lemma disposed_run:
  assumes "disposed v" "\<not> selection_timer v"
  shows "history_store (pane_run env v es) = history_store v
     \<and> tab_store (pane_run env v es) = foldl (sessions_step (env_uuids env)) (tab_store v) (other_sessions es)
     \<and> backend_calls (pane_run env v es) = backend_calls v @ map session_disconnect (late_sessions (pending v) es)"
  using assms
proof (induction es arbitrary: v)
  case (Cons e es)
  note st = disposed_step[OF Cons.prems, of env e es]
  with Cons.IH[of "pane_step env v e"] show ?case
    by (simp add: other_sessions_Cons[of e es] del: other_sessions.simps pane_step.simps late_sessions.simps)
qed simp

text \<open>
  C25: Once a pane is unmounted, whatever still arrives (output, retries, timers, keystrokes,
  answers), it writes to no store and asks the backend for nothing except to end the sessions
  whose connection was under way, each as it is established; its current session is ended by
  the unmounting itself.
\<close>
theorem unmounted_pane_is_inert:
  fixes env :: pane_env
  assumes "\<not> disposed v"
  defines "w \<equiv> pane_step env v Unmount"
  shows "backend_calls w = backend_calls v @
           (if truthy (sessionIdRef v) then [session_disconnect (the (sessionIdRef v))] else [])
     \<and> history_store (pane_run env w es) = history_store v
     \<and> tab_store (pane_run env w es) = foldl (sessions_step (env_uuids env)) (tab_store v) (other_sessions es)
     \<and> backend_calls (pane_run env w es) =
         backend_calls w @ map session_disconnect (late_sessions (pending v) es)"
proof -
  have "disposed w" "\<not> selection_timer w" "pending w = pending v" "history_store w = history_store v"
    "tab_store w = tab_store v"
    "backend_calls w = backend_calls v @
       (if truthy (sessionIdRef v) then [session_disconnect (the (sessionIdRef v))] else [])"
    using assms(1) by (simp_all add: w_def unmount_def Let_def backend_calls_def)
  then show ?thesis using disposed_run[of w env es] by simp
qed

theorem unmounted_pane_is_inert_witness:
  "backend_calls (pane_run sample_env (pane_step sample_env sample_pane Unmount)
      [User_data ''x'', Connect_resolved 0 ''s1'', Channel_event 0 Closed_event])
     = backend_calls sample_pane @ [session_disconnect ''s1'']"
proof -
  have "\<not> disposed sample_pane" "sessionIdRef sample_pane = None" "pending sample_pane = [0]"
    by (simp_all add: sample_pane_def pane_start_def mounted_def connectSession_fields connectSession_def Let_def)
  then show ?thesis
    using unmounted_pane_is_inert[of sample_pane sample_env
        "[User_data ''x'', Connect_resolved 0 ''s1'', Channel_event 0 Closed_event]"]
    by (simp del: pane_step.simps foldl_Cons)
qed

section \<open>No session is lost\<close>

text \<open>
  The backend's side (\<open>connect\<close> in \<open>src-tauri/src/ssh/session.rs\<close>): the channels that are open, each with
  the call it belongs to, its session and whether it has reported an error, and the calls whose
  session has ended before they were answered. The task that sends a session's events is started before
  the call is answered, so its \<open>Closed\<close> can come first.
\<close>

record channel =
  ch_attempt :: nat
  ch_session :: string
  ch_failed :: bool

record backend =
  open_channels :: "channel list"
  closed_early :: "nat list"

definition backend_start :: backend where
  "backend_start = \<lparr>open_channels = [], closed_early = []\<rparr>"

fun backend_step :: "terminal_view \<Rightarrow> backend \<Rightarrow> pane_event \<Rightarrow> backend" where
  "backend_step v b (Connect_resolved a sid) =
     (if a \<notin> set (pending v) then b
      else if a \<in> set (closed_early b) then b\<lparr>closed_early := filter (\<lambda>a'. a' \<noteq> a) (closed_early b)\<rparr>
      else b\<lparr>open_channels := open_channels b @ [\<lparr>ch_attempt = a, ch_session = sid, ch_failed = False\<rparr>]\<rparr>)"
| "backend_step v b (Channel_event a (Error_event m)) =
     b\<lparr>open_channels := map (\<lambda>c. if ch_attempt c = a then c\<lparr>ch_failed := True\<rparr> else c) (open_channels b)\<rparr>"
| "backend_step v b (Channel_event a Closed_event) =
     b\<lparr>open_channels := filter (\<lambda>c. ch_attempt c \<noteq> a) (open_channels b),
       closed_early := (if a \<in> set (pending v) then closed_early b @ [a] else closed_early b)\<rparr>"
| "backend_step v b e = b"

text \<open>
  What the backend keeps to. Session identifiers are not empty. A call is rejected only before its session
  has begun, so not after its channel was closed. An error is the answer to a write or a resize, which need
  the session's identifier, and ends the session's loop: it comes on a channel whose call has been
  answered, and at most once. A channel is closed once, before or after its call is answered.
\<close>

fun backend_ok :: "terminal_view \<Rightarrow> backend \<Rightarrow> pane_event \<Rightarrow> bool" where
  "backend_ok v b (Connect_resolved a sid) = (sid \<noteq> [])"
| "backend_ok v b (Connect_rejected a e) = (a \<notin> set (closed_early b))"
| "backend_ok v b (Channel_event a (Error_event m)) = (\<exists>c \<in> set (open_channels b). ch_attempt c = a \<and> \<not> ch_failed c)"
| "backend_ok v b (Channel_event a Closed_event) =
     ((\<exists>c \<in> set (open_channels b). ch_attempt c = a) \<or> a \<in> set (pending v) \<and> a \<notin> set (closed_early b))"
| "backend_ok v b e = True"

text \<open>
  What is assumed of delivery: when the pane connects again, by a retry or a click, the two messages
  that the backend sends right behind one another are not still on their way in part. An error is followed at
  once by \<open>Closed\<close>, and a session that ends early by the answer to its call; the shortest delay of a
  retry is two seconds.
\<close>

fun in_time :: "backend \<Rightarrow> pane_event \<Rightarrow> bool" where
  "in_time b (Retry_timer i) = ((\<forall>c \<in> set (open_channels b). \<not> ch_failed c) \<and> closed_early b = [])"
| "in_time b Click_reconnect = ((\<forall>c \<in> set (open_channels b). \<not> ch_failed c) \<and> closed_early b = [])"
| "in_time b e = True"

definition world_pane_step ::
  "pane_env \<Rightarrow> terminal_view \<times> backend \<Rightarrow> pane_event \<Rightarrow> terminal_view \<times> backend" where
  "world_pane_step env w e = (pane_step env (fst w) e, backend_step (fst w) (snd w) e)"

definition protocol_ok :: "terminal_view \<times> backend \<Rightarrow> pane_event \<Rightarrow> bool" where
  "protocol_ok w e \<longleftrightarrow> backend_ok (fst w) (snd w) e"

definition delivered_ok :: "terminal_view \<times> backend \<Rightarrow> pane_event \<Rightarrow> bool" where
  "delivered_ok w e \<longleftrightarrow> protocol_ok w e \<and> in_time (snd w) e"

text \<open>
  The invariant: at most one connection is under way or open, and the pane knows about it. A
  channel that outlives the pane was told to end, or had failed.
\<close>

definition session_tracked :: "terminal_view \<Rightarrow> backend \<Rightarrow> bool" where
  "session_tracked v b \<longleftrightarrow>
     (case open_channels b of
        [] \<Rightarrow> length (pending v) \<le> 1 \<and> (pending v \<noteq> [] \<longrightarrow> timers v = [] \<and> sessionIdRef v = None)
              \<and> (sessionIdRef v \<noteq> None \<longrightarrow> timers v = [])
      | [c] \<Rightarrow> pending v = [] \<and> ch_session c \<noteq> []
               \<and> sessionIdRef v = (if ch_failed c then None else Some (ch_session c))
               \<and> (\<not> ch_failed c \<longrightarrow> timers v = [])
      | _ \<Rightarrow> False)
     \<and> set (closed_early b) \<subseteq> set (pending v)
     \<and> (\<forall>(i, d) \<in> set (timers v). reconnectTimeout v = Some i) \<and> length (timers v) \<le> 1
     \<and> (pending v \<noteq> [] \<and> closed_early b = [] \<or> sessionIdRef v \<noteq> None \<longrightarrow> \<not> reconnect_shown v)"

definition sessions_tracked :: "terminal_view \<times> backend \<Rightarrow> bool" where
  "sessions_tracked w \<longleftrightarrow>
     (if disposed (fst w)
      then (\<forall>c \<in> set (open_channels (snd w)). ch_failed c \<or> session_disconnect (ch_session c) \<in> set (effects (fst w)))
      else session_tracked (fst w) (snd w))"

lemma tracked_cong:
  assumes "session_tracked v b" "sessionIdRef v' = sessionIdRef v" "pending v' = pending v"
    "timers v' = timers v" "reconnectTimeout v' = reconnectTimeout v" "local_status v' = local_status v"
  shows "session_tracked v' b"
  using assms(1) unfolding session_tracked_def reconnect_shown_def assms(2-6) .

text \<open>
  The pane is idle, or a call is under way, perhaps with its session already ended; or it has a
  session, which runs, has failed, or (\<open>stale\<close>) had ended before the call was answered.
\<close>

lemma tracked_cases:
  assumes "session_tracked v b"
  obtains (idle) "open_channels b = []" "closed_early b = []" "sessionIdRef v = None" "pending v = []"
    | (calling) a where "open_channels b = []" "closed_early b = []" "sessionIdRef v = None" "pending v = [a]" "timers v = []"
        "\<not> reconnect_shown v"
    | (early) a where "open_channels b = []" "set (closed_early b) = {a}" "sessionIdRef v = None" "pending v = [a]" "timers v = []"
    | (stale) sid where "open_channels b = []" "closed_early b = []" "sessionIdRef v = Some sid" "pending v = []" "timers v = []"
        "\<not> reconnect_shown v"
    | (running) c where "open_channels b = [c]" "closed_early b = []" "\<not> ch_failed c" "ch_session c \<noteq> []"
        "sessionIdRef v = Some (ch_session c)" "pending v = []" "timers v = []" "\<not> reconnect_shown v"
    | (failed) c where "open_channels b = [c]" "closed_early b = []" "ch_failed c" "ch_session c \<noteq> []" "sessionIdRef v = None"
        "pending v = []"
proof (cases "open_channels b")
  case Nil
  with assms have len: "length (pending v) \<le> 1" by (simp add: session_tracked_def)
  show ?thesis
  proof (cases "pending v")
    case Nil
    with \<open>open_channels b = []\<close> assms idle stale show ?thesis
      by (cases "sessionIdRef v") (simp_all add: session_tracked_def)
  next
    case (Cons a ps)
    with len have a: "pending v = [a]" by simp
    with assms have "set (closed_early b) \<subseteq> {a}" by (simp add: session_tracked_def)
    then have "closed_early b = [] \<or> set (closed_early b) = {a}" by (metis set_empty subset_singletonD)
    with a \<open>open_channels b = []\<close> assms calling early show ?thesis by (auto simp: session_tracked_def)
  qed
next
  case (Cons c ds)
  with assms have "ds = []" by (cases ds) (simp_all add: session_tracked_def)
  with Cons assms have one: "open_channels b = [c]" "pending v = []" "set (closed_early b) \<subseteq> set (pending v)"
    by (auto simp: session_tracked_def)
  then have "closed_early b = []" by simp
  with one assms running failed show ?thesis
    by (cases "ch_failed c") (simp_all add: session_tracked_def)
qed

lemma tracked_timers:
  assumes "session_tracked v b"
  shows "timers v = [] \<or> (\<exists>i d. timers v = [(i, d)] \<and> reconnectTimeout v = Some i)"
  using assms
  by (cases "timers v") (auto simp: session_tracked_def)

lemma tracked_connect:
  assumes "session_tracked v b" "pending v = []" "sessionIdRef v = None" "\<not> disposed v" "open_channels b = []"
  shows "session_tracked (connectSession p v) b"
  using assms(1-3,5) tracked_timers[OF assms(1)]
  by (auto simp: session_tracked_def connectSession_fields[OF assms(4)] reconnect_shown_def)

lemma handleDisconnect_disposed [simp]: "disposed (handleDisconnect p st v) = disposed v"
  by (simp add: handleDisconnect_def Let_def)

lemma connectSession_disposed [simp]: "disposed (connectSession p v) = disposed v"
  by (simp add: connectSession_def Let_def)

lemma handleDisconnect_effects [simp]: "effects (handleDisconnect p st v) = effects v"
  by (simp add: handleDisconnect_def Let_def)

lemma backend_other: "\<not> connection_event e \<Longrightarrow> backend_step v b e = b"
  by (induction e rule: connection_event.induct) simp_all

lemma world_step_gone:
  assumes "sessions_tracked (v, b)" "disposed v"
  shows "sessions_tracked (world_pane_step env (v, b) e)"
proof (cases "connection_event e")
  case False
  then show ?thesis
    using assms other_step[OF False, where env = env and v = v] backend_other[OF False, of v b]
    by (auto simp: sessions_tracked_def world_pane_step_def simp del: pane_step.simps)
next
  case True
  then show ?thesis
    using assms
    by (induction e rule: connection_event.induct)
      (auto simp: sessions_tracked_def world_pane_step_def channel_event_def connect_resolved_def
        connect_rejected_def click_reconnect_def unmount_def)
qed

lemma tracked_error:
  assumes tr: "session_tracked v b" and d: "\<not> disposed v"
    and c: "c \<in> set (open_channels b)" "ch_attempt c = a" "\<not> ch_failed c"
  shows "session_tracked (channel_event dec p (Error_event m) v) (backend_step v b (Channel_event a (Error_event m)))"
  using tr
proof (cases rule: tracked_cases)
  case (running c')
  have "session_tracked (v\<lparr>view_error := Some m\<rparr>) b" by (rule tracked_cong[OF tr]) simp_all
  with running c d show ?thesis
    by (auto simp: channel_event_def session_tracked_def handleDisconnect_def Let_def reconnect_shown_def)
qed (use c in auto)

lemma tracked_closed:
  assumes tr: "session_tracked v b" and d: "\<not> disposed v" and ok: "backend_ok v b (Channel_event a Closed_event)"
  shows "session_tracked (channel_event dec p Closed_event v) (backend_step v b (Channel_event a Closed_event))"
  using tr
proof (cases rule: tracked_cases)
  case (calling a')
  with tr ok d show ?thesis
    by (simp add: channel_event_def session_tracked_def handleDisconnect_def Let_def)
next
  case (running c)
  with tr ok d show ?thesis
    by (simp add: channel_event_def session_tracked_def handleDisconnect_def Let_def)
next
  case (failed c)
  with tr ok d show ?thesis
    by (simp add: channel_event_def session_tracked_def handleDisconnect_def Let_def)
qed (use ok in auto)

lemma tracked_resolved:
  assumes tr: "session_tracked v b" and d: "\<not> disposed v" and a: "a \<in> set (pending v)" and sid: "sid \<noteq> []"
  shows "session_tracked (connect_resolved p sid (v\<lparr>pending := filter (\<lambda>b. b \<noteq> a) (pending v)\<rparr>))
     (backend_step v b (Connect_resolved a sid))"
  using tr
proof (cases rule: tracked_cases)
  case (calling a')
  with a d sid show ?thesis
    by (simp add: connect_resolved_def session_tracked_def reconnect_shown_def Let_def)
next
  case (early a')
  with a have "a' = a" by simp
  with early(2) have "a \<in> set (closed_early b)" "filter (\<lambda>x. x \<noteq> a) (closed_early b) = []"
    by (auto simp: filter_empty_conv)
  with early d sid \<open>a' = a\<close> show ?thesis
    by (simp add: connect_resolved_def session_tracked_def reconnect_shown_def Let_def)
qed (use a in auto)

lemma tracked_rejected:
  assumes tr: "session_tracked v b" and d: "\<not> disposed v" and a: "a \<in> set (pending v)" "a \<notin> set (closed_early b)"
  shows "session_tracked (connect_rejected p e (v\<lparr>pending := filter (\<lambda>b. b \<noteq> a) (pending v)\<rparr>)) b"
  using tr
proof (cases rule: tracked_cases)
  case (calling a')
  with a d show ?thesis
    by (auto simp: connect_rejected_def session_tracked_def handleDisconnect_def reconnect_shown_def Let_def)
qed (use a in auto)

lemma tracked_retry:
  assumes tr: "session_tracked v b" and d: "\<not> disposed v" and i: "i \<in> fst ` set (timers v)"
    and ok: "in_time b (Retry_timer i)"
  shows "session_tracked (connectSession p (v\<lparr>timers := filter (\<lambda>(j, d). j \<noteq> i) (timers v)\<rparr>)) b"
  using tr
proof (cases rule: tracked_cases)
  case idle
  have "session_tracked (v\<lparr>timers := filter (\<lambda>(j, d). j \<noteq> i) (timers v)\<rparr>) b"
    using tracked_timers[OF tr] idle tr i by (auto simp: session_tracked_def)
  from tracked_connect[OF this] idle d show ?thesis by simp
qed (use i ok in auto)

lemma tracked_click:
  assumes tr: "session_tracked v b" and d: "\<not> disposed v" and ok: "in_time b Click_reconnect"
  shows "session_tracked (click_reconnect p v) b"
proof (cases "reconnect_shown v")
  case True
  from tr show ?thesis
  proof (cases rule: tracked_cases)
    case idle
    have "session_tracked (v\<lparr>reconnectAttempts := 0\<rparr>) b" by (rule tracked_cong[OF tr]) simp_all
    from tracked_connect[OF this] idle d True show ?thesis by (simp add: click_reconnect_def)
  qed (use True ok in auto)
qed (use tr in \<open>simp add: click_reconnect_def\<close>)

lemma world_step_mounted:
  assumes tr: "session_tracked v b" and d: "\<not> disposed v" and ok: "backend_ok v b e" "in_time b e" and e: "e \<noteq> Unmount"
  shows "session_tracked (pane_step env v e) (backend_step v b e)"
proof (cases "connection_event e")
  case False
  from tracked_cong[OF tr other_step(1,8,6,5,2)[OF False]] show ?thesis
    by (simp only: backend_other[OF False])
next
  case True
  show ?thesis
  proof (cases e)
    case (Channel_event a ev)
    with True tr d ok tracked_error tracked_closed[OF tr d, of a] show ?thesis
      by (cases ev) (auto simp del: backend_step.simps)
  next
    case (Connect_resolved a sid)
    with tr d ok tracked_resolved[OF tr d, of a sid] show ?thesis by (cases "a \<in> set (pending v)") simp_all
  qed (use True e tr d ok tracked_rejected tracked_retry tracked_click in auto)
qed

lemma world_step_ok:
  assumes "sessions_tracked w" and "delivered_ok w e"
  shows "sessions_tracked (world_pane_step env w e)"
proof (cases "disposed (fst w)")
  case True
  with assms world_step_gone[of "fst w" "snd w" env e] show ?thesis by simp
next
  case False
  with assms(1) have tr: "session_tracked (fst w) (snd w)" by (simp add: sessions_tracked_def)
  show ?thesis
  proof (cases "e = Unmount")
    case True
    from tr False True show ?thesis
      by (cases rule: tracked_cases)
        (auto simp: sessions_tracked_def world_pane_step_def unmount_def Let_def truthy_def)
  next
    case e: False
    have "\<not> disposed (pane_step env (fst w) e)"
    proof (cases "connection_event e")
      case True
      with e False show ?thesis
        by (cases e)
          (auto simp: channel_event_def connect_resolved_def connect_rejected_def click_reconnect_def Let_def
            split: session_event.split option.split)
    qed (use other_step(3) False in simp)
    with world_step_mounted[OF tr False _ _ e] assms(2) show ?thesis
      by (simp add: sessions_tracked_def world_pane_step_def delivered_ok_def protocol_ok_def)
  qed
qed

lemma pane_start_tracked: "sessions_tracked (pane_start env s hist st c r, backend_start)"
  by (simp add: sessions_tracked_def session_tracked_def pane_start_def mounted_def connectSession_fields
      reconnect_shown_def backend_start_def)

interpretation terminal_sessions: invariant_machine "(pane_start env s hist st c r, backend_start)" "world_pane_step env"
    delivered_ok sessions_tracked for env s hist st c r
  by unfold_locales (rule pane_start_tracked, rule world_step_ok)

text \<open>A session that is open and that neither the pane nor the backend will end.\<close>

definition lost_session :: "terminal_view \<times> backend \<Rightarrow> channel \<Rightarrow> bool" where
  "lost_session w ch \<longleftrightarrow> ch \<in> set (open_channels (snd w)) \<and> \<not> ch_failed ch
     \<and> \<not> (\<not> disposed (fst w) \<and> sessionIdRef (fst w) = Some (ch_session ch))
     \<and> session_disconnect (ch_session ch) \<notin> set (effects (fst w))"

text \<open>
  C22: As long as the backend keeps its protocol, in which a session may end before the call that opened
  it is answered, and its messages are delivered before the pane connects again, no session is lost: at
  any time, every session whose channel is open and has not failed is the one the pane writes to
  and will end, or the pane is gone and has asked the backend to end it; and a pane never has
  two connections at once.
\<close>
theorem no_session_is_lost:
  assumes "run_ok (world_pane_step env) delivered_ok (pane_start env s hist st c r, backend_start) es"
  defines "w \<equiv> foldl (world_pane_step env) (pane_start env s hist st c r, backend_start) es"
  shows "(\<forall>ch. \<not> lost_session w ch)
     \<and> (disposed (fst w)
         \<or> length (pending (fst w)) + length (filter (\<lambda>ch. \<not> ch_failed ch) (open_channels (snd w))) \<le> 1)"
proof -
  have inv: "sessions_tracked w"
    unfolding w_def by (rule terminal_sessions.inv_run[OF assms(1)])
  show ?thesis
  proof (cases "disposed (fst w)")
    case False
    with inv have "session_tracked (fst w) (snd w)" by (simp add: sessions_tracked_def)
    then show ?thesis using False by (cases rule: tracked_cases) (auto simp: lost_session_def)
  qed (use inv in \<open>auto simp: sessions_tracked_def lost_session_def\<close>)
qed

text \<open>A shell that ends at once; and a session that breaks, the retry, and the end of the pane.\<close>

definition early_run :: "pane_event list" where
  "early_run = [Channel_event 0 Closed_event, Connect_resolved 0 ''s0'']"

definition broken_run :: "pane_event list" where
  "broken_run = [Connect_resolved 0 ''s1'', Channel_event 0 (Error_event ''broken pipe''), Channel_event 0 Closed_event,
     Retry_timer 0, Connect_resolved 1 ''s2'', Unmount]"

theorem no_session_is_lost_witness:
  "(let w = foldl (world_pane_step sample_env)
       (pane_start sample_env sample_tabs initial_history sample_prefs 80 24, backend_start) broken_run
    in map ch_session (open_channels (snd w)) = [''s2''] \<and> (\<forall>ch. \<not> lost_session w ch))
   \<and> (\<forall>ch. \<not> lost_session (foldl (world_pane_step sample_env)
       (pane_start sample_env sample_tabs initial_history sample_prefs 80 24, backend_start) early_run) ch)"
proof -
  have r: "run_ok (world_pane_step sample_env) delivered_ok
      (pane_start sample_env sample_tabs initial_history sample_prefs 80 24, backend_start) broken_run"
    by code_simp
  have e: "run_ok (world_pane_step sample_env) delivered_ok
      (pane_start sample_env sample_tabs initial_history sample_prefs 80 24, backend_start) early_run"
    by code_simp
  have "map ch_session (open_channels (snd (foldl (world_pane_step sample_env)
       (pane_start sample_env sample_tabs initial_history sample_prefs 80 24, backend_start) broken_run))) = [''s2'']"
    by code_simp
  with no_session_is_lost[OF r] no_session_is_lost[OF e] show ?thesis unfolding Let_def by blast
qed

text \<open>
  The delivery matters: when the \<open>Closed\<close> of a broken session arrives only after the retry has been
  answered, the pane forgets the new session, which stays open until the program ends; the backend has
  kept its protocol.
\<close>

theorem late_close_loses_session:
  "let es = [Connect_resolved 0 ''s1'', Channel_event 0 (Error_event ''broken pipe''), Retry_timer 0,
         Connect_resolved 1 ''s2'', Channel_event 0 Closed_event, Unmount];
       w0 = (pane_start sample_env sample_tabs initial_history sample_prefs 80 24, backend_start);
       w = foldl (world_pane_step sample_env) w0 es
   in run_ok (world_pane_step sample_env) protocol_ok w0 es
      \<and> list_ex (lost_session w) (open_channels (snd w))"
  by code_simp

section \<open>Broadcasting\<close>

definition sibling_session :: "(string \<rightharpoonup> string) \<Rightarrow> string \<Rightarrow> string \<Rightarrow> string option" where
  "sibling_session ids own q =
     (if q = own then None
      else case ids q of None \<Rightarrow> None | Some sid \<Rightarrow> if sid = [] then None else Some sid)"

lemma sibling_session_Some:
  "sibling_session ids own q = Some sid \<longleftrightarrow> q \<noteq> own \<and> sid \<noteq> [] \<and> ids q = Some sid"
  by (auto simp: sibling_session_def split: option.split)

lemma map_filter_writes:
  "List.map_filter
     (\<lambda>leaf. if leaf_paneId leaf = own then None
             else case ids (leaf_paneId leaf) of
                    None \<Rightarrow> None
                  | Some sid \<Rightarrow> if sid = [] then None else Some (session_write sid data)) ls
   = map (\<lambda>sid. session_write sid data) (List.map_filter (sibling_session ids own) (map leaf_paneId ls))"
  by (induction ls) (auto simp: List.map_filter_simps sibling_session_def split: option.split)

lemma sibling_writes_eq:
  "find_tab (props_tabId p) (openSessions s) = Some tab \<Longrightarrow>
     sibling_writes p s data =
       (if broadcastEnabled tab
        then map (\<lambda>sid. session_write sid data)
               (List.map_filter (sibling_session (sessionIds s) (props_paneId p)) (tab_panes tab))
        else [])"
  by (auto simp: sibling_writes_def map_filter_writes tab_panes_def pane_ids_def List.map_filter_simps
      split: option.split bool.split)

lemma set_map_filter: "set (List.map_filter f xs) = {y. \<exists>x \<in> set xs. f x = Some y}"
  by (induction xs) (auto simp: List.map_filter_simps split: option.split)

lemma inj_on_dom: "inj_on m (dom m) \<Longrightarrow> m x = Some z \<Longrightarrow> m y = Some z \<Longrightarrow> x = y"
  by (metis domI inj_onD)

lemma distinct_map_filter:
  "distinct xs \<Longrightarrow> (\<And>x y z. f x = Some z \<Longrightarrow> f y = Some z \<Longrightarrow> x = y) \<Longrightarrow> distinct (List.map_filter f xs)"
  by (induction xs) (fastforce simp: List.map_filter_simps set_map_filter split: option.splits)+

lemma broadcast_targets:
  assumes "sessions_ok u s" and "find_tab tid (openSessions s) = Some tab" and "inj_on ids (dom ids)"
  shows "distinct (List.map_filter (sibling_session ids own) (tab_panes tab))"
    and "set (List.map_filter (sibling_session ids own) (tab_panes tab))
           = {sid. sid \<noteq> [] \<and> (\<exists>q \<in> set (tab_panes tab). q \<noteq> own \<and> ids q = Some sid)}"
proof -
  have "tab \<in> set (openSessions s)" using find_tab_SomeD[OF assms(2)] by simp
  then have "distinct (tab_panes tab)"
    using assms(1) by (auto simp: sessions_ok_def intro: tab_ok_distinct)
  then show "distinct (List.map_filter (sibling_session ids own) (tab_panes tab))"
    by (rule distinct_map_filter) (metis assms(3) inj_on_dom sibling_session_Some)
  show "set (List.map_filter (sibling_session ids own) (tab_panes tab))
           = {sid. sid \<noteq> [] \<and> (\<exists>q \<in> set (tab_panes tab). q \<noteq> own \<and> ids q = Some sid)}"
    by (auto simp: set_map_filter sibling_session_Some)
qed

lemma on_data_effects:
  "\<not> disposed v \<Longrightarrow> effects (on_data u clock p data v) = effects v
     @ (if truthy (sessionIdRef v) then [session_write (the (sessionIdRef v)) data] else [])
     @ sibling_writes p (tab_store v) data"
  by (simp add: on_data_def Let_def split: prod.split)

text \<open>
  C40: What the user types goes to the session of the pane; while the tab broadcasts it also
  goes to the session of every other pane of that tab that has one, exactly once each and to
  nobody else.
\<close>
theorem broadcast_reaches_each_pane_once:
  assumes "sessions_ok u (tab_store v)" and "\<not> disposed v" and "sessionIdRef v = Some own" and "own \<noteq> []"
    and "find_tab (props_tabId (env_props env)) (openSessions (tab_store v)) = Some tab"
    and "sessionIds (tab_store v) (props_paneId (env_props env)) = Some own"
    and "inj_on (sessionIds (tab_store v)) (dom (sessionIds (tab_store v)))"
  shows "\<exists>sids. effects (pane_step env v (User_data data)) =
           effects v @ map (\<lambda>sid. session_write sid data) (own # sids)
     \<and> distinct (own # sids)
     \<and> set sids = (if broadcastEnabled tab
          then {sid. sid \<noteq> [] \<and> (\<exists>q \<in> set (tab_panes tab). q \<noteq> props_paneId (env_props env)
                        \<and> sessionIds (tab_store v) q = Some sid)} else {})"
proof -
  define own_pane where "own_pane = props_paneId (env_props env)"
  define sids where "sids = (if broadcastEnabled tab
     then List.map_filter (sibling_session (sessionIds (tab_store v)) own_pane) (tab_panes tab) else [])"
  note t = broadcast_targets[OF assms(1,5,7), of own_pane]
  have "effects (pane_step env v (User_data data)) = effects v @ map (\<lambda>sid. session_write sid data) (own # sids)"
    using assms(2-4)
    by (simp add: on_data_effects sibling_writes_eq[OF assms(5)] sids_def own_pane_def truthy_def)
  moreover have "own \<notin> set sids"
    using t(2) inj_on_dom[OF assms(7,6)] by (auto simp: sids_def own_pane_def)
  ultimately show ?thesis
    using t by (intro exI[of _ sids]) (auto simp: sids_def own_pane_def)
qed

definition two_panes :: terminal_view where
  "two_panes = pane_run sample_env sample_pane
     [Connect_resolved 0 ''s1'', Other_sessions (Split_pane ''x'' ''xx'' Row None),
      Other_sessions (Set_session_id ''xxx'' ''s2''), Other_sessions (Toggle_broadcast ''x'')]"

theorem broadcast_reaches_each_pane_once_witness:
  "\<exists>sids. effects (pane_step sample_env two_panes (User_data ''ls'')) =
           effects two_panes @ map (\<lambda>sid. session_write sid ''ls'') (''s1'' # sids)
     \<and> set sids = {''s2''}"
proof -
  have h: "\<not> disposed two_panes" "sessionIdRef two_panes = Some ''s1''" "''s1'' \<noteq> []"
    "tab_panes (hd (openSessions (tab_store two_panes))) = [''xx'', ''xxx'']"
    "broadcastEnabled (hd (openSessions (tab_store two_panes)))"
    by code_simp+
  have f: "find_tab (props_tabId (env_props sample_env)) (openSessions (tab_store two_panes))
      = Some (hd (openSessions (tab_store two_panes)))"
    by code_simp
  have ids: "sessionIds (tab_store two_panes) = [''xx'' \<mapsto> ''s1'', ''xxx'' \<mapsto> ''s2'']"
    by (simp add: two_panes_def sample_pane_def pane_start_def mounted_def connectSession_def connect_resolved_def
        sample_env_def sample_tabs_def openSession_def initial_sessions_def setStatus_def setSessionId_def
        splitPane_def toggleBroadcast_def Let_def split: prod.split)
  have ok: "sessions_ok sample_uuids (tab_store two_panes)"
  proof -
    have "tab_store two_panes = foldl (sessions_step sample_uuids) initial_sessions
        [Open_tab (sample_host ''h'' None) Terminal, Set_status ''xx'' Connecting, Set_status ''xx'' Connected,
         Set_session_id ''xx'' ''s1'', Split_pane ''x'' ''xx'' Row None, Set_session_id ''xxx'' ''s2'', Toggle_broadcast ''x'']"
      by (simp add: two_panes_def sample_pane_def pane_start_def mounted_def connectSession_def connect_resolved_def
          sample_env_def sample_tabs_def Let_def)
    then show ?thesis by (simp add: sessions_step_ok openSession_ok splitPane_ok toggleBroadcast_ok)
  qed
  have inj: "inj_on (sessionIds (tab_store two_panes)) (dom (sessionIds (tab_store two_panes)))"
    by (auto simp: ids inj_on_def split: if_splits)
  have pane: "sessionIds (tab_store two_panes) (props_paneId (env_props sample_env)) = Some ''s1''"
    by (simp add: ids sample_env_def)
  from broadcast_reaches_each_pane_once[OF ok h(1-3) f pane inj, of "''ls''"]
  show ?thesis using h(4,5) by (fastforce simp: ids sample_env_def)
qed

section \<open>Sessions that end\<close>

text \<open>
  A session that breaks sends an error and then closes its channel. With automatic
  reconnection on, the error schedules the retry, and the closing then overwrites the state:
  the pane and its tab show a closed session while the retry is still due, and the retry starts
  on its own two seconds later. The tab store keeps the identifier of the dead session for the
  pane.
\<close>
theorem broken_session_shows_closed:
  fixes env :: pane_env and a :: nat and m :: string
  assumes "\<not> disposed v" and "autoReconnectEnabled (prefs v)" and "reconnectAttempts v = 0"
    and "timers v = []" and "sessionIds (tab_store v) (props_paneId (env_props env)) = Some sid"
  defines "w \<equiv> pane_run env v [Channel_event a (Error_event m), Channel_event a Closed_event]"
  shows "local_status w = Closed
     \<and> statuses (tab_store w) (props_paneId (env_props env)) = Some Closed
     \<and> reconnect_shown w \<and> view_error w = Some m \<and> sessionIdRef w = None
     \<and> timers w = [(timers_set v, 2000)]
     \<and> sessionIds (tab_store w) (props_paneId (env_props env)) = Some sid
     \<and> local_status (pane_step env w (Retry_timer (timers_set v))) = Reconnecting
     \<and> attempts (pane_step env w (Retry_timer (timers_set v))) = Suc (attempts v)"
proof -
  have len: "length RECONNECT_BACKOFF_MS = 5" "RECONNECT_BACKOFF_MS ! 0 = 2000"
    by (simp_all add: RECONNECT_BACKOFF_MS_def)
  have w: "w = set_status (env_props env) Closed
      (handleDisconnect (env_props env) Error_status (v\<lparr>view_error := Some m\<rparr>)\<lparr>sessionIdRef := None\<rparr>)"
    using assms(1) by (simp add: w_def channel_event_def handleDisconnect_def[of _ Closed])
  show ?thesis
    using assms(1-5)
    by (simp add: w handleDisconnect_def[of _ Error_status] Let_def len reconnect_shown_def setStatus_def
        connectSession_fields)
qed

text \<open>
  The channel of a session may close before the call that opened the session is answered.
  The pane then shows a connected session and keeps writing to it, though it has ended.
\<close>
theorem early_close_is_forgotten:
  fixes env :: pane_env
  assumes "\<not> disposed v" and "a \<in> set (pending v)" and "sid \<noteq> []"
  defines "w \<equiv> pane_run env v [Channel_event a Closed_event, Connect_resolved a sid]"
  shows "local_status w = Connected \<and> sessionIdRef w = Some sid \<and> \<not> reconnect_shown w
     \<and> session_write sid data \<in> set (effects (pane_step env w (User_data data)))"
proof -
  have c: "pending (handleDisconnect p st v) = pending v" for p st
    by (simp add: handleDisconnect_def Let_def)
  have w: "w = connect_resolved (env_props env) sid
      (handleDisconnect (env_props env) Closed v\<lparr>pending := filter (\<lambda>b. b \<noteq> a) (pending v)\<rparr>)"
    using assms(1,2) by (simp add: w_def channel_event_def c)
  have "local_status w = Connected \<and> sessionIdRef w = Some sid \<and> \<not> disposed w"
    unfolding w connect_resolved_def Let_def using assms(1) by simp
  then show ?thesis using assms(3) by (simp add: reconnect_shown_def on_data_effects truthy_def)
qed


definition running_pane :: terminal_view where
  "running_pane = pane_step sample_env sample_pane (Connect_resolved 0 ''s1'')"

theorem broken_session_shows_closed_witness:
  "local_status (pane_run sample_env running_pane
     [Channel_event 0 (Error_event ''broken pipe''), Channel_event 0 Closed_event]) = Closed"
proof -
  have "\<not> disposed running_pane" "autoReconnectEnabled (prefs running_pane)"
    "reconnectAttempts running_pane = 0" "timers running_pane = []"
    "sessionIds (tab_store running_pane) (props_paneId (env_props sample_env)) = Some ''s1''"
    by code_simp+
  from broken_session_shows_closed[OF this] show ?thesis by blast
qed

theorem early_close_is_forgotten_witness:
  "local_status (pane_run sample_env sample_pane [Channel_event 0 Closed_event, Connect_resolved 0 ''s1'']) = Connected"
proof -
  have "\<not> disposed sample_pane" "0 \<in> set (pending sample_pane)" "''s1'' \<noteq> []"
    by code_simp+
  from early_close_is_forgotten[OF this] show ?thesis by blast
qed

end
