(* ===== verification/Vpn_Store.thy ===== *)
theory Vpn_Store
  imports Refetch Sessions_Store Friendly_Error
begin

text \<open>
  The store of VPN profiles, \<open>src/src/state/vpnStore.ts\<close>: its refetches, the gate every
  connection goes through (\<open>ensureVpnUp\<close>, with its bounded polling), and the release of a
  profile nothing uses any more.

  An asynchronous operation is followed from its start to its end. What the backend answers
  to its n-th call and what the clock reads the n-th time are arguments, and so is
  what other tasks do to the store while it waits (\<open>env\<close>).
\<close>

section \<open>State\<close>

record vpn_gate_result =
  gate_ok :: bool
  gate_message :: "string option"

record vpn_store =
  profiles :: "vpn_profile list"
  vpn_statuses :: "string \<rightharpoonup> vpn_status"
  setupInstalled :: bool
  vpn_loaded :: bool
  vpn_requestId :: nat

definition initial_vpn :: vpn_store where
  "initial_vpn = \<lparr>profiles = [], vpn_statuses = Map.empty, setupInstalled = False, vpn_loaded = False,
     vpn_requestId = 0\<rparr>"

definition VPN_GATE_POLL_TIMEOUT_MS :: nat where "VPN_GATE_POLL_TIMEOUT_MS = 25000"

definition VPN_GATE_POLL_INTERVAL_MS :: nat where "VPN_GATE_POLL_INTERVAL_MS = 400"

definition statusMap :: "vpn_connection_status list \<Rightarrow> string \<rightharpoonup> vpn_status" where
  "statusMap list = fold (\<lambda>c m. m(cs_profile_id c \<mapsto> cs_status c)) list Map.empty"

section \<open>Refetches\<close>

text \<open>\<open>loadAll\<close> and \<open>refreshActive\<close> share one counter.\<close>

datatype vpn_load = Load_all | Refresh_active

datatype vpn_part = Profiles_answer | Active_answer | Setup_answer

record vpn_tables =
  db_profiles :: "vpn_profile list"
  db_active :: "vpn_connection_status list"
  db_setup :: bool

fun vpn_parts :: "vpn_load \<Rightarrow> vpn_part list" where
  "vpn_parts Load_all = [Profiles_answer, Active_answer, Setup_answer]"
| "vpn_parts Refresh_active = [Active_answer]"

definition vpn_load_begin :: "vpn_load \<Rightarrow> vpn_store \<Rightarrow> nat \<times> vpn_store" where
  "vpn_load_begin k s =
     (let thisRequest = Suc (vpn_requestId s) in (thisRequest, s\<lparr>vpn_requestId := thisRequest\<rparr>))"

fun vpn_load_finish :: "vpn_load \<Rightarrow> nat \<Rightarrow> (vpn_part \<Rightarrow> vpn_tables) \<Rightarrow> vpn_store \<Rightarrow> vpn_store" where
  "vpn_load_finish Load_all thisRequest answer s =
     (if thisRequest \<noteq> vpn_requestId s then s
      else s\<lparr>profiles := db_profiles (answer Profiles_answer),
             vpn_statuses := statusMap (db_active (answer Active_answer)),
             setupInstalled := db_setup (answer Setup_answer), vpn_loaded := True\<rparr>)"
| "vpn_load_finish Refresh_active thisRequest answer s =
     (if thisRequest \<noteq> vpn_requestId s then s
      else s\<lparr>vpn_statuses := statusMap (db_active (answer Active_answer))\<rparr>)"

fun vpn_show :: "vpn_load \<Rightarrow> vpn_tables \<Rightarrow> vpn_store \<Rightarrow> bool" where
  "vpn_show Load_all b s \<longleftrightarrow> profiles s = db_profiles b \<and> vpn_statuses s = statusMap (db_active b)
     \<and> setupInstalled s = db_setup b \<and> vpn_loaded s"
| "vpn_show Refresh_active b s \<longleftrightarrow> vpn_statuses s = statusMap (db_active b)"

interpretation vpn_refetch:
  guarded_refetch vpn_load_begin vpn_load_finish vpn_parts vpn_requestId vpn_show
proof
  fix k n a s b
  show "fst (vpn_load_begin k s) = Suc (vpn_requestId s)"
    "vpn_requestId (snd (vpn_load_begin k s)) = Suc (vpn_requestId s)"
    by (simp_all add: vpn_load_begin_def Let_def)
  show "vpn_requestId (vpn_load_finish k n a s) = vpn_requestId s" by (cases k) simp_all
  show "n \<noteq> vpn_requestId s \<Longrightarrow> vpn_load_finish k n a s = s" by (cases k) simp_all
  show "(\<And>p. p \<in> set (vpn_parts k) \<Longrightarrow> a p = b) \<Longrightarrow> vpn_show k b (vpn_load_finish k (vpn_requestId s) a s)"
    by (cases k) simp_all
qed

section \<open>Connecting and disconnecting\<close>

text \<open>
  \<open>connect\<close>: the status is set before the call to the backend and again after its answer.
  \<open>env\<close> is what other tasks do in between.
\<close>

definition set_vpn_status :: "string \<Rightarrow> vpn_status \<Rightarrow> vpn_store \<Rightarrow> vpn_store" where
  "set_vpn_status p st s = s\<lparr>vpn_statuses := (vpn_statuses s)(p \<mapsto> st)\<rparr>"

definition connect ::
  "string \<Rightarrow> string + vpn_status \<Rightarrow> (vpn_store \<Rightarrow> vpn_store) \<Rightarrow> vpn_store \<Rightarrow>
     (string + vpn_status) \<times> vpn_store" where
  "connect profileId answer env s =
     (let s1 = env (set_vpn_status profileId \<lparr>vpn_state = VConnecting, vpn_message = None\<rparr> s)
      in case answer of
           Inl e \<Rightarrow> (Inl e, s1)
         | Inr status \<Rightarrow> (Inr status, set_vpn_status profileId status s1))"

text \<open>\<open>disconnect\<close>, when the backend accepts (\<open>None\<close>) or throws.\<close>

definition disconnect ::
  "string \<Rightarrow> string option \<Rightarrow> (vpn_store \<Rightarrow> vpn_store) \<Rightarrow> vpn_store \<Rightarrow> string option \<times> vpn_store" where
  "disconnect profileId refusal env s =
     (case refusal of
        Some e \<Rightarrow> (Some e, env s)
      | None \<Rightarrow> (None, set_vpn_status profileId \<lparr>vpn_state = VDisconnecting, vpn_message = None\<rparr> (env s)))"

definition disconnectAll :: "vpn_store \<Rightarrow> vpn_store" where
  "disconnectAll s = s\<lparr>vpn_statuses := (\<lambda>i.
     map_option (\<lambda>st. if vpn_state st = VConnected \<or> vpn_state st = VConnecting
       then \<lparr>vpn_state = VDisconnecting, vpn_message = None\<rparr> else st) (vpn_statuses s i))\<rparr>"

text \<open>\<open>runSetup\<close>: installs, then reads the status of the setup back.\<close>

definition runSetup :: "string option \<Rightarrow> string + bool \<Rightarrow> vpn_store \<Rightarrow> string option \<times> vpn_store" where
  "runSetup install_error status s =
     (case install_error of
        Some e \<Rightarrow> (Some e, s)
      | None \<Rightarrow> (case status of Inl e \<Rightarrow> (Some e, s) | Inr b \<Rightarrow> (None, s\<lparr>setupInstalled := b\<rparr>)))"

definition state_of :: "vpn_store \<Rightarrow> string \<Rightarrow> vpn_state option" where
  "state_of s p = map_option vpn_state (vpn_statuses s p)"

section \<open>The gate\<close>

text \<open>
  The loop of \<open>ensureVpnUp\<close>: while the last status is "connecting" and the clock has not
  reached the deadline, sleep and connect again. \<open>n\<close> counts the calls of \<open>connect\<close> so far;
  the clock was read once for the deadline and is read before each further call, so the
  next reading has number \<open>n\<close>. An exception of \<open>connect\<close> leaves the loop. The first
  argument bounds the iterations; \<^const>\<open>None\<close> means it was used up.
\<close>

fun vpn_poll ::
  "nat \<Rightarrow> string \<Rightarrow> (nat \<Rightarrow> string + vpn_status) \<Rightarrow> (nat \<Rightarrow> nat) \<Rightarrow> (nat \<Rightarrow> vpn_store \<Rightarrow> vpn_store) \<Rightarrow> nat \<Rightarrow>
     nat \<Rightarrow> (string + vpn_status) \<Rightarrow> vpn_store \<Rightarrow> ((string + vpn_status) \<times> vpn_store \<times> nat) option" where
  "vpn_poll f p answer clock env deadline n (Inl e) s = Some (Inl e, s, n)"
| "vpn_poll f p answer clock env deadline n (Inr status) s =
     (if vpn_state status = VConnecting \<and> clock n < deadline then
        (case f of
           0 \<Rightarrow> None
         | Suc f' \<Rightarrow>
             (case connect p (answer n) (env n) s of
                (r, s') \<Rightarrow> vpn_poll f' p answer clock env deadline (Suc n) r s'))
      else Some (Inr status, s, n))"

definition profile_label_of :: "vpn_store \<Rightarrow> string \<Rightarrow> string" where
  "profile_label_of s p =
     (case List.find (\<lambda>x. profile_id x = p) (profiles s) of None \<Rightarrow> [] | Some x \<Rightarrow> profile_label x)"

definition gate_failure :: "vpn_store \<Rightarrow> string \<Rightarrow> vpn_status \<Rightarrow> vpn_gate_result" where
  "gate_failure s p status =
     \<lparr>gate_ok = False,
      gate_message = Some
       (if vpn_state status = VConnecting
        then ''VPN \"'' @ profile_label_of s p @ ''\" is taking longer than expected to connect - try again in a moment.''
        else (case vpn_message status of
                Some m \<Rightarrow> m
              | None \<Rightarrow> ''Could not connect VPN profile \"'' @ profile_label_of s p @ ''\".''))\<rparr>"

definition gate_open :: vpn_gate_result where
  "gate_open = \<lparr>gate_ok = True, gate_message = None\<rparr>"

text \<open>
  The result, the store afterwards, the hosts a route was requested for, and the number of calls
  of \<open>connect\<close>.
\<close>

definition ensureVpnUp ::
  "nat \<Rightarrow> host \<Rightarrow> (nat \<Rightarrow> string + vpn_status) \<Rightarrow> (nat \<Rightarrow> nat) \<Rightarrow> (nat \<Rightarrow> vpn_store \<Rightarrow> vpn_store) \<Rightarrow> vpn_store \<Rightarrow>
     (vpn_gate_result \<times> vpn_store \<times> string list \<times> nat) option" where
  "ensureVpnUp f h answer clock env s =
     (if \<not> truthy (host_vpn_profile_id h) then Some (gate_open, s, [], 0)
      else
        (let p = the (host_vpn_profile_id h) in
         if state_of s p = Some VConnected then Some (gate_open, s, [host_id h], 0)
         else
           (case connect p (answer 0) (env 0) s of
              (first, s1) \<Rightarrow>
                (case vpn_poll f p answer clock env (clock 0 + VPN_GATE_POLL_TIMEOUT_MS) 1 first s1 of
                   None \<Rightarrow> None
                 | Some (Inl e, s2, n) \<Rightarrow>
                     Some (\<lparr>gate_ok = False, gate_message = Some (friendlyError e)\<rparr>, s2, [], n)
                 | Some (Inr status, s2, n) \<Rightarrow>
                     (if vpn_state status \<noteq> VConnected then Some (gate_failure s2 p status, s2, [], n)
                      else Some (gate_open, s2, [host_id h], n))))))"

section \<open>Releasing a profile\<close>

text \<open>
  \<open>releaseIfUnused\<close> up to its call of \<open>disconnect\<close>: the profile it disconnects, if any.
\<close>

definition releaseIfUnused ::
  "host list \<Rightarrow> open_session list \<Rightarrow> vpn_store \<Rightarrow> string \<Rightarrow> string option" where
  "releaseIfUnused hs ss s hostId =
     (let profileId = (case List.find (\<lambda>h. host_id h = hostId) hs of
                         None \<Rightarrow> None | Some h \<Rightarrow> host_vpn_profile_id h)
      in if \<not> truthy profileId then None
         else if state_of s (the profileId) \<noteq> Some VConnected \<and> state_of s (the profileId) \<noteq> Some VConnecting
         then None
         else if list_ex (\<lambda>x. host_vpn_profile_id (session_host x) = profileId) ss then None
         else profileId)"

section \<open>The gate ends and tells the truth\<close>

lemma connect_result:
  "connect p a env s = (r, s') \<Longrightarrow> r = a"
  "connect p a env s = (r, s') \<Longrightarrow> r = Inr st \<Longrightarrow> state_of s' p = Some (vpn_state st)"
  by (auto simp: connect_def Let_def state_of_def set_vpn_status_def split: sum.splits)

lemma vpn_poll_done:
  "(\<And>st. r = Inr st \<Longrightarrow> vpn_state st \<noteq> VConnecting \<or> deadline \<le> clock n) \<Longrightarrow>
     vpn_poll f p answer clock env deadline n r s = Some (r, s, n)"
  by (cases r) auto

lemma vpn_poll_ends:
  assumes "\<And>m. 1 \<le> m \<Longrightarrow> clock m + VPN_GATE_POLL_INTERVAL_MS \<le> clock (Suc m)"
    and "1 \<le> n" and "deadline \<le> clock n + VPN_GATE_POLL_INTERVAL_MS * f"
    and "r = answer (n - 1)" and "\<And>st. r = Inr st \<Longrightarrow> state_of s p = Some (vpn_state st)"
  shows "\<exists>s' m. vpn_poll f p answer clock env deadline n r s = Some (answer (m - 1), s', m)
    \<and> n \<le> m \<and> m \<le> n + f
    \<and> (\<forall>st. answer (m - 1) = Inr st \<longrightarrow> state_of s' p = Some (vpn_state st))"
  using assms(2-)
proof (induction f arbitrary: n r s)
  case 0
  then have "vpn_poll 0 p answer clock env deadline n r s = Some (r, s, n)"
    by (intro vpn_poll_done) simp
  with 0 show ?case by auto
next
  case (Suc f)
  show ?case
  proof (cases "\<exists>st. r = Inr st \<and> vpn_state st = VConnecting \<and> clock n < deadline")
    case True
    then obtain st where st: "r = Inr st" "vpn_state st = VConnecting" "clock n < deadline" by blast
    obtain r' s1 where c: "connect p (answer n) (env n) s = (r', s1)" by fastforce
    have "deadline \<le> clock (Suc n) + VPN_GATE_POLL_INTERVAL_MS * f"
      using assms(1)[of n] Suc.prems(1,2) by simp
    from Suc.IH[OF _ this, of r' s1] show ?thesis
      using connect_result[OF c] c st by (auto 0 3)
  next
    case False
    then have "vpn_poll (Suc f) p answer clock env deadline n r s = Some (r, s, n)"
      by (intro vpn_poll_done) auto
    with Suc.prems show ?thesis by (intro exI[of _ s] exI[of _ n]) auto
  qed
qed

text \<open>
  C2: the gate always ends, after at most 64 calls to the backend, and its answer can be trusted.
  It opens exactly when the host needs no VPN, or its profile was up already, or the backend
  answered the last call that the profile is up; then the store shows the profile as connected and
  a route was requested for this very host. Otherwise it says why, and no route was
  requested. Other tasks may do anything to the store meanwhile. The clock is the one
  hypothesis: between two checks of the deadline it advances by the 400 milliseconds slept.
\<close>
theorem ensureVpnUp_effect:
  assumes "clock 0 \<le> clock 1" and "\<And>m. 1 \<le> m \<Longrightarrow> clock m + VPN_GATE_POLL_INTERVAL_MS \<le> clock (Suc m)"
  shows "\<exists>r s' routes n. ensureVpnUp 63 h answer clock env s = Some (r, s', routes, n) \<and> n \<le> 64
    \<and> (gate_ok r \<longleftrightarrow> \<not> truthy (host_vpn_profile_id h)
         \<or> state_of s (the (host_vpn_profile_id h)) = Some VConnected
         \<or> (0 < n \<and> (\<exists>st. answer (n - 1) = Inr st \<and> vpn_state st = VConnected)))
    \<and> (gate_ok r \<and> truthy (host_vpn_profile_id h) \<longrightarrow>
         routes = [host_id h] \<and> state_of s' (the (host_vpn_profile_id h)) = Some VConnected)
    \<and> (\<not> gate_ok r \<longrightarrow> routes = [] \<and> gate_message r \<noteq> None)"
proof (cases "\<not> truthy (host_vpn_profile_id h) \<or> state_of s (the (host_vpn_profile_id h)) = Some VConnected")
  case True
  then show ?thesis by (auto simp: ensureVpnUp_def gate_open_def Let_def)
next
  case False
  define p where "p = the (host_vpn_profile_id h)"
  obtain r1 s1 where c: "connect p (answer 0) (env 0) s = (r1, s1)" by fastforce
  have r1: "r1 = answer (1 - 1)" "\<And>st. r1 = Inr st \<Longrightarrow> state_of s1 p = Some (vpn_state st)"
    using connect_result[OF c] by simp_all
  have "clock 0 + VPN_GATE_POLL_TIMEOUT_MS \<le> clock 1 + VPN_GATE_POLL_INTERVAL_MS * 63"
    using assms(1) by (simp add: VPN_GATE_POLL_TIMEOUT_MS_def VPN_GATE_POLL_INTERVAL_MS_def)
  from vpn_poll_ends[where answer = answer and clock = clock and env = env, OF assms(2) le_refl this r1]
  obtain s' m where poll: "vpn_poll 63 p answer clock env (clock 0 + VPN_GATE_POLL_TIMEOUT_MS) 1 r1 s1
        = Some (answer (m - 1), s', m)"
    and m: "1 \<le> m" "m \<le> 64"
    and st: "\<And>st. answer (m - 1) = Inr st \<Longrightarrow> state_of s' p = Some (vpn_state st)"
    by auto
  have run: "ensureVpnUp 63 h answer clock env s =
      (case answer (m - 1) of
         Inl e \<Rightarrow> Some (\<lparr>gate_ok = False, gate_message = Some (friendlyError e)\<rparr>, s', [], m)
       | Inr status \<Rightarrow> (if vpn_state status \<noteq> VConnected then Some (gate_failure s' p status, s', [], m)
                       else Some (gate_open, s', [host_id h], m)))"
    using False c poll by (simp add: ensureVpnUp_def Let_def split: sum.splits flip: p_def)
  show ?thesis
  proof (cases "answer (m - 1)")
    case (Inl e)
    with run False m show ?thesis by auto
  next
    case (Inr status)
    with run False m st[OF Inr] show ?thesis
      by (cases "vpn_state status = VConnected") (auto simp: gate_open_def gate_failure_def p_def)
  qed
qed

theorem ensureVpnUp_effect_witness:
  "\<exists>r s' routes n. ensureVpnUp 63 (sample_host ''h'' (Some ''p''))
      (\<lambda>n. Inr \<lparr>vpn_state = if n < 2 then VConnecting else VConnected, vpn_message = None\<rparr>)
      (\<lambda>n. 1000 + 400 * n) (\<lambda>n. id) initial_vpn = Some (r, s', routes, n) \<and> n \<le> 64"
  using ensureVpnUp_effect[of "\<lambda>n. 1000 + 400 * n" "sample_host ''h'' (Some ''p'')"
      "\<lambda>n. Inr \<lparr>vpn_state = if n < 2 then VConnecting else VConnected, vpn_message = None\<rparr>"
      "\<lambda>n. id" initial_vpn]
  by (auto simp: VPN_GATE_POLL_INTERVAL_MS_def)

section \<open>What a release spares\<close>

text \<open>A tab uses a profile when its own host or the host of one of its panes has it.\<close>

definition tab_uses :: "string \<Rightarrow> open_session \<Rightarrow> bool" where
  "tab_uses p x \<longleftrightarrow> host_vpn_profile_id (session_host x) = Some p
     \<or> (case layout x of None \<Rightarrow> False
        | Some t \<Rightarrow> list_ex (\<lambda>l. host_vpn_profile_id (leaf_host l) = Some p) (collectLeaves t))"

definition same_vpn_tab :: "open_session \<Rightarrow> bool" where
  "same_vpn_tab x \<longleftrightarrow>
     (case layout x of None \<Rightarrow> True
      | Some t \<Rightarrow> list_all (\<lambda>l. host_vpn_profile_id (leaf_host l) = host_vpn_profile_id (session_host x))
                   (collectLeaves t))"

text \<open>
  a release never cuts off a tab that keeps to one VPN: the profile released is the one the
  host has now, it is up or coming up, no open tab is for a host with it, and when no tab
  mixes profiles in its panes, no open pane uses it.
\<close>
theorem release_spares_used:
  assumes "releaseIfUnused hs ss s i = Some p" and "list_all same_vpn_tab ss"
  shows "state_of s p \<in> {Some VConnected, Some VConnecting}
    \<and> (\<exists>h\<in>set hs. host_id h = i \<and> host_vpn_profile_id h = Some p)
    \<and> \<not> list_ex (tab_uses p) ss"
proof -
  obtain h where h: "List.find (\<lambda>h. host_id h = i) hs = Some h" "host_vpn_profile_id h = Some p"
    using assms(1) by (auto simp: releaseIfUnused_def Let_def split: option.splits if_splits)
  with assms(1) have "state_of s p \<in> {Some VConnected, Some VConnecting}"
    and "\<not> list_ex (\<lambda>x. host_vpn_profile_id (session_host x) = Some p) ss"
    by (auto simp: releaseIfUnused_def Let_def split: if_splits)
  with assms(2) h show ?thesis
    by (auto simp: list_ex_iff list_all_iff tab_uses_def same_vpn_tab_def dest: find_SomeD split: option.splits)
qed

theorem release_spares_used_witness:
  "state_of (set_vpn_status ''p'' \<lparr>vpn_state = VConnected, vpn_message = None\<rparr> initial_vpn) ''p''
      \<in> {Some VConnected, Some VConnecting}
    \<and> \<not> list_ex (tab_uses ''p'')
        (openSessions (snd (openSession sample_uuids (sample_host ''b'' None) Terminal initial_sessions)))"
  using release_spares_used[of "[sample_host ''a'' (Some ''p'')]"
      "openSessions (snd (openSession sample_uuids (sample_host ''b'' None) Terminal initial_sessions))"
      "set_vpn_status ''p'' \<lparr>vpn_state = VConnected, vpn_message = None\<rparr> initial_vpn" "''a''" "''p''"]
  by (simp add: releaseIfUnused_def openSession_def initial_sessions_def initial_vpn_def set_vpn_status_def
      state_of_def truthy_def same_vpn_tab_def Let_def)

text \<open>
  a release does cut off a pane in a tab that mixes profiles. Host \<open>a\<close> has the profile
  \<open>p\<close>, host \<open>b\<close> has none. With a tab for \<open>a\<close> and a tab for \<open>b\<close> in which a pane was split off
  for \<open>a\<close>, closing the first tab releases \<open>p\<close> while the pane is still there.
\<close>
theorem release_ignores_panes:
  "let (a, b) = (sample_host ''a'' (Some ''p''), sample_host ''b'' None);
       (tabA, s1) = openSession sample_uuids a Terminal initial_sessions;
       (tabB, s2) = openSession sample_uuids b Terminal s1;
       (pane, s3) = splitPane sample_uuids tabB (sample_uuids 3) Row (Some a) s2;
       s4 = closeSession tabA s3;
       vpn = set_vpn_status ''p'' \<lparr>vpn_state = VConnected, vpn_message = None\<rparr> initial_vpn
   in pane = Some (sample_uuids 4)
      \<and> releaseIfUnused [a, b] (openSessions s4) vpn (host_id a) = Some ''p''
      \<and> list_ex (tab_uses ''p'') (openSessions s4)"
  by code_simp

text \<open>
  the status of VPN profiles converges although two kinds of refetch write it: once the one
  that was started last has been processed, of whichever kind, the statuses are the ones the
  backend has, and after a full load so are the profiles and the setup flag.
\<close>
theorem vpn_store_converges:
  assumes "w = foldl (world_step vpn_load_begin vpn_load_finish vpn_parts) (start_world initial_vpn b) es"
    and "list_all (quiet (started w)) es'"
    and "w' = foldl (world_step vpn_load_begin vpn_load_finish vpn_parts) w (Start k # es')"
    and "in_flight w' (started w) = None"
  shows "vpn_statuses (world_store w') = statusMap (db_active (world_backend w'))
    \<and> (k = Load_all \<longrightarrow> profiles (world_store w') = db_profiles (world_backend w')
         \<and> setupInstalled (world_store w') = db_setup (world_backend w') \<and> vpn_loaded (world_store w'))"
  using vpn_refetch.newest_wins[OF assms] by (cases k) simp_all

theorem vpn_store_converges_witness:
  "state_of (world_store (foldl (world_step vpn_load_begin vpn_load_finish vpn_parts)
      (start_world initial_vpn \<lparr>db_profiles = [], db_active = [], db_setup = True\<rparr>)
      [Start Load_all, Answer 0 Active_answer,
       Commit \<lparr>db_profiles = [], db_active = [\<lparr>cs_profile_id = ''p'',
         cs_status = \<lparr>vpn_state = VConnected, vpn_message = None\<rparr>\<rparr>], db_setup = True\<rparr>,
       Start Refresh_active, Answer 1 Active_answer, Resume 1,
       Answer 0 Profiles_answer, Answer 0 Setup_answer, Resume 0])) ''p'' = Some VConnected"
  using vpn_store_converges[OF refl, of "\<lparr>db_profiles = [], db_active = [], db_setup = True\<rparr>"
      "[Start Load_all, Answer 0 Active_answer,
       Commit \<lparr>db_profiles = [], db_active = [\<lparr>cs_profile_id = ''p'',
         cs_status = \<lparr>vpn_state = VConnected, vpn_message = None\<rparr>\<rparr>], db_setup = True\<rparr>]"
      "[Answer 1 Active_answer, Resume 1, Answer 0 Profiles_answer, Answer 0 Setup_answer, Resume 0]",
      OF _ refl]
  by (simp add: start_world_def vpn_load_begin_def Let_def state_of_def statusMap_def)

end
