(* ===== verification/App_Shell.thy ===== *)
theory App_Shell
  imports Terminal_Input Settings_Store Vpn_Store Entity_Stores
begin

text \<open>
  The shell of the application, \<open>src/src/pages/AppShell.tsx\<close>: which view is shown, the side
  panels and when they become overlays, the keyboard, and the handlers that open, split and
  close sessions behind the VPN gate, save what is open as a workspace and open it again. The
  shell is a state machine over its own state, the tab store and the settings. A handler that
  waits at the gate is a task; the gate's answer is an event, and any number of other events
  may come before it.
\<close>

section \<open>State\<close>

datatype manage_tab =
  Hosts_tab | Identities_tab | Keys_tab | Vpn_tab | Workspaces_tab | Backup_tab | Settings_tab

datatype main_view = Manage manage_tab | Session_view string

datatype modal_state =
    Group_modal "group option" "string option"
  | Host_modal "host option" "string option"
  | Identity_modal "identity option"
  | Key_modal
  | Snippet_modal "snippet option"
  | Run_snippet_modal snippet
  | Vpn_profile_modal "vpn_profile option"

datatype overlay = Left_overlay | Right_overlay

definition SHELL_RAILS_WIDTH :: real where "SHELL_RAILS_WIDTH = 104"

definition MIN_CENTER_WORKSPACE_WIDTH :: real where "MIN_CENTER_WORKSPACE_WIDTH = 620"

fun isInlineFormModal :: "modal_state option \<Rightarrow> bool" where
  "isInlineFormModal None = False"
| "isInlineFormModal (Some (Snippet_modal s)) = False"
| "isInlineFormModal (Some (Run_snippet_modal s)) = False"
| "isInlineFormModal (Some m) = True"

text \<open>What a handler does after the gate: open a terminal, open a file browser, split a pane.\<close>

datatype gate_task =
    Connect_task host
  | Sftp_task host
  | Split_task string string direction "host option" host

datatype shell_effect =
    Vpn_ensure host
  | Vpn_release string
  | Split_answer nat vpn_gate_result
  | Notify string bool

record shell =
  tabs :: sessions_state
  shell_prefs :: settings
  shell_hosts :: "host list"
  mainView :: main_view
  modal :: "modal_state option"
  viewportWidth :: real
  activeOverlay :: "overlay option"
  selectedHostId :: "string option"
  paletteOpen :: bool
  vpnGateHostId :: "string option"
  vpnGateError :: "(string \<times> string) option"
  waiting :: "(nat \<times> gate_task) list"
  gates_opened :: nat
  draggedTabId :: "string option"
  dragOverIndex :: "nat option"
  shell_effects :: "shell_effect list"

definition add_effects :: "shell_effect list \<Rightarrow> shell \<Rightarrow> shell" where
  "add_effects es sh = sh\<lparr>shell_effects := shell_effects sh @ es\<rparr>"

definition prefs_do :: "settings_action \<Rightarrow> shell \<Rightarrow> shell" where
  "prefs_do a sh = sh\<lparr>shell_prefs := settings_step (shell_prefs sh) a\<rparr>"

definition show_overlay :: "overlay option \<Rightarrow> shell \<Rightarrow> shell" where
  "show_overlay ov sh = sh\<lparr>activeOverlay := ov\<rparr>"

section \<open>Panels\<close>

fun num_add :: "js_number \<Rightarrow> js_number \<Rightarrow> js_number" where
  "num_add (Num a) (Num b) = Num (a + b)"
| "num_add _ _ = NaN"

fun num_less :: "js_number \<Rightarrow> js_number \<Rightarrow> bool" where
  "num_less (Num a) (Num b) = (a < b)"
| "num_less _ _ = False"

definition leftPanelOverlays :: "shell \<Rightarrow> bool" where
  "leftPanelOverlays sh \<longleftrightarrow>
     num_less (Num (viewportWidth sh))
       (math_max (Num 900)
          (num_add (leftSidebarWidth (shell_prefs sh)) (Num (SHELL_RAILS_WIDTH + MIN_CENTER_WORKSPACE_WIDTH))))"

definition rightPanelOverlays :: "shell \<Rightarrow> bool" where
  "rightPanelOverlays sh \<longleftrightarrow>
     num_less (Num (viewportWidth sh))
       (math_max (Num 1280)
          (num_add (num_add (leftSidebarWidth (shell_prefs sh)) (rightPanelWidth (shell_prefs sh)))
             (Num (SHELL_RAILS_WIDTH + MIN_CENTER_WORKSPACE_WIDTH))))"

definition find_host :: "host list \<Rightarrow> string \<Rightarrow> host option" where
  "find_host hs i = List.find (\<lambda>h. host_id h = i) hs"

definition selectedHost :: "shell \<Rightarrow> host option" where
  "selectedHost sh = (case selectedHostId sh of None \<Rightarrow> None | Some i \<Rightarrow> find_host (shell_hosts sh) i)"

definition activeSession :: "shell \<Rightarrow> open_session option" where
  "activeSession sh =
     (case mainView sh of Session_view t \<Rightarrow> find_tab t (openSessions (tabs sh)) | Manage m \<Rightarrow> None)"

definition contextHost :: "shell \<Rightarrow> host option" where
  "contextHost sh =
     (case mainView sh of
        Session_view t \<Rightarrow>
          (case activeSession sh of
             None \<Rightarrow> None
           | Some s \<Rightarrow> (case find_host (shell_hosts sh) (host_id (session_host s)) of
                          Some h \<Rightarrow> Some h | None \<Rightarrow> Some (session_host s)))
      | Manage m \<Rightarrow> if m = Hosts_tab then selectedHost sh else None)"

definition contextHostSessionOpen :: "shell \<Rightarrow> bool" where
  "contextHostSessionOpen sh \<longleftrightarrow>
     (case contextHost sh of
        None \<Rightarrow> False
      | Some h \<Rightarrow> list_ex (\<lambda>s. host_id (session_host s) = host_id h) (openSessions (tabs sh)))"

definition dockedPanelVisible :: "shell \<Rightarrow> bool" where
  "dockedPanelVisible sh \<longleftrightarrow> rightPanelVisible (shell_prefs sh)
     \<and> (isInlineFormModal (modal sh) \<or> snippetsDrawerOpen (shell_prefs sh) \<or> contextHost sh \<noteq> None)"

definition showHostTree :: "shell \<Rightarrow> bool" where
  "showHostTree sh \<longleftrightarrow>
     (case mainView sh of Session_view t \<Rightarrow> True | Manage m \<Rightarrow> m = Hosts_tab)"

definition leftPanelOpen :: "shell \<Rightarrow> bool" where
  "leftPanelOpen sh \<longleftrightarrow> showHostTree sh \<and> leftSidebarVisible (shell_prefs sh)
     \<and> (\<not> leftPanelOverlays sh \<or> activeOverlay sh = Some Left_overlay)"

definition rightPanelOpen :: "shell \<Rightarrow> bool" where
  "rightPanelOpen sh \<longleftrightarrow> dockedPanelVisible sh
     \<and> (\<not> rightPanelOverlays sh \<or> activeOverlay sh = Some Right_overlay)"

definition handleLeftPanelToggle :: "shell \<Rightarrow> shell" where
  "handleLeftPanelToggle sh =
     (if \<not> leftPanelOverlays sh then prefs_do Toggle_left_sidebar sh
      else (let sh1 = (if \<not> leftSidebarVisible (shell_prefs sh) then prefs_do (Set_left_sidebar_visible True) sh else sh)
            in show_overlay (if activeOverlay sh1 = Some Left_overlay then None else Some Left_overlay) sh1))"

definition handleRightPanelToggle :: "shell \<Rightarrow> shell" where
  "handleRightPanelToggle sh =
     (if \<not> rightPanelOverlays sh then prefs_do Toggle_right_panel sh
      else (let sh1 = (if \<not> rightPanelVisible (shell_prefs sh) then prefs_do (Set_right_panel_visible True) sh else sh)
            in show_overlay (if activeOverlay sh1 = Some Right_overlay then None else Some Right_overlay) sh1))"

text \<open>The closure reads the drawer's state of the render, before it is toggled.\<close>

definition handleSnippetsToggle :: "shell \<Rightarrow> shell" where
  "handleSnippetsToggle sh =
     (let was_open = snippetsDrawerOpen (shell_prefs sh);
          sh1 = (if \<not> was_open then prefs_do (Set_right_panel_visible True) sh else sh);
          sh2 = prefs_do Toggle_snippets_drawer sh1
      in if rightPanelOverlays sh
         then show_overlay (if was_open \<and> activeOverlay sh = Some Right_overlay then None else Some Right_overlay)
                (prefs_do (Set_right_panel_visible True) sh2)
         else sh2)"

definition openModal :: "modal_state option \<Rightarrow> shell \<Rightarrow> shell" where
  "openModal m sh =
     (let sh1 = sh\<lparr>modal := m\<rparr>
      in if isInlineFormModal m
         then (let sh2 = prefs_do (Set_right_panel_visible True) sh1
               in if rightPanelOverlays sh then show_overlay (Some Right_overlay) sh2 else sh2)
         else sh1)"

definition closeInlineForm :: "shell \<Rightarrow> shell" where
  "closeInlineForm sh =
     (let sh1 = sh\<lparr>modal := None\<rparr> in if rightPanelOverlays sh then show_overlay None sh1 else sh1)"

text \<open>The effect on \<open>[rightPanelOverlays, modal]\<close>, run after a render that changed one of them.\<close>

definition overlay_effect :: "shell \<Rightarrow> shell \<Rightarrow> shell" where
  "overlay_effect old new =
     (if rightPanelOverlays old = rightPanelOverlays new \<and> modal old = modal new then new
      else if \<not> rightPanelOverlays new then show_overlay None new
      else if isInlineFormModal (modal new) then show_overlay (Some Right_overlay) new
      else new)"

definition handleActivitySelect :: "manage_tab \<Rightarrow> shell \<Rightarrow> shell" where
  "handleActivitySelect t sh =
     (if mainView sh = Manage t then (if t = Hosts_tab then handleLeftPanelToggle sh else sh)
      else (let sh1 = sh\<lparr>mainView := Manage t\<rparr>
            in if t = Hosts_tab
               then show_overlay (if leftPanelOverlays sh then Some Left_overlay else None)
                      (prefs_do (Set_left_sidebar_visible True) sh1)
               else show_overlay None sh1))"

section \<open>The gate\<close>

text \<open>
  The shell's own \<open>ensureVpnUp\<close> around the store's: before the store is asked, and after it
  has answered. A host without a profile passes at once.
\<close>

definition gate_begin :: "host \<Rightarrow> shell \<Rightarrow> shell" where
  "gate_begin h sh =
     (if \<not> truthy (host_vpn_profile_id h) then sh
      else add_effects [Vpn_ensure h] (sh\<lparr>vpnGateError := None, vpnGateHostId := Some (host_id h)\<rparr>))"

definition gate_end :: "host \<Rightarrow> vpn_gate_result \<Rightarrow> shell \<Rightarrow> vpn_gate_result \<times> shell" where
  "gate_end h result sh =
     (if \<not> truthy (host_vpn_profile_id h) then (gate_open, sh)
      else if \<not> gate_ok result
      then (let message = (case gate_message result of Some m \<Rightarrow> m | None \<Rightarrow> ''Could not connect the VPN.'')
            in (\<lparr>gate_ok = False, gate_message = Some message\<rparr>,
                sh\<lparr>vpnGateError := Some (host_id h, message), vpnGateHostId := None\<rparr>))
      else (gate_open, sh\<lparr>vpnGateHostId := None\<rparr>))"

definition wait_at_gate :: "gate_task \<Rightarrow> host \<Rightarrow> shell \<Rightarrow> shell" where
  "wait_at_gate task h sh =
     (let sh1 = gate_begin h sh
      in sh1\<lparr>waiting := waiting sh1 @ [(gates_opened sh1, task)], gates_opened := gates_opened sh1 + 1\<rparr>)"

section \<open>Opening and splitting\<close>

definition terminal_tab_of :: "open_session list \<Rightarrow> string \<Rightarrow> open_session option" where
  "terminal_tab_of ss hid = List.find (\<lambda>s. host_id (session_host s) = hid \<and> kind s = Terminal) ss"

definition show_session :: "string \<Rightarrow> shell \<Rightarrow> shell" where
  "show_session t sh =
     show_overlay None (prefs_do (Set_left_sidebar_visible False) (sh\<lparr>mainView := Session_view t\<rparr>))"

definition handleConnect :: "host \<Rightarrow> shell \<Rightarrow> shell" where
  "handleConnect h sh =
     (case terminal_tab_of (openSessions (tabs sh)) (host_id h) of
        Some existing \<Rightarrow> show_session (tabId existing) sh
      | None \<Rightarrow> wait_at_gate (Connect_task h) h sh)"

definition handleOpenSftp :: "host \<Rightarrow> shell \<Rightarrow> shell" where
  "handleOpenSftp h sh = wait_at_gate (Sftp_task h) h sh"

definition handleSplitPane :: "string \<Rightarrow> string \<Rightarrow> direction \<Rightarrow> host option \<Rightarrow> shell \<Rightarrow> shell" where
  "handleSplitPane t p dir h sh =
     (let answer = (\<lambda>m. (add_effects [Split_answer (gates_opened sh) \<lparr>gate_ok = False, gate_message = Some m\<rparr>] sh)
                          \<lparr>gates_opened := gates_opened sh + 1\<rparr>)
      in case find_tab t (openSessions (tabs sh)) of
           None \<Rightarrow> answer ''This tab is no longer open.''
         | Some session \<Rightarrow>
             (case layout session of
                None \<Rightarrow> answer ''This tab is no longer open.''
              | Some tree \<Rightarrow>
                  (case (case h of Some g \<Rightarrow> Some g
                         | None \<Rightarrow> map_option leaf_host (List.find (\<lambda>l. leaf_paneId l = p) (collectLeaves tree))) of
                     None \<Rightarrow> answer ''This pane is no longer open.''
                   | Some target \<Rightarrow> wait_at_gate (Split_task t p dir h target) target sh)))"

definition open_tab :: "uuids \<Rightarrow> host \<Rightarrow> session_kind \<Rightarrow> shell \<Rightarrow> shell" where
  "open_tab u h k sh =
     (case openSession u h k (tabs sh) of (t, s') \<Rightarrow> show_session t (sh\<lparr>tabs := s'\<rparr>))"

fun task_host :: "gate_task \<Rightarrow> host" where
  "task_host (Connect_task h) = h"
| "task_host (Sftp_task h) = h"
| "task_host (Split_task t p dir h target) = target"

text \<open>The rest of a handler, once the gate has answered.\<close>

fun after_gate :: "uuids \<Rightarrow> nat \<Rightarrow> gate_task \<Rightarrow> vpn_gate_result \<Rightarrow> shell \<Rightarrow> shell" where
  "after_gate u n (Connect_task h) gate sh = (if \<not> gate_ok gate then sh else open_tab u h Terminal sh)"
| "after_gate u n (Sftp_task h) gate sh = (if \<not> gate_ok gate then sh else open_tab u h Sftp sh)"
| "after_gate u n (Split_task t p dir h target) gate sh =
     (if \<not> gate_ok gate then add_effects [Split_answer n gate] sh
      else (case splitPane u t p dir h (tabs sh) of
          (None, s') \<Rightarrow>
            add_effects [Split_answer n \<lparr>gate_ok = False, gate_message = Some ''Up to 9 panes per tab.''\<rparr>] (sh\<lparr>tabs := s'\<rparr>)
        | (Some q, s') \<Rightarrow> add_effects [Split_answer n gate_open] (sh\<lparr>tabs := s'\<rparr>)))"

definition gate_answered :: "uuids \<Rightarrow> nat \<Rightarrow> vpn_gate_result \<Rightarrow> shell \<Rightarrow> shell" where
  "gate_answered u n result sh =
     (case map_of (waiting sh) n of
        None \<Rightarrow> sh
      | Some task \<Rightarrow>
          (case gate_end (task_host task) result (sh\<lparr>waiting := filter (\<lambda>(m, t). m \<noteq> n) (waiting sh)\<rparr>) of
             (gate, sh1) \<Rightarrow> after_gate u n task gate sh1))"

section \<open>Closing\<close>

definition handleCloseTab :: "string \<Rightarrow> shell \<Rightarrow> shell" where
  "handleCloseTab t sh =
     (let closing = find_tab t (openSessions (tabs sh));
          remaining = filter (\<lambda>s. tabId s \<noteq> t) (openSessions (tabs sh));
          sh1 = sh\<lparr>tabs := closeSession t (tabs sh)\<rparr>;
          sh2 = (case closing of None \<Rightarrow> sh1
                 | Some s \<Rightarrow> add_effects [Vpn_release (host_id (session_host s))] sh1)
      in if mainView sh = Session_view t
         then sh2\<lparr>mainView := (if remaining = [] then Manage Hosts_tab else Session_view (tabId (last remaining)))\<rparr>
         else sh2)"

definition handleClosePane :: "string \<Rightarrow> string \<Rightarrow> shell \<Rightarrow> shell" where
  "handleClosePane t p sh =
     (case find_tab t (openSessions (tabs sh)) of
        None \<Rightarrow> handleCloseTab t sh
      | Some session \<Rightarrow>
          (case layout session of
             None \<Rightarrow> handleCloseTab t sh
           | Some tree \<Rightarrow> if countLeaves tree \<le> 1 then handleCloseTab t sh
                          else sh\<lparr>tabs := closePane t p (tabs sh)\<rparr>))"

section \<open>The keyboard\<close>

text \<open>
  \<open>findIndex\<close> gives -1 when there is none; the sum is never negative but for a single tab,
  where the remainder is 0 all the same.
\<close>

definition index_of :: "string \<Rightarrow> open_session list \<Rightarrow> int" where
  "index_of t ss =
     (let i = length (takeWhile (\<lambda>s. tabId s \<noteq> t) ss) in if i < length ss then int i else - 1)"

definition cycle_tab :: "bool \<Rightarrow> shell \<Rightarrow> shell" where
  "cycle_tab back sh =
     (let ss = openSessions (tabs sh);
          currentIndex = (case mainView sh of Session_view t \<Rightarrow> index_of t ss | Manage m \<Rightarrow> - 1);
          delta = (if back then - 1 else 1);
          nextIndex = (currentIndex + delta + int (length ss)) mod int (length ss)
      in sh\<lparr>mainView := Session_view (tabId (ss ! nat nextIndex))\<rparr>)"

definition shell_key :: "key_event \<Rightarrow> shell \<Rightarrow> shell" where
  "shell_key e sh =
     (if \<not> (ev_ctrlKey e \<or> ev_metaKey e) then sh
      else if toLowerCase (ev_key e) = ''w''
      then (case mainView sh of Session_view t \<Rightarrow> handleCloseTab t sh | Manage m \<Rightarrow> sh)
      else if toLowerCase (ev_key e) = ''k'' then sh\<lparr>paletteOpen := True\<rparr>
      else if toLowerCase (ev_key e) = ''b''
      then (if ev_shiftKey e then prefs_do Toggle_right_panel sh else prefs_do Toggle_left_sidebar sh)
      else if ev_key e = ''Tab'' \<and> openSessions (tabs sh) \<noteq> [] then cycle_tab (ev_shiftKey e) sh
      else sh)"

section \<open>The tab bar\<close>

definition tab_drop :: "nat \<Rightarrow> shell \<Rightarrow> shell" where
  "tab_drop toIndex sh =
     (case draggedTabId sh of
        None \<Rightarrow> sh
      | Some d \<Rightarrow>
          (let ss = openSessions (tabs sh);
               fromIndex = index_of d ss;
               sh1 = (if fromIndex \<noteq> - 1 then sh\<lparr>tabs := reorderSessions fromIndex (int toIndex) (tabs sh)\<rparr> else sh)
           in sh1\<lparr>draggedTabId := None, dragOverIndex := None\<rparr>))"

text \<open>A drop on a tab is ignored for the dragged tab itself; a drop on the bar goes to the end.\<close>

definition drop_on_tab :: "nat \<Rightarrow> shell \<Rightarrow> shell" where
  "drop_on_tab index sh =
     (if index < length (openSessions (tabs sh))
         \<and> draggedTabId sh \<noteq> Some (tabId (openSessions (tabs sh) ! index))
      then tab_drop index sh else sh)"

definition drop_on_bar :: "shell \<Rightarrow> shell" where
  "drop_on_bar sh = tab_drop (length (openSessions (tabs sh))) sh"

definition drag_over_tab :: "nat \<Rightarrow> shell \<Rightarrow> shell" where
  "drag_over_tab index sh =
     (if index < length (openSessions (tabs sh)) \<and> draggedTabId sh \<noteq> None
         \<and> draggedTabId sh \<noteq> Some (tabId (openSessions (tabs sh) ! index))
      then sh\<lparr>dragOverIndex := Some index\<rparr> else sh)"

definition drag_over_bar :: "shell \<Rightarrow> shell" where
  "drag_over_bar sh =
     (if draggedTabId sh = None then sh
      else sh\<lparr>dragOverIndex := Some (length (openSessions (tabs sh)))\<rparr>)"

datatype dot_color = Emerald | Amber_pulse | Red_dot | Slate

text \<open>The status and the dot of a tab: of its first pane, for a terminal tab.\<close>

definition tab_status :: "sessions_state \<Rightarrow> open_session \<Rightarrow> session_status option" where
  "tab_status s x =
     (if kind x = Terminal
      then (case layout x of
              None \<Rightarrow> None
            | Some t \<Rightarrow> (case collectLeaves t of [] \<Rightarrow> None | l # ls \<Rightarrow> statuses s (leaf_paneId l)))
      else None)"

definition tab_dot :: "bool \<Rightarrow> session_status option \<Rightarrow> dot_color" where
  "tab_dot active status =
     (if status = Some Connected then Emerald
      else if status = Some Connecting \<or> status = Some Reconnecting then Amber_pulse
      else if status = Some Error_status then Red_dot
      else if active then Emerald else Slate)"

section \<open>The shell as a state machine\<close>

datatype shell_event =
    Key_down key_event
  | Connect_host host
  | Open_sftp host
  | Gate_answer nat vpn_gate_result
  | Close_tab_click string
  | Close_pane_click string string
  | Split_click string string direction "host option"
  | Select_tab string
  | Pick_host host
  | Activity manage_tab
  | Toggle_left_panel
  | Toggle_right_panel
  | Toggle_snippets
  | Open_form "modal_state option"
  | Close_form
  | Window_resized real
  | Escape_key
  | Drag_start string
  | Drag_over_tab nat
  | Drag_over_bar
  | Drop_on_tab nat
  | Drop_on_bar
  | Drag_end
  | Pane_update sessions_event
  | Prefs_update settings_action
  | Hosts_loaded "host list"

text \<open>What the panes do to the tab store on their own.\<close>

fun pane_update_ok :: "sessions_event \<Rightarrow> bool" where
  "pane_update_ok (Set_status p st) = True"
| "pane_update_ok (Set_session_id p i) = True"
| "pane_update_ok (Resize_split t sid r) = True"
| "pane_update_ok (Toggle_broadcast t) = True"
| "pane_update_ok e = False"

fun shell_update :: "uuids \<Rightarrow> shell \<Rightarrow> shell_event \<Rightarrow> shell" where
  "shell_update u sh (Key_down e) = shell_key e sh"
| "shell_update u sh (Connect_host h) = handleConnect h sh"
| "shell_update u sh (Open_sftp h) = handleOpenSftp h sh"
| "shell_update u sh (Gate_answer n r) = gate_answered u n r sh"
| "shell_update u sh (Close_tab_click t) = handleCloseTab t sh"
| "shell_update u sh (Close_pane_click t p) = handleClosePane t p sh"
| "shell_update u sh (Split_click t p dir h) = handleSplitPane t p dir h sh"
| "shell_update u sh (Select_tab t) =
     (if find_tab t (openSessions (tabs sh)) = None then sh else sh\<lparr>mainView := Session_view t\<rparr>)"
| "shell_update u sh (Pick_host h) = sh\<lparr>selectedHostId := Some (host_id h), mainView := Manage Hosts_tab\<rparr>"
| "shell_update u sh (Activity t) = handleActivitySelect t sh"
| "shell_update u sh Toggle_left_panel = handleLeftPanelToggle sh"
| "shell_update u sh Toggle_right_panel = handleRightPanelToggle sh"
| "shell_update u sh Toggle_snippets = handleSnippetsToggle sh"
| "shell_update u sh (Open_form m) = openModal m sh"
| "shell_update u sh Close_form = closeInlineForm sh"
| "shell_update u sh (Window_resized w) = sh\<lparr>viewportWidth := w\<rparr>"
| "shell_update u sh Escape_key = (if activeOverlay sh = None then sh else show_overlay None sh)"
| "shell_update u sh (Drag_start t) = sh\<lparr>draggedTabId := Some t\<rparr>"
| "shell_update u sh (Drag_over_tab i) = drag_over_tab i sh"
| "shell_update u sh Drag_over_bar = drag_over_bar sh"
| "shell_update u sh (Drop_on_tab i) = drop_on_tab i sh"
| "shell_update u sh Drop_on_bar = drop_on_bar sh"
| "shell_update u sh Drag_end = sh\<lparr>draggedTabId := None, dragOverIndex := None\<rparr>"
| "shell_update u sh (Pane_update e) =
     (if pane_update_ok e then sh\<lparr>tabs := sessions_step u (tabs sh) e\<rparr> else sh)"
| "shell_update u sh (Prefs_update a) = prefs_do a sh"
| "shell_update u sh (Hosts_loaded hs) = sh\<lparr>shell_hosts := hs\<rparr>"

definition shell_step :: "uuids \<Rightarrow> shell \<Rightarrow> shell_event \<Rightarrow> shell" where
  "shell_step u sh e = overlay_effect sh (shell_update u sh e)"

definition initial_shell :: "settings \<Rightarrow> real \<Rightarrow> shell" where
  "initial_shell st w =
     \<lparr>tabs = initial_sessions, shell_prefs = st, shell_hosts = [], mainView = Manage Hosts_tab, modal = None,
      viewportWidth = w, activeOverlay = None, selectedHostId = None, paletteOpen = False, vpnGateHostId = None,
      vpnGateError = None, waiting = [], gates_opened = 0, draggedTabId = None, dragOverIndex = None,
      shell_effects = []\<rparr>"

abbreviation shell_run :: "uuids \<Rightarrow> shell \<Rightarrow> shell_event list \<Rightarrow> shell" where
  "shell_run u \<equiv> foldl (shell_step u)"

section \<open>Lemmas\<close>

text \<open>The parts of the state that matter for the tabs; the panels do not touch them.\<close>

definition tabs_part :: "shell \<Rightarrow> sessions_state \<times> main_view \<times> (nat \<times> gate_task) list \<times> nat" where
  "tabs_part sh = (tabs sh, mainView sh, waiting sh, gates_opened sh)"

lemma same_tabs_part [simp]:
  "tabs_part (add_effects es sh) = tabs_part sh" "tabs_part (prefs_do a sh) = tabs_part sh"
  "tabs_part (show_overlay ov sh) = tabs_part sh" "tabs_part (overlay_effect old sh) = tabs_part sh"
  "tabs_part (gate_begin h sh) = tabs_part sh" "tabs_part (snd (gate_end h r sh)) = tabs_part sh"
  "tabs_part (handleLeftPanelToggle sh) = tabs_part sh" "tabs_part (handleRightPanelToggle sh) = tabs_part sh"
  "tabs_part (handleSnippetsToggle sh) = tabs_part sh" "tabs_part (openModal m sh) = tabs_part sh"
  "tabs_part (closeInlineForm sh) = tabs_part sh" "tabs_part (drag_over_tab i sh) = tabs_part sh"
  "tabs_part (drag_over_bar sh) = tabs_part sh"
  by (simp_all add: tabs_part_def add_effects_def prefs_do_def show_overlay_def overlay_effect_def gate_begin_def
      gate_end_def handleLeftPanelToggle_def handleRightPanelToggle_def handleSnippetsToggle_def openModal_def
      closeInlineForm_def drag_over_tab_def drag_over_bar_def Let_def)

lemma tabs_part_fields:
  assumes "tabs_part a = tabs_part b"
  shows "tabs a = tabs b" "mainView a = mainView b" "waiting a = waiting b" "gates_opened a = gates_opened b"
  using assms by (simp_all add: tabs_part_def)

lemmas same_fields [simp] =
  same_tabs_part[THEN tabs_part_fields(1)] same_tabs_part[THEN tabs_part_fields(2)]
  same_tabs_part[THEN tabs_part_fields(3)] same_tabs_part[THEN tabs_part_fields(4)]

lemma show_session_fields [simp]:
  "tabs (show_session t sh) = tabs sh" "mainView (show_session t sh) = Session_view t"
  "waiting (show_session t sh) = waiting sh" "gates_opened (show_session t sh) = gates_opened sh"
  by (simp_all add: show_session_def)

definition open_ids :: "shell \<Rightarrow> string set" where
  "open_ids sh = tabId ` set (openSessions (tabs sh))"

definition view_open :: "shell \<Rightarrow> bool" where
  "view_open sh \<longleftrightarrow> (case mainView sh of Session_view t \<Rightarrow> t \<in> open_ids sh | Manage m \<Rightarrow> True)"

definition shell_ok :: "uuids \<Rightarrow> shell \<Rightarrow> bool" where
  "shell_ok u sh \<longleftrightarrow> sessions_ok u (tabs sh) \<and> view_open sh"

lemma shell_ok_cong: "tabs a = tabs b \<Longrightarrow> mainView a = mainView b \<Longrightarrow> shell_ok u a = shell_ok u b"
  by (simp add: shell_ok_def view_open_def open_ids_def cong: main_view.case_cong)

lemma shell_ok_part: "tabs_part a = tabs_part b \<Longrightarrow> shell_ok u a = shell_ok u b"
  by (rule shell_ok_cong) (rule tabs_part_fields(1), assumption, rule tabs_part_fields(2), assumption)

lemmas same_ok [simp] = same_tabs_part[THEN shell_ok_part]

lemma shell_ok_tabs:
  "shell_ok u sh \<Longrightarrow> sessions_ok u s' \<Longrightarrow> tabId ` set (openSessions (tabs sh)) \<subseteq> tabId ` set (openSessions s') \<Longrightarrow>
     shell_ok u (sh\<lparr>tabs := s'\<rparr>)"
  by (auto simp: shell_ok_def view_open_def open_ids_def split: main_view.splits)

text \<open>What a split, a close and an update of a pane keep of every tab.\<close>

lemma splitPane_map:
  assumes "\<And>x l. f (x\<lparr>layout := l\<rparr>) = f x"
  shows "map f (openSessions (snd (splitPane u t p dir h s))) = map f (openSessions s)"
proof -
  have "map f (fst (split_in u t p dir h q ss n c)) = map f ss" for q ss n c
    by (induction ss arbitrary: n c) (simp_all add: Let_def case_prod_beta assms split: option.split)
  then show ?thesis by (simp add: splitPane_def Let_def case_prod_beta)
qed

lemma closePane_map:
  assumes "\<And>x l. f (x\<lparr>layout := l\<rparr>) = f x"
  shows "map f (openSessions (closePane t p s)) = map f (openSessions s)"
proof -
  have "f (fst (close_in t p x)) = f x" for x
    by (auto simp: close_in_def assms split: option.split pane_node.split)
  then show ?thesis by (simp add: closePane_def Let_def)
qed

lemma map_map_at: "(\<And>x. f (g x) = f x) \<Longrightarrow> map f (map_at key k g xs) = map f xs"
  by (simp add: map_at_def)

lemma pane_update_map:
  assumes "pane_update_ok e" and "\<And>x l. f (x\<lparr>layout := l\<rparr>) = f x" and "\<And>x b. f (x\<lparr>broadcastEnabled := b\<rparr>) = f x"
  shows "map f (openSessions (sessions_step u s e)) = map f (openSessions s)"
  using assms(1)
  by (cases e)
    (auto simp: setStatus_def setSessionId_def resizePaneSplit_def toggleBroadcast_def assms(2,3) intro!: map_map_at
      split: option.split)

lemma splitPane_ids:
  "tabId ` set (openSessions (snd (splitPane u t p dir h s))) = tabId ` set (openSessions s)"
  using splitPane_map[of tabId u t p dir h s, THEN arg_cong[of _ _ set]] by simp

lemma closePane_ids: "tabId ` set (openSessions (closePane t p s)) = tabId ` set (openSessions s)"
  using closePane_map[of tabId t p s, THEN arg_cong[of _ _ set]] by simp

lemma pane_update_ids:
  "pane_update_ok e \<Longrightarrow> tabId ` set (openSessions (sessions_step u s e)) = tabId ` set (openSessions s)"
  using pane_update_map[of e tabId u s, THEN arg_cong[of _ _ set]] by simp

lemma set_reorderSessions: "set (openSessions (reorderSessions i j s)) = set (openSessions s)"
  using mset_reorderSessions[THEN mset_eq_setD] .

section \<open>The shown session is open\<close>

lemma terminal_tab_of_SomeD:
  "terminal_tab_of ss hid = Some x \<Longrightarrow> x \<in> set ss \<and> host_id (session_host x) = hid \<and> kind x = Terminal"
  by (auto simp: terminal_tab_of_def find_Some_iff)

lemma wait_at_gate_fields [simp]:
  "tabs (wait_at_gate task h sh) = tabs sh" "mainView (wait_at_gate task h sh) = mainView sh"
  "waiting (wait_at_gate task h sh) = waiting sh @ [(gates_opened sh, task)]"
  "gates_opened (wait_at_gate task h sh) = gates_opened sh + 1"
  by (simp_all add: wait_at_gate_def Let_def)

lemma wait_at_gate_ok [simp]: "shell_ok u (wait_at_gate task h sh) = shell_ok u sh"
  by (rule shell_ok_cong) simp_all

lemma view_openI: "t \<in> open_ids sh \<Longrightarrow> view_open (show_session t sh)"
  by (simp add: view_open_def open_ids_def)

lemma show_session_ok: "sessions_ok u (tabs sh) \<Longrightarrow> t \<in> open_ids sh \<Longrightarrow> shell_ok u (show_session t sh)"
  by (simp add: shell_ok_def view_openI)

lemma handleConnect_ok:
  assumes "shell_ok u sh"
  shows "shell_ok u (handleConnect h sh)"
proof (cases "terminal_tab_of (openSessions (tabs sh)) (host_id h)")
  case (Some x)
  then have "tabId x \<in> open_ids sh" using terminal_tab_of_SomeD by (auto simp: open_ids_def)
  with assms Some show ?thesis by (simp add: handleConnect_def show_session_ok shell_ok_def[of u sh])
qed (use assms in \<open>simp add: handleConnect_def\<close>)

lemma handleSplitPane_fields:
  "tabs (handleSplitPane t p dir h sh) = tabs sh" "mainView (handleSplitPane t p dir h sh) = mainView sh"
  by (simp_all add: handleSplitPane_def Let_def split: option.split)

lemma open_tab_ok:
  assumes "inj u" "shell_ok u sh"
  shows "shell_ok u (open_tab u h k sh)"
proof -
  obtain t s' where o: "openSession u h k (tabs sh) = (t, s')" by fastforce
  then have "sessions_ok u s'" "t \<in> tabId ` set (openSessions s')"
    using openSession_ok[of u "tabs sh" h k] assms
    by (auto simp: shell_ok_def openSession_def Let_def)
  then show ?thesis by (simp add: open_tab_def o shell_ok_def view_open_def open_ids_def)
qed

lemma after_gate_ok:
  assumes "inj u" "shell_ok u sh"
  shows "shell_ok u (after_gate u n task gate sh)"
proof (cases task)
  case (Split_task t p dir h target)
  obtain r s' where sp: "splitPane u t p dir h (tabs sh) = (r, s')" by fastforce
  have "sessions_ok u s'" "tabId ` set (openSessions s') = tabId ` set (openSessions (tabs sh))"
    using splitPane_ok[of u "tabs sh" t p dir h] splitPane_ids[of u t p dir h "tabs sh"] assms sp
    by (simp_all add: shell_ok_def)
  then have "shell_ok u (sh\<lparr>tabs := s'\<rparr>)" by (intro shell_ok_tabs[OF assms(2)]) simp_all
  then show ?thesis
    using assms(2) Split_task sp by (auto split: option.split)
qed (use assms open_tab_ok in auto)

lemma gate_answered_ok:
  assumes "inj u" "shell_ok u sh"
  shows "shell_ok u (gate_answered u n r sh)"
proof -
  have "shell_ok u (sh\<lparr>waiting := w\<rparr>)" for w
    using assms(2) shell_ok_cong[of "sh\<lparr>waiting := w\<rparr>" sh] by simp
  then show ?thesis
    using assms after_gate_ok[OF assms(1)] same_ok(6)
    by (auto simp: gate_answered_def case_prod_beta split: option.split)
qed

lemma handleCloseTab_fields:
  "tabs (handleCloseTab t sh) = closeSession t (tabs sh)"
  "mainView (handleCloseTab t sh) =
     (if mainView sh = Session_view t
      then (let remaining = filter (\<lambda>s. tabId s \<noteq> t) (openSessions (tabs sh))
            in if remaining = [] then Manage Hosts_tab else Session_view (tabId (last remaining)))
      else mainView sh)"
  "waiting (handleCloseTab t sh) = waiting sh" "gates_opened (handleCloseTab t sh) = gates_opened sh"
  by (simp_all add: handleCloseTab_def Let_def split: option.split)

lemma closeSession_tabs: "openSessions (closeSession t s) = filter (\<lambda>x. tabId x \<noteq> t) (openSessions s)"
  by (simp add: closeSession_def Let_def)

lemma handleCloseTab_ok:
  assumes "shell_ok u sh"
  shows "shell_ok u (handleCloseTab t sh)"
proof -
  let ?rest = "filter (\<lambda>s. tabId s \<noteq> t) (openSessions (tabs sh))"
  have "?rest \<noteq> [] \<Longrightarrow> tabId (last ?rest) \<in> tabId ` set ?rest"
    by (rule imageI) (rule last_in_set)
  then have "view_open (handleCloseTab t sh)"
    using assms
    by (auto simp: shell_ok_def view_open_def open_ids_def handleCloseTab_fields closeSession_tabs Let_def
        split: main_view.split)
  then show ?thesis
    using assms by (simp add: shell_ok_def handleCloseTab_fields closeSession_ok)
qed

lemma handleClosePane_ok: "shell_ok u sh \<Longrightarrow> shell_ok u (handleClosePane t p sh)"
  by (auto simp: handleClosePane_def handleCloseTab_ok closePane_ids shell_ok_def[of u sh] closePane_ok
      intro!: shell_ok_tabs split: option.split)

lemma cycle_index:
  assumes "ss \<noteq> []"
  shows "nat ((i + int (length ss)) mod int (length ss)) < length ss"
  using assms by (simp add: nat_less_iff)

lemma cycle_tab_ok:
  assumes "shell_ok u sh" "openSessions (tabs sh) \<noteq> []"
  shows "shell_ok u (cycle_tab back sh)"
proof -
  have "tabs (cycle_tab back sh) = tabs sh" by (simp add: cycle_tab_def Let_def)
  moreover obtain i where "mainView (cycle_tab back sh)
      = Session_view (tabId (openSessions (tabs sh) ! nat ((i + int (length (openSessions (tabs sh)))) mod int (length (openSessions (tabs sh))))))"
    unfolding cycle_tab_def Let_def by auto
  ultimately show ?thesis
    using assms cycle_index[OF assms(2), of i] by (simp add: shell_ok_def view_open_def open_ids_def)
qed

lemma shell_key_ok:
  assumes "shell_ok u sh"
  shows "shell_ok u (shell_key e sh)"
  using assms cycle_tab_ok handleCloseTab_ok shell_ok_cong[of "sh\<lparr>paletteOpen := True\<rparr>" sh u]
  by (auto simp: shell_key_def split: main_view.split)

lemma tab_drop_ok:
  assumes "shell_ok u sh"
  shows "shell_ok u (tab_drop i sh)"
proof -
  have "shell_ok u (sh\<lparr>tabs := reorderSessions a b (tabs sh)\<rparr>)" for a b
    using assms by (intro shell_ok_tabs[OF assms])
      (auto simp: shell_ok_def reorderSessions_ok set_reorderSessions)
  moreover have "shell_ok u (sh'\<lparr>draggedTabId := x, dragOverIndex := y\<rparr>) = shell_ok u sh'" for sh' x y
    by (rule shell_ok_cong) simp_all
  ultimately show ?thesis using assms by (auto simp: tab_drop_def Let_def split: option.split)
qed

lemma drop_ok:
  "shell_ok u sh \<Longrightarrow> shell_ok u (drop_on_tab i sh)" "shell_ok u sh \<Longrightarrow> shell_ok u (drop_on_bar sh)"
  by (simp_all add: drop_on_tab_def drop_on_bar_def tab_drop_ok)

lemma handleActivitySelect_ok: "shell_ok u sh \<Longrightarrow> shell_ok u (handleActivitySelect t sh)"
  by (auto simp: handleActivitySelect_def Let_def) (simp_all add: shell_ok_def view_open_def)

lemma shell_ok_other_fields:
  "shell_ok u (sh\<lparr>viewportWidth := w\<rparr>) = shell_ok u sh" "shell_ok u (sh\<lparr>draggedTabId := d\<rparr>) = shell_ok u sh"
  "shell_ok u (sh\<lparr>draggedTabId := d, dragOverIndex := i\<rparr>) = shell_ok u sh"
  "shell_ok u (sh\<lparr>shell_hosts := hs\<rparr>) = shell_ok u sh"
  by (rule shell_ok_cong; simp)+

lemma shell_update_ok:
  assumes "inj u" "shell_ok u sh"
  shows "shell_ok u (shell_update u sh e)"
proof (cases e)
  case (Split_click t p dir h)
  then show ?thesis using assms(2) shell_ok_cong[OF handleSplitPane_fields, of u] by simp
next
  case (Pane_update ev)
  have "pane_update_ok ev \<Longrightarrow> shell_ok u (sh\<lparr>tabs := sessions_step u (tabs sh) ev\<rparr>)"
    by (rule shell_ok_tabs[OF assms(2)])
      (use assms pane_update_ids[of ev u "tabs sh"] in \<open>cases ev; simp add: shell_ok_def resizePaneSplit_ok toggleBroadcast_ok\<close>)+
  with Pane_update assms show ?thesis by simp
next
  case (Select_tab t)
  have "t \<in> tabId ` set (openSessions (tabs sh))" if "find_tab t (openSessions (tabs sh)) \<noteq> None"
    using that by (simp add: find_tab_None)
  with Select_tab assms show ?thesis by (auto simp: shell_ok_def view_open_def open_ids_def)
next
  case (Pick_host h)
  with assms show ?thesis by (simp add: shell_ok_def view_open_def)
qed (use assms in \<open>simp_all add: shell_key_ok handleConnect_ok handleOpenSftp_def gate_answered_ok handleCloseTab_ok
      handleClosePane_ok handleActivitySelect_ok drop_ok shell_ok_other_fields\<close>)

lemma shell_step_ok: "inj u \<Longrightarrow> shell_ok u sh \<Longrightarrow> shell_ok u (shell_step u sh e)"
  by (simp add: shell_step_def shell_update_ok)

lemma initial_shell_ok: "shell_ok u (initial_shell st w)"
  by (simp add: initial_shell_def shell_ok_def view_open_def)

interpretation shell: invariant_machine "initial_shell st w" "shell_step u" "\<lambda>_ _. True"
    "\<lambda>sh. inj u \<longrightarrow> shell_ok u sh" for st w u
  by unfold_locales (simp_all add: initial_shell_ok shell_step_ok)

text \<open>
  C10: Whatever the user does and however the answers of the VPN gate, the drags, the keyboard
  and the updates of the panes interleave, the shell shows a session only if its tab is open,
  and the tab store stays well formed.
\<close>
theorem shell_shows_open_tab:
  assumes "inj u"
  shows "sessions_ok u (tabs (shell_run u (initial_shell st w) es))
     \<and> (\<forall>t. mainView (shell_run u (initial_shell st w) es) = Session_view t
            \<longrightarrow> find_tab t (openSessions (tabs (shell_run u (initial_shell st w) es))) \<noteq> None)"
proof -
  have "shell_ok u (shell_run u (initial_shell st w) es)"
    using shell.inv_run[of u st w es] assms by simp
  then show ?thesis by (auto simp: shell_ok_def view_open_def open_ids_def find_tab_None)
qed

theorem shell_shows_open_tab_witness:
  "sessions_ok sample_uuids (tabs (shell_run sample_uuids (initial_shell initial_settings 1400)
     [Connect_host (sample_host ''h'' None), Gate_answer 0 gate_open, Close_tab_click ''x'']))"
  using shell_shows_open_tab[OF inj_sample_uuids] by blast


section \<open>Switching tabs from the keyboard\<close>

lemma index_of_nth:
  assumes "distinct (map tabId ss)" "i < length ss"
  shows "index_of (tabId (ss ! i)) ss = int i"
proof -
  have "takeWhile (\<lambda>s. tabId s \<noteq> tabId (ss ! i)) ss = take i ss"
    using assms by (intro takeWhile_eq_take_P_nth) (auto simp: distinct_conv_nth)
  with assms(2) show ?thesis by (simp add: index_of_def)
qed

lemma cycle_tab_at:
  assumes "distinct (map tabId (openSessions (tabs sh)))" and "i < length (openSessions (tabs sh))"
    and "mainView sh = Session_view (tabId (openSessions (tabs sh) ! i))"
  shows "cycle_tab False sh = sh\<lparr>mainView := Session_view (tabId (openSessions (tabs sh) !
           (Suc i mod length (openSessions (tabs sh)))))\<rparr>"
    and "cycle_tab True sh = sh\<lparr>mainView := Session_view (tabId (openSessions (tabs sh) !
           ((i + length (openSessions (tabs sh)) - 1) mod length (openSessions (tabs sh)))))\<rparr>"
proof -
  let ?n = "length (openSessions (tabs sh))"
  have "(int i + 1 + int ?n) mod int ?n = int (Suc i mod ?n)"
    by (simp add: zmod_int add.commute)
  moreover have "int i + - 1 + int ?n = int (i + ?n - 1)" using assms(2) by simp
  then have "(int i + - 1 + int ?n) mod int ?n = int ((i + ?n - 1) mod ?n)"
    by (simp only: zmod_int)
  ultimately show "cycle_tab False sh = sh\<lparr>mainView := Session_view (tabId (openSessions (tabs sh) ! (Suc i mod ?n)))\<rparr>"
    "cycle_tab True sh = sh\<lparr>mainView := Session_view (tabId (openSessions (tabs sh) ! ((i + ?n - 1) mod ?n)))\<rparr>"
    by (simp_all add: cycle_tab_def Let_def assms(3) index_of_nth[OF assms(1,2)])
qed

lemma cycle_tab_iterate:
  assumes "distinct (map tabId (openSessions (tabs sh)))" and "i < length (openSessions (tabs sh))"
    and "mainView sh = Session_view (tabId (openSessions (tabs sh) ! i))"
  shows "(cycle_tab False ^^ k) sh = sh\<lparr>mainView := Session_view (tabId (openSessions (tabs sh) !
           ((i + k) mod length (openSessions (tabs sh)))))\<rparr>"
proof (induction k)
  case 0
  then show ?case using assms(2,3) by simp
next
  case (Suc k)
  let ?ss = "openSessions (tabs sh)"
  have "(i + k) mod length ?ss < length ?ss" using assms(2) by (metis mod_less_divisor gr_implies_not0 neq0_conv)
  then show ?case
    using cycle_tab_at(1)[of "sh\<lparr>mainView := Session_view (tabId (?ss ! ((i + k) mod length ?ss)))\<rparr>" "(i + k) mod length ?ss"]
      assms(1)
    by (simp add: Suc mod_Suc_eq)
qed

lemma mod_walk:
  assumes "i < n"
  shows "{(i + k) mod n | k. k < n} = {..<(n :: nat)}"
proof -
  have "\<exists>k < n. (i + k) mod n = j" if "j < n" for j
  proof (cases "i \<le> j")
    case True
    with that show ?thesis by (intro exI[of _ "j - i"]) simp
  next
    case False
    with that assms have "i + (n + j - i) = n + j" "n + j - i < n" by auto
    with that show ?thesis by (intro exI[of _ "n + j - i"]) simp
  qed
  with assms show ?thesis by auto
qed

text \<open>
  Ctrl+Tab walks through the open tabs in order and comes back to the first after the last,
  Ctrl+Shift+Tab undoes it, and as many presses as there are tabs visit every tab once. From a
  view that is no session, Ctrl+Tab shows the first tab, but Ctrl+Shift+Tab skips the last one
  and shows the one before it.
\<close>
theorem ctrl_tab_cycles:
  assumes "sessions_ok u (tabs sh)" and "i < length (openSessions (tabs sh))"
    and "mainView sh = Session_view (tabId (openSessions (tabs sh) ! i))"
  shows "mainView (cycle_tab False sh)
           = Session_view (tabId (openSessions (tabs sh) ! (Suc i mod length (openSessions (tabs sh)))))
     \<and> cycle_tab True (cycle_tab False sh) = sh
     \<and> (cycle_tab False ^^ length (openSessions (tabs sh))) sh = sh
     \<and> {mainView ((cycle_tab False ^^ k) sh) | k. k < length (openSessions (tabs sh))}
         = (\<lambda>s. Session_view (tabId s)) ` set (openSessions (tabs sh))
     \<and> mainView (cycle_tab False (sh\<lparr>mainView := Manage m\<rparr>)) = Session_view (tabId (hd (openSessions (tabs sh))))
     \<and> (2 \<le> length (openSessions (tabs sh)) \<longrightarrow>
          mainView (cycle_tab True (sh\<lparr>mainView := Manage m\<rparr>))
            = Session_view (tabId (openSessions (tabs sh) ! (length (openSessions (tabs sh)) - 2))))"
proof -
  define ss where "ss = openSessions (tabs sh)"
  define n where "n = length ss"
  have d: "distinct (map tabId ss)" using assms(1) by (simp add: sessions_ok_def ss_def)
  have i: "i < n" "0 < n" using assms(2) unfolding n_def ss_def by linarith+
  then have next_less: "Suc i mod n < n" by simp
  note at = cycle_tab_at[OF d[unfolded ss_def] assms(2,3), folded ss_def n_def]
  note it = cycle_tab_iterate[OF d[unfolded ss_def] assms(2,3), folded ss_def n_def]
  have same: "sh\<lparr>mainView := Session_view (tabId (ss ! i))\<rparr> = sh" using assms(3) by (simp add: ss_def)
  have "(Suc i mod n + n - 1) mod n = i"
  proof (cases "Suc i = n")
    case False
    with i have "Suc i mod n = Suc i" by simp
    with i show ?thesis by simp
  qed (use i in auto)
  then have undo: "cycle_tab True (cycle_tab False sh) = sh"
    using cycle_tab_at(2)[of "cycle_tab False sh" "Suc i mod n"] d i next_less same
    by (simp add: at(1) flip: ss_def n_def)
  have all: "{mainView ((cycle_tab False ^^ k) sh) | k. k < n} = (\<lambda>s. Session_view (tabId s)) ` set ss"
  proof -
    have "{(i + k) mod n | k. k < n} = {..<n}" using i(1) by (rule mod_walk)
    then have "(\<lambda>j. Session_view (tabId (ss ! j))) ` {(i + k) mod n | k. k < n} = (\<lambda>j. Session_view (tabId (ss ! j))) ` {..<n}"
      by simp
    moreover have "(\<lambda>j. Session_view (tabId (ss ! j))) ` {..<n} = (\<lambda>s. Session_view (tabId s)) ` set ss"
      by (auto simp: n_def set_conv_nth)
    moreover have "(\<lambda>j. Session_view (tabId (ss ! j))) ` {(i + k) mod n | k. k < n}
        = {mainView ((cycle_tab False ^^ k) sh) | k. k < n}"
      by (auto simp: it)
    ultimately show ?thesis by simp
  qed
  have first: "mainView (cycle_tab False (sh\<lparr>mainView := Manage m\<rparr>)) = Session_view (tabId (hd ss))"
    using i by (simp add: cycle_tab_def Let_def hd_conv_nth n_def flip: ss_def)
  have "mainView (cycle_tab True (sh\<lparr>mainView := Manage m\<rparr>)) = Session_view (tabId (ss ! (n - 2)))" if "2 \<le> n"
  proof -
    have "(int n - 2) mod int n = int n - 2" by (rule mod_pos_pos_trivial) (use that in auto)
    then have "(- 2 + int n) mod int n = int n - 2" by (simp add: algebra_simps)
    then show ?thesis using that by (simp add: cycle_tab_def Let_def nat_diff_distrib flip: ss_def n_def)
  qed
  with undo all first show ?thesis
    using it[of n] i same by (simp add: at(1) flip: ss_def n_def)
qed


text \<open>Three tabs, the second one shown.\<close>

definition three_tabs :: shell where
  "three_tabs = shell_run sample_uuids (initial_shell initial_settings 1400)
     [Connect_host (sample_host ''a'' None), Gate_answer 0 gate_open, Connect_host (sample_host ''b'' None),
      Gate_answer 1 gate_open, Open_sftp (sample_host ''c'' None), Gate_answer 2 gate_open, Select_tab ''xxx'']"

lemma three_tabs_ok: "sessions_ok sample_uuids (tabs three_tabs)"
  using shell.inv_run[of sample_uuids initial_settings 1400] by (simp add: three_tabs_def shell_ok_def del: foldl_Cons)

theorem ctrl_tab_cycles_witness:
  "mainView (cycle_tab False three_tabs) = Session_view ''xxxxx''
     \<and> cycle_tab True (cycle_tab False three_tabs) = three_tabs"
proof -
  have "1 < length (openSessions (tabs three_tabs))"
    "mainView three_tabs = Session_view (tabId (openSessions (tabs three_tabs) ! 1))"
    "tabId (openSessions (tabs three_tabs) ! (Suc 1 mod length (openSessions (tabs three_tabs)))) = ''xxxxx''"
    by code_simp+
  with ctrl_tab_cycles[OF three_tabs_ok this(1,2)] show ?thesis by simp
qed

section \<open>One terminal tab per host\<close>

definition terminal_ids :: "open_session list \<Rightarrow> string list" where
  "terminal_ids ss = map (\<lambda>x. host_id (session_host x)) (filter (\<lambda>x. kind x = Terminal) ss)"

fun connecting :: "(nat \<times> gate_task) list \<Rightarrow> string list" where
  "connecting [] = []"
| "connecting ((n, Connect_task h) # ws) = host_id h # connecting ws"
| "connecting ((n, t) # ws) = connecting ws"

definition single_terminals :: "shell \<Rightarrow> bool" where
  "single_terminals sh \<longleftrightarrow> distinct (terminal_ids (openSessions (tabs sh)) @ connecting (waiting sh))
     \<and> distinct (map fst (waiting sh)) \<and> (\<forall>n \<in> fst ` set (waiting sh). n < gates_opened sh)"

text \<open>A user who waits: no second connection to a host is asked for while one is at the gate.\<close>

fun patient :: "shell \<Rightarrow> shell_event \<Rightarrow> bool" where
  "patient sh (Connect_host h) = (host_id h \<notin> set (connecting (waiting sh)))"
| "patient sh e = True"

lemma terminal_ids_map:
  "map (\<lambda>x. (kind x, host_id (session_host x))) ss = map (\<lambda>x. (kind x, host_id (session_host x))) ss' \<Longrightarrow>
     terminal_ids ss = terminal_ids ss'"
proof -
  have "terminal_ids ss = map snd (filter (\<lambda>p. fst p = Terminal) (map (\<lambda>x. (kind x, host_id (session_host x))) ss))" for ss
    by (induction ss) (simp_all add: terminal_ids_def)
  then show "map (\<lambda>x. (kind x, host_id (session_host x))) ss = map (\<lambda>x. (kind x, host_id (session_host x))) ss' \<Longrightarrow>
     terminal_ids ss = terminal_ids ss'" by simp
qed

lemma connecting_append: "connecting (ws @ vs) = connecting ws @ connecting vs"
  by (induction ws rule: connecting.induct) simp_all

lemma terminal_tab_None: "terminal_tab_of ss hid = None \<longleftrightarrow> hid \<notin> set (terminal_ids ss)"
  by (auto simp: terminal_tab_of_def terminal_ids_def find_None_iff)

lemma connecting_remove:
  assumes "distinct (map fst ws)" and "map_of ws n = Some t"
  shows "mset (connecting ws) = mset (connecting (filter (\<lambda>(m, t). m \<noteq> n) ws)) + mset (connecting [(n, t)])"
  using assms
proof (induction ws)
  case (Cons w ws)
  obtain m t' where w: "w = (m, t')" by fastforce
  show ?case
  proof (cases "m = n")
    case True
    with Cons.prems w have "n \<notin> fst ` set ws" "t' = t" by auto
    then have "filter (\<lambda>(m, t). m \<noteq> n) ws = ws" by (intro filter_True) force
    with True w \<open>t' = t\<close> show ?thesis by (cases t) simp_all
  next
    case False
    with Cons w show ?thesis by (cases t') auto
  qed
qed simp

lemma distinct_submset: "distinct xs \<Longrightarrow> mset ys \<subseteq># mset xs \<Longrightarrow> distinct ys"
proof -
  assume d: "distinct xs" and "mset ys \<subseteq># mset xs"
  then obtain zs where "mset xs = mset (ys @ zs)" by (metis ex_mset mset_append mset_subset_eq_exists_conv)
  with d have "distinct (ys @ zs)" by (metis mset_eq_imp_distinct_iff)
  then show "distinct ys" by simp
qed

lemma single_terminals_keep:
  assumes "single_terminals sh" and "terminal_ids (openSessions (tabs sh')) = terminal_ids (openSessions (tabs sh))"
    and "waiting sh' = waiting sh" and "gates_opened sh \<le> gates_opened sh'"
  shows "single_terminals sh'"
  using assms by (fastforce simp: single_terminals_def)

lemma single_terminals_perm:
  assumes "single_terminals sh" and "mset (openSessions (tabs sh')) \<subseteq># mset (openSessions (tabs sh))"
    and "waiting sh' = waiting sh" and "gates_opened sh' = gates_opened sh"
  shows "single_terminals sh'"
proof -
  have "mset (terminal_ids (openSessions (tabs sh'))) \<subseteq># mset (terminal_ids (openSessions (tabs sh)))"
    unfolding terminal_ids_def mset_map mset_filter
    by (intro image_mset_subseteq_mono multiset_filter_mono assms(2))
  then have "mset (terminal_ids (openSessions (tabs sh')) @ connecting (waiting sh'))
      \<subseteq># mset (terminal_ids (openSessions (tabs sh)) @ connecting (waiting sh))"
    by (simp add: assms(3))
  then have "distinct (terminal_ids (openSessions (tabs sh')) @ connecting (waiting sh'))"
    using assms(1) distinct_submset unfolding single_terminals_def by blast
  with assms show ?thesis by (simp add: single_terminals_def)
qed

lemma sig_simps:
  "(\<lambda>x. (kind x, host_id (session_host x))) (x\<lparr>layout := l\<rparr>) = (kind x, host_id (session_host x))"
  "(\<lambda>x. (kind x, host_id (session_host x))) (x\<lparr>broadcastEnabled := b\<rparr>) = (kind x, host_id (session_host x))"
  by simp_all

lemma wait_single:
  assumes "single_terminals sh"
    and "\<And>h. task = Connect_task h \<Longrightarrow>
      host_id h \<notin> set (terminal_ids (openSessions (tabs sh))) \<union> set (connecting (waiting sh))"
  shows "single_terminals (wait_at_gate task h sh)"
proof -
  have "gates_opened sh \<notin> fst ` set (waiting sh)"
    using assms(1) by (auto simp: single_terminals_def)
  then show ?thesis
    using assms by (cases task) (auto simp: single_terminals_def connecting_append less_Suc_eq)
qed

lemma gate_single:
  assumes "single_terminals sh"
  shows "single_terminals (gate_answered u n r sh)"
proof (cases "map_of (waiting sh) n")
  case None
  with assms show ?thesis by (simp add: gate_answered_def)
next
  case (Some task)
  define ws where "ws = filter (\<lambda>(m, t). m \<noteq> n) (waiting sh)"
  define sh1 where "sh1 = snd (gate_end (task_host task) r (sh\<lparr>waiting := ws\<rparr>))"
  define gate where "gate = fst (gate_end (task_host task) r (sh\<lparr>waiting := ws\<rparr>))"
  have sh1: "tabs sh1 = tabs sh" "waiting sh1 = ws" "gates_opened sh1 = gates_opened sh"
    by (simp_all add: sh1_def)
  have run: "gate_answered u n r sh = after_gate u n task gate sh1"
    by (simp add: gate_answered_def Some case_prod_beta ws_def sh1_def gate_def)
  have ids: "distinct (map fst ws)" "\<forall>m \<in> fst ` set ws. m < gates_opened sh"
    using assms by (auto simp: single_terminals_def ws_def distinct_map_filter)
  have d: "distinct (terminal_ids (openSessions (tabs sh)) @ connecting ws @ connecting [(n, task)])"
  proof -
    have "mset (terminal_ids (openSessions (tabs sh)) @ connecting (waiting sh))
        = mset (terminal_ids (openSessions (tabs sh)) @ connecting ws @ connecting [(n, task)])"
      using connecting_remove[OF _ Some] assms by (simp add: single_terminals_def ws_def)
    then show ?thesis using assms unfolding single_terminals_def by (metis mset_eq_imp_distinct_iff)
  qed
  then have s1: "single_terminals sh1"
    using ids by (auto simp: single_terminals_def sh1)
  have opened: "terminal_ids (openSessions (tabs (open_tab u h k sh1)))
      = terminal_ids (openSessions (tabs sh)) @ (if k = Terminal then [host_id h] else [])" for h k
    by (simp add: open_tab_def openSession_def Let_def sh1 terminal_ids_def)
  have waits: "waiting (open_tab u h k sh1) = ws" "gates_opened (open_tab u h k sh1) = gates_opened sh" for h k
    by (simp_all add: open_tab_def openSession_def Let_def sh1)
  show ?thesis
  proof (cases task)
    case (Split_task t p dir h target)
    have "terminal_ids (openSessions (snd (splitPane u t p dir h (tabs sh1)))) = terminal_ids (openSessions (tabs sh1))"
      by (rule terminal_ids_map, rule splitPane_map) simp
    then show ?thesis
      using s1 Split_task unfolding run
      by (auto split: option.split prod.split intro: single_terminals_keep)
  qed (use d ids s1 run opened waits in \<open>auto simp: single_terminals_def\<close>)
qed

lemma key_single:
  assumes "single_terminals sh"
  shows "single_terminals (shell_key e sh)"
proof -
  have "single_terminals (handleCloseTab t sh)" for t
    by (rule single_terminals_perm[OF assms]) (simp_all add: handleCloseTab_fields closeSession_tabs multiset_filter_subset)
  moreover have "single_terminals (cycle_tab b sh)" for b
    by (rule single_terminals_keep[OF assms]) (simp_all add: cycle_tab_def Let_def)
  moreover have "single_terminals (sh\<lparr>paletteOpen := True\<rparr>)"
    by (rule single_terminals_keep[OF assms]) simp_all
  ultimately show ?thesis
    using assms by (auto simp: shell_key_def intro: single_terminals_keep split: main_view.split)
qed

lemma close_single:
  assumes "single_terminals sh"
  shows "single_terminals (handleCloseTab t sh)" "single_terminals (handleClosePane t p sh)"
proof -
  show c: "single_terminals (handleCloseTab t sh)" for t
    by (rule single_terminals_perm[OF assms]) (simp_all add: handleCloseTab_fields closeSession_tabs multiset_filter_subset)
  have "terminal_ids (openSessions (closePane t p (tabs sh))) = terminal_ids (openSessions (tabs sh))"
    by (rule terminal_ids_map, rule closePane_map) simp
  then have "single_terminals (sh\<lparr>tabs := closePane t p (tabs sh)\<rparr>)"
    by (intro single_terminals_keep[OF assms]) simp_all
  with c show "single_terminals (handleClosePane t p sh)"
    by (auto simp: handleClosePane_def split: option.split)
qed

lemma drop_single:
  assumes "single_terminals sh"
  shows "single_terminals (drop_on_tab i sh)" "single_terminals (drop_on_bar sh)"
proof -
  have "single_terminals (tab_drop j sh)" for j
    by (rule single_terminals_perm[OF assms])
      (simp_all add: tab_drop_def Let_def mset_reorderSessions split: option.split)
  then show "single_terminals (drop_on_tab i sh)" "single_terminals (drop_on_bar sh)"
    using assms by (simp_all add: drop_on_tab_def drop_on_bar_def)
qed

lemma split_click_single: "single_terminals sh \<Longrightarrow> single_terminals (handleSplitPane t p dir h sh)"
  by (auto simp: handleSplitPane_def Let_def intro: wait_single single_terminals_keep split: option.split)

lemma shell_update_single:
  assumes "single_terminals sh" "patient sh e"
  shows "single_terminals (shell_update u sh e)"
proof (cases e)
  case (Connect_host h)
  show ?thesis
  proof (cases "terminal_tab_of (openSessions (tabs sh)) (host_id h)")
    case None
    then have "host_id h \<notin> set (terminal_ids (openSessions (tabs sh)))" by (simp add: terminal_tab_None)
    with Connect_host None assms show ?thesis by (auto simp: handleConnect_def intro!: wait_single)
  next
    case (Some x)
    with Connect_host assms show ?thesis
      by (auto simp: handleConnect_def intro: single_terminals_keep)
  qed
next
  case (Open_sftp h)
  with assms show ?thesis by (auto simp: handleOpenSftp_def intro: wait_single)
next
  case (Pane_update ev)
  have "pane_update_ok ev \<Longrightarrow> terminal_ids (openSessions (sessions_step u (tabs sh) ev)) = terminal_ids (openSessions (tabs sh))"
    by (rule terminal_ids_map, rule pane_update_map) simp_all
  with Pane_update assms show ?thesis by (auto intro: single_terminals_keep)
next
  case (Activity t)
  have "tabs (handleActivitySelect t sh) = tabs sh" "waiting (handleActivitySelect t sh) = waiting sh"
    "gates_opened (handleActivitySelect t sh) = gates_opened sh"
    by (simp_all add: handleActivitySelect_def Let_def)
  with Activity assms show ?thesis by (auto intro: single_terminals_keep)
qed (use assms in \<open>simp_all add: key_single gate_single close_single drop_single split_click_single single_terminals_keep\<close>)

lemma shell_step_single:
  assumes "single_terminals sh" "patient sh e"
  shows "single_terminals (shell_step u sh e)"
proof -
  define sh' where "sh' = shell_update u sh e"
  have "single_terminals sh'" unfolding sh'_def by (rule shell_update_single[OF assms])
  then show ?thesis
    unfolding shell_step_def sh'_def[symmetric] by (rule single_terminals_keep) simp_all
qed

lemma initial_single: "single_terminals (initial_shell st w)"
  by (simp add: initial_shell_def single_terminals_def terminal_ids_def initial_sessions_def)

interpretation single: invariant_machine "initial_shell st w" "shell_step u" patient single_terminals for st w u
  by unfold_locales (rule initial_single, rule shell_step_single)

text \<open>
  C14: While the user does not ask for a second connection to a host whose first one still
  waits at the VPN gate, no host ever has two terminal tabs, whatever else happens. When he does
  (a double click while the VPN comes up), both requests pass the check for an open tab, and
  the host gets two terminal tabs.
\<close>
theorem one_terminal_tab_per_host:
  assumes "run_ok (shell_step u) patient (initial_shell st w) es"
    and "terminal_tab_of (openSessions (tabs sh)) (host_id h) = None" and "waiting sh = []"
  shows "distinct (terminal_ids (openSessions (tabs (shell_run u (initial_shell st w) es))))
     \<and> length (filter (\<lambda>i. i = host_id h) (terminal_ids (openSessions (tabs (shell_run u sh
          [Connect_host h, Connect_host h, Gate_answer (gates_opened sh) gate_open,
           Gate_answer (Suc (gates_opened sh)) gate_open]))))) = 2"
proof
  show "distinct (terminal_ids (openSessions (tabs (shell_run u (initial_shell st w) es))))"
    using single.inv_run[OF assms(1)] by (simp add: single_terminals_def)
  have none: "filter (\<lambda>i. i = host_id h) (terminal_ids (openSessions (tabs sh))) = []"
    using assms(2) by (auto simp: terminal_tab_None filter_empty_conv)
  have opened: "terminal_ids (openSessions (tabs (open_tab u h Terminal s)))
      = terminal_ids (openSessions (tabs s)) @ [host_id h]" for s
    by (simp add: open_tab_def openSession_def Let_def terminal_ids_def)
  have waits: "waiting (open_tab u h Terminal s) = waiting s" for s
    by (simp add: open_tab_def openSession_def Let_def)
  define n where "n = gates_opened sh"
  define s1 where "s1 = shell_step u (shell_step u sh (Connect_host h)) (Connect_host h)"
  have s1: "tabs s1 = tabs sh" "waiting s1 = [(n, Connect_task h), (Suc n, Connect_task h)]"
    using assms(2,3) by (simp_all add: s1_def shell_step_def handleConnect_def n_def)
  define s2 where "s2 = shell_step u s1 (Gate_answer n gate_open)"
  have s2: "terminal_ids (openSessions (tabs s2)) = terminal_ids (openSessions (tabs sh)) @ [host_id h]"
    "waiting s2 = [(Suc n, Connect_task h)]"
    using s1 by (simp_all add: s2_def shell_step_def gate_answered_def case_prod_beta opened waits)
      (simp_all add: gate_end_def gate_open_def)
  have "terminal_ids (openSessions (tabs (shell_step u s2 (Gate_answer (Suc n) gate_open))))
      = terminal_ids (openSessions (tabs sh)) @ [host_id h, host_id h]"
    using s2 by (simp add: shell_step_def gate_answered_def case_prod_beta opened waits)
      (simp add: gate_end_def gate_open_def)
  then show "length (filter (\<lambda>i. i = host_id h) (terminal_ids (openSessions (tabs (shell_run u sh
          [Connect_host h, Connect_host h, Gate_answer (gates_opened sh) gate_open,
           Gate_answer (Suc (gates_opened sh)) gate_open]))))) = 2"
    by (simp add: none flip: n_def s1_def s2_def)
qed


theorem one_terminal_tab_per_host_witness:
  "distinct (terminal_ids (openSessions (tabs (shell_run sample_uuids (initial_shell initial_settings 1400)
     [Connect_host (sample_host ''h'' (Some ''p'')), Gate_answer 0 gate_open, Connect_host (sample_host ''h'' None)]))))"
proof -
  let ?sh = "initial_shell initial_settings 1400"
  have "run_ok (shell_step sample_uuids) patient ?sh
     [Connect_host (sample_host ''h'' (Some ''p'')), Gate_answer 0 gate_open, Connect_host (sample_host ''h'' None)]"
    "terminal_tab_of (openSessions (tabs ?sh)) (host_id (sample_host ''h'' None)) = None" "waiting ?sh = []"
    by code_simp+
  from one_terminal_tab_per_host[OF this] show ?thesis by blast
qed

section \<open>The side panels\<close>

lemma prefs_do_panels [simp]:
  "shell_prefs (show_overlay ov sh) = shell_prefs sh" "activeOverlay (show_overlay ov sh) = ov"
  "activeOverlay (prefs_do a sh) = activeOverlay sh" "shell_prefs (prefs_do a sh) = settings_step (shell_prefs sh) a"
  "viewportWidth (show_overlay ov sh) = viewportWidth sh" "viewportWidth (prefs_do a sh) = viewportWidth sh"
  by (simp_all add: show_overlay_def prefs_do_def)

text \<open>
  Where the host tree is shown, the button of the left panel opens it when it is closed and
  closes it when it is open, in a wide window and as an overlay in a narrow one, except when the
  panel was hidden (Ctrl+B) under its own open overlay: then one click only drops the overlay.
  In a narrow window Ctrl+B never opens the panel: it toggles a setting whose effect is not seen.
\<close>
theorem left_panel_toggles:
  assumes "showHostTree sh"
  shows "leftPanelOpen (handleLeftPanelToggle sh) =
          (\<not> leftPanelOpen sh
           \<and> \<not> (leftPanelOverlays sh \<and> \<not> leftSidebarVisible (shell_prefs sh) \<and> activeOverlay sh = Some Left_overlay))
     \<and> (leftPanelOverlays sh \<and> activeOverlay sh \<noteq> Some Left_overlay \<longrightarrow>
          \<not> leftPanelOpen (prefs_do Toggle_left_sidebar sh))
     \<and> (\<not> leftPanelOverlays sh \<longrightarrow> leftPanelOpen (prefs_do Toggle_left_sidebar sh) = (\<not> leftPanelOpen sh))"
proof -
  have "leftPanelOverlays (handleLeftPanelToggle sh) = leftPanelOverlays sh"
    "leftPanelOverlays (prefs_do Toggle_left_sidebar sh) = leftPanelOverlays sh"
    by (simp_all add: leftPanelOverlays_def handleLeftPanelToggle_def Let_def)
  moreover have "showHostTree (handleLeftPanelToggle sh)" "showHostTree (prefs_do Toggle_left_sidebar sh)"
    using assms by (simp_all add: showHostTree_def)
  ultimately show ?thesis
    using assms by (auto simp: leftPanelOpen_def) (auto simp: handleLeftPanelToggle_def Let_def split: if_splits)
qed

theorem left_panel_toggles_witness:
  "leftPanelOpen (handleLeftPanelToggle (initial_shell initial_settings 800))
     \<and> \<not> leftPanelOpen (prefs_do Toggle_left_sidebar (initial_shell initial_settings 800))"
proof -
  have "showHostTree (initial_shell initial_settings 800)" "leftPanelOverlays (initial_shell initial_settings 800)"
    "\<not> leftPanelOpen (initial_shell initial_settings 800)" "activeOverlay (initial_shell initial_settings 800) = None"
    by code_simp+
  with left_panel_toggles[OF this(1)] show ?thesis by simp
qed

section \<open>What a closed pane and a closed session look like\<close>

text \<open>
  Closing one of several panes releases no VPN profile; closing the last one closes the tab and
  releases the profile of the tab's host.
\<close>

lemma handleClosePane_effects:
  assumes "find_tab t (openSessions (tabs sh)) = Some x" and "layout x = Some tree"
  shows "shell_effects (handleClosePane t p sh) =
     shell_effects sh @ (if countLeaves tree \<le> 1 then [Vpn_release (host_id (session_host x))] else [])"
  using assms by (simp add: handleClosePane_def handleCloseTab_def add_effects_def Let_def)

text \<open>The dot of the shown tab: a closed session has the colour of a connected one.\<close>

lemma closed_tab_looks_connected: "tab_dot True (Some Closed) = tab_dot True (Some Connected)"
  by (simp add: tab_dot_def)

end
