(* ===== verification/App_Workspace.thy ===== *)
theory App_Workspace
  imports App_Shell
begin

text \<open>
  Saving what is open as a workspace and opening it again, \<open>handleSaveCurrentLayout\<close> and
  \<open>handleOpenWorkspace\<close> of \<open>src/src/pages/AppShell.tsx\<close>. The opening is followed as one
  task: \<open>gate\<close> is what the VPN gate answers for a host, and nothing else happens while the
  tabs are opened. \<open>JSON.stringify\<close> and \<open>JSON.parse\<close> of a saved layout are the arguments
  \<open>stringify\<close> and \<open>parse\<close>; \<^const>\<open>None\<close> means that \<open>JSON.parse\<close> throws.
\<close>

section \<open>Saving\<close>

record workspace_tab =
  wt_id :: string
  wt_workspace_id :: string
  wt_host_id :: string
  wt_kind :: string
  wt_pane_count :: int
  wt_layout_json :: "string option"
  wt_sort_order :: int

fun kind_name :: "session_kind \<Rightarrow> string" where
  "kind_name Terminal = ''terminal''"
| "kind_name Sftp = ''sftp''"

definition snapshot_tab :: "(serialized_pane_node \<Rightarrow> string) \<Rightarrow> nat \<times> open_session \<Rightarrow> workspace_tab_input" where
  "snapshot_tab stringify = (\<lambda>(i, s).
     \<lparr>wti_host_id = host_id (session_host s), wti_kind = kind_name (kind s),
      wti_pane_count =
        (if kind s = Terminal then (case layout s of Some t \<Rightarrow> int (countLeaves t) | None \<Rightarrow> 1) else 1),
      wti_layout_json =
        (if kind s = Terminal then map_option (\<lambda>t. stringify (serializeLayout t)) (layout s) else None),
      wti_sort_order = int i\<rparr>)"

definition workspace_snapshot :: "(serialized_pane_node \<Rightarrow> string) \<Rightarrow> open_session list \<Rightarrow> workspace_tab_input list" where
  "workspace_snapshot stringify ss = map (snapshot_tab stringify) (enumerate 0 ss)"

definition handleSaveCurrentLayout ::
  "(serialized_pane_node \<Rightarrow> string) \<Rightarrow> (bridge_call \<Rightarrow> string option) \<Rightarrow> string option \<Rightarrow> string \<Rightarrow> shell \<Rightarrow>
     outcome \<times> shell" where
  "handleSaveCurrentLayout stringify refuses reload_error label sh =
     (case workspaces_mutate refuses reload_error
             (CreateWorkspace label (workspace_snapshot stringify (openSessions (tabs sh)))) of
        (es, None) \<Rightarrow> ((es, None), add_effects [Notify ''Workspace saved.'' True] sh)
      | (es, Some e) \<Rightarrow> ((es, Some e), sh))"

section \<open>Opening\<close>

text \<open>A handler awaited to its end.\<close>

definition await_gate :: "uuids \<Rightarrow> (host \<Rightarrow> vpn_gate_result) \<Rightarrow> host \<Rightarrow> (shell \<Rightarrow> shell) \<Rightarrow> shell \<Rightarrow> shell" where
  "await_gate u gate h handler sh =
     (let sh1 = handler sh
      in if waiting sh1 = waiting sh then sh1 else gate_answered u (gates_opened sh) (gate h) sh1)"

definition connect_now :: "uuids \<Rightarrow> (host \<Rightarrow> vpn_gate_result) \<Rightarrow> host \<Rightarrow> shell \<Rightarrow> shell" where
  "connect_now u gate h = await_gate u gate h (handleConnect h)"

definition sftp_now :: "uuids \<Rightarrow> (host \<Rightarrow> vpn_gate_result) \<Rightarrow> host \<Rightarrow> shell \<Rightarrow> shell" where
  "sftp_now u gate h = await_gate u gate h (handleOpenSftp h)"

definition split_now :: "uuids \<Rightarrow> (host \<Rightarrow> vpn_gate_result) \<Rightarrow> string \<Rightarrow> pane_leaf \<Rightarrow> shell \<Rightarrow> shell" where
  "split_now u gate t leaf = await_gate u gate (leaf_host leaf) (handleSplitPane t (leaf_paneId leaf) Row None)"

definition gate_only :: "(host \<Rightarrow> vpn_gate_result) \<Rightarrow> host \<Rightarrow> shell \<Rightarrow> shell" where
  "gate_only gate h sh = snd (gate_end h (gate h) (gate_begin h sh))"

text \<open>\<open>new Map(hosts.map((h) => [h.id, h]))\<close>: the last host wins.\<close>

definition hosts_by_id :: "host list \<Rightarrow> string \<rightharpoonup> host" where
  "hosts_by_id hs = map_of (rev (map (\<lambda>h. (host_id h, h)) hs))"

definition distinct_hosts :: "pane_node \<Rightarrow> host list" where
  "distinct_hosts t =
     map snd (fold (\<lambda>l m. AList.update (host_id (leaf_host l)) (leaf_host l) m) (collectLeaves t) [])"

text \<open>Tabs saved before the layout was: \<open>n\<close> more panes, each split off the first one.\<close>

fun flat_panes :: "uuids \<Rightarrow> (host \<Rightarrow> vpn_gate_result) \<Rightarrow> string \<Rightarrow> nat \<Rightarrow> shell \<Rightarrow> shell" where
  "flat_panes u gate t 0 sh = sh"
| "flat_panes u gate t (Suc n) sh =
     (case find_tab t (openSessions (tabs sh)) of
        None \<Rightarrow> sh
      | Some current \<Rightarrow>
          (case layout current of
             None \<Rightarrow> sh
           | Some tree \<Rightarrow>
               (case collectLeaves tree of
                  [] \<Rightarrow> sh
                | firstLeaf # ls \<Rightarrow> flat_panes u gate t n (split_now u gate t firstLeaf sh))))"

definition restore_saved ::
  "uuids \<Rightarrow> (host \<Rightarrow> vpn_gate_result) \<Rightarrow> (string \<rightharpoonup> host) \<Rightarrow> host \<Rightarrow> string \<Rightarrow> serialized_pane_node \<Rightarrow> int \<Rightarrow>
     shell \<Rightarrow> shell" where
  "restore_saved u gate m h t saved n sh =
     (case deserializeLayout u (drawn (tabs sh)) saved m of
        (restored, k) \<Rightarrow>
          (let sh1 = sh\<lparr>tabs := (tabs sh)\<lparr>drawn := k\<rparr>\<rparr>
           in case restored of
                None \<Rightarrow> flat_panes u gate t (nat (n - 1)) sh1
              | Some tree \<Rightarrow>
                  (let sh2 = fold (\<lambda>g s. if host_id g \<noteq> host_id h then gate_only gate g s else s)
                               (distinct_hosts tree) sh1
                   in sh2\<lparr>tabs := setLayout t tree (tabs sh2)\<rparr>)))"

text \<open>One saved tab: the shell afterwards, or \<^const>\<open>None\<close> when \<open>JSON.parse\<close> throws.\<close>

definition open_saved_tab ::
  "uuids \<Rightarrow> (host \<Rightarrow> vpn_gate_result) \<Rightarrow> (string \<Rightarrow> serialized_pane_node option) \<Rightarrow> host list \<Rightarrow> workspace_tab \<Rightarrow>
     shell \<Rightarrow> shell option" where
  "open_saved_tab u gate parse hs tab sh =
     (case find_host hs (wt_host_id tab) of
        None \<Rightarrow> Some sh
      | Some h \<Rightarrow>
          (if wt_kind tab = ''sftp'' then Some (sftp_now u gate h sh)
           else
             (let sh1 = connect_now u gate h sh
              in case terminal_tab_of (openSessions (tabs sh1)) (host_id h) of
                   None \<Rightarrow> Some sh1
                 | Some opened \<Rightarrow>
                     (if truthy (wt_layout_json tab)
                      then (case parse (the (wt_layout_json tab)) of
                              None \<Rightarrow> None
                            | Some saved \<Rightarrow>
                                Some (restore_saved u gate (hosts_by_id hs) h (tabId opened) saved (wt_pane_count tab) sh1))
                      else Some (flat_panes u gate (tabId opened) (nat (wt_pane_count tab - 1)) sh1)))))"

fun open_saved_tabs ::
  "uuids \<Rightarrow> (host \<Rightarrow> vpn_gate_result) \<Rightarrow> (string \<Rightarrow> serialized_pane_node option) \<Rightarrow> host list \<Rightarrow>
     workspace_tab list \<Rightarrow> shell \<Rightarrow> shell option" where
  "open_saved_tabs u gate parse hs [] sh = Some sh"
| "open_saved_tabs u gate parse hs (tab # rest) sh =
     (case open_saved_tab u gate parse hs tab sh of
        None \<Rightarrow> None
      | Some sh' \<Rightarrow> open_saved_tabs u gate parse hs rest sh')"

definition handleOpenWorkspace ::
  "uuids \<Rightarrow> (host \<Rightarrow> vpn_gate_result) \<Rightarrow> (string \<Rightarrow> serialized_pane_node option) \<Rightarrow> workspace_tab list \<Rightarrow>
     shell \<Rightarrow> shell option" where
  "handleOpenWorkspace u gate parse rows sh =
     open_saved_tabs u gate parse (shell_hosts sh) (js_sort (\<lambda>a b. wt_sort_order a - wt_sort_order b) rows) sh"

section \<open>Lemmas\<close>

text \<open>What a saved tab is about: its host, its kind and the shape of its layout.\<close>

definition tab_shape :: "open_session \<Rightarrow> string \<times> session_kind \<times> serialized_pane_node option" where
  "tab_shape s = (host_id (session_host s), kind s, map_option serializeLayout (layout s))"

lemma hosts_by_id_files: "files_by_id (hosts_by_id hs)"
  by (auto simp: files_by_id_def hosts_by_id_def dest!: map_of_SomeD)

lemma hosts_by_id_alive: "i \<in> host_id ` set hs \<Longrightarrow> hosts_by_id hs i \<noteq> None"
  unfolding hosts_by_id_def map_of_eq_None_iff by (auto simp: image_image)

lemma find_host_alive: "i \<in> host_id ` set hs \<Longrightarrow> \<exists>h. find_host hs i = Some h \<and> host_id h = i"
  unfolding find_host_def by (cases "List.find (\<lambda>h. host_id h = i) hs") (auto simp: find_None_iff find_Some_iff)

lemma gate_only_fields [simp]:
  "tabs (gate_only gate h sh) = tabs sh" "waiting (gate_only gate h sh) = waiting sh"
  by (simp_all add: gate_only_def)

lemma gates_fold_fields [simp]:
  "tabs (fold (\<lambda>g s. if P g then gate_only gate g s else s) hs sh) = tabs sh"
  "waiting (fold (\<lambda>g s. if P g then gate_only gate g s else s) hs sh) = waiting sh"
  by (induction hs arbitrary: sh) simp_all

lemma gate_passes: "gate_ok r \<Longrightarrow> fst (gate_end h r sh) = gate_open"
  by (simp add: gate_end_def)

text \<open>Waiting and being let through opens the tab; the store sees one \<open>openSession\<close>.\<close>

lemma passed_gate:
  assumes "gate_ok (gate h)" and "waiting sh = []" and "task = Connect_task h \<and> k = Terminal \<or> task = Sftp_task h \<and> k = Sftp"
  shows "tabs (await_gate u gate h (wait_at_gate task h) sh) = snd (openSession u h k (tabs sh))"
    and "waiting (await_gate u gate h (wait_at_gate task h) sh) = []"
proof -
  have "task_host task = h" using assms(3) by auto
  then obtain s where s: "gate_answered u (gates_opened sh) (gate h) (wait_at_gate task h sh) = after_gate u (gates_opened sh) task gate_open s"
    "tabs s = tabs sh" "waiting s = []"
    using gate_passes[OF assms(1)] assms(2)
    by (simp add: gate_answered_def case_prod_beta)
  show "tabs (await_gate u gate h (wait_at_gate task h) sh) = snd (openSession u h k (tabs sh))"
    "waiting (await_gate u gate h (wait_at_gate task h) sh) = []"
    using assms(2,3) s by (auto simp: await_gate_def Let_def open_tab_def gate_open_def case_prod_beta)
qed


text \<open>The shell while a workspace is opened: nothing waits, and every tab has its saved shape.\<close>

definition opening_ok :: "uuids \<Rightarrow> shell \<Rightarrow> (string \<times> session_kind \<times> serialized_pane_node option) list \<Rightarrow> bool" where
  "opening_ok u sh shapes \<longleftrightarrow> waiting sh = [] \<and> sessions_ok u (tabs sh)
     \<and> map tab_shape (openSessions (tabs sh)) = shapes"

definition terminal_shapes :: "(string \<times> session_kind \<times> serialized_pane_node option) list \<Rightarrow> string list" where
  "terminal_shapes shapes = map fst (filter (\<lambda>(i, k, l). k = Terminal) shapes)"

lemma terminal_shapes_eq: "terminal_ids ss = terminal_shapes (map tab_shape ss)"
  by (induction ss) (simp_all add: terminal_ids_def terminal_shapes_def tab_shape_def)

lemma openSession_tabs:
  "openSessions (snd (openSession u h k s)) = openSessions s @ [\<lparr>tabId = u (drawn s), kind = k, session_host = h,
      layout = (if k = Terminal then Some (Leaf \<lparr>leaf_paneId = u (Suc (drawn s)), leaf_host = h\<rparr>) else None),
      broadcastEnabled = False\<rparr>]"
  by (simp add: openSession_def Let_def)

lemma open_sftp_tab:
  assumes "inj u" "opening_ok u sh shapes" "gate_ok (gate h)" "find_host hs (wt_host_id tab) = Some h"
    and "host_id h = i" "wt_kind tab = ''sftp''"
  shows "\<exists>sh'. open_saved_tab u gate parse hs tab sh = Some sh' \<and> opening_ok u sh' (shapes @ [(i, Sftp, None)])"
proof -
  note p = passed_gate[of gate h sh "Sftp_task h" Sftp u, OF assms(3)]
  have w: "waiting sh = []" using assms(2) by (simp add: opening_ok_def)
  have "opening_ok u (sftp_now u gate h sh) (shapes @ [(i, Sftp, None)])"
    using assms(1,2,5) p[OF w] openSession_ok[of u "tabs sh" h Sftp]
    by (simp add: sftp_now_def handleOpenSftp_def[abs_def] opening_ok_def openSession_tabs tab_shape_def)
  then show ?thesis using assms(4,6) by (simp add: open_saved_tab_def)
qed

lemma terminal_tab_of_last:
  assumes "terminal_tab_of ss hid = None" "kind x = Terminal" "host_id (session_host x) = hid"
  shows "terminal_tab_of (ss @ [x]) hid = Some x"
proof -
  from assms(1) have "terminal_tab_of (ss @ ys) hid = terminal_tab_of ys hid" for ys
    by (induction ss) (auto simp: terminal_tab_of_def split: if_splits)
  with assms(2,3) show ?thesis by (simp add: terminal_tab_of_def)
qed

lemma map_at_last:
  assumes "distinct (map key (xs @ [x]))"
  shows "map_at key (key x) f (xs @ [x]) = xs @ [f x]"
  using map_at_absent[of "key x" key xs f] assms by (simp add: map_at_def)

lemma open_terminal_tab:
  assumes inj: "inj u" and ok: "opening_ok u sh shapes" and gates: "\<And>h. gate_ok (gate h)"
    and h: "find_host hs (wt_host_id tab) = Some h" "host_id h = i" and kind: "wt_kind tab = ''terminal''"
    and json: "wt_layout_json tab = Some j" "j \<noteq> []" "parse j = Some (serializeLayout t)"
    and t: "tree_ok t" "countLeaves t \<le> MAX_PANES" "\<forall>l \<in> set (collectLeaves t). host_id (leaf_host l) \<in> host_id ` set hs"
    and new: "i \<notin> set (terminal_shapes shapes)"
  shows "\<exists>sh'. open_saved_tab u gate parse hs tab sh = Some sh'
     \<and> opening_ok u sh' (shapes @ [(i, Terminal, Some (serializeLayout t))])"
proof -
  have w: "waiting sh = []" "sessions_ok u (tabs sh)" "map tab_shape (openSessions (tabs sh)) = shapes"
    using ok by (simp_all add: opening_ok_def)
  have none: "terminal_tab_of (openSessions (tabs sh)) i = None"
    using new w(3) by (simp add: terminal_tab_None terminal_shapes_eq)
  define sh1 where "sh1 = connect_now u gate h sh"
  define x where "x = \<lparr>tabId = u (drawn (tabs sh)), kind = Terminal, session_host = h,
      layout = Some (Leaf \<lparr>leaf_paneId = u (Suc (drawn (tabs sh))), leaf_host = h\<rparr>), broadcastEnabled = False\<rparr>"
  have conn: "connect_now u gate h sh = await_gate u gate h (wait_at_gate (Connect_task h) h) sh"
    using none h(2) by (simp add: connect_now_def await_gate_def handleConnect_def)
  have sh1: "tabs sh1 = snd (openSession u h Terminal (tabs sh))" "waiting sh1 = []"
    using passed_gate[of gate h sh "Connect_task h" Terminal u, OF gates w(1)] by (simp_all add: sh1_def conn)
  have ss1: "openSessions (tabs sh1) = openSessions (tabs sh) @ [x]"
    by (simp add: sh1 openSession_tabs x_def)
  have ok1: "sessions_ok u (tabs sh1)" unfolding sh1 by (rule openSession_ok[OF w(2) inj])
  have found: "terminal_tab_of (openSessions (tabs sh1)) (host_id h) = Some x"
    unfolding ss1 h(2) by (rule terminal_tab_of_last[OF none]) (simp_all add: x_def h(2))
  have alive: "\<forall>l \<in> set (collectLeaves t). hosts_by_id hs (host_id (leaf_host l)) \<noteq> None"
    using t(3) hosts_by_id_alive by blast
  obtain t' k where t': "deserializeLayout u (drawn (tabs sh1)) (serializeLayout t) (hosts_by_id hs) = (Some t', k)"
    "serializeLayout t' = serializeLayout t"
    using save_restore[OF inj hosts_by_id_files t(1) alive] by blast
  define sh2 where "sh2 = restore_saved u gate (hosts_by_id hs) h (tabId x) (serializeLayout t) (wt_pane_count tab) sh1"
  have sh2: "tabs sh2 = restoreLayout u (tabId x) (serializeLayout t) (hosts_by_id hs) (tabs sh1)" "waiting sh2 = []"
    using t' sh1(2) by (simp_all add: sh2_def restore_saved_def restoreLayout_def Let_def)
  have "sessions_ok u (tabs sh2)"
    unfolding sh2
  proof (rule restoreLayout_ok[OF ok1 inj hosts_by_id_files])
    show "saved_ratios_ok (serializeLayout t)" using t(1) by (simp add: saved_ratios_serialize tree_ok_def)
    show "length (saved_hosts (serializeLayout t)) \<le> MAX_PANES"
      using t(2) by (simp add: saved_hosts_serialize countLeaves_eq)
    have "tabId x \<notin> tabId ` set (openSessions (tabs sh))"
      using ok1 by (simp add: ss1 sessions_ok_def)
    then show "kind y = Terminal" if "y \<in> set (openSessions (tabs sh1))" "tabId y = tabId x" for y
      using that ss1 by (auto simp: x_def image_iff)
  qed
  moreover have "openSessions (tabs sh2) = openSessions (tabs sh) @ [x\<lparr>layout := Some t'\<rparr>]"
    using ok1 unfolding sh2 restoreLayout_def t'
    by (simp add: setLayout_def ss1 sessions_ok_def map_at_last)
  ultimately have "opening_ok u sh2 (shapes @ [(i, Terminal, Some (serializeLayout t))])"
    using w(3) sh2(2) t'(2) h(2) by (simp add: opening_ok_def tab_shape_def x_def)
  moreover have "open_saved_tab u gate parse hs tab sh = Some sh2"
    using h(1) kind json found by (simp add: open_saved_tab_def Let_def truthy_def flip: sh1_def sh2_def)
  ultimately show ?thesis by blast
qed


lemma shape_cases:
  assumes "sessions_ok u s" "x \<in> set (openSessions s)"
  obtains "kind x = Sftp" "layout x = None"
    | t where "kind x = Terminal" "layout x = Some t" "tree_ok t" "countLeaves t \<le> MAX_PANES"
  using assms by (cases "layout x") (auto simp: sessions_ok_def tab_ok_def)

text \<open>The rows of a saved workspace, as the backend gives them back.\<close>

definition row_input :: "workspace_tab \<Rightarrow> workspace_tab_input" where
  "row_input r =
     \<lparr>wti_host_id = wt_host_id r, wti_kind = wt_kind r, wti_pane_count = wt_pane_count r,
      wti_layout_json = wt_layout_json r, wti_sort_order = wt_sort_order r\<rparr>"

lemma sorted_rows:
  assumes "mset (map row_input rows) = mset (workspace_snapshot stringify ss)"
  shows "map row_input (js_sort (\<lambda>a b. wt_sort_order a - wt_sort_order b) rows) = workspace_snapshot stringify ss"
proof -
  let ?s = "js_sort (\<lambda>a b. wt_sort_order a - wt_sort_order b) rows"
  have "sorted_wrt (\<lambda>a b. wti_sort_order a - wti_sort_order b \<le> 0) (map row_input ?s)"
    using comparator.js_sort_sorted[OF comparator_key[of wt_sort_order], of rows]
    by (simp add: sorted_wrt_map row_input_def)
  moreover have "sorted_wrt (\<lambda>a b. wti_sort_order a - wti_sort_order b < 0) (workspace_snapshot stringify ss)"
    by (auto simp: workspace_snapshot_def sorted_wrt_iff_nth_less nth_enumerate_eq snapshot_tab_def)
  moreover have "mset (map row_input ?s) = mset (workspace_snapshot stringify ss)"
    using assms by simp
  ultimately show ?thesis
    by (rule comparator.sorted_unique[OF comparator_key[of wti_sort_order]])
qed

text \<open>What the restored state needs of the saved one.\<close>

definition savable :: "host list \<Rightarrow> sessions_state \<Rightarrow> bool" where
  "savable hs s \<longleftrightarrow> distinct (terminal_ids (openSessions s))
     \<and> (\<forall>x \<in> set (openSessions s). host_id (session_host x) \<in> host_id ` set hs
          \<and> (\<forall>l \<in> set (closing_panes (Some x)). host_id (leaf_host l) \<in> host_id ` set hs))"

text \<open>Writing a layout of the saved state as JSON and reading it back gives the layout.\<close>

definition json_ok ::
  "(serialized_pane_node \<Rightarrow> string) \<Rightarrow> (string \<Rightarrow> serialized_pane_node option) \<Rightarrow> sessions_state \<Rightarrow> bool" where
  "json_ok stringify parse s \<longleftrightarrow>
     (\<forall>x \<in> set (openSessions s). \<forall>t. layout x = Some t \<longrightarrow>
        stringify (serializeLayout t) \<noteq> [] \<and> parse (stringify (serializeLayout t)) = Some (serializeLayout t))"

lemma open_rows:
  assumes inj: "inj u" and gates: "\<And>h. gate_ok (gate h)"
    and json: "json_ok stringify parse s"
    and s: "sessions_ok u s" "savable hs s" and ss: "openSessions s = done @ todo"
    and ok: "opening_ok u sh (map tab_shape done)"
    and rows: "map row_input rows = map (snapshot_tab stringify) (enumerate n todo)"
  shows "\<exists>sh'. open_saved_tabs u gate parse hs rows sh = Some sh' \<and> opening_ok u sh' (map tab_shape (openSessions s))"
  using ss ok rows
proof (induction todo arbitrary: "done" sh rows n)
  case Nil
  then show ?case by simp
next
  case (Cons x todo)
  then obtain r rs where r: "rows = r # rs" "row_input r = snapshot_tab stringify (n, x)"
    "map row_input rs = map (snapshot_tab stringify) (enumerate (Suc n) todo)" by (cases rows) auto
  have x: "x \<in> set (openSessions s)" using Cons.prems(1) by simp
  then have alive: "host_id (session_host x) \<in> host_id ` set hs"
    "\<And>l. l \<in> set (closing_panes (Some x)) \<Longrightarrow> host_id (leaf_host l) \<in> host_id ` set hs"
    using s(2) by (auto simp: savable_def)
  obtain h where h: "find_host hs (wt_host_id r) = Some h" "host_id h = host_id (session_host x)"
    using find_host_alive[OF alive(1)] r(2) by (auto simp: row_input_def snapshot_tab_def)
  have "\<exists>sh1. open_saved_tab u gate parse hs r sh = Some sh1
      \<and> opening_ok u sh1 (map tab_shape done @ [tab_shape x])"
  proof (rule shape_cases[OF s(1) x])
    assume k: "kind x = Sftp" "layout x = None"
    then have "wt_kind r = ''sftp''" using r(2) by (simp add: row_input_def snapshot_tab_def)
    have "tab_shape x = (host_id (session_host x), Sftp, None)" using k by (simp add: tab_shape_def)
    with open_sftp_tab[where gate = gate and h = h, OF inj Cons.prems(2) gates h \<open>wt_kind r = _\<close>]
    show ?thesis by simp
  next
    fix t
    assume k: "kind x = Terminal" "layout x = Some t" "tree_ok t" "countLeaves t \<le> MAX_PANES"
    then have j: "wt_kind r = ''terminal''" "wt_layout_json r = Some (stringify (serializeLayout t))"
      using r(2) by (simp_all add: row_input_def snapshot_tab_def)
    have "\<forall>l \<in> set (collectLeaves t). host_id (leaf_host l) \<in> host_id ` set hs"
      using alive(2) k(2) by (simp add: closing_panes_def)
    moreover have "host_id (session_host x) \<notin> set (terminal_shapes (map tab_shape done))"
    proof -
      have "distinct (terminal_ids (done @ x # todo))" using s(2) Cons.prems(1) by (simp add: savable_def)
      then show ?thesis using k(1) by (auto simp: terminal_ids_def terminal_shapes_eq[symmetric])
    qed
    moreover have "stringify (serializeLayout t) \<noteq> []" "parse (stringify (serializeLayout t)) = Some (serializeLayout t)"
      using json x k(2) by (auto simp: json_ok_def)
    moreover have "tab_shape x = (host_id (session_host x), Terminal, Some (serializeLayout t))"
      using k by (simp add: tab_shape_def)
    ultimately show ?thesis
      using open_terminal_tab[where parse = parse and t = t, OF inj Cons.prems(2) gates h j(1,2) _ _ k(3,4)] by simp
  qed
  then obtain sh1 where sh1: "open_saved_tab u gate parse hs r sh = Some sh1"
    "opening_ok u sh1 (map tab_shape (done @ [x]))" by auto
  from Cons.IH[OF _ sh1(2) r(3)] Cons.prems(1) sh1(1) r(1) show ?case by simp
qed

text \<open>
  C12: Saving what is open and opening it again restores it: when the hosts of all tabs and panes
  still exist, no host has two terminal tabs, the VPN gate lets every host through and the
  backend gives back the saved rows in whatever order, then opening the workspace in an empty
  shell ends without an error, with the same tabs in the same order, each of the same kind, on
  the same host and with the same split layout, and a well-formed tab store.
\<close>
theorem workspace_roundtrip:
  assumes "inj u" and "\<And>h. gate_ok (gate h)" and "json_ok stringify parse (tabs saved)"
    and "sessions_ok u (tabs saved)" and "savable (shell_hosts sh) (tabs saved)"
    and "mset (map row_input rows) = mset (workspace_snapshot stringify (openSessions (tabs saved)))"
    and "openSessions (tabs sh) = []" and "waiting sh = []"
  shows "\<exists>sh'. handleOpenWorkspace u gate parse rows sh = Some sh'
     \<and> map tab_shape (openSessions (tabs sh')) = map tab_shape (openSessions (tabs saved))
     \<and> sessions_ok u (tabs sh')"
proof -
  have "opening_ok u sh (map tab_shape [])"
    using assms(7,8) by (simp add: opening_ok_def sessions_ok_def all_panes_def)
  moreover have "map row_input (js_sort (\<lambda>a b. wt_sort_order a - wt_sort_order b) rows)
      = map (snapshot_tab stringify) (enumerate 0 (openSessions (tabs saved)))"
    using sorted_rows[OF assms(6)] by (simp add: workspace_snapshot_def)
  ultimately obtain sh' where "handleOpenWorkspace u gate parse rows sh = Some sh'"
    "opening_ok u sh' (map tab_shape (openSessions (tabs saved)))"
    using open_rows[where gate = gate and parse = parse and stringify = stringify, OF assms(1-5), of "[]"]
    unfolding handleOpenWorkspace_def by (metis append_Nil)
  then show ?thesis by (auto simp: opening_ok_def)
qed


text \<open>A terminal on \<open>h\<close>, split, and a file browser; the rows come back in reverse order.\<close>

definition saved_shell :: shell where
  "saved_shell = shell_run sample_uuids (initial_shell initial_settings 1400)
     [Open_sftp (sample_host ''h'' None), Gate_answer 0 gate_open, Connect_host (sample_host ''h'' None),
      Gate_answer 1 gate_open, Split_click ''xx'' ''xxx'' Row None, Gate_answer 2 gate_open]"

definition sample_layout :: serialized_pane_node where
  "sample_layout = Saved_split Row (1 / 2) (Saved_leaf ''h'') (Saved_leaf ''h'')"

definition saved_rows :: "workspace_tab list" where
  "saved_rows =
     [\<lparr>wt_id = ''2'', wt_workspace_id = ''w'', wt_host_id = ''h'', wt_kind = ''terminal'', wt_pane_count = 2,
       wt_layout_json = Some ''{}'', wt_sort_order = 1\<rparr>,
      \<lparr>wt_id = ''1'', wt_workspace_id = ''w'', wt_host_id = ''h'', wt_kind = ''sftp'', wt_pane_count = 1,
       wt_layout_json = None, wt_sort_order = 0\<rparr>]"

theorem workspace_roundtrip_witness:
  "\<exists>sh'. handleOpenWorkspace sample_uuids (\<lambda>h. gate_open) (\<lambda>j. Some sample_layout) saved_rows
        ((initial_shell initial_settings 1400)\<lparr>shell_hosts := [sample_host ''h'' None]\<rparr>) = Some sh'
     \<and> map tab_shape (openSessions (tabs sh')) = [(''h'', Sftp, None), (''h'', Terminal, Some sample_layout)]"
proof -
  let ?sh = "(initial_shell initial_settings 1400)\<lparr>shell_hosts := [sample_host ''h'' None]\<rparr>"
  have shapes: "map tab_shape (openSessions (tabs saved_shell)) = [(''h'', Sftp, None), (''h'', Terminal, Some sample_layout)]"
    by code_simp
  have json: "json_ok (\<lambda>t. ''{}'') (\<lambda>j. Some sample_layout) (tabs saved_shell)"
    unfolding json_ok_def
  proof (intro ballI allI impI)
    fix x t
    assume "x \<in> set (openSessions (tabs saved_shell))" "layout x = Some t"
    then have "(host_id (session_host x), kind x, Some (serializeLayout t)) \<in> set (map tab_shape (openSessions (tabs saved_shell)))"
      by (force simp: tab_shape_def)
    then show "''{}'' \<noteq> [] \<and> Some sample_layout = Some (serializeLayout t)" unfolding shapes by simp
  qed
  have ok: "sessions_ok sample_uuids (tabs saved_shell)"
    using shell.inv_run[of sample_uuids initial_settings 1400] by (simp add: saved_shell_def shell_ok_def del: foldl_Cons)
  have sav: "savable (shell_hosts ?sh) (tabs saved_shell)" by code_simp
  have "map row_input (rev saved_rows) = workspace_snapshot (\<lambda>t. ''{}'') (openSessions (tabs saved_shell))"
    by code_simp
  then have rows: "mset (map row_input saved_rows) = mset (workspace_snapshot (\<lambda>t. ''{}'') (openSessions (tabs saved_shell)))"
    by (metis mset_rev rev_map)
  have empty: "openSessions (tabs ?sh) = []" "waiting ?sh = []" and "gate_ok gate_open" by code_simp+
  from workspace_roundtrip[where gate = "\<lambda>h. gate_open", OF inj_sample_uuids this(3) json ok sav rows empty]
  obtain sh' where "handleOpenWorkspace sample_uuids (\<lambda>h. gate_open) (\<lambda>j. Some sample_layout) saved_rows ?sh = Some sh'"
    "map tab_shape (openSessions (tabs sh')) = map tab_shape (openSessions (tabs saved_shell))" by (elim exE conjE)
  then show ?thesis unfolding shapes by (intro exI[of _ sh'] conjI)
qed

end
