(* ===== verification/Hosts_Grid.thy ===== *)
theory Hosts_Grid
  imports App_Shell
begin

text \<open>
  What the shell offers for finding a host: the command palette
  \<open>src/src/components/common/CommandPalette.tsx\<close> with the actions \<open>AppShell.tsx\<close> gives it, and
  the page of host cards of \<open>AppShell.tsx\<close> with its search, its collapsible groups, which can
  be reordered by dragging, and the import and export of CSV files.

  As in \<^theory_text>\<open>Group_Tree\<close> the collation is an argument \<open>lc\<close> and the recursion over groups
  carries the depth of the calls left. \<open>Date.parse\<close> is an argument \<open>parse\<close>, with
  \<^const>\<open>None\<close> for NaN.
\<close>

section \<open>The command palette\<close>

record palette_action =
  action_id :: string
  action_label :: string
  action_run :: "shell \<Rightarrow> shell"

definition paletteActions :: "palette_action list" where
  "paletteActions =
     [\<lparr>action_id = ''new-host'', action_label = ''New Host'', action_run = openModal (Some (Host_modal None None))\<rparr>,
      \<lparr>action_id = ''new-group'', action_label = ''New Group'', action_run = openModal (Some (Group_modal None None))\<rparr>,
      \<lparr>action_id = ''go-hosts'', action_label = ''Go to Hosts'', action_run = handleActivitySelect Hosts_tab\<rparr>,
      \<lparr>action_id = ''go-identities'', action_label = ''Go to Identities'', action_run = handleActivitySelect Identities_tab\<rparr>,
      \<lparr>action_id = ''go-keys'', action_label = ''Go to Keys'', action_run = handleActivitySelect Keys_tab\<rparr>,
      \<lparr>action_id = ''go-vpn'', action_label = ''Go to VPN'', action_run = handleActivitySelect Vpn_tab\<rparr>,
      \<lparr>action_id = ''go-workspaces'', action_label = ''Go to Workspaces'', action_run = handleActivitySelect Workspaces_tab\<rparr>,
      \<lparr>action_id = ''go-backup'', action_label = ''Go to Backup'', action_run = handleActivitySelect Backup_tab\<rparr>,
      \<lparr>action_id = ''go-settings'', action_label = ''Go to Settings (Known Hosts, etc.)'', action_run = handleActivitySelect Settings_tab\<rparr>,
      \<lparr>action_id = ''toggle-snippets'', action_label = ''Toggle Snippets panel'', action_run = handleSnippetsToggle\<rparr>]"

datatype palette_item = Host_item host | Action_item palette_action

definition MAX_RESULTS :: nat where "MAX_RESULTS = 8"

record command_palette =
  query :: string
  selected :: int

definition initial_palette :: command_palette where
  "initial_palette = \<lparr>query = [], selected = 0\<rparr>"

definition palette_q :: "command_palette \<Rightarrow> string" where
  "palette_q cp = toLowerCase (trim (query cp))"

definition matchedHosts :: "host list \<Rightarrow> string \<Rightarrow> host list" where
  "matchedHosts hs q =
     take MAX_RESULTS
       (if q = [] then hs
        else filter (\<lambda>h. str_includes (toLowerCase (host_label h)) q
               \<or> str_includes (toLowerCase (host_hostname h)) q
               \<or> list_ex (\<lambda>t. str_includes (toLowerCase (tag_label t)) q) (host_tags h)) hs)"

definition matchedActions :: "palette_action list \<Rightarrow> string \<Rightarrow> palette_action list" where
  "matchedActions acts q =
     take MAX_RESULTS
       (if q = [] then acts else filter (\<lambda>a. str_includes (toLowerCase (action_label a)) q) acts)"

definition palette_items :: "host list \<Rightarrow> palette_action list \<Rightarrow> command_palette \<Rightarrow> palette_item list" where
  "palette_items hs acts cp =
     map Host_item (matchedHosts hs (palette_q cp)) @ map Action_item (matchedActions acts (palette_q cp))"

text \<open>
  The shell mounts the palette while \<^const>\<open>paletteOpen\<close> is set; closing it clears the flag,
  and the palette's own state is gone. A step answers with the palette, if it is still open.
\<close>

definition close_palette :: "shell \<Rightarrow> shell" where
  "close_palette sh = sh\<lparr>paletteOpen := False\<rparr>"

fun runItem :: "palette_item \<Rightarrow> shell \<Rightarrow> shell" where
  "runItem (Host_item h) sh = close_palette (handleConnect h sh)"
| "runItem (Action_item a) sh = close_palette (action_run a sh)"

datatype palette_event =
    Palette_query string
  | Palette_escape
  | Palette_down
  | Palette_up
  | Palette_enter
  | Palette_hover nat
  | Palette_click nat
  | Palette_outside

text \<open>
  The effect on \<open>[q]\<close> resets the selection when the trimmed text has changed. The pointer can
  only be over a button that is rendered.
\<close>

fun palette_step ::
  "host list \<Rightarrow> palette_action list \<Rightarrow> command_palette \<Rightarrow> palette_event \<Rightarrow> shell \<Rightarrow>
     command_palette option \<times> shell" where
  "palette_step hs acts cp (Palette_query text) sh =
     (let cp' = cp\<lparr>query := text\<rparr>
      in (Some (if palette_q cp' \<noteq> palette_q cp then cp'\<lparr>selected := 0\<rparr> else cp'), sh))"
| "palette_step hs acts cp Palette_escape sh = (None, close_palette sh)"
| "palette_step hs acts cp Palette_down sh =
     (Some (cp\<lparr>selected := min (selected cp + 1) (int (length (palette_items hs acts cp)) - 1)\<rparr>), sh)"
| "palette_step hs acts cp Palette_up sh = (Some (cp\<lparr>selected := max (selected cp - 1) 0\<rparr>), sh)"
| "palette_step hs acts cp Palette_enter sh =
     (if 0 \<le> selected cp \<and> selected cp < int (length (palette_items hs acts cp))
      then (None, runItem (palette_items hs acts cp ! nat (selected cp)) sh)
      else (Some cp, sh))"
| "palette_step hs acts cp (Palette_hover i) sh =
     (if i < length (palette_items hs acts cp) then (Some (cp\<lparr>selected := int i\<rparr>), sh) else (Some cp, sh))"
| "palette_step hs acts cp (Palette_click i) sh =
     (if i < length (palette_items hs acts cp) then (None, runItem (palette_items hs acts cp ! i) sh)
      else (Some cp, sh))"
| "palette_step hs acts cp Palette_outside sh = (None, close_palette sh)"

fun palette_run ::
  "host list \<Rightarrow> palette_action list \<Rightarrow> command_palette \<Rightarrow> palette_event list \<Rightarrow> shell \<Rightarrow>
     command_palette option \<times> shell" where
  "palette_run hs acts cp [] sh = (Some cp, sh)"
| "palette_run hs acts cp (e # es) sh =
     (case palette_step hs acts cp e sh of
        (None, sh') \<Rightarrow> (None, sh')
      | (Some cp', sh') \<Rightarrow> palette_run hs acts cp' es sh')"

section \<open>Searching the grid\<close>

definition hostsGridQuery :: "string \<Rightarrow> string" where
  "hostsGridQuery text = toLowerCase (trim text)"

definition identity_of :: "identity list \<Rightarrow> host \<Rightarrow> identity option" where
  "identity_of ids h = List.find (\<lambda>candidate. Some (identity_id candidate) = host_identity_id h) ids"

definition hostMatchesGridSearch :: "string \<Rightarrow> identity list \<Rightarrow> host \<Rightarrow> bool" where
  "hostMatchesGridSearch q ids h \<longleftrightarrow>
     q = []
     \<or> str_includes (toLowerCase (host_label h)) q
     \<or> str_includes (toLowerCase (host_hostname h)) q
     \<or> (case identity_of ids h of None \<Rightarrow> False | Some i \<Rightarrow> str_includes (toLowerCase (identity_username i)) q)
     \<or> list_ex (\<lambda>t. str_includes (toLowerCase (tag_label t)) q) (host_tags h)"

text \<open>A comparison with NaN is neither less nor greater, which sorting takes as a tie.\<close>

definition card_order :: "(string \<Rightarrow> int option) \<Rightarrow> host \<Rightarrow> host \<Rightarrow> int" where
  "card_order parse a b =
     (case (parse (the (host_last_connected_at b)), parse (the (host_last_connected_at a))) of
        (Some y, Some x) \<Rightarrow> y - x | _ \<Rightarrow> 0)"

definition recent_cards :: "(string \<Rightarrow> int option) \<Rightarrow> host list \<Rightarrow> host list" where
  "recent_cards parse hs =
     take 5 (js_sort (card_order parse) (filter (\<lambda>h. host_last_connected_at h \<noteq> None) hs))"

record server_card =
  card_host :: host
  card_identity :: "identity option"
  card_selected :: bool
  card_open :: bool

definition renderServerCard :: "identity list \<Rightarrow> shell \<Rightarrow> host \<Rightarrow> server_card" where
  "renderServerCard ids sh h =
     \<lparr>card_host = h, card_identity = identity_of ids h, card_selected = (selectedHostId sh = Some (host_id h)),
      card_open = list_ex (\<lambda>s. host_id (session_host s) = host_id h) (openSessions (tabs sh))\<rparr>"

section \<open>The groups of the grid\<close>

text \<open>
  A level is its sections, one per group with the number of its own hosts and, unless it is
  collapsed, its content; then its own hosts, under a heading \<open>Ungrouped\<close> on the top level.
\<close>

datatype grid_level = Grid_level "grid_section list" bool "host list"
and grid_section = Grid_section group bool nat "grid_level option"

fun groupHasGridMatch ::
  "string \<Rightarrow> identity list \<Rightarrow> group list \<Rightarrow> host list \<Rightarrow> nat \<Rightarrow> string \<Rightarrow> bool option" where
  "groupHasGridMatch q ids gs hs 0 groupId = None"
| "groupHasGridMatch q ids gs hs (Suc f) groupId =
     (if q = [] then Some True
      else if list_ex (\<lambda>h. host_group_id h = Some groupId \<and> hostMatchesGridSearch q ids h) hs then Some True
      else some_m (\<lambda>g. groupHasGridMatch q ids gs hs f (group_id g))
             (filter (\<lambda>g. group_parent_id g = Some groupId) gs))"

fun renderGroupSection ::
  "(string \<Rightarrow> string \<Rightarrow> int) \<Rightarrow> string \<Rightarrow> identity list \<Rightarrow> string set \<Rightarrow> group list \<Rightarrow> host list \<Rightarrow>
     nat \<Rightarrow> string option \<Rightarrow> grid_level option" where
  "renderGroupSection lc q ids collapsedGroups gs hs 0 parentId = None"
| "renderGroupSection lc q ids collapsedGroups gs hs (Suc f) parentId =
     (let all = getGroupChildren lc gs hs parentId;
          own = filter (hostMatchesGridSearch q ids) (childHosts all) in
      case filter_m (\<lambda>g. groupHasGridMatch q ids gs hs (Suc f) (group_id g)) (childGroups all) of
        None \<Rightarrow> None
      | Some shown \<Rightarrow>
          (case map_m (\<lambda>g.
              let isCollapsed = q = [] \<and> group_id g \<in> collapsedGroups;
                  directCount = length (filter (\<lambda>h. host_group_id h = Some (group_id g)) hs)
              in if isCollapsed then Some (Grid_section g isCollapsed directCount None)
                 else map_option (\<lambda>level. Grid_section g isCollapsed directCount (Some level))
                        (renderGroupSection lc q ids collapsedGroups gs hs f (Some (group_id g)))) shown of
             None \<Rightarrow> None
           | Some sections \<Rightarrow>
               Some (Grid_level sections (own \<noteq> [] \<and> parentId = None \<and> gs \<noteq> []) own)))"

datatype grid_part =
    Recent_cards "host list" | Expand_collapse_buttons | No_servers | No_matching_servers | Groups_part grid_level

definition hosts_page ::
  "(string \<Rightarrow> string \<Rightarrow> int) \<Rightarrow> (string \<Rightarrow> int option) \<Rightarrow> string \<Rightarrow> identity list \<Rightarrow> string set \<Rightarrow> group list \<Rightarrow>
     host list \<Rightarrow> nat \<Rightarrow> grid_part list option" where
  "hosts_page lc parse text ids collapsedGroups gs hs f =
     (let q = hostsGridQuery text;
          above = (if q = [] \<and> recent_cards parse hs \<noteq> [] then [Recent_cards (recent_cards parse hs)] else [])
                @ (if gs \<noteq> [] \<and> hs \<noteq> [] then [Expand_collapse_buttons] else [])
      in if hs = [] then Some (above @ [No_servers])
         else if q \<noteq> [] \<and> \<not> list_ex (hostMatchesGridSearch q ids) hs then Some (above @ [No_matching_servers])
         else map_option (\<lambda>level. above @ [Groups_part level])
                (renderGroupSection lc q ids collapsedGroups gs hs f None))"

definition toggleGroupCollapsed :: "string \<Rightarrow> string set \<Rightarrow> string set" where
  "toggleGroupCollapsed i prev = (if i \<in> prev then prev - {i} else insert i prev)"

definition collapse_all_cards :: "group list \<Rightarrow> string set" where
  "collapse_all_cards gs = set (map group_id gs)"

section \<open>Dragging a group\<close>

datatype drop_position = Before | After

record group_drag =
  draggedGroupId :: "string option"
  groupDropTarget :: "(string \<times> drop_position) option"

definition initial_drag :: group_drag where
  "initial_drag = \<lparr>draggedGroupId = None, groupDropTarget = None\<rparr>"

definition handleGroupDragStart :: "string \<Rightarrow> group_drag \<Rightarrow> group_drag" where
  "handleGroupDragStart groupId d = d\<lparr>draggedGroupId := Some groupId\<rparr>"

definition find_group :: "group list \<Rightarrow> string option \<Rightarrow> group option" where
  "find_group gs i = List.find (\<lambda>g. Some (group_id g) = i) gs"

text \<open>The pointer's height and the top and height of the element it is over.\<close>

definition handleGroupDragOver :: "group list \<Rightarrow> group \<Rightarrow> real \<Rightarrow> real \<Rightarrow> real \<Rightarrow> group_drag \<Rightarrow> group_drag" where
  "handleGroupDragOver gs target clientY boundsTop boundsHeight d =
     (case find_group gs (draggedGroupId d) of
        None \<Rightarrow> d
      | Some dragged \<Rightarrow>
          (if group_id dragged = group_id target \<or> group_parent_id dragged \<noteq> group_parent_id target then d
           else d\<lparr>groupDropTarget := Some (group_id target, if clientY < boundsTop + boundsHeight / 2 then Before else After)\<rparr>))"

text \<open>\<open>findIndex\<close> and \<open>splice(i, 0, x)\<close>: a negative index counts from the end.\<close>

definition js_findIndex :: "('a \<Rightarrow> bool) \<Rightarrow> 'a list \<Rightarrow> int" where
  "js_findIndex P xs = (if list_ex P xs then int (length (takeWhile (\<lambda>x. \<not> P x) xs)) else - 1)"

definition js_splice_in :: "int \<Rightarrow> 'a \<Rightarrow> 'a list \<Rightarrow> 'a list" where
  "js_splice_in i x xs =
     (let k = (if i < 0 then nat (int (length xs) + i) else nat i) in take k xs @ x # drop k xs)"

definition dropped_order :: "(string \<Rightarrow> string \<Rightarrow> int) \<Rightarrow> group list \<Rightarrow> host list \<Rightarrow> group \<Rightarrow> group \<Rightarrow> group_drag \<Rightarrow> group list" where
  "dropped_order lc gs hs dragged target d =
     (let siblings = childGroups (getGroupChildren lc gs hs (group_parent_id target));
          reordered = filter (\<lambda>g. group_id g \<noteq> group_id dragged) siblings;
          targetIndex = js_findIndex (\<lambda>g. group_id g = group_id target) reordered;
          insertAt = targetIndex
            + (case groupDropTarget d of Some (_, After) \<Rightarrow> 1 | _ \<Rightarrow> 0)
      in js_splice_in insertAt dragged reordered)"

text \<open>The calls made, the error that is shown, and the state of the drag.\<close>

definition handleGroupDrop ::
  "(string \<Rightarrow> string \<Rightarrow> int) \<Rightarrow> group list \<Rightarrow> host list \<Rightarrow> (bridge_call \<Rightarrow> string option) \<Rightarrow> string option \<Rightarrow>
     group \<Rightarrow> group_drag \<Rightarrow> effect list \<times> string option \<times> group_drag" where
  "handleGroupDrop lc gs hs refuses reload_error target d =
     (case find_group gs (draggedGroupId d) of
        None \<Rightarrow> ([], None, d)
      | Some dragged \<Rightarrow>
          (if group_id dragged = group_id target \<or> group_parent_id dragged \<noteq> group_parent_id target
           then ([], None, d)
           else (case reorderGroups refuses reload_error (dropped_order lc gs hs dragged target d) of
                   (calls, failure) \<Rightarrow>
                     (calls, map_option (\<lambda>e. ''Group order could not be saved: '' @ e) failure,
                      d\<lparr>draggedGroupId := None, groupDropTarget := None\<rparr>))))"

definition handleGroupDragEnd :: "group_drag \<Rightarrow> group_drag" where
  "handleGroupDragEnd d = d\<lparr>draggedGroupId := None, groupDropTarget := None\<rparr>"

section \<open>CSV files\<close>

text \<open>
  Each handler awaits calls one after the other; the answers are arguments, with a thrown
  error on the left. The dialogs answer with no path when they are cancelled.
\<close>

record csv_state =
  csvError :: "string option"
  importResult :: "import_summary option"

datatype csv_effect =
    Csv_export | Save_dialog | Write_file string string
  | Open_dialog | Read_file string | Csv_import string | Csv_notify string bool

datatype picked = Cancelled | Picked string | Several "string list"

definition csv_failed :: "string \<Rightarrow> string \<Rightarrow> csv_state \<Rightarrow> csv_effect list \<Rightarrow> csv_state \<times> csv_effect list" where
  "csv_failed e message s done = (s\<lparr>csvError := Some e\<rparr>, done @ [Csv_notify message False])"

definition handleExportCsv ::
  "string + string \<Rightarrow> string + string option \<Rightarrow> string + unit \<Rightarrow> csv_state \<Rightarrow> csv_state \<times> csv_effect list" where
  "handleExportCsv exported dialog written s0 =
     (let s = s0\<lparr>csvError := None\<rparr>; failed = \<lambda>e. csv_failed e ''Hosts could not be exported.'' s in
      case exported of
        Inl e \<Rightarrow> failed e [Csv_export]
      | Inr csv \<Rightarrow>
          (case dialog of
             Inl e \<Rightarrow> failed e [Csv_export, Save_dialog]
           | Inr path \<Rightarrow>
               (if \<not> truthy path then (s, [Csv_export, Save_dialog])
                else (case written of
                        Inl e \<Rightarrow> failed e [Csv_export, Save_dialog, Write_file (the path) csv]
                      | Inr _ \<Rightarrow> (s, [Csv_export, Save_dialog, Write_file (the path) csv,
                                     Csv_notify ''Hosts exported successfully.'' True])))))"

definition handleImportCsv ::
  "string + picked \<Rightarrow> string + string \<Rightarrow> string + import_summary \<Rightarrow> csv_state \<Rightarrow> csv_state \<times> csv_effect list" where
  "handleImportCsv dialog content imported s0 =
     (let s = s0\<lparr>csvError := None\<rparr>; failed = \<lambda>e. csv_failed e ''Hosts could not be imported.'' s in
      case dialog of
        Inl e \<Rightarrow> failed e [Open_dialog]
      | Inr Cancelled \<Rightarrow> (s, [Open_dialog])
      | Inr (Several ps) \<Rightarrow> (s, [Open_dialog])
      | Inr (Picked path) \<Rightarrow>
          (if path = [] then (s, [Open_dialog])
           else (case content of
                   Inl e \<Rightarrow> failed e [Open_dialog, Read_file path]
                 | Inr text \<Rightarrow>
                     (case imported of
                        Inl e \<Rightarrow> failed e [Open_dialog, Read_file path, Csv_import text]
                      | Inr summary \<Rightarrow>
                          (s\<lparr>importResult := Some summary\<rparr>,
                           [Open_dialog, Read_file path, Csv_import text,
                            Csv_notify ''Host import completed.'' True])))))"

section \<open>The palette's selection\<close>

definition palette_valid :: "host list \<Rightarrow> palette_action list \<Rightarrow> command_palette \<Rightarrow> bool" where
  "palette_valid hs acts cp \<longleftrightarrow>
     (let n = int (length (palette_items hs acts cp))
      in if n = 0 then selected cp \<in> {- 1, 0} else 0 \<le> selected cp \<and> selected cp < n)"

lemma palette_items_q:
  "palette_q cp' = palette_q cp \<Longrightarrow> palette_items hs acts cp' = palette_items hs acts cp"
  by (simp add: palette_items_def)

lemma palette_q_selected [simp]: "palette_q (cp\<lparr>selected := i\<rparr>) = palette_q cp"
  by (simp add: palette_q_def)

lemma palette_items_selected [simp]: "palette_items hs acts (cp\<lparr>selected := i\<rparr>) = palette_items hs acts cp"
  by (simp add: palette_items_def)

lemma palette_step_valid:
  assumes "palette_step hs acts cp e sh = (Some cp', sh')" and "palette_valid hs acts cp"
  shows "palette_valid hs acts cp' \<and> sh' = sh"
proof (cases e)
  case (Palette_query new)
  show ?thesis
  proof (cases "palette_q (cp\<lparr>query := new\<rparr>) = palette_q cp")
    case True
    with assms Palette_query palette_items_q[OF True] show ?thesis
      by (auto simp: palette_valid_def Let_def)
  next
    case False
    with assms Palette_query show ?thesis by (auto simp: palette_valid_def Let_def)
  qed
qed (use assms in \<open>auto simp: palette_valid_def Let_def split: if_splits\<close>)

lemma palette_run_valid:
  "palette_run hs acts cp es sh = (Some cp', sh') \<Longrightarrow> palette_valid hs acts cp \<Longrightarrow>
     palette_valid hs acts cp' \<and> sh' = sh"
proof (induction es arbitrary: cp sh)
  case (Cons e es)
  from Cons.prems(1) obtain c s where
    step: "palette_step hs acts cp e sh = (Some c, s)" "palette_run hs acts c es s = (Some cp', sh')"
    by (auto split: prod.splits option.splits)
  from palette_step_valid[OF step(1) Cons.prems(2)] Cons.IH[OF step(2)] show ?case by simp
qed simp

lemma palette_hosts_are_tree_hosts:
  "matchedHosts hs (palette_q cp) =
     take MAX_RESULTS (filter (hostMatches \<lparr>search = query cp, tagFilter = {}, collapsed = c\<rparr>) hs)"
  by (simp add: matchedHosts_def palette_q_def hostMatches_def[abs_def] isFiltering_def tree_query_def Let_def)

section \<open>The grid and the sidebar's tree\<close>

fun level_rows :: "nat \<Rightarrow> grid_level \<Rightarrow> tree_row list"
  and section_rows :: "nat \<Rightarrow> grid_section \<Rightarrow> tree_row list" where
  "level_rows d (Grid_level ss heading own) = concat (map (section_rows d) ss) @ map (\<lambda>h. Host_row h d) own"
| "section_rows d (Grid_section g c n None) = [Group_row g d]"
| "section_rows d (Grid_section g c n (Some level)) = Group_row g d # level_rows (Suc d) level"

lemma map_m_map_option: "map_option (map h) (map_m f xs) = map_m (\<lambda>x. map_option h (f x)) xs"
  by (induction xs) (auto split: option.splits)

lemma some_m_cong: "(\<And>x. x \<in> set xs \<Longrightarrow> f x = g x) \<Longrightarrow> some_m f xs = some_m g xs"
  by (induction xs) (auto split: option.splits bool.splits)

lemma grid_match_is_tree_match:
  "groupHasGridMatch q ids gs hs f i = group_has_match (q \<noteq> []) (hostMatchesGridSearch q ids) gs hs f i"
proof (induction f arbitrary: i)
  case (Suc f)
  have "some_m (\<lambda>g. groupHasGridMatch q ids gs hs f (group_id g)) gl =
      some_m (\<lambda>g. group_has_match (q \<noteq> []) (hostMatchesGridSearch q ids) gs hs f (group_id g)) gl" for gl
    by (intro some_m_cong Suc.IH)
  note eq = this
  show ?case unfolding groupHasGridMatch.simps group_has_match.simps not_not eq ..
qed simp

lemma group_has_match_cong:
  "(\<And>h. h \<in> set hs \<Longrightarrow> m h = m' h) \<Longrightarrow>
     group_has_match filtering m gs hs f i = group_has_match filtering m' gs hs f i"
proof (induction f arbitrary: i)
  case (Suc f)
  have a: "list_ex (\<lambda>h. host_group_id h = Some i \<and> m h) hs = list_ex (\<lambda>h. host_group_id h = Some i \<and> m' h) hs"
    using Suc.prems by (auto simp: list_ex_iff)
  have b: "some_m (\<lambda>g. group_has_match filtering m gs hs f (group_id g)) gl =
      some_m (\<lambda>g. group_has_match filtering m' gs hs f (group_id g)) gl" for gl
    using Suc by (intro some_m_cong) auto
  show ?case unfolding group_has_match.simps a b ..
qed simp

lemma render_level_cong:
  assumes "\<And>h. h \<in> set hs \<Longrightarrow> m h = m' h"
  shows "render_level lc filtering m shut gs hs f p d = render_level lc filtering m' shut gs hs f p d"
proof (induction f arbitrary: p d)
  case (Suc f)
  have own: "filter m (childHosts (getGroupChildren lc gs hs p)) = filter m' (childHosts (getGroupChildren lc gs hs p))"
    using assms by (intro filter_cong) auto
  have "group_has_match filtering m gs hs = group_has_match filtering m' gs hs"
    by (intro ext group_has_match_cong) (rule assms)
  moreover have "render_level lc filtering m shut gs hs f = render_level lc filtering m' shut gs hs f"
    by (intro ext Suc.IH)
  ultimately show ?case by (simp only: render_level.simps Let_def own)
qed simp

lemma grid_rows:
  "map_option (level_rows d) (renderGroupSection lc q ids shut gs hs f p) =
     render_level lc (q \<noteq> []) (hostMatchesGridSearch q ids) shut gs hs f p d"
proof (induction f arbitrary: p d)
  case (Suc f)
  define sect where "sect g = (let isCollapsed = q = [] \<and> group_id g \<in> shut;
        directCount = length (filter (\<lambda>h. host_group_id h = Some (group_id g)) hs)
      in if isCollapsed then Some (Grid_section g isCollapsed directCount None)
         else map_option (\<lambda>level. Grid_section g isCollapsed directCount (Some level))
                (renderGroupSection lc q ids shut gs hs f (Some (group_id g))))" for g
  have sect: "(if q \<noteq> [] \<or> group_id g \<notin> shut
      then (case render_level lc (q \<noteq> []) (hostMatchesGridSearch q ids) shut gs hs f (Some (group_id g)) (Suc d) of
              None \<Rightarrow> None | Some rows \<Rightarrow> Some (Group_row g d # rows))
      else Some [Group_row g d]) = map_option (section_rows d) (sect g)" for g
    by (auto simp: sect_def Let_def Suc.IH[symmetric] split: option.splits)
  define cs where "cs = getGroupChildren lc gs hs p"
  define own where "own = filter (hostMatchesGridSearch q ids) (childHosts cs)"
  define shown where "shown = filter_m (\<lambda>g. group_has_match (q \<noteq> []) (hostMatchesGridSearch q ids) gs hs (Suc f) (group_id g))
      (childGroups cs)"
  have L: "renderGroupSection lc q ids shut gs hs (Suc f) p =
      (case shown of None \<Rightarrow> None
       | Some gl \<Rightarrow> map_option (\<lambda>ss. Grid_level ss (own \<noteq> [] \<and> p = None \<and> gs \<noteq> []) own) (map_m sect gl))"
    by (simp only: renderGroupSection.simps Let_def grid_match_is_tree_match sect_def[abs_def] cs_def own_def shown_def
        map_option_case cong del: option.case_cong_weak)
  have R: "render_level lc (q \<noteq> []) (hostMatchesGridSearch q ids) shut gs hs (Suc f) p d =
      (case shown of None \<Rightarrow> None
       | Some gl \<Rightarrow> map_option (\<lambda>blocks. concat blocks @ map (\<lambda>h. Host_row h d) own)
                    (map_m (\<lambda>g. map_option (section_rows d) (sect g)) gl))"
    by (simp only: render_level.simps Let_def sect cs_def own_def shown_def map_option_case
        cong del: option.case_cong_weak)
  show ?case
    by (simp only: L R map_m_map_option[symmetric]) (simp add: option.map_comp comp_def split: option.split)
qed simp

text \<open>What only the grid's search looks at, and the grid's search as the tree's with that added.\<close>

definition username_matches :: "identity list \<Rightarrow> string \<Rightarrow> host \<Rightarrow> bool" where
  "username_matches ids q h \<longleftrightarrow>
     (case identity_of ids h of None \<Rightarrow> False | Some i \<Rightarrow> str_includes (toLowerCase (identity_username i)) q)"

lemma grid_matches_of_tree:
  "hostMatchesGridSearch (hostsGridQuery text) ids h \<longleftrightarrow>
     hostMatches \<lparr>search = text, tagFilter = {}, collapsed = shut\<rparr> h \<or> username_matches ids (hostsGridQuery text) h"
  by (auto simp: hostMatchesGridSearch_def hostMatches_def isFiltering_def tree_query_def hostsGridQuery_def
      username_matches_def Let_def split: option.splits)

lemma render_level_shut:
  "filtering \<Longrightarrow> render_level lc filtering m shut gs hs f p d = render_level lc filtering m shut' gs hs f p d"
proof (induction f arbitrary: p d)
  case (Suc f)
  then have "render_level lc filtering m shut gs hs f = render_level lc filtering m shut' gs hs f" by (intro ext)
  with Suc.prems show ?case by (simp only: render_level.simps Let_def simp_thms if_True)
qed simp

lemma grid_shows_matching:
  assumes "distinct (map group_id gs)" and "distinct (map host_id hs)"
    and "q \<noteq> [] \<or> shut = {}" and "length gs < f"
  shows "\<exists>level. renderGroupSection lc q ids shut gs hs f None = Some level
    \<and> distinct (row_hosts (level_rows 0 level))
    \<and> set (row_hosts (level_rows 0 level)) = {h \<in> set hs. hostMatchesGridSearch q ids h \<and> below gs None h}"
proof -
  have "q \<noteq> [] \<or> shut = {} \<and> (\<forall>h. hostMatchesGridSearch q ids h)"
    using assms(3) by (auto simp: hostMatchesGridSearch_def)
  from render_level_shows[OF assms(1,2) this, of 0 None f lc 0] assms(4)
  show ?thesis by (auto simp: level_at_def shows_hosts_def grid_rows[symmetric])
qed

text \<open>The cards of recent hosts are those of the sidebar when timestamps are ordered like their texts.\<close>

lemma recent_cards_are_recent_hosts:
  assumes "distinct hs" and "\<And>h. h \<in> set hs \<Longrightarrow> host_last_connected_at h \<noteq> Some []"
    and "\<And>h t. h \<in> set hs \<Longrightarrow> host_last_connected_at h = Some t \<Longrightarrow> parse t \<noteq> None"
    and "\<And>a b s t. a \<in> set hs \<Longrightarrow> b \<in> set hs \<Longrightarrow> host_last_connected_at a = Some s \<Longrightarrow>
       host_last_connected_at b = Some t \<Longrightarrow> the (parse s) < the (parse t) \<longleftrightarrow> s < t"
  shows "recent_cards parse hs = recentHosts hs"
proof -
  have eq: "filter (\<lambda>h. truthy (host_last_connected_at h)) hs = filter (\<lambda>h. host_last_connected_at h \<noteq> None) hs"
    using assms(2) by (intro filter_cong) (auto simp: truthy_def split: option.splits)
  have "js_sort (card_order parse) (filter (\<lambda>h. host_last_connected_at h \<noteq> None) hs) =
      js_sort recent_order (filter (\<lambda>h. host_last_connected_at h \<noteq> None) hs)"
  proof (rule js_sort_cong)
    show "distinct (filter (\<lambda>h. host_last_connected_at h \<noteq> None) hs)" using assms(1) by simp
    fix a b assume "a \<in> set (filter (\<lambda>h. host_last_connected_at h \<noteq> None) hs)"
      "b \<in> set (filter (\<lambda>h. host_last_connected_at h \<noteq> None) hs)" "a \<noteq> b"
    then obtain s t where "a \<in> set hs" "b \<in> set hs" "host_last_connected_at a = Some s" "host_last_connected_at b = Some t"
      by auto
    with assms(3)[of a s] assms(3)[of b t] assms(4)[of b a t s]
    show "card_order parse a b < 0 \<longleftrightarrow> recent_order a b < 0"
      by (auto simp: card_order_def recent_order_def)
  qed
  then show ?thesis by (simp add: recent_cards_def recentHosts_def eq RECENT_LIMIT_def)
qed

section \<open>Where a dropped group goes\<close>

lemma js_splice_in_at [simp]: "js_splice_in (int (length xs)) x (xs @ ys) = xs @ x # ys"
  by (simp add: js_splice_in_def)

lemma mset_filter_out: "distinct xs \<Longrightarrow> mset (filter (\<lambda>x. x \<noteq> d) xs) = mset xs - {#d#}"
proof -
  have "filter (\<lambda>x. x \<noteq> d) xs = removeAll d xs" by (induction xs) auto
  moreover assume "distinct xs"
  ultimately show ?thesis by (simp flip: distinct_remove1_removeAll)
qed

lemma dropped_order_split:
  assumes "distinct (map group_id gs)" and "target \<in> set gs" and "dragged \<in> set gs"
    and "group_id dragged \<noteq> group_id target" and "group_parent_id dragged = group_parent_id target"
  shows "\<exists>xs ys. filter (\<lambda>g. g \<noteq> dragged) (childGroups (getGroupChildren lc gs hs (group_parent_id target)))
        = xs @ target # ys
      \<and> dropped_order lc gs hs dragged target d =
          (case groupDropTarget d of Some (_, After) \<Rightarrow> xs @ target # dragged # ys
           | _ \<Rightarrow> xs @ dragged # target # ys)"
proof -
  define level where "level = childGroups (getGroupChildren lc gs hs (group_parent_id target))"
  have level: "set level \<subseteq> set gs" "target \<in> set level"
    using assms(2) by (auto simp: level_def)
  have rest: "filter (\<lambda>g. group_id g \<noteq> group_id dragged) level = filter (\<lambda>g. g \<noteq> dragged) level"
    using same_group[OF assms(1)] level(1) assms(3) by (intro filter_cong) auto
  have "target \<in> set (filter (\<lambda>g. g \<noteq> dragged) level)"
    using level(2) assms(4) by auto
  then obtain xs ys where split: "filter (\<lambda>g. g \<noteq> dragged) level = xs @ target # ys" "target \<notin> set xs"
    by (meson split_list_first)
  have "set xs \<subseteq> set gs" using arg_cong[OF split(1), of set] level(1) by auto
  then have no: "\<forall>g\<in>set xs. group_id g \<noteq> group_id target"
    using same_group[OF assms(1)] assms(2) split(2) by blast
  then have at: "js_findIndex (\<lambda>g. group_id g = group_id target) (xs @ target # ys) = int (length xs)"
    by (simp add: js_findIndex_def takeWhile_append takeWhile_eq_all_conv[THEN iffD2])
  have "js_splice_in (int (length xs) + 1) dragged (xs @ target # ys) = xs @ target # dragged # ys"
    using js_splice_in_at[of "xs @ [target]" dragged ys] by (simp add: add.commute)
  then have "dropped_order lc gs hs dragged target d =
      (case groupDropTarget d of Some (_, After) \<Rightarrow> xs @ target # dragged # ys
       | _ \<Rightarrow> xs @ dragged # target # ys)"
    by (auto simp: dropped_order_def Let_def rest split(1) at simp flip: level_def
        split: option.splits prod.splits drop_position.splits)
  with split(1) show ?thesis by (auto simp flip: level_def)
qed

section \<open>CSV files\<close>

text \<open>
  A file is written only with the backend's text, and imported only with the file's; every
  error is shown and ends the handler.
\<close>

lemma export_writes_backend_text:
  "Write_file path csv \<in> set (snd (handleExportCsv exported dialog written s)) \<longleftrightarrow>
     exported = Inr csv \<and> dialog = Inr (Some path) \<and> path \<noteq> []"
  by (auto simp: handleExportCsv_def csv_failed_def Let_def truthy_iff split: sum.splits)

lemma import_sends_file_text:
  "Csv_import text \<in> set (snd (handleImportCsv dialog content imported s)) \<longleftrightarrow>
     (\<exists>path. dialog = Inr (Picked path) \<and> path \<noteq> []) \<and> content = Inr text"
  by (auto simp: handleImportCsv_def csv_failed_def Let_def split: sum.splits picked.splits)

section \<open>Properties\<close>

text \<open>
  the command palette. However the text was typed and the selection moved, while the
  palette is open the shell is untouched, at most sixteen entries are offered, the hosts among
  them are the first eight that the sidebar's tree would keep for the same text, the
  highlighted entry exists whenever there is one at all, and Enter runs exactly it and closes
  the palette, or does nothing when nothing matches.
\<close>
theorem palette_runs_highlighted:
  assumes "palette_run hs acts initial_palette es sh = (Some cp, sh')"
  shows "sh' = sh
    \<and> palette_items hs acts cp =
        map Host_item (take 8 (filter (hostMatches \<lparr>search = query cp, tagFilter = {}, collapsed = {}\<rparr>) hs))
        @ map Action_item (matchedActions acts (palette_q cp))
    \<and> length (palette_items hs acts cp) \<le> 16
    \<and> (if palette_items hs acts cp = [] then palette_step hs acts cp Palette_enter sh = (Some cp, sh)
       else 0 \<le> selected cp \<and> nat (selected cp) < length (palette_items hs acts cp)
         \<and> palette_step hs acts cp Palette_enter sh =
             (None, runItem (palette_items hs acts cp ! nat (selected cp)) sh))"
proof -
  have "palette_valid hs acts initial_palette"
    by (simp add: palette_valid_def initial_palette_def Let_def)
  from palette_run_valid[OF assms this]
  have v: "palette_valid hs acts cp" and sh: "sh' = sh" by auto
  have items: "palette_items hs acts cp =
      map Host_item (take 8 (filter (hostMatches \<lparr>search = query cp, tagFilter = {}, collapsed = {}\<rparr>) hs))
      @ map Action_item (matchedActions acts (palette_q cp))"
    using palette_hosts_are_tree_hosts[of hs cp "{}"] by (simp add: palette_items_def MAX_RESULTS_def)
  have "length (palette_items hs acts cp) \<le> 16"
    by (simp add: palette_items_def matchedHosts_def matchedActions_def MAX_RESULTS_def)
  with v sh show ?thesis
    unfolding items[symmetric] by (auto simp: palette_valid_def Let_def)
qed

theorem palette_runs_highlighted_witness:
  "let hs = [sample_host ''web1'' None, sample_host ''db'' None]; cp = \<lparr>query = ''web'', selected = 0\<rparr>
   in palette_items hs paletteActions cp = [Host_item (sample_host ''web1'' None)]
    \<and> palette_step hs paletteActions cp Palette_enter (initial_shell initial_settings 1400) =
       (None, runItem (Host_item (sample_host ''web1'' None)) (initial_shell initial_settings 1400))"
proof -
  let ?hs = "[sample_host ''web1'' None, sample_host ''db'' None]"
  let ?cp = "\<lparr>query = ''web'', selected = 0\<rparr>"
  have q: "palette_q ?cp = ''web''" "palette_q initial_palette = []"
    by (simp_all add: palette_q_def initial_palette_def trim_def toLowerCase_def lower_char_def js_space_def)
  have "map action_label (matchedActions paletteActions ''web'') = []" by code_simp
  then have i: "palette_items ?hs paletteActions ?cp = [Host_item (sample_host ''web1'' None)]"
    by (simp add: palette_items_def q matchedHosts_def MAX_RESULTS_def sample_host_def toLowerCase_def lower_char_def)
  have "palette_run ?hs paletteActions initial_palette [Palette_query ''web'', Palette_down]
      (initial_shell initial_settings 1400) = (Some ?cp, initial_shell initial_settings 1400)"
    using q i by (simp add: initial_palette_def Let_def)
  from palette_runs_highlighted[OF this] show ?thesis
    unfolding i Let_def by simp
qed

text \<open>
  C28: the grid of cards shows what the sidebar's tree would show if its search also looked at the
  usernames of identities: the rows of the grid are those of the tree's traversal, in the same order
  at the same depth, for the tree's own match widened by the username of the host's identity. So where no
  host matches by its username alone, the two show the same rows for the same text. This is
  about a tree without tag filters, which the grid does not have. The two keep their collapsed
  groups apart, which makes a difference only while there is no text to search for. For a text
  the traversal of the top level ends.
\<close>
theorem grid_is_tree:
  fixes typed :: string and shut' :: "string set"
  defines "q \<equiv> hostsGridQuery typed" and "v \<equiv> \<lparr>search = typed, tagFilter = {}, collapsed = shut'\<rparr>"
  assumes "q \<noteq> [] \<or> shut = shut'"
  shows "map_option (level_rows d) (renderGroupSection lc q ids shut gs hs f p) =
       render_level lc (isFiltering v) (\<lambda>h. hostMatches v h \<or> username_matches ids q h) (collapsed v) gs hs f p d
    \<and> ((\<forall>h\<in>set hs. username_matches ids q h \<longrightarrow> hostMatches v h) \<longrightarrow>
        map_option (level_rows d) (renderGroupSection lc q ids shut gs hs f p) = renderLevel lc v gs hs f p d)
    \<and> (q \<noteq> [] \<and> distinct (map group_id gs) \<and> distinct (map host_id hs) \<and> length gs < f \<longrightarrow>
        (\<exists>level. renderGroupSection lc q ids shut gs hs f None = Some level))"
proof -
  have filtering: "isFiltering v = (q \<noteq> [])"
    by (simp add: q_def v_def isFiltering_def tree_query_def hostsGridQuery_def)
  have matches: "hostMatchesGridSearch q ids = (\<lambda>h. hostMatches v h \<or> username_matches ids q h)"
    unfolding q_def v_def by (intro ext grid_matches_of_tree)
  have rows: "map_option (level_rows d) (renderGroupSection lc q ids shut gs hs f p) =
      render_level lc (isFiltering v) (\<lambda>h. hostMatches v h \<or> username_matches ids q h) (collapsed v) gs hs f p d"
    unfolding grid_rows filtering matches[symmetric]
    using assms(3) render_level_shut[of "q \<noteq> []"] by (cases "q = []") (auto simp: v_def)
  moreover have "map_option (level_rows d) (renderGroupSection lc q ids shut gs hs f p) = renderLevel lc v gs hs f p d"
    if "\<forall>h\<in>set hs. username_matches ids q h \<longrightarrow> hostMatches v h"
    unfolding rows renderLevel_def using that by (intro render_level_cong) auto
  moreover have "\<exists>level. renderGroupSection lc q ids shut gs hs f None = Some level"
    if "q \<noteq> []" "distinct (map group_id gs)" "distinct (map host_id hs)" "length gs < f"
    using grid_shows_matching[OF that(2,3) _ that(4), of q shut lc ids] that(1) by blast
  ultimately show ?thesis by (intro conjI impI; (elim conjE)?) simp_all
qed

definition grid_hosts :: "host list" where
  "grid_hosts = [(sample_host ''web1'' None)\<lparr>host_group_id := Some ''g''\<rparr>,
     (sample_host ''db'' None)\<lparr>host_identity_id := Some ''i''\<rparr>]"

definition grid_identity :: identity where
  "grid_identity = \<lparr>identity_id = ''i'', identity_label = ''w'', identity_username = ''webadmin'',
     identity_auth_method = Password, identity_ssh_key_id = None, identity_has_password = True\<rparr>"

text \<open>
  Searched for "eb1" the two agree; searched for "web", the grid also shows the host \<open>db\<close>,
  whose identity is \<open>webadmin\<close>, and the tree does not.
\<close>

theorem grid_is_tree_witness:
  "map_option (level_rows 0) (renderGroupSection code_unit_order (hostsGridQuery ''eb1'') [grid_identity] {''g''}
      [sample_group ''g'' None] grid_hosts 3 None)
     = renderLevel code_unit_order \<lparr>search = ''eb1'', tagFilter = {}, collapsed = {}\<rparr> [sample_group ''g'' None] grid_hosts 3 None 0
   \<and> map_option row_hosts (map_option (level_rows 0) (renderGroupSection code_unit_order (hostsGridQuery ''web'') [grid_identity] {''g''}
      [sample_group ''g'' None] grid_hosts 3 None)) = Some grid_hosts
   \<and> map_option row_hosts (renderLevel code_unit_order \<lparr>search = ''web'', tagFilter = {}, collapsed = {}\<rparr>
      [sample_group ''g'' None] grid_hosts 3 None 0) = Some [hd grid_hosts]"
proof -
  have q: "hostsGridQuery ''eb1'' \<noteq> [] \<or> {''g''} = {}" by code_simp
  have "\<forall>h\<in>set grid_hosts. username_matches [grid_identity] (hostsGridQuery ''eb1'') h \<longrightarrow>
      hostMatches \<lparr>search = ''eb1'', tagFilter = {}, collapsed = {}\<rparr> h" by code_simp
  moreover have "map_option row_hosts (map_option (level_rows 0) (renderGroupSection code_unit_order (hostsGridQuery ''web'')
      [grid_identity] {''g''} [sample_group ''g'' None] grid_hosts 3 None)) = Some grid_hosts" by code_simp
  moreover have "map_option row_hosts (renderLevel code_unit_order \<lparr>search = ''web'', tagFilter = {}, collapsed = {}\<rparr>
      [sample_group ''g'' None] grid_hosts 3 None 0) = Some [hd grid_hosts]" by code_simp
  ultimately show ?thesis using grid_is_tree[OF q] by blast
qed

text \<open>
  dragging a group. Dropped on a sibling, a group ends up directly before or behind it, by
  the half of the row the pointer was over, with the other siblings in their order; that is
  what the level shows once the backend has taken the updates. Other levels are untouched and
  the drag is over.
\<close>
theorem group_drop_effect:
  assumes "comparator lc" and "distinct (map group_id gs)" and "target \<in> set gs" and "dragged \<in> set gs"
    and "group_id dragged \<noteq> group_id target" and "group_parent_id dragged = group_parent_id target"
  shows "\<exists>xs ys calls. filter (\<lambda>g. g \<noteq> dragged) (childGroups (getGroupChildren lc gs hs (group_parent_id target)))
        = xs @ target # ys
    \<and> handleGroupDrop lc gs hs (\<lambda>c. None) None target
        (handleGroupDragOver gs target y boundsTop boundsHeight (handleGroupDragStart (group_id dragged) initial_drag))
        = (calls, None, initial_drag)
    \<and> childGroups (getGroupChildren lc (foldl group_row_update gs calls) hs (group_parent_id target)) =
        renumber 0 (if y < boundsTop + boundsHeight / 2 then xs @ dragged # target # ys
                    else xs @ target # dragged # ys)
    \<and> filter (\<lambda>g. group_parent_id g \<noteq> group_parent_id target) (foldl group_row_update gs calls)
        = filter (\<lambda>g. group_parent_id g \<noteq> group_parent_id target) gs"
proof -
  let ?p = "group_parent_id target"
  define d where "d = handleGroupDragOver gs target y boundsTop boundsHeight
      (handleGroupDragStart (group_id dragged) initial_drag)"
  define new where "new = dropped_order lc gs hs dragged target d"
  have f: "find_group gs (Some (group_id dragged)) = Some dragged"
    using find_distinct_key[OF assms(2,4)] by (simp add: find_group_def)
  then have d: "d = \<lparr>draggedGroupId = Some (group_id dragged),
      groupDropTarget = Some (group_id target, if y < boundsTop + boundsHeight / 2 then Before else After)\<rparr>"
    using assms(5,6) by (simp add: d_def handleGroupDragOver_def handleGroupDragStart_def initial_drag_def)
  obtain xs ys where
    rest: "filter (\<lambda>g. g \<noteq> dragged) (childGroups (getGroupChildren lc gs hs ?p)) = xs @ target # ys" and
    new: "new = (if y < boundsTop + boundsHeight / 2 then xs @ dragged # target # ys else xs @ target # dragged # ys)"
    using dropped_order_split[OF assms(2-6), of lc hs d] by (auto simp: new_def d split: if_splits)
  have "distinct (childGroups (getGroupChildren lc gs hs ?p))"
    using assms(2) by (simp add: getGroupChildren_def distinct_map)
  then have "mset (filter (\<lambda>g. g \<noteq> dragged) (childGroups (getGroupChildren lc gs hs ?p))) =
      {#g \<in># mset gs. group_parent_id g = ?p#} - {#dragged#}"
    by (simp only: mset_filter_out children_groups)
  moreover have "dragged \<in># {#g \<in># mset gs. group_parent_id g = ?p#}" using assms(4,6) by simp
  ultimately have "mset new = {#g \<in># mset gs. group_parent_id g = ?p#}"
    by (auto simp: new rest add_mset_commute[of target dragged] dest: insert_DiffM)
  note shown = reorder_shows_order[OF assms(1,2) this, of hs]
  have "handleGroupDrop lc gs hs (\<lambda>c. None) None target d =
      (fst (reorderGroups (\<lambda>c. None) None new), None, initial_drag)"
  proof -
    have "snd (reorderGroups (\<lambda>c. None) None new) = None"
      by (simp add: reorderGroups_def send_all_prefix dropWhile_eq_Nil_conv[THEN iffD2])
    moreover have "d\<lparr>draggedGroupId := None, groupDropTarget := None\<rparr> = initial_drag"
      "find_group gs (draggedGroupId d) = Some dragged"
      by (simp_all add: d f initial_drag_def)
    ultimately show ?thesis
      using assms(5,6) by (auto simp: handleGroupDrop_def new_def[symmetric] split: prod.split)
  qed
  with rest shown show ?thesis unfolding d_def[symmetric] new by blast
qed

theorem group_drop_effect_witness:
  "\<exists>xs ys calls. filter (\<lambda>g. g \<noteq> sample_group ''a'' None)
        (childGroups (getGroupChildren code_unit_order
          [sample_group ''a'' None, sample_group ''b'' None, sample_group ''c'' None] [] None))
        = xs @ sample_group ''b'' None # ys
    \<and> handleGroupDrop code_unit_order [sample_group ''a'' None, sample_group ''b'' None, sample_group ''c'' None] []
        (\<lambda>c. None) None (sample_group ''b'' None)
        (handleGroupDragOver [sample_group ''a'' None, sample_group ''b'' None, sample_group ''c'' None]
          (sample_group ''b'' None) 30 0 40 (handleGroupDragStart ''a'' initial_drag))
        = (calls, None, initial_drag)"
  using group_drop_effect[OF c_locale.comparator_axioms,
      of "[sample_group ''a'' None, sample_group ''b'' None, sample_group ''c'' None]" "sample_group ''b'' None"
        "sample_group ''a'' None" "[]" 30 0 40]
  by (simp add: sample_group_def) blast

end
