(* ===== verification/Ai_Store.thy ===== *)
theory Ai_Store
  imports Vpn_Store
begin

text \<open>
  The AI assistant, \<open>src/src/state/aiStore.ts\<close>: conversations per host, proposing and running
  commands, and the autonomous mode.

  The asynchronous functions are cut at each \<open>await\<close>. A task is a function that waits, with
  the variables it needs afterwards; a function runs up to its first \<open>await\<close> and returns the
  task it leaves behind, if any, and resuming a task with the answer it waited for does
  the same. The world is the store and the tasks waiting, and its events are the user's
  actions and the answers, in any order.
\<close>

section \<open>Conversations\<close>

definition MAX_AUTONOMOUS_ITERATIONS :: nat where "MAX_AUTONOMOUS_ITERATIONS = 25"

datatype ai_role = User_role | Assistant_role | Tool_result_role

record ai_message =
  ai_id :: string
  ai_role :: ai_role
  ai_text :: "string option"
  ai_toolCall :: "tool_call option"
  execOutput :: "exec_output option"
  ranInTerminal :: bool
  skipped :: bool
  needsConfirmation :: "string option"

definition blank_message :: "string \<Rightarrow> ai_role \<Rightarrow> ai_message" where
  "blank_message i r = \<lparr>ai_id = i, ai_role = r, ai_text = None, ai_toolCall = None, execOutput = None,
     ranInTerminal = False, skipped = False, needsConfirmation = None\<rparr>"

datatype ai_mode = Ask | Autonomous

record ai_conversation =
  messages :: "ai_message list"
  mode :: ai_mode
  provider :: "ai_provider option"
  running :: bool
  stopRequested :: bool
  iterationCount :: nat
  conv_error :: "string option"

definition emptyConversation :: ai_conversation where
  "emptyConversation = \<lparr>messages = [], mode = Ask, provider = None, running = False,
     stopRequested = False, iterationCount = 0, conv_error = None\<rparr>"

text \<open>\<open>ai_drawn\<close> counts the calls of \<open>crypto.randomUUID\<close>.\<close>

record ai_state =
  conversations :: "string \<rightharpoonup> ai_conversation"
  ai_drawn :: nat

definition initial_ai :: ai_state where
  "initial_ai = \<lparr>conversations = Map.empty, ai_drawn = 0\<rparr>"

definition getConversation :: "ai_state \<Rightarrow> string \<Rightarrow> ai_conversation" where
  "getConversation s h = (case conversations s h of Some c \<Rightarrow> c | None \<Rightarrow> emptyConversation)"

definition update_conv :: "string \<Rightarrow> (ai_conversation \<Rightarrow> ai_conversation) \<Rightarrow> ai_state \<Rightarrow> ai_state" where
  "update_conv h f s = s\<lparr>conversations := (conversations s)(h \<mapsto> f (getConversation s h))\<rparr>"

definition quiet_output :: "string \<Rightarrow> exec_output" where
  "quiet_output t = \<lparr>stdout = t, stderr = [], exit_status = None, truncated = False\<rparr>"

definition tool_output :: "ai_message \<Rightarrow> exec_output" where
  "tool_output m =
     (if ranInTerminal m
      then quiet_output ''(Sent to the user's live terminal session to run interactively - output isn't captured here. Ask the user what happened if you need to know.)''
      else if skipped m then quiet_output ''(The user chose not to run this command.)''
      else (case execOutput m of Some out \<Rightarrow> out | None \<Rightarrow> quiet_output []))"

definition toMessageInput :: "ai_message \<Rightarrow> ai_message_input" where
  "toMessageInput m =
     (case ai_role m of
        User_role \<Rightarrow> User_input (case ai_text m of Some t \<Rightarrow> t | None \<Rightarrow> [])
      | Tool_result_role \<Rightarrow>
          Tool_result_input (case ai_toolCall m of Some c \<Rightarrow> tc_command c | None \<Rightarrow> []) (tool_output m)
      | Assistant_role \<Rightarrow> Assistant_input (ai_text m) (ai_toolCall m))"

definition toMessageInputs :: "ai_message list \<Rightarrow> ai_message_input list" where
  "toMessageInputs ms = map toMessageInput ms"

definition hasPendingToolCall :: "ai_message list \<Rightarrow> bool" where
  "hasPendingToolCall ms \<longleftrightarrow>
     ms \<noteq> [] \<and> ai_role (last ms) = Assistant_role \<and> ai_toolCall (last ms) \<noteq> None"

section \<open>Tasks\<close>

text \<open>
  Waiting for the provider's turn, for the denylist check, for the write to the terminal, for
  the VPN gate, for the execution. The first carries the messages that were sent, the third
  the session and the text that were sent.
\<close>

datatype ai_task =
    Turn_task host ai_provider "ai_message_input list"
  | Check_task host string tool_call string
  | Write_task host string tool_call string string
  | Gate_task host string tool_call ai_provider bool
  | Exec_task host string tool_call ai_provider bool

text \<open>A small step of a function: the store and the task it now waits for.\<close>

type_synonym ai_result = "ai_state \<times> ai_task option"

definition finish_with_error :: "string \<Rightarrow> string \<Rightarrow> ai_state \<Rightarrow> ai_result" where
  "finish_with_error h e s = (update_conv h (\<lambda>c. c\<lparr>running := False, conv_error := Some e\<rparr>) s, None)"

definition append_message :: "string \<Rightarrow> ai_message \<Rightarrow> ai_state \<Rightarrow> ai_state" where
  "append_message h m s =
     update_conv h (\<lambda>c. c\<lparr>messages := messages c @ [m]\<rparr>) (s\<lparr>ai_drawn := Suc (ai_drawn s)\<rparr>)"

definition stop_running :: "string \<Rightarrow> ai_state \<Rightarrow> ai_state" where
  "stop_running h s = update_conv h (\<lambda>c. c\<lparr>running := False\<rparr>) s"

definition ask_confirmation :: "string \<Rightarrow> string \<Rightarrow> string \<Rightarrow> ai_state \<Rightarrow> ai_result" where
  "ask_confirmation h messageId pattern s =
     (update_conv h (\<lambda>c. c\<lparr>running := False,
        messages := map_at ai_id messageId (\<lambda>m. m\<lparr>needsConfirmation := Some pattern\<rparr>) (messages c)\<rparr>) s, None)"

definition carriage_return :: char where
  "carriage_return = CHR 0x0D"

text \<open>\<open>requestNextTurn\<close> up to its \<open>await\<close>.\<close>

definition request_turn :: "host \<Rightarrow> ai_provider \<Rightarrow> ai_state \<Rightarrow> ai_result" where
  "request_turn h p s =
     (s, Some (Turn_task h p (toMessageInputs (messages (getConversation s (host_id h))))))"

definition write_task :: "host \<Rightarrow> string \<Rightarrow> tool_call \<Rightarrow> string \<Rightarrow> ai_task" where
  "write_task h messageId tc sid = Write_task h messageId tc sid (tc_command tc @ [carriage_return])"

text \<open>\<open>runCommand\<close> up to its first \<open>await\<close>; \<open>ss\<close> is the tab store at that moment.\<close>

definition runCommand :: "sessions_state \<Rightarrow> host \<Rightarrow> string \<Rightarrow> bool \<Rightarrow> ai_state \<Rightarrow> ai_result" where
  "runCommand ss h messageId overrideDenylist s =
     (let convo = getConversation s (host_id h) in
      if running convo then (s, None)
      else
        (case List.find (\<lambda>m. ai_id m = messageId) (messages convo) of
           None \<Rightarrow> (s, None)
         | Some message \<Rightarrow>
             (case (ai_toolCall message, provider convo) of
                (Some tc, Some p) \<Rightarrow>
                  (let s1 = update_conv (host_id h) (\<lambda>c. c\<lparr>running := True, conv_error := None\<rparr>) s;
                       live = findLiveSessionId (openSessions ss) (sessionIds ss) (host_id h)
                   in if truthy live then
                        (if overrideDenylist then (s1, Some (write_task h messageId tc (the live)))
                         else (s1, Some (Check_task h messageId tc (the live))))
                      else (s1, Some (Gate_task h messageId tc p overrideDenylist)))
              | _ \<Rightarrow> (s, None))))"

text \<open>\<open>requestNextTurn\<close> after the provider's answer.\<close>

definition resume_turn ::
  "uuids \<Rightarrow> sessions_state \<Rightarrow> host \<Rightarrow> string + ai_turn_result \<Rightarrow> ai_state \<Rightarrow> ai_result" where
  "resume_turn u ss h result s =
     (let hid = host_id h in
      case result of
        Inl e \<Rightarrow> finish_with_error hid e s
      | Inr (Turn_text t) \<Rightarrow>
          (stop_running hid (append_message hid
             ((blank_message (u (ai_drawn s)) Assistant_role)\<lparr>ai_text := Some t\<rparr>) s), None)
      | Inr (Turn_tool_call command purpose) \<Rightarrow>
          (let messageId = u (ai_drawn s);
               s1 = append_message hid ((blank_message messageId Assistant_role)\<lparr>ai_toolCall :=
                      Some \<lparr>tc_command = command, tc_purpose = purpose\<rparr>\<rparr>) s;
               afterAppend = getConversation s1 hid
           in if mode afterAppend = Autonomous \<and> \<not> stopRequested afterAppend
              then runCommand ss h messageId False s1
              else (stop_running hid s1, None)))"

definition resume_check ::
  "host \<Rightarrow> string \<Rightarrow> tool_call \<Rightarrow> string \<Rightarrow> string + string option \<Rightarrow> ai_state \<Rightarrow> ai_result" where
  "resume_check h messageId tc sid answer s =
     (case answer of
        Inl e \<Rightarrow> finish_with_error (host_id h) e s
      | Inr pattern \<Rightarrow>
          (if truthy pattern then ask_confirmation (host_id h) messageId (the pattern) s
           else (s, Some (write_task h messageId tc sid))))"

definition resume_write ::
  "uuids \<Rightarrow> host \<Rightarrow> tool_call \<Rightarrow> string option \<Rightarrow> ai_state \<Rightarrow> ai_result" where
  "resume_write u h tc failure s =
     (case failure of
        Some e \<Rightarrow> finish_with_error (host_id h) e s
      | None \<Rightarrow>
          (stop_running (host_id h) (append_message (host_id h)
             ((blank_message (u (ai_drawn s)) Tool_result_role)\<lparr>ai_toolCall := Some tc, ranInTerminal := True\<rparr>) s),
           None))"

definition resume_gate ::
  "host \<Rightarrow> string \<Rightarrow> tool_call \<Rightarrow> ai_provider \<Rightarrow> bool \<Rightarrow> vpn_gate_result \<Rightarrow> ai_state \<Rightarrow> ai_result" where
  "resume_gate h messageId tc p overrideDenylist gate s =
     (if \<not> gate_ok gate
      then finish_with_error (host_id h)
             (case gate_message gate of Some m \<Rightarrow> m | None \<Rightarrow> ''Could not connect the VPN.'') s
      else (s, Some (Exec_task h messageId tc p overrideDenylist)))"

definition resume_exec ::
  "uuids \<Rightarrow> host \<Rightarrow> string \<Rightarrow> tool_call \<Rightarrow> ai_provider \<Rightarrow> string + ai_command_exec_result \<Rightarrow> ai_state \<Rightarrow>
     ai_result" where
  "resume_exec u h messageId tc p result s =
     (let hid = host_id h in
      case result of
        Inl e \<Rightarrow> finish_with_error hid e s
      | Inr (Needs_confirmation pattern) \<Rightarrow> ask_confirmation hid messageId pattern s
      | Inr (Ran out) \<Rightarrow>
          (let s1 = append_message hid ((blank_message (u (ai_drawn s)) Tool_result_role)
                      \<lparr>ai_toolCall := Some tc, execOutput := Some out\<rparr>) s;
               afterResult = getConversation s1 hid
           in if mode afterResult = Autonomous \<and> \<not> stopRequested afterResult
                 \<and> iterationCount afterResult < MAX_AUTONOMOUS_ITERATIONS
              then request_turn h p
                     (update_conv hid (\<lambda>c. c\<lparr>iterationCount := iterationCount c + 1\<rparr>) s1)
              else (stop_running hid s1, None)))"

section \<open>The user's actions\<close>

definition sendUserMessage :: "uuids \<Rightarrow> host \<Rightarrow> ai_provider \<Rightarrow> string \<Rightarrow> ai_state \<Rightarrow> ai_result" where
  "sendUserMessage u h p t s =
     (let convo = getConversation s (host_id h) in
      if running convo \<or> hasPendingToolCall (messages convo) then (s, None)
      else request_turn h p
        (update_conv (host_id h) (\<lambda>c. c\<lparr>provider := Some p,
           messages := messages c @ [(blank_message (u (ai_drawn s)) User_role)\<lparr>ai_text := Some t\<rparr>],
           running := True, stopRequested := False, conv_error := None\<rparr>)
         (s\<lparr>ai_drawn := Suc (ai_drawn s)\<rparr>)))"

definition proposeAndRun ::
  "uuids \<Rightarrow> sessions_state \<Rightarrow> host \<Rightarrow> string \<Rightarrow> string \<Rightarrow> ai_state \<Rightarrow> ai_result" where
  "proposeAndRun u ss h command purpose s =
     (let convo = getConversation s (host_id h) in
      if running convo \<or> hasPendingToolCall (messages convo) \<or> provider convo = None then (s, None)
      else
        (let messageId = u (ai_drawn s)
         in runCommand ss h messageId False
              (append_message (host_id h) ((blank_message messageId Assistant_role)
                 \<lparr>ai_toolCall := Some \<lparr>tc_command = command, tc_purpose = purpose\<rparr>\<rparr>) s)))"

text \<open>The identifier is drawn only when the message is found and is a proposal.\<close>

definition skipCommand :: "uuids \<Rightarrow> string \<Rightarrow> string \<Rightarrow> ai_state \<Rightarrow> ai_state" where
  "skipCommand u hid messageId s =
     (let convo = getConversation s hid in
      case List.find (\<lambda>m. ai_id m = messageId) (messages convo) of
        None \<Rightarrow> update_conv hid id s
      | Some message \<Rightarrow>
          (case ai_toolCall message of
             None \<Rightarrow> update_conv hid id s
           | Some tc \<Rightarrow>
               update_conv hid (\<lambda>c. c\<lparr>messages :=
                 map_at ai_id messageId (\<lambda>m. m\<lparr>needsConfirmation := None\<rparr>) (messages c) @
                 [(blank_message (u (ai_drawn s)) Tool_result_role)\<lparr>ai_toolCall := Some tc, skipped := True\<rparr>]\<rparr>)
                (s\<lparr>ai_drawn := Suc (ai_drawn s)\<rparr>)))"

definition setMode :: "string \<Rightarrow> ai_mode \<Rightarrow> ai_state \<Rightarrow> ai_state" where
  "setMode hid md s = update_conv hid (\<lambda>c. c\<lparr>mode := md\<rparr>) s"

definition stop :: "string \<Rightarrow> ai_state \<Rightarrow> ai_state" where
  "stop hid s = update_conv hid (\<lambda>c. c\<lparr>stopRequested := True\<rparr>) s"

definition clearConversation :: "string \<Rightarrow> ai_state \<Rightarrow> ai_state" where
  "clearConversation hid s = s\<lparr>conversations := (conversations s)(hid := None)\<rparr>"

section \<open>The interleavings\<close>

record ai_world =
  ai :: ai_state
  tasks :: "ai_task list"

definition initial_ai_world :: ai_world where
  "initial_ai_world = \<lparr>ai = initial_ai, tasks = []\<rparr>"

datatype ai_answer =
    Turn_answer "string + ai_turn_result"
  | Check_answer "string + string option"
  | Write_answer "string option"
  | Gate_answer vpn_gate_result
  | Exec_answer "string + ai_command_exec_result"

datatype ai_event =
    Send host ai_provider string
  | Run sessions_state host string bool
  | Propose sessions_state host string string
  | Skip string string
  | Set_mode string ai_mode
  | Stop string
  | Clear string
  | Resume nat sessions_state ai_answer

fun resume_task :: "uuids \<Rightarrow> sessions_state \<Rightarrow> ai_task \<Rightarrow> ai_answer \<Rightarrow> ai_state \<Rightarrow> ai_result option" where
  "resume_task u ss (Turn_task h p ins) (Turn_answer r) s = Some (resume_turn u ss h r s)"
| "resume_task u ss (Check_task h i tc sid) (Check_answer r) s = Some (resume_check h i tc sid r s)"
| "resume_task u ss (Write_task h i tc sid t) (Write_answer r) s = Some (resume_write u h tc r s)"
| "resume_task u ss (Gate_task h i tc p ov) (Gate_answer r) s = Some (resume_gate h i tc p ov r s)"
| "resume_task u ss (Exec_task h i tc p ov) (Exec_answer r) s = Some (resume_exec u h i tc p r s)"
| "resume_task u ss _ _ s = None"

definition with_task :: "ai_task list \<Rightarrow> ai_result \<Rightarrow> ai_world" where
  "with_task ts r = (case r of (s, None) \<Rightarrow> \<lparr>ai = s, tasks = ts\<rparr> | (s, Some t) \<Rightarrow> \<lparr>ai = s, tasks = ts @ [t]\<rparr>)"

fun ai_step :: "uuids \<Rightarrow> ai_world \<Rightarrow> ai_event \<Rightarrow> ai_world" where
  "ai_step u w (Send h p t) = with_task (tasks w) (sendUserMessage u h p t (ai w))"
| "ai_step u w (Run ss h i ov) = with_task (tasks w) (runCommand ss h i ov (ai w))"
| "ai_step u w (Propose ss h c pu) = with_task (tasks w) (proposeAndRun u ss h c pu (ai w))"
| "ai_step u w (Skip hid i) = w\<lparr>ai := skipCommand u hid i (ai w)\<rparr>"
| "ai_step u w (Set_mode hid md) = w\<lparr>ai := setMode hid md (ai w)\<rparr>"
| "ai_step u w (Stop hid) = w\<lparr>ai := stop hid (ai w)\<rparr>"
| "ai_step u w (Clear hid) = w\<lparr>ai := clearConversation hid (ai w)\<rparr>"
| "ai_step u w (Resume k ss a) =
     (if k < length (tasks w) then
        (case resume_task u ss (tasks w ! k) a (ai w) of
           None \<Rightarrow> w
         | Some r \<Rightarrow> with_task (take k (tasks w) @ drop (Suc k) (tasks w)) r)
      else w)"

section \<open>What the panel offers\<close>

text \<open>
  The buttons of a proposal in \<open>AiMessageBubble.tsx\<close>: none once it is resolved, that is when it is
  not the last message (\<open>AiMessageList.tsx\<close>); "Run anyway" and "Skip" when it waits for a
  confirmation; "Run" otherwise. While something runs they are disabled.
\<close>

datatype proposal_button = Run_button | Run_anyway_button | Skip_button

definition proposal_buttons :: "ai_message \<Rightarrow> bool \<Rightarrow> bool \<Rightarrow> proposal_button list" where
  "proposal_buttons m is_running resolved =
     (if ai_role m \<noteq> Assistant_role \<or> ai_toolCall m = None \<or> resolved \<or> is_running then []
      else if needsConfirmation m \<noteq> None then [Run_anyway_button, Skip_button] else [Run_button])"

definition resolved :: "ai_message list \<Rightarrow> nat \<Rightarrow> bool" where
  "resolved ms i \<longleftrightarrow> i < length ms - 1"

definition offers :: "ai_conversation \<Rightarrow> string \<Rightarrow> proposal_button \<Rightarrow> bool" where
  "offers c messageId b \<longleftrightarrow>
     list_ex (\<lambda>i. ai_id (messages c ! i) = messageId
        \<and> b \<in> set (proposal_buttons (messages c ! i) (running c) (resolved (messages c) i)))
      [0..<length (messages c)]"

text \<open>The input box of \<open>AiInputBox.tsx\<close>: whether a text can be sent, and which.\<close>

definition input_disabled :: "bool \<Rightarrow> bool \<Rightarrow> bool" where
  "input_disabled is_running pendingToolCall \<longleftrightarrow> is_running \<or> pendingToolCall"

definition submit_text :: "bool \<Rightarrow> string \<Rightarrow> string option" where
  "submit_text disabled t = (if trim t = [] \<or> disabled then None else Some (trim t))"

text \<open>
  What the user can do: press a button that is offered, and anything else at any time; the
  code blocks' "Run" button (\<open>Propose\<close>) is disabled while something runs.
\<close>

fun offered :: "ai_world \<Rightarrow> ai_event \<Rightarrow> bool" where
  "offered w (Send h p t) = (let c = getConversation (ai w) (host_id h) in
     \<not> input_disabled (running c) (hasPendingToolCall (messages c)))"
| "offered w (Run ss h i ov) =
     offers (getConversation (ai w) (host_id h)) i (if ov then Run_anyway_button else Run_button)"
| "offered w (Propose ss h c pu) = (\<not> running (getConversation (ai w) (host_id h)))"
| "offered w (Skip hid i) = offers (getConversation (ai w) hid) i Skip_button"
| "offered w e = True"

text \<open>The user does not clear a conversation while something runs in it.\<close>

fun careful :: "ai_world \<Rightarrow> ai_event \<Rightarrow> bool" where
  "careful w (Clear hid) = (\<not> running (getConversation (ai w) hid))"
| "careful w e = offered w e"

section \<open>Histories a provider accepts\<close>

text \<open>
  Every tool result directly follows the proposal it answers, and every proposal but the last
  message is answered.
\<close>

fun history_ok :: "ai_message list \<Rightarrow> bool" where
  "history_ok [] = True"
| "history_ok (m # ms) =
     (case ai_role m of
        Tool_result_role \<Rightarrow> False
      | User_role \<Rightarrow> history_ok ms
      | Assistant_role \<Rightarrow>
          (case ai_toolCall m of
             None \<Rightarrow> history_ok ms
           | Some c \<Rightarrow>
               (case ms of
                  [] \<Rightarrow> True
                | r # ms' \<Rightarrow> ai_role r = Tool_result_role \<and> ai_toolCall r = Some c \<and> history_ok ms')))"

text \<open>The same of what is sent, where no proposal may be left open.\<close>

fun turn_valid :: "ai_message_input list \<Rightarrow> bool" where
  "turn_valid [] = True"
| "turn_valid (User_input t # ms) = turn_valid ms"
| "turn_valid (Assistant_input t None # ms) = turn_valid ms"
| "turn_valid (Assistant_input t (Some c) # Tool_result_input cmd out # ms) =
     (cmd = tc_command c \<and> turn_valid ms)"
| "turn_valid _ = False"

lemma pending_Cons:
  "ms \<noteq> [] \<Longrightarrow> hasPendingToolCall (m # ms) = hasPendingToolCall ms"
  by (simp add: hasPendingToolCall_def)

lemma pending_snoc [simp]:
  "hasPendingToolCall (ms @ [m]) \<longleftrightarrow> ai_role m = Assistant_role \<and> ai_toolCall m \<noteq> None"
  by (simp add: hasPendingToolCall_def)

lemma not_pending_Nil [simp]: "\<not> hasPendingToolCall []"
  by (simp add: hasPendingToolCall_def)


lemma history_ok_snoc:
  "history_ok ms \<Longrightarrow> \<not> hasPendingToolCall ms \<Longrightarrow> ai_role m \<noteq> Tool_result_role \<Longrightarrow> history_ok (ms @ [m])"
proof (induction ms rule: history_ok.induct)
  case (2 m' ms)
  then show ?case
    by (cases "ms = []") (auto simp: pending_Cons hasPendingToolCall_def
        split: ai_role.splits option.splits list.splits if_splits)
qed (auto split: ai_role.splits option.splits)

lemma history_ok_resolve:
  "history_ok ms \<Longrightarrow> hasPendingToolCall ms \<Longrightarrow> ai_role m = Tool_result_role \<Longrightarrow>
     ai_toolCall m = ai_toolCall (last ms) \<Longrightarrow> history_ok (ms @ [m])"
proof (induction ms rule: history_ok.induct)
  case (2 m' ms)
  then show ?case
    by (cases "ms = []")
      (auto simp: pending_Cons hasPendingToolCall_def split: ai_role.splits option.splits list.splits if_splits)
qed simp

lemma history_ok_map:
  "(\<And>m. ai_role (f m) = ai_role m \<and> ai_toolCall (f m) = ai_toolCall m) \<Longrightarrow>
     history_ok (map f ms) = history_ok ms"
  by (induction ms rule: history_ok.induct) (auto split: ai_role.splits option.splits list.splits)

section \<open>The invariant\<close>

definition conv_ok :: "uuids \<Rightarrow> nat \<Rightarrow> ai_conversation \<Rightarrow> bool" where
  "conv_ok u n c \<longleftrightarrow>
     history_ok (messages c) \<and> distinct (map ai_id (messages c))
     \<and> ai_id ` set (messages c) \<subseteq> used_ids u n"

text \<open>The proposal a task is about is the last message and is not answered.\<close>

definition awaits :: "ai_conversation \<Rightarrow> string \<Rightarrow> tool_call \<Rightarrow> bool" where
  "awaits c i tc \<longleftrightarrow>
     messages c \<noteq> [] \<and> ai_role (last (messages c)) = Assistant_role
     \<and> ai_id (last (messages c)) = i \<and> ai_toolCall (last (messages c)) = Some tc"

fun task_host :: "ai_task \<Rightarrow> string" where
  "task_host (Turn_task h p ins) = host_id h"
| "task_host (Check_task h i tc sid) = host_id h"
| "task_host (Write_task h i tc sid t) = host_id h"
| "task_host (Gate_task h i tc p ov) = host_id h"
| "task_host (Exec_task h i tc p ov) = host_id h"

fun task_about :: "ai_conversation \<Rightarrow> ai_task \<Rightarrow> bool" where
  "task_about c (Turn_task h p ins) \<longleftrightarrow>
     \<not> hasPendingToolCall (messages c) \<and> ins = toMessageInputs (messages c)"
| "task_about c (Check_task h i tc sid) \<longleftrightarrow> awaits c i tc"
| "task_about c (Write_task h i tc sid t) \<longleftrightarrow> awaits c i tc"
| "task_about c (Gate_task h i tc p ov) \<longleftrightarrow> awaits c i tc"
| "task_about c (Exec_task h i tc p ov) \<longleftrightarrow> awaits c i tc"

definition task_ok :: "ai_conversation \<Rightarrow> ai_task \<Rightarrow> bool" where
  "task_ok c t \<longleftrightarrow> running c \<and> task_about c t"

definition ai_inv :: "uuids \<Rightarrow> ai_world \<Rightarrow> bool" where
  "ai_inv u w \<longleftrightarrow>
     (\<forall>h. conv_ok u (ai_drawn (ai w)) (getConversation (ai w) h))
     \<and> distinct (map task_host (tasks w))
     \<and> (\<forall>t\<in>set (tasks w). task_ok (getConversation (ai w) (task_host t)) t)"

text \<open>What a small step for the host \<open>h\<close> leaves behind.\<close>

definition step_ok :: "uuids \<Rightarrow> string \<Rightarrow> ai_state \<Rightarrow> ai_result \<Rightarrow> bool" where
  "step_ok u h s r \<longleftrightarrow>
     ai_drawn s \<le> ai_drawn (fst r)
     \<and> (\<forall>h'. h' \<noteq> h \<longrightarrow> getConversation (fst r) h' = getConversation s h')
     \<and> conv_ok u (ai_drawn (fst r)) (getConversation (fst r) h)
     \<and> (\<forall>t. snd r = Some t \<longrightarrow> task_host t = h \<and> task_ok (getConversation (fst r) h) t)"

lemma getConversation_update [simp]:
  "getConversation (update_conv h f s) h' = (if h' = h then f (getConversation s h) else getConversation s h')"
  by (simp add: getConversation_def update_conv_def)

lemma ai_drawn_update [simp]: "ai_drawn (update_conv h f s) = ai_drawn s"
  by (simp add: update_conv_def)

lemma getConversation_drawn [simp]: "getConversation (s\<lparr>ai_drawn := n\<rparr>) h = getConversation s h"
  by (simp add: getConversation_def)

lemma conv_ok_mono: "conv_ok u n c \<Longrightarrow> n \<le> m \<Longrightarrow> conv_ok u m c"
  using used_ids_mono[of n m u] by (auto simp: conv_ok_def)

lemma conv_ok_cong: "messages c = messages c' \<Longrightarrow> conv_ok u n c = conv_ok u n c'"
  by (simp add: conv_ok_def)

lemma conv_ok_add:
  assumes "inj u" and "conv_ok u n c" and "ai_id m = u n" and "messages c' = messages c @ [m]"
    and "if ai_role m = Tool_result_role
         then hasPendingToolCall (messages c) \<and> ai_toolCall m = ai_toolCall (last (messages c))
         else \<not> hasPendingToolCall (messages c)"
  shows "conv_ok u (Suc n) c'"
proof -
  have "u n \<notin> ai_id ` set (messages c)"
    using assms(2) fresh_id[OF assms(1), of n] by (auto simp: conv_ok_def)
  moreover have "history_ok (messages c')"
    using assms(2,4,5) by (auto simp: conv_ok_def intro: history_ok_snoc history_ok_resolve split: if_splits)
  ultimately show ?thesis
    using assms(2-4) by (auto simp: conv_ok_def used_ids_Suc)
qed

lemma ai_inv_with_task:
  assumes "ai_inv u \<lparr>ai = s, tasks = ts\<rparr>" and "h \<notin> task_host ` set ts" and "step_ok u h s r"
  shows "ai_inv u (with_task ts r)"
proof -
  obtain s' ot where r: "r = (s', ot)" by fastforce
  have conv: "conv_ok u (ai_drawn s') (getConversation s' h')" for h'
    using assms(1,3) r by (cases "h' = h") (auto simp: ai_inv_def step_ok_def intro: conv_ok_mono)
  have old: "task_ok (getConversation s' (task_host t)) t" if "t \<in> set ts" for t
  proof -
    have "task_host t \<noteq> h" using that assms(2) by auto
    then show ?thesis using that assms(1,3) r by (auto simp: ai_inv_def step_ok_def)
  qed
  show ?thesis
  proof (cases ot)
    case None
    then show ?thesis using assms(1) conv old by (simp add: ai_inv_def with_task_def r)
  next
    case (Some t)
    then have "task_host t = h" "task_ok (getConversation s' h) t"
      using assms(3) r by (auto simp: step_ok_def)
    with Some assms(1,2) conv old show ?thesis
      by (auto simp: ai_inv_def with_task_def r)
  qed
qed

lemma idle_no_task:
  assumes "ai_inv u w" and "\<not> running (getConversation (ai w) h)"
  shows "h \<notin> task_host ` set (tasks w)"
  using assms by (auto simp: ai_inv_def task_ok_def)

lemma step_ok_none: "conv_ok u (ai_drawn s) (getConversation s h) \<Longrightarrow> step_ok u h s (s, None)"
  by (simp add: step_ok_def)

lemma finish_with_error_ok:
  "conv_ok u (ai_drawn s) (getConversation s h) \<Longrightarrow> step_ok u h s (finish_with_error h e s)"
  by (auto simp: step_ok_def finish_with_error_def conv_ok_def)

lemma ask_confirmation_ok:
  assumes "conv_ok u (ai_drawn s) (getConversation s h)"
  shows "step_ok u h s (ask_confirmation h i pattern s)"
proof -
  have "set (map ai_id (map_at ai_id i (\<lambda>m. m\<lparr>needsConfirmation := Some pattern\<rparr>) ms))
      = set (map ai_id ms)" for ms
    by (subst map_key_map_at) simp_all
  then have "ai_id ` set (map_at ai_id i (\<lambda>m. m\<lparr>needsConfirmation := Some pattern\<rparr>) ms)
      = ai_id ` set ms" for ms
    by simp
  then show ?thesis
    using assms
    by (auto simp: step_ok_def ask_confirmation_def conv_ok_def map_key_map_at)
      (auto simp: map_at_def history_ok_map)
qed

lemma stop_running_ok:
  "step_ok u h s0 (s, None) \<Longrightarrow> step_ok u h s0 (stop_running h s, None)"
  by (auto simp: step_ok_def stop_running_def conv_ok_def)

lemma append_message_ok:
  assumes "inj u" and "conv_ok u (ai_drawn s) (getConversation s h)" and "ai_id m = u (ai_drawn s)"
    and "if ai_role m = Tool_result_role
         then hasPendingToolCall (messages (getConversation s h))
           \<and> ai_toolCall m = ai_toolCall (last (messages (getConversation s h)))
         else \<not> hasPendingToolCall (messages (getConversation s h))"
  shows "step_ok u h s (append_message h m s, None)"
  using conv_ok_add[OF assms(1-3) _ assms(4)]
  by (auto simp: step_ok_def append_message_def update_conv_def getConversation_def)

lemma step_ok_trans:
  "step_ok u h s (s1, None) \<Longrightarrow> step_ok u h s1 r \<Longrightarrow> step_ok u h s r"
  by (auto simp: step_ok_def)

lemma step_ok_conv: "step_ok u h s (s1, None) \<Longrightarrow> conv_ok u (ai_drawn s1) (getConversation s1 h)"
  by (simp add: step_ok_def)

lemma update_ok:
  assumes "conv_ok u (ai_drawn s) (getConversation s h)" and "\<And>c. messages (f c) = messages c"
  shows "step_ok u h s (update_conv h f s, None)"
  using assms by (auto simp: step_ok_def conv_ok_def)

lemma task_result_ok:
  assumes "step_ok u h s (s1, None)" and "task_host t = h" and "task_ok (getConversation s1 h) t"
  shows "step_ok u h s (s1, Some t)"
  using assms by (auto simp: step_ok_def)

lemma append_message_conv [simp]:
  "getConversation (append_message h m s) h' =
     (if h' = h then (getConversation s h)\<lparr>messages := messages (getConversation s h) @ [m]\<rparr>
      else getConversation s h')"
  by (simp add: append_message_def)

lemma find_last:
  assumes "distinct (map ai_id ms)" and "ms \<noteq> []"
  shows "List.find (\<lambda>m. ai_id m = ai_id (last ms)) ms = Some (last ms)"
  using assms by (intro find_distinct_key) simp_all

lemma runCommand_ok:
  assumes "conv_ok u (ai_drawn s) (getConversation s (host_id h))"
    and "\<not> running (getConversation s (host_id h)) \<Longrightarrow>
      hasPendingToolCall (messages (getConversation s (host_id h)))
      \<and> i = ai_id (last (messages (getConversation s (host_id h))))"
  shows "step_ok u (host_id h) s (runCommand ss h i ov s)"
proof -
  define c where "c = getConversation s (host_id h)"
  define s1 where "s1 = update_conv (host_id h) (\<lambda>c. c\<lparr>running := True, conv_error := None\<rparr>) s"
  have s1: "step_ok u (host_id h) s (s1, None)"
    unfolding s1_def by (rule update_ok[OF assms(1)]) simp
  show ?thesis
  proof (cases "running c \<or> provider c = None")
    case True
    then have "runCommand ss h i ov s = (s, None)"
      by (auto simp: runCommand_def Let_def c_def split: option.splits)
    then show ?thesis by (simp add: step_ok_none assms(1))
  next
    case False
    with assms(2) have pend: "hasPendingToolCall (messages c)" "i = ai_id (last (messages c))"
      by (auto simp: c_def)
    then obtain tc where tc: "messages c \<noteq> []" "ai_role (last (messages c)) = Assistant_role"
        "ai_toolCall (last (messages c)) = Some tc"
      by (auto simp: hasPendingToolCall_def)
    have "List.find (\<lambda>m. ai_id m = i) (messages c) = Some (last (messages c))"
      unfolding pend(2) by (rule find_last) (use assms(1) tc in \<open>auto simp: conv_ok_def c_def\<close>)
    moreover obtain p where "provider c = Some p" using False by auto
    moreover have aw: "awaits (getConversation s1 (host_id h)) i tc" "running (getConversation s1 (host_id h))"
      using tc pend(2) by (simp_all add: awaits_def s1_def c_def)
    ultimately show ?thesis
      using False tc
      by (auto simp: runCommand_def Let_def write_task_def task_ok_def simp flip: c_def s1_def
          intro!: task_result_ok[OF s1])
  qed
qed

lemma resume_turn_ok:
  assumes "inj u" and "conv_ok u (ai_drawn s) (getConversation s (host_id h))"
    and "\<not> hasPendingToolCall (messages (getConversation s (host_id h)))"
  shows "step_ok u (host_id h) s (resume_turn u ss h r s)"
proof -
  have add: "step_ok u (host_id h) s (append_message (host_id h) m s, None)"
    if "ai_id m = u (ai_drawn s)" "ai_role m = Assistant_role" for m
    by (rule append_message_ok[OF assms(1,2)]) (use that assms(3) in simp_all)
  show ?thesis
  proof (cases r)
    case (Inl e)
    then show ?thesis by (simp add: resume_turn_def Let_def finish_with_error_ok assms(2))
  next
    case (Inr t)
    show ?thesis
    proof (cases t)
      case (Turn_text x)
      show ?thesis
        unfolding resume_turn_def Inr Turn_text Let_def sum.case ai_turn_result.case
        by (rule stop_running_ok, rule add) (simp_all add: blank_message_def)
    next
      case (Turn_tool_call c pu)
      define m where "m = (blank_message (u (ai_drawn s)) Assistant_role)
        \<lparr>ai_toolCall := Some \<lparr>tc_command = c, tc_purpose = pu\<rparr>\<rparr>"
      define s1 where "s1 = append_message (host_id h) m s"
      have s1: "step_ok u (host_id h) s (s1, None)"
        unfolding s1_def by (rule add) (simp_all add: m_def blank_message_def)
      have "step_ok u (host_id h) s1 (runCommand ss h (u (ai_drawn s)) False s1)"
        by (rule runCommand_ok[OF step_ok_conv[OF s1]]) (simp add: s1_def m_def blank_message_def)
      with s1 show ?thesis
        unfolding resume_turn_def Inr Turn_tool_call Let_def sum.case ai_turn_result.case
        by (auto intro: stop_running_ok step_ok_trans simp flip: m_def s1_def)
    qed
  qed
qed

lemma awaits_pending:
  "awaits c i tc \<Longrightarrow> hasPendingToolCall (messages c) \<and> ai_toolCall (last (messages c)) = Some tc"
  by (simp add: awaits_def hasPendingToolCall_def)

lemma add_tool_result_ok:
  assumes "inj u" and "conv_ok u (ai_drawn s) (getConversation s h)" and "awaits (getConversation s h) i tc"
    and "ai_id m = u (ai_drawn s)" "ai_role m = Tool_result_role" "ai_toolCall m = Some tc"
  shows "step_ok u h s (append_message h m s, None)"
  by (rule append_message_ok[OF assms(1,2,4)]) (use awaits_pending[OF assms(3)] assms(5,6) in simp)

lemma resume_write_ok:
  assumes "inj u" and "conv_ok u (ai_drawn s) (getConversation s (host_id h))"
    and "awaits (getConversation s (host_id h)) i tc"
  shows "step_ok u (host_id h) s (resume_write u h tc r s)"
proof (cases r)
  case None
  show ?thesis
    unfolding resume_write_def None option.case
    by (rule stop_running_ok, rule add_tool_result_ok[OF assms]) (simp_all add: blank_message_def)
qed (simp add: resume_write_def finish_with_error_ok assms(2))

lemma resume_check_ok:
  assumes "conv_ok u (ai_drawn s) (getConversation s (host_id h))"
    and "running (getConversation s (host_id h))" and "awaits (getConversation s (host_id h)) i tc"
  shows "step_ok u (host_id h) s (resume_check h i tc sid r s)"
  using assms
  by (auto simp: resume_check_def write_task_def task_ok_def finish_with_error_ok ask_confirmation_ok step_ok_none
      intro!: task_result_ok split: sum.splits)

lemma resume_gate_ok:
  assumes "conv_ok u (ai_drawn s) (getConversation s (host_id h))"
    and "running (getConversation s (host_id h))" and "awaits (getConversation s (host_id h)) i tc"
  shows "step_ok u (host_id h) s (resume_gate h i tc p ov g s)"
  using assms
  by (auto simp: resume_gate_def task_ok_def finish_with_error_ok step_ok_none intro!: task_result_ok)

lemma resume_exec_ok:
  assumes "inj u" and "conv_ok u (ai_drawn s) (getConversation s (host_id h))"
    and "running (getConversation s (host_id h))" and "awaits (getConversation s (host_id h)) i tc"
  shows "step_ok u (host_id h) s (resume_exec u h i tc p r s)"
proof (cases "\<exists>out. r = Inr (Ran out)")
  case False
  then show ?thesis
    using assms(2)
    by (auto simp: resume_exec_def Let_def finish_with_error_ok ask_confirmation_ok
        split: sum.splits ai_command_exec_result.splits)
next
  case True
  then obtain out where r: "r = Inr (Ran out)" by blast
  define m where "m = (blank_message (u (ai_drawn s)) Tool_result_role)
    \<lparr>ai_toolCall := Some tc, execOutput := Some out\<rparr>"
  define s1 where "s1 = append_message (host_id h) m s"
  have s1: "step_ok u (host_id h) s (s1, None)"
    unfolding s1_def by (rule add_tool_result_ok[OF assms(1,2,4)]) (simp_all add: m_def blank_message_def)
  define s2 where "s2 = update_conv (host_id h) (\<lambda>c. c\<lparr>iterationCount := Suc (iterationCount c)\<rparr>) s1"
  have "step_ok u (host_id h) s1 (s2, None)"
    unfolding s2_def by (rule update_ok[OF step_ok_conv[OF s1]]) simp
  then have s2: "step_ok u (host_id h) s (s2, None)" by (rule step_ok_trans[OF s1])
  have "step_ok u (host_id h) s (request_turn h p s2)"
    unfolding request_turn_def
    by (rule task_result_ok[OF s2])
      (simp_all add: task_ok_def s2_def s1_def m_def blank_message_def assms(3))
  with s1 show ?thesis
    unfolding resume_exec_def r Let_def sum.case ai_command_exec_result.case
    by (auto intro: stop_running_ok simp flip: m_def s1_def s2_def)
qed

lemma sendUserMessage_ok:
  assumes "inj u" and "conv_ok u (ai_drawn s) (getConversation s (host_id h))"
  shows "step_ok u (host_id h) s (sendUserMessage u h p t s)"
proof (cases "running (getConversation s (host_id h)) \<or> hasPendingToolCall (messages (getConversation s (host_id h)))")
  case True
  then show ?thesis by (simp add: sendUserMessage_def Let_def step_ok_none assms(2))
next
  case False
  define m where "m = (blank_message (u (ai_drawn s)) User_role)\<lparr>ai_text := Some t\<rparr>"
  define f :: "ai_conversation \<Rightarrow> ai_conversation"
    where "f = (\<lambda>c. c\<lparr>provider := Some p, messages := messages c @ [m], running := True,
    stopRequested := False, conv_error := None\<rparr>)"
  define s1 where "s1 = update_conv (host_id h) f (s\<lparr>ai_drawn := Suc (ai_drawn s)\<rparr>)"
  have m: "ai_id m = u (ai_drawn s)" "ai_role m = User_role" by (simp_all add: m_def blank_message_def)
  have "conv_ok u (Suc (ai_drawn s)) (f (getConversation s (host_id h)))"
    by (rule conv_ok_add[OF assms m(1)]) (use False m in \<open>simp_all add: f_def\<close>)
  then have "step_ok u (host_id h) s (s1, None)"
    by (simp add: step_ok_def s1_def)
  then have "step_ok u (host_id h) s (request_turn h p s1)"
    unfolding request_turn_def
    by (rule task_result_ok) (simp_all add: task_ok_def s1_def f_def m)
  then show ?thesis
    unfolding sendUserMessage_def Let_def using False by (simp flip: m_def) (simp add: s1_def f_def)
qed

lemma proposeAndRun_ok:
  assumes "inj u" and "conv_ok u (ai_drawn s) (getConversation s (host_id h))"
  shows "step_ok u (host_id h) s (proposeAndRun u ss h c pu s)"
proof (cases "running (getConversation s (host_id h)) \<or> hasPendingToolCall (messages (getConversation s (host_id h)))
    \<or> provider (getConversation s (host_id h)) = None")
  case True
  then show ?thesis by (simp add: proposeAndRun_def Let_def step_ok_none assms(2))
next
  case False
  define m where "m = (blank_message (u (ai_drawn s)) Assistant_role)
    \<lparr>ai_toolCall := Some \<lparr>tc_command = c, tc_purpose = pu\<rparr>\<rparr>"
  define s1 where "s1 = append_message (host_id h) m s"
  have s1: "step_ok u (host_id h) s (s1, None)"
    unfolding s1_def
    by (rule append_message_ok[OF assms]) (use False in \<open>simp_all add: m_def blank_message_def\<close>)
  have "step_ok u (host_id h) s1 (runCommand ss h (u (ai_drawn s)) False s1)"
    by (rule runCommand_ok[OF step_ok_conv[OF s1]]) (simp add: s1_def m_def blank_message_def)
  with False step_ok_trans[OF s1] show ?thesis
    by (auto simp: proposeAndRun_def Let_def simp flip: m_def s1_def)
qed

lemma offers_last:
  assumes "offers c i b"
  shows "\<not> running c" and "hasPendingToolCall (messages c)" and "i = ai_id (last (messages c))"
    and "b = Skip_button \<Longrightarrow> needsConfirmation (last (messages c)) \<noteq> None"
proof -
  obtain k where k: "k < length (messages c)" "ai_id (messages c ! k) = i"
      "b \<in> set (proposal_buttons (messages c ! k) (running c) (resolved (messages c) k))"
    using assms by (auto simp: offers_def list_ex_iff)
  then have "k = length (messages c) - 1"
    by (auto simp: proposal_buttons_def resolved_def split: if_splits)
  moreover have "messages c \<noteq> []" using k(1) by auto
  ultimately have l: "messages c ! k = last (messages c)" by (simp add: last_conv_nth)
  with k show "\<not> running c" "hasPendingToolCall (messages c)" "i = ai_id (last (messages c))"
    "b = Skip_button \<Longrightarrow> needsConfirmation (last (messages c)) \<noteq> None"
    by (auto simp: proposal_buttons_def hasPendingToolCall_def split: if_splits)
qed

lemma skipCommand_ok:
  assumes "inj u" and "conv_ok u (ai_drawn s) (getConversation s h)"
    and "hasPendingToolCall (messages (getConversation s h))"
    and "i = ai_id (last (messages (getConversation s h)))"
  shows "step_ok u h s (skipCommand u h i s, None)"
proof -
  define c where "c = getConversation s h"
  obtain tc where tc: "messages c \<noteq> []" "ai_toolCall (last (messages c)) = Some tc"
      "ai_role (last (messages c)) = Assistant_role"
    using assms(3) by (auto simp: hasPendingToolCall_def c_def)
  have found: "List.find (\<lambda>m. ai_id m = i) (messages c) = Some (last (messages c))"
    unfolding assms(4) c_def[symmetric]
    by (rule find_last) (use assms(2) tc in \<open>auto simp: conv_ok_def c_def\<close>)
  define g :: "ai_message list \<Rightarrow> ai_message list" where "g = map_at ai_id i (\<lambda>m. m\<lparr>needsConfirmation := None\<rparr>)"
  define m where "m = (blank_message (u (ai_drawn s)) Tool_result_role)\<lparr>ai_toolCall := Some tc, skipped := True\<rparr>"
  have ids: "map ai_id (g (messages c)) = map ai_id (messages c)"
    unfolding g_def by (rule map_key_map_at) simp
  then have ids_set: "ai_id ` set (g (messages c)) = ai_id ` set (messages c)"
    by (metis list.set_map)
  have "history_ok (g (messages c)) = history_ok (messages c)"
    unfolding g_def map_at_def by (rule history_ok_map) simp
  then have "conv_ok u (ai_drawn s) (c\<lparr>messages := g (messages c)\<rparr>)"
    using assms(2) ids ids_set by (simp add: conv_ok_def c_def)
  moreover have "last (g (messages c)) = (last (messages c))\<lparr>needsConfirmation := None\<rparr>"
    using tc(1) assms(4) by (simp add: g_def map_at_def last_map c_def)
  ultimately have "conv_ok u (Suc (ai_drawn s)) (c\<lparr>messages := g (messages c) @ [m]\<rparr>)"
    by (rule_tac conv_ok_add[OF assms(1), where c = "c\<lparr>messages := g (messages c)\<rparr>" and m = m])
      (use tc in \<open>auto simp: m_def blank_message_def hasPendingToolCall_def g_def map_at_def\<close>)
  then show ?thesis
    using found tc by (simp add: skipCommand_def step_ok_def Let_def c_def[symmetric] g_def[symmetric] m_def[symmetric])
qed

section \<open>Every step keeps the invariant\<close>

text \<open>The host an event is about; an answer is about the host of its task.\<close>

fun event_host :: "ai_world \<Rightarrow> ai_event \<Rightarrow> string" where
  "event_host w (Send h p t) = host_id h"
| "event_host w (Run ss h i ov) = host_id h"
| "event_host w (Propose ss h c pu) = host_id h"
| "event_host w (Skip hid i) = hid"
| "event_host w (Set_mode hid md) = hid"
| "event_host w (Stop hid) = hid"
| "event_host w (Clear hid) = hid"
| "event_host w (Resume k ss a) = task_host (tasks w ! k)"

lemma busy_unchanged:
  assumes "running (getConversation s (host_id h))"
  shows "sendUserMessage u h p t s = (s, None)" and "runCommand ss h i ov s = (s, None)"
    and "proposeAndRun u ss h c pu s = (s, None)"
  using assms by (simp_all add: sendUserMessage_def runCommand_def proposeAndRun_def Let_def)

lemma user_step_inv:
  assumes "ai_inv u w" and "step_ok u h (ai w) r" and "running (getConversation (ai w) h) \<Longrightarrow> r = (ai w, None)"
  shows "ai_inv u (with_task (tasks w) r)"
proof (cases "running (getConversation (ai w) h)")
  case True
  with assms(1,3) show ?thesis by (simp add: with_task_def ai_inv_def)
next
  case False
  have "w = \<lparr>ai = ai w, tasks = tasks w\<rparr>" by simp
  with assms(1) have "ai_inv u \<lparr>ai = ai w, tasks = tasks w\<rparr>" by metis
  then show ?thesis
    using idle_no_task[OF assms(1) False] assms(2) by (rule ai_inv_with_task)
qed

lemma inv_conv: "ai_inv u w \<Longrightarrow> conv_ok u (ai_drawn (ai w)) (getConversation (ai w) h)"
  by (simp add: ai_inv_def)

lemma resume_task_ok:
  assumes "inj u" and "conv_ok u (ai_drawn s) (getConversation s (task_host t))"
    and "task_ok (getConversation s (task_host t)) t" and "resume_task u ss t a s = Some r"
  shows "step_ok u (task_host t) s r"
  using assms(4,2,3) assms(1)
  by (cases "(u, ss, t, a, s)" rule: resume_task.cases)
    (auto simp: task_ok_def intro: resume_turn_ok resume_check_ok resume_write_ok resume_gate_ok resume_exec_ok)

lemma without_task:
  assumes "distinct (map f xs)" and "k < length xs"
  shows "f (xs ! k) \<notin> f ` set (take k xs @ drop (Suc k) xs)" and "distinct (map f (take k xs @ drop (Suc k) xs))"
    and "set (take k xs @ drop (Suc k) xs) \<subseteq> set xs"
proof -
  have xs: "xs = take k xs @ xs ! k # drop (Suc k) xs" by (rule id_take_nth_drop[OF assms(2)])
  from assms(1) have d: "distinct (map f (take k xs @ xs ! k # drop (Suc k) xs))" by (simp flip: xs)
  then show "f (xs ! k) \<notin> f ` set (take k xs @ drop (Suc k) xs)" by auto
  from d show "distinct (map f (take k xs @ drop (Suc k) xs))" by auto
  show "set (take k xs @ drop (Suc k) xs) \<subseteq> set xs"
    using set_take_subset[of k xs] set_drop_subset[of "Suc k" xs] by auto
qed

text \<open>
  One step, in one form: some tasks remain, and a small step for the host of the event was
  made.
\<close>

lemma ai_step_form:
  assumes "inj u" and "ai_inv u w" and "careful w e"
  obtains ts r where "ai_step u w e = with_task ts r" and "set ts \<subseteq> set (tasks w)"
    and "step_ok u (event_host w e) (ai w) r" and "ai_inv u (with_task ts r)"
proof -
  note conv = inv_conv[OF assms(2)]
  show thesis
  proof (cases e)
    case (Send h p t)
    have "step_ok u (host_id h) (ai w) (sendUserMessage u h p t (ai w))"
      by (rule sendUserMessage_ok[OF assms(1) conv])
    from that[of "tasks w", OF _ _ _ user_step_inv[OF assms(2) this]] this show thesis
      by (simp add: Send busy_unchanged)
  next
    case (Run ss h i ov)
    then have "offers (getConversation (ai w) (host_id h)) i (if ov then Run_anyway_button else Run_button)"
      using assms(3) by simp
    note o = offers_last[OF this]
    have "step_ok u (host_id h) (ai w) (runCommand ss h i ov (ai w))"
      by (rule runCommand_ok[OF conv]) (use o in simp)
    from that[of "tasks w", OF _ _ _ user_step_inv[OF assms(2) this]] this show thesis
      by (simp add: Run busy_unchanged)
  next
    case (Propose ss h c pu)
    have "step_ok u (host_id h) (ai w) (proposeAndRun u ss h c pu (ai w))"
      by (rule proposeAndRun_ok[OF assms(1) conv])
    from that[of "tasks w", OF _ _ _ user_step_inv[OF assms(2) this]] this show thesis
      by (simp add: Propose busy_unchanged)
  next
    case (Skip hid i)
    then have "offers (getConversation (ai w) hid) i Skip_button" using assms(3) by simp
    note o = offers_last[OF this]
    have "step_ok u hid (ai w) (skipCommand u hid i (ai w), None)"
      by (rule skipCommand_ok[OF assms(1) conv]) (use o in simp_all)
    from that[of "tasks w", OF _ _ _ user_step_inv[OF assms(2) this]] this o(1) show thesis
      by (simp add: Skip with_task_def)
  next
    case (Clear hid)
    have "step_ok u hid (ai w) (clearConversation hid (ai w), None)"
      by (auto simp: step_ok_def clearConversation_def getConversation_def conv_ok_def emptyConversation_def)
    from that[of "tasks w", OF _ _ _ user_step_inv[OF assms(2) this]] this assms(3) show thesis
      by (simp add: Clear with_task_def)
  next
    case (Set_mode hid md)
    have "step_ok u hid (ai w) (setMode hid md (ai w), None)"
      unfolding setMode_def by (rule update_ok[OF conv]) simp
    moreover have "task_about (c\<lparr>mode := md\<rparr>) t = task_about c t" for c :: ai_conversation and t
      by (cases t) (simp_all add: awaits_def)
    then have "ai_inv u \<lparr>ai = setMode hid md (ai w), tasks = tasks w\<rparr>"
      using assms(2) by (auto simp: ai_inv_def setMode_def conv_ok_def task_ok_def)
    ultimately show thesis
      by (intro that[of "tasks w" "(setMode hid md (ai w), None)"]) (simp_all add: Set_mode with_task_def)
  next
    case (Stop hid)
    have "step_ok u hid (ai w) (stop hid (ai w), None)"
      unfolding stop_def by (rule update_ok[OF conv]) simp
    moreover have "task_about (c\<lparr>stopRequested := True\<rparr>) t = task_about c t" for c :: ai_conversation and t
      by (cases t) (simp_all add: awaits_def)
    then have "ai_inv u \<lparr>ai = stop hid (ai w), tasks = tasks w\<rparr>"
      using assms(2) by (auto simp: ai_inv_def stop_def conv_ok_def task_ok_def)
    ultimately show thesis
      by (intro that[of "tasks w" "(stop hid (ai w), None)"]) (simp_all add: Stop with_task_def)
  next
    case (Resume k ss a)
    have w: "with_task (tasks w) (ai w, None) = w" by (simp add: with_task_def)
    show thesis
    proof (cases "k < length (tasks w) \<and> resume_task u ss (tasks w ! k) a (ai w) \<noteq> None")
      case False
      with w show thesis
        by (intro that[of "tasks w" "(ai w, None)"])
          (auto simp: Resume step_ok_none conv assms(2) split: option.splits)
    next
      case True
      then obtain r where r: "resume_task u ss (tasks w ! k) a (ai w) = Some r" by auto
      define ts where "ts = take k (tasks w) @ drop (Suc k) (tasks w)"
      have d: "distinct (map task_host (tasks w))" using assms(2) by (simp add: ai_inv_def)
      note rest = without_task[OF d conjunct1[OF True], folded ts_def]
      have t: "task_ok (getConversation (ai w) (task_host (tasks w ! k))) (tasks w ! k)"
        using assms(2) True by (simp add: ai_inv_def)
      have so: "step_ok u (task_host (tasks w ! k)) (ai w) r"
        by (rule resume_task_ok[OF assms(1) conv t r])
      have "ai_inv u \<lparr>ai = ai w, tasks = ts\<rparr>"
        using assms(2) rest(2,3) by (auto simp: ai_inv_def)
      from ai_inv_with_task[OF this rest(1) so] rest(3) so show thesis
        by (intro that[of ts r]) (use True r in \<open>simp_all add: Resume ts_def\<close>)
    qed
  qed
qed

lemma ai_inv_step: "inj u \<Longrightarrow> ai_inv u w \<Longrightarrow> careful w e \<Longrightarrow> ai_inv u (ai_step u w e)"
  by (erule ai_step_form) auto

lemma ai_inv_initial: "ai_inv u initial_ai_world"
  by (simp add: ai_inv_def initial_ai_world_def initial_ai_def getConversation_def conv_ok_def emptyConversation_def)

lemma ai_machine: "inj u \<Longrightarrow> invariant_machine initial_ai_world (ai_step u) careful (ai_inv u)"
  by unfold_locales (auto intro: ai_inv_step ai_inv_initial)

interpretation sample_ai: invariant_machine initial_ai_world "ai_step sample_uuids" careful "ai_inv sample_uuids"
  by (rule ai_machine) simp

section \<open>Properties\<close>








definition no_sessions :: sessions_state where
  "no_sessions = initial_sessions"

definition sample_run :: "ai_event list" where
  "sample_run =
    [Send (sample_host ''h'' None) Openai ''hi'',
     Resume 0 no_sessions (Turn_answer (Inr (Turn_tool_call ''ls'' ''look''))),
     Run no_sessions (sample_host ''h'' None) (sample_uuids 1) False,
     Resume 0 no_sessions (Gate_answer \<lparr>gate_ok = True, gate_message = None\<rparr>)]"


text \<open>
  clearing a conversation while a command runs breaks it. Here the command's result arrives in
  the emptied conversation, answers no proposal, and the history sent with the user's next
  message is one that providers reject.
\<close>
theorem clear_breaks_history:
  "let w = foldl (ai_step sample_uuids) initial_ai_world (sample_run @
        [Clear ''h'', Resume 0 no_sessions (Exec_answer (Inr (Ran out))),
         Send (sample_host ''h'' None) Openai ''again''])
   in \<not> history_ok (messages (getConversation (ai w) ''h''))
      \<and> list_ex (\<lambda>t. case t of Turn_task h p ins \<Rightarrow> \<not> turn_valid ins | _ \<Rightarrow> False) (tasks w)"
  by code_simp

text \<open>
  A conversation in which a proposal is open, something is marked as running, and no task
  is left that would end it.
\<close>

definition stuck :: "string \<Rightarrow> ai_message list \<Rightarrow> ai_world \<Rightarrow> bool" where
  "stuck h ms w \<longleftrightarrow> running (getConversation (ai w) h) \<and> messages (getConversation (ai w) h) = ms
     \<and> h \<notin> task_host ` set (tasks w)"

lemma with_task_other:
  assumes "step_ok u h' s r" and "h' \<noteq> h" and "h \<notin> task_host ` set ts"
  shows "getConversation (ai (with_task ts r)) h = getConversation s h"
    and "h \<notin> task_host ` set (tasks (with_task ts r))"
  using assms by (auto simp: step_ok_def with_task_def split: option.splits prod.splits)

lemma stuck_step:
  assumes "inj u" and "ai_inv u w" and "careful w e" and "stuck h ms w"
  shows "stuck h ms (ai_step u w e)"
proof (cases "event_host w e = h")
  case False
  obtain ts r where "ai_step u w e = with_task ts r" "set ts \<subseteq> set (tasks w)"
      "step_ok u (event_host w e) (ai w) r"
    by (rule ai_step_form[OF assms(1-3)])
  moreover from this assms(4) have "h \<notin> task_host ` set ts" by (auto simp: stuck_def)
  ultimately show ?thesis
    using with_task_other[OF _ False] assms(4) by (simp add: stuck_def)
next
  case True
  have run: "running (getConversation (ai w) h)" using assms(4) by (simp add: stuck_def)
  show ?thesis
  proof (cases e)
    case (Resume k ss a)
    with True assms(4) have "\<not> k < length (tasks w)" by (auto simp: stuck_def)
    with Resume assms(4) show ?thesis by simp
  qed (use True run assms(3,4) in \<open>auto simp: stuck_def busy_unchanged with_task_def setMode_def stop_def
        dest: offers_last(1)\<close>)
qed

lemma stuck_run:
  assumes "inj u"
  shows "ai_inv u w \<Longrightarrow> run_ok (ai_step u) careful w es \<Longrightarrow> stuck h ms w \<Longrightarrow>
    stuck h ms (foldl (ai_step u) w es)"
  by (induction es arbitrary: w) (auto intro: stuck_step[OF assms] ai_inv_step[OF assms])

text \<open>
  C20: autonomous mode never runs a command: it deadlocks on the first one proposed. When the
  provider's answer is a proposal in autonomous mode, the store calls \<open>runCommand\<close> while its
  own \<open>running\<close> flag is still set, and the re-entrancy guard returns at once. From
  then on no task is left, the flag stays set, the proposal stays open and nothing is added to
  the conversation, whatever the user does and whatever answers arrive, until the
  conversation is cleared.
\<close>
theorem autonomous_deadlock:
  assumes "inj u" and "run_ok (ai_step u) careful initial_ai_world es"
    and "w = foldl (ai_step u) initial_ai_world es"
    and "k < length (tasks w)" and "tasks w ! k = Turn_task h p ins"
    and "mode (getConversation (ai w) (host_id h)) = Autonomous"
    and "\<not> stopRequested (getConversation (ai w) (host_id h))"
    and "w1 = ai_step u w (Resume k ss (Turn_answer (Inr (Turn_tool_call command purpose))))"
    and "run_ok (ai_step u) careful w1 es'" and "w2 = foldl (ai_step u) w1 es'"
  shows "running (getConversation (ai w2) (host_id h))
    \<and> host_id h \<notin> task_host ` set (tasks w2)
    \<and> hasPendingToolCall (messages (getConversation (ai w2) (host_id h)))
    \<and> messages (getConversation (ai w2) (host_id h)) =
        messages (getConversation (ai w) (host_id h)) @
          [(blank_message (u (ai_drawn (ai w))) Assistant_role)
             \<lparr>ai_toolCall := Some \<lparr>tc_command = command, tc_purpose = purpose\<rparr>\<rparr>]"
proof -
  define c where "c = getConversation (ai w) (host_id h)"
  define m where "m = (blank_message (u (ai_drawn (ai w))) Assistant_role)
    \<lparr>ai_toolCall := Some \<lparr>tc_command = command, tc_purpose = purpose\<rparr>\<rparr>"
  have inv: "ai_inv u w"
    unfolding assms(3) by (rule invariant_machine.inv_run[OF ai_machine[OF assms(1)] assms(2)])
  then have "task_ok c (Turn_task h p ins)"
    using assms(4,5) nth_mem[OF assms(4)] by (force simp: ai_inv_def c_def)
  then have run: "running c" by (simp add: task_ok_def)
  define s1 where "s1 = append_message (host_id h) m (ai w)"
  have "resume_turn u ss h (Inr (Turn_tool_call command purpose)) (ai w)
      = runCommand ss h (u (ai_drawn (ai w))) False s1"
    using assms(6,7) by (simp add: resume_turn_def Let_def s1_def m_def)
  also have "\<dots> = (s1, None)"
    by (rule busy_unchanged) (use run in \<open>simp add: s1_def c_def\<close>)
  finally have w1: "w1 = \<lparr>ai = s1, tasks = take k (tasks w) @ drop (Suc k) (tasks w)\<rparr>"
    using assms(4,5) by (simp add: assms(8) with_task_def)
  have d: "distinct (map task_host (tasks w))" using inv by (simp add: ai_inv_def)
  have "stuck (host_id h) (messages c @ [m]) w1"
    using run without_task(1)[OF d assms(4)] assms(5) by (simp add: stuck_def w1 s1_def c_def)
  moreover have "ai_inv u w1"
    unfolding assms(8) by (rule ai_inv_step[OF assms(1) inv]) simp
  ultimately have "stuck (host_id h) (messages c @ [m]) w2"
    unfolding assms(10) using assms(9) by (intro stuck_run[OF assms(1)])
  then show ?thesis by (simp add: stuck_def c_def m_def blank_message_def)
qed

theorem autonomous_deadlock_witness:
  "running (getConversation (ai (foldl (ai_step sample_uuids) initial_ai_world
      [Send (sample_host ''h'' None) Openai ''hi'', Set_mode ''h'' Autonomous,
       Resume 0 no_sessions (Turn_answer (Inr (Turn_tool_call ''ls'' ''look''))), Stop ''h''])) ''h'')"
proof -
  let ?es = "[Send (sample_host ''h'' None) Openai ''hi'', Set_mode ''h'' Autonomous]"
  let ?w = "foldl (ai_step sample_uuids) initial_ai_world ?es"
  have 1: "run_ok (ai_step sample_uuids) careful initial_ai_world ?es"
    by code_simp
  have 2: "0 < length (tasks ?w)"
      "tasks ?w ! 0 = Turn_task (sample_host ''h'' None) Openai [User_input ''hi'']"
    by code_simp+
  have 3: "mode (getConversation (ai ?w) (host_id (sample_host ''h'' None))) = Autonomous"
      "\<not> stopRequested (getConversation (ai ?w) (host_id (sample_host ''h'' None)))"
    by code_simp+
  from autonomous_deadlock[OF inj_sample_uuids 1 refl 2 3 refl, of no_sessions "''ls''" "''look''" "[Stop ''h'']", OF _ refl]
  show ?thesis by simp
qed

section \<open>Bounds of an autonomous run\<close>

definition turns_used :: "ai_state \<Rightarrow> string \<Rightarrow> nat" where
  "turns_used s h = iterationCount (getConversation s h)"

lemma turns_used_update [simp]:
  "(\<And>c. iterationCount (f c) = iterationCount c) \<Longrightarrow> turns_used (update_conv h' f s) h = turns_used s h"
  by (simp add: turns_used_def)

lemma turns_used_drawn [simp]: "turns_used (s\<lparr>ai_drawn := n\<rparr>) h = turns_used s h"
  by (simp add: turns_used_def)

lemma turns_used_append [simp]: "turns_used (append_message h' m s) h = turns_used s h"
  by (simp add: append_message_def)

lemma turns_used_stop_running [simp]: "turns_used (stop_running h' s) h = turns_used s h"
  by (simp add: stop_running_def)

lemma turns_used_error [simp]: "turns_used (fst (finish_with_error h' e s)) h = turns_used s h"
  by (simp add: finish_with_error_def)

lemma turns_used_ask [simp]: "turns_used (fst (ask_confirmation h' i p s)) h = turns_used s h"
  by (simp add: ask_confirmation_def)

lemma turns_used_run [simp]: "turns_used (fst (runCommand ss h' i ov s)) h = turns_used s h"
  by (simp add: runCommand_def Let_def split: option.splits prod.splits)

lemma turns_used_send [simp]: "turns_used (fst (sendUserMessage u h' p t s)) h = turns_used s h"
  by (simp add: sendUserMessage_def request_turn_def Let_def)

lemma turns_used_propose [simp]: "turns_used (fst (proposeAndRun u ss h' c pu s)) h = turns_used s h"
  by (simp add: proposeAndRun_def Let_def)

lemma turns_used_skip [simp]: "turns_used (skipCommand u h' i s) h = turns_used s h"
  by (simp add: skipCommand_def Let_def split: option.splits)

lemma turns_used_exec: "turns_used s h \<le> turns_used (fst (resume_exec u h' i tc p r s)) h"
  by (simp add: resume_exec_def request_turn_def Let_def split: sum.splits ai_command_exec_result.splits)
    (simp add: turns_used_def)

lemma turns_used_resume:
  assumes "resume_task u ss t a s = Some r"
  shows "turns_used s h \<le> turns_used (fst r) h"
  using assms
  by (cases "(u, ss, t, a, s)" rule: resume_task.cases)
    (auto simp: turns_used_exec resume_turn_def resume_check_def resume_write_def resume_gate_def Let_def
      split: sum.splits ai_turn_result.splits option.splits)

lemma turns_used_with_task [simp]: "turns_used (ai (with_task ts r)) h = turns_used (fst r) h"
  by (simp add: with_task_def split: prod.splits option.splits)

lemma turns_used_step: "e \<noteq> Clear h \<Longrightarrow> turns_used (ai w) h \<le> turns_used (ai (ai_step u w e)) h"
  by (cases e)
    (auto simp: setMode_def stop_def clearConversation_def turns_used_resume split: option.splits,
     auto simp: turns_used_def getConversation_def)

text \<open>
  the bound on autonomous turns holds for the life of a conversation, not for one run: nothing
  but clearing the conversation ever lowers the count, not even the user's next message, and
  once it has reached 25 a command's result never leads to another turn.
\<close>
theorem turns_bound_is_per_conversation:
  assumes "list_all (\<lambda>e. e \<noteq> Clear (host_id h)) es"
    and "MAX_AUTONOMOUS_ITERATIONS \<le> turns_used (ai w) (host_id h)"
  shows "MAX_AUTONOMOUS_ITERATIONS \<le> turns_used (ai (foldl (ai_step u) w es)) (host_id h)
    \<and> snd (resume_exec u h i tc p r (ai (foldl (ai_step u) w es))) = None"
proof -
  have "turns_used (ai w) (host_id h) \<le> turns_used (ai (foldl (ai_step u) w es)) (host_id h)"
    using assms(1)
  proof (induction es arbitrary: w)
    case (Cons e es)
    then show ?case using turns_used_step[of e "host_id h" w u] by (auto intro: order_trans)
  qed simp
  with assms(2) have bound: "MAX_AUTONOMOUS_ITERATIONS \<le> turns_used (ai (foldl (ai_step u) w es)) (host_id h)"
    by simp
  then show ?thesis
    by (auto simp: resume_exec_def Let_def turns_used_def finish_with_error_def ask_confirmation_def
        split: sum.splits ai_command_exec_result.splits)
qed

theorem turns_bound_is_per_conversation_witness:
  "MAX_AUTONOMOUS_ITERATIONS \<le> turns_used (ai (foldl (ai_step sample_uuids)
      \<lparr>ai = \<lparr>conversations = [''h'' \<mapsto> emptyConversation\<lparr>iterationCount := 25\<rparr>], ai_drawn = 0\<rparr>, tasks = []\<rparr>
      [Send (sample_host ''h'' None) Openai ''again''])) ''h''"
  using turns_bound_is_per_conversation[of "sample_host ''h'' None"
      "[Send (sample_host ''h'' None) Openai ''again'']"
      "\<lparr>ai = \<lparr>conversations = [''h'' \<mapsto> emptyConversation\<lparr>iterationCount := 25\<rparr>], ai_drawn = 0\<rparr>, tasks = []\<rparr>"
      sample_uuids]
  by (simp add: turns_used_def getConversation_def MAX_AUTONOMOUS_ITERATIONS_def)

text \<open>
  a proposal that matched no pattern cannot be skipped: while it is open and nothing runs,
  the only button offered is "Run", the input is disabled, and the store ignores a message,
  although the input's placeholder tells the user to run or skip it.
\<close>
theorem open_proposal_offers_run_only:
  assumes "hasPendingToolCall (messages c)" and "\<not> running c"
    and "needsConfirmation (last (messages c)) = None" and "c = getConversation s (host_id h)"
  shows "(offers c i b \<longrightarrow> b = Run_button)
    \<and> input_disabled (running c) (hasPendingToolCall (messages c))
    \<and> sendUserMessage u h p t s = (s, None)"
proof -
  have "b = Run_button" if o: "offers c i b"
  proof -
    obtain k where k: "k < length (messages c)"
        "b \<in> set (proposal_buttons (messages c ! k) (running c) (resolved (messages c) k))"
      using o by (auto simp: offers_def list_ex_iff)
    then have "k = length (messages c) - 1"
      by (auto simp: proposal_buttons_def resolved_def split: if_splits)
    moreover have "messages c \<noteq> []" using k(1) by auto
    ultimately have "messages c ! k = last (messages c)" by (simp add: last_conv_nth)
    with k(2) assms(3) show ?thesis by (auto simp: proposal_buttons_def split: if_splits)
  qed
  with assms show ?thesis by (simp add: input_disabled_def sendUserMessage_def Let_def)
qed

theorem open_proposal_offers_run_only_witness:
  "input_disabled False (hasPendingToolCall (messages (getConversation
      (ai (foldl (ai_step sample_uuids) initial_ai_world (take 2 sample_run))) ''h'')))"
proof -
  let ?s = "ai (foldl (ai_step sample_uuids) initial_ai_world (take 2 sample_run))"
  have "hasPendingToolCall (messages (getConversation ?s (host_id (sample_host ''h'' None))))"
    "\<not> running (getConversation ?s (host_id (sample_host ''h'' None)))"
    "needsConfirmation (last (messages (getConversation ?s (host_id (sample_host ''h'' None))))) = None"
    by code_simp+
  from open_proposal_offers_run_only[OF this refl] this(2) show ?thesis by simp
qed

end
