(* ===== verification/Sftp_Browser.thy ===== *)
theory Sftp_Browser
  imports Refetch Bridge Friendly_Error
begin

text \<open>
  The file browser \<open>src/src/components/sftp/SftpBrowser.tsx\<close>: paths and sizes, the two panes
  with their numbered listings, connecting and disconnecting, transfers, and creating, renaming
  and deleting files.

  The component is a state machine. A handler runs to its first \<open>await\<close> and becomes a task
  with the values its closure has captured; the answer is an event, and other events come
  in between. The dialogs of \<open>useConfirm\<close> and \<open>usePrompt\<close> are such tasks.
\<close>

section \<open>Paths and sizes\<close>

definition slash :: char where "slash = CHR ''/''"

definition strip_slashes :: "string \<Rightarrow> string" where
  "strip_slashes path = rev (dropWhile (\<lambda>c. c = slash) (rev path))"

text \<open>\<open>slice(0, lastIndexOf("/"))\<close>; without a slash, or with one at the start only, the root.\<close>

definition parentPath :: "string \<Rightarrow> string" where
  "parentPath path =
     (let trimmed = strip_slashes path;
          before = rev (drop 1 (dropWhile (\<lambda>c. c \<noteq> slash) (rev trimmed)))
      in if slash \<notin> set trimmed \<or> before = [] then [slash] else before)"

definition joinPath :: "string \<Rightarrow> string \<Rightarrow> string" where
  "joinPath dir name = strip_slashes dir @ [slash] @ name"

text \<open>The loop divides at most once per unit but the first; \<open>decimal\<close> and \<open>toFixed1\<close> print numbers.\<close>

fun scale_size :: "real \<Rightarrow> string \<Rightarrow> string list \<Rightarrow> real \<times> string" where
  "scale_size amount unit [] = (amount, unit)"
| "scale_size amount unit (larger # units) =
     (if 1024 \<le> amount then scale_size (amount / 1024) larger units else (amount, unit))"

definition formatSize :: "(real \<Rightarrow> string) \<Rightarrow> (real \<Rightarrow> string) \<Rightarrow> real \<Rightarrow> string" where
  "formatSize decimal toFixed1 bytes =
     (if bytes < 1024 then decimal bytes @ '' B''
      else (case scale_size (bytes / 1024) ''KB'' [''MB'', ''GB'', ''TB''] of
              (amount, unit) \<Rightarrow> toFixed1 amount @ '' '' @ unit))"

section \<open>A pane\<close>

record browser_entry =
  be_name :: string
  be_path :: string
  be_isDir :: bool
  be_size :: nat
  be_modified :: "nat option"

record local_entry =
  le_name :: string
  le_path :: string
  le_is_dir :: bool
  le_size :: nat
  le_modified :: "nat option"

record sftp_entry =
  se_name :: string
  se_path :: string
  se_is_dir :: bool
  se_is_symlink :: bool
  se_size :: nat
  se_modified :: "nat option"

definition local_browser_entry :: "local_entry \<Rightarrow> browser_entry" where
  "local_browser_entry e =
     \<lparr>be_name = le_name e, be_path = le_path e, be_isDir = le_is_dir e, be_size = le_size e, be_modified = le_modified e\<rparr>"

definition sftp_browser_entry :: "sftp_entry \<Rightarrow> browser_entry" where
  "sftp_browser_entry e =
     \<lparr>be_name = se_name e, be_path = se_path e, be_isDir = se_is_dir e, be_size = se_size e, be_modified = se_modified e\<rparr>"

record file_pane =
  fp_path :: string
  fp_entries :: "browser_entry list"
  fp_loading :: bool
  fp_error :: "string option"
  fp_selected :: "string option"
  fp_request :: nat

definition initial_pane :: file_pane where
  "initial_pane = \<lparr>fp_path = [], fp_entries = [], fp_loading = False, fp_error = None, fp_selected = None, fp_request = 0\<rparr>"

definition list_begin :: "string \<Rightarrow> file_pane \<Rightarrow> nat \<times> file_pane" where
  "list_begin path p =
     (let requestId = Suc (fp_request p)
      in (requestId, p\<lparr>fp_request := requestId, fp_loading := True, fp_error := None\<rparr>))"

definition list_arrived :: "nat \<Rightarrow> browser_entry list \<Rightarrow> file_pane \<Rightarrow> file_pane" where
  "list_arrived requestId es p =
     (if requestId \<noteq> fp_request p then p else p\<lparr>fp_entries := es, fp_loading := False\<rparr>)"

definition list_failed :: "nat \<Rightarrow> string \<Rightarrow> file_pane \<Rightarrow> file_pane" where
  "list_failed requestId e p =
     (if requestId \<noteq> fp_request p then p else p\<lparr>fp_error := Some e, fp_loading := False\<rparr>)"

text \<open>What a pane shows: a spinner, an error, its entries, or that there are none.\<close>

datatype pane_content = Pane_loading "string option" | Pane_error string | Pane_entries "browser_entry list" | Pane_empty

definition pane_content_of :: "file_pane \<Rightarrow> pane_content" where
  "pane_content_of p =
     (if fp_loading p then Pane_loading (fp_error p)
      else case fp_error p of
             Some e \<Rightarrow> if e \<noteq> [] then Pane_error e
                        else if fp_entries p = [] then Pane_empty else Pane_entries (fp_entries p)
           | None \<Rightarrow> if fp_entries p = [] then Pane_empty else Pane_entries (fp_entries p))"

section \<open>The browser\<close>

datatype side = Local_side | Remote_side

datatype sftp_status = Sftp_connecting | Sftp_connected | Sftp_error

datatype boot_phase = Waiting_for_both | Canonicalizing | Boot_over

datatype sftp_effect = Call bridge_call | Call_without_session | Reload_hosts_list

text \<open>
  What an unfinished handler waits for, with the path of its pane when it was started: the
  answer of a dialog, of a change of a file, or of a transfer into the pane's directory.
\<close>

datatype sftp_task =
    Folder_prompt side string
  | Rename_prompt side string browser_entry
  | Delete_confirm side string browser_entry
  | Change_task side string
  | Transfer_task side string

record sftp_browser =
  sftpIdRef :: "string option"
  sftp_status_of :: sftp_status
  sftp_error_text :: "string option"
  local_pane :: file_pane
  remote_pane :: file_pane
  transferring :: bool
  transferError :: "string option"
  transferringEntry :: "(string \<times> side) option"
  sftp_disposed :: bool
  connectedId :: "string option"
  connect_answer :: "(string + string) option"
  home_answer :: "(string + string) option"
  boot :: boot_phase
  listings :: "(side \<times> nat \<times> string) list"
  sftp_tasks :: "(nat \<times> sftp_task) list"
  tasks_started :: nat
  sftp_calls :: "sftp_effect list"

definition sftp_emit :: "sftp_effect list \<Rightarrow> sftp_browser \<Rightarrow> sftp_browser" where
  "sftp_emit es s = s\<lparr>sftp_calls := sftp_calls s @ es\<rparr>"

definition start_task :: "sftp_task \<Rightarrow> sftp_browser \<Rightarrow> sftp_browser" where
  "start_task t s =
     s\<lparr>sftp_tasks := sftp_tasks s @ [(tasks_started s, t)], tasks_started := Suc (tasks_started s)\<rparr>"

fun pane_of :: "side \<Rightarrow> sftp_browser \<Rightarrow> file_pane" where
  "pane_of Local_side s = local_pane s"
| "pane_of Remote_side s = remote_pane s"

fun put_pane :: "side \<Rightarrow> file_pane \<Rightarrow> sftp_browser \<Rightarrow> sftp_browser" where
  "put_pane Local_side p s = s\<lparr>local_pane := p\<rparr>"
| "put_pane Remote_side p s = s\<lparr>remote_pane := p\<rparr>"

text \<open>\<open>refreshLocal\<close> and \<open>refreshRemote\<close>; the second does nothing without a session.\<close>

definition refreshLocal :: "string \<Rightarrow> sftp_browser \<Rightarrow> sftp_browser" where
  "refreshLocal path s =
     (case list_begin path (local_pane s) of
        (n, p) \<Rightarrow> sftp_emit [Call (Local_fs_call (LocalList path))]
                    (s\<lparr>local_pane := p, listings := listings s @ [(Local_side, n, path)]\<rparr>))"

definition refreshRemote :: "string \<Rightarrow> sftp_browser \<Rightarrow> sftp_browser" where
  "refreshRemote path s =
     (if \<not> truthy (sftpIdRef s) then s
      else case list_begin path (remote_pane s) of
             (n, p) \<Rightarrow> sftp_emit [Call (Sftp_call (SftpList (the (sftpIdRef s)) path))]
                         (s\<lparr>remote_pane := p, listings := listings s @ [(Remote_side, n, path)]\<rparr>))"

fun refresh :: "side \<Rightarrow> string \<Rightarrow> sftp_browser \<Rightarrow> sftp_browser" where
  "refresh Local_side path s = refreshLocal path s"
| "refresh Remote_side path s = refreshRemote path s"

text \<open>The effects on \<open>[localPath]\<close> and \<open>[remotePath, status]\<close>, run when one of them has changed.\<close>

fun path_effect :: "side \<Rightarrow> sftp_browser \<Rightarrow> sftp_browser" where
  "path_effect Local_side s = (if fp_path (local_pane s) \<noteq> [] then refreshLocal (fp_path (local_pane s)) s else s)"
| "path_effect Remote_side s =
     (if fp_path (remote_pane s) \<noteq> [] \<and> sftp_status_of s = Sftp_connected
      then refreshRemote (fp_path (remote_pane s)) s else s)"

definition navigate :: "side \<Rightarrow> string \<Rightarrow> sftp_browser \<Rightarrow> sftp_browser" where
  "navigate sd path s =
     (if fp_path (pane_of sd s) = path then s
      else path_effect sd (put_pane sd ((pane_of sd s)\<lparr>fp_path := path\<rparr>) s))"

section \<open>Connecting\<close>

definition boot_failed :: "string \<Rightarrow> sftp_browser \<Rightarrow> sftp_browser" where
  "boot_failed e s =
     (let s1 = (if truthy (connectedId s)
                then (sftp_emit [Call (Sftp_call (SftpDisconnect (the (connectedId s))))] s)\<lparr>sftpIdRef := None\<rparr>
                else s);
          s2 = (if \<not> sftp_disposed s then s1\<lparr>sftp_status_of := Sftp_error, sftp_error_text := Some (friendlyError e)\<rparr>
                else s1)
      in s2\<lparr>boot := Boot_over\<rparr>)"

definition both_ready :: "string \<Rightarrow> string \<Rightarrow> sftp_browser \<Rightarrow> sftp_browser" where
  "both_ready i home s =
     (if sftp_disposed s then (sftp_emit [Call (Sftp_call (SftpDisconnect i))] s)\<lparr>boot := Boot_over\<rparr>
      else navigate Local_side home
             ((sftp_emit [Call (Sftp_call (SftpCanonicalize i ''.''))] s)\<lparr>sftpIdRef := Some i, boot := Canonicalizing\<rparr>))"

definition canonicalized :: "string + string \<Rightarrow> sftp_browser \<Rightarrow> sftp_browser" where
  "canonicalized answer s =
     (case answer of
        Inl e \<Rightarrow> boot_failed e s
      | Inr remoteHome \<Rightarrow>
          (if sftp_disposed s then s\<lparr>boot := Boot_over\<rparr>
           else path_effect Remote_side
                  (sftp_emit [Reload_hosts_list]
                    (s\<lparr>remote_pane := (remote_pane s)\<lparr>fp_path := remoteHome\<rparr>, sftp_status_of := Sftp_connected,
                       boot := Boot_over\<rparr>))))"

text \<open>\<open>Promise.all\<close>: it goes on when both calls are answered, and fails with the first failure.\<close>

definition all_settled :: "sftp_browser \<Rightarrow> sftp_browser" where
  "all_settled s =
     (if boot s \<noteq> Waiting_for_both then s
      else case (connect_answer s, home_answer s) of
             (Some (Inl e), _) \<Rightarrow> boot_failed e s
           | (_, Some (Inl e)) \<Rightarrow> boot_failed e s
           | (Some (Inr i), Some (Inr home)) \<Rightarrow> both_ready i home s
           | _ \<Rightarrow> s)"

definition unmount_browser :: "sftp_browser \<Rightarrow> sftp_browser" where
  "unmount_browser s =
     (let s1 = s\<lparr>sftp_disposed := True\<rparr>
      in if truthy (sftpIdRef s) then sftp_emit [Call (Sftp_call (SftpDisconnect (the (sftpIdRef s))))] s1 else s1)"

section \<open>Handlers\<close>

definition find_entry :: "file_pane \<Rightarrow> browser_entry option" where
  "find_entry p =
     (case fp_selected p of None \<Rightarrow> None | Some sel \<Rightarrow> List.find (\<lambda>e. be_path e = sel) (fp_entries p))"

definition begin_transfer :: "side \<Rightarrow> string \<Rightarrow> browser_entry \<Rightarrow> sftp_effect \<Rightarrow> sftp_browser \<Rightarrow> sftp_browser" where
  "begin_transfer target path entry c s =
     start_task (Transfer_task target path)
       (sftp_emit [c] (s\<lparr>transferring := True, transferringEntry := Some (be_name entry, target), transferError := None\<rparr>))"

definition handleUpload :: "sftp_browser \<Rightarrow> sftp_browser" where
  "handleUpload s =
     (if \<not> truthy (fp_selected (local_pane s)) \<or> \<not> truthy (sftpIdRef s) then s
      else case find_entry (local_pane s) of
             None \<Rightarrow> s
           | Some entry \<Rightarrow>
               (if be_isDir entry then s
                else begin_transfer Remote_side (fp_path (remote_pane s)) entry
                       (Call (Sftp_call (SftpUpload (the (sftpIdRef s)) (be_path entry)
                          (joinPath (fp_path (remote_pane s)) (be_name entry))))) s))"

definition handleDownload :: "sftp_browser \<Rightarrow> sftp_browser" where
  "handleDownload s =
     (if \<not> truthy (fp_selected (remote_pane s)) \<or> \<not> truthy (sftpIdRef s) then s
      else case find_entry (remote_pane s) of
             None \<Rightarrow> s
           | Some entry \<Rightarrow>
               (if be_isDir entry then s
                else begin_transfer Local_side (fp_path (local_pane s)) entry
                       (Call (Sftp_call (SftpDownload (the (sftpIdRef s)) (be_path entry)
                          (joinPath (fp_path (local_pane s)) (be_name entry))))) s))"

text \<open>The remote handlers ask for a session before the dialog, and use the one there is after it.\<close>

definition session_needed :: "side \<Rightarrow> sftp_browser \<Rightarrow> bool" where
  "session_needed sd s \<longleftrightarrow> sd = Local_side \<or> truthy (sftpIdRef s)"

definition handleNewFolder :: "side \<Rightarrow> sftp_browser \<Rightarrow> sftp_browser" where
  "handleNewFolder sd s =
     (if session_needed sd s then start_task (Folder_prompt sd (fp_path (pane_of sd s))) s else s)"

definition handleRename :: "side \<Rightarrow> browser_entry \<Rightarrow> sftp_browser \<Rightarrow> sftp_browser" where
  "handleRename sd entry s =
     (if session_needed sd s then start_task (Rename_prompt sd (fp_path (pane_of sd s)) entry) s else s)"

definition handleDelete :: "side \<Rightarrow> browser_entry \<Rightarrow> sftp_browser \<Rightarrow> sftp_browser" where
  "handleDelete sd entry s =
     (if session_needed sd s then start_task (Delete_confirm sd (fp_path (pane_of sd s)) entry) s else s)"

definition with_session :: "(string \<Rightarrow> sftp_call) \<Rightarrow> sftp_browser \<Rightarrow> sftp_effect" where
  "with_session c s = (case sftpIdRef s of Some i \<Rightarrow> Call (Sftp_call (c i)) | None \<Rightarrow> Call_without_session)"

fun mkdir_call :: "side \<Rightarrow> string \<Rightarrow> sftp_browser \<Rightarrow> sftp_effect" where
  "mkdir_call Local_side path s = Call (Local_fs_call (LocalMkdir path))"
| "mkdir_call Remote_side path s = with_session (\<lambda>i. SftpMkdir i path) s"

fun rename_call :: "side \<Rightarrow> string \<Rightarrow> string \<Rightarrow> sftp_browser \<Rightarrow> sftp_effect" where
  "rename_call Local_side old new s = Call (Local_fs_call (LocalRename old new))"
| "rename_call Remote_side old new s = with_session (\<lambda>i. SftpRename i old new) s"

fun delete_call :: "side \<Rightarrow> browser_entry \<Rightarrow> sftp_browser \<Rightarrow> sftp_effect" where
  "delete_call Local_side entry s = Call (Local_fs_call (LocalDelete (be_path entry) (be_isDir entry)))"
| "delete_call Remote_side entry s =
     with_session (\<lambda>i. if be_isDir entry then SftpRemoveDir i (be_path entry) else SftpRemoveFile i (be_path entry)) s"

definition begin_change :: "side \<Rightarrow> string \<Rightarrow> sftp_effect \<Rightarrow> sftp_browser \<Rightarrow> sftp_browser" where
  "begin_change sd path c s = start_task (Change_task sd path) (sftp_emit [c] s)"

text \<open>
  The answer to what a task waits for: a text or nothing from a dialog (the confirmation answers
  with any text), or the error of a call.
\<close>

fun task_answered :: "sftp_task \<Rightarrow> string option \<Rightarrow> sftp_browser \<Rightarrow> sftp_browser" where
  "task_answered (Folder_prompt sd path) answer s =
     (if \<not> truthy answer then s
      else begin_change sd path (mkdir_call sd (joinPath path (the answer)) s) s)"
| "task_answered (Rename_prompt sd path entry) answer s =
     (if \<not> truthy answer \<or> answer = Some (be_name entry) then s
      else begin_change sd path (rename_call sd (be_path entry) (joinPath path (the answer)) s) s)"
| "task_answered (Delete_confirm sd path entry) answer s =
     (if answer = None then s else begin_change sd path (delete_call sd entry s) s)"
| "task_answered (Change_task sd path) failure s =
     (case failure of
        None \<Rightarrow> refresh sd path s
      | Some e \<Rightarrow> put_pane sd ((pane_of sd s)\<lparr>fp_error := Some e\<rparr>) s)"
| "task_answered (Transfer_task sd path) failure s =
     (let s1 = (case failure of None \<Rightarrow> refresh sd path s | Some e \<Rightarrow> s\<lparr>transferError := Some e\<rparr>)
      in s1\<lparr>transferring := False, transferringEntry := None\<rparr>)"

datatype sftp_event =
    Connect_answered "string + string"
  | Home_answered "string + string"
  | Canonicalize_answered "string + string"
  | Listed side nat "string + browser_entry list"
  | Task_answered nat "string option"
  | Navigate_to side string
  | Press_refresh side
  | Select_entry side string
  | Press_upload
  | Press_download
  | Press_new_folder side
  | Press_rename side browser_entry
  | Press_delete side browser_entry
  | Unmount_browser

text \<open>
  The user acts on a mounted component only; each call is answered once. A button that is
  disabled does nothing.
\<close>

fun sftp_user :: "sftp_event \<Rightarrow> sftp_browser \<Rightarrow> sftp_browser" where
  "sftp_user (Navigate_to sd path) s = navigate sd path s"
| "sftp_user (Press_refresh sd) s = refresh sd (fp_path (pane_of sd s)) s"
| "sftp_user (Select_entry sd path) s = put_pane sd ((pane_of sd s)\<lparr>fp_selected := Some path\<rparr>) s"
| "sftp_user Press_upload s = (if transferring s then s else handleUpload s)"
| "sftp_user Press_download s = (if transferring s then s else handleDownload s)"
| "sftp_user (Press_new_folder sd) s = handleNewFolder sd s"
| "sftp_user (Press_rename sd entry) s = handleRename sd entry s"
| "sftp_user (Press_delete sd entry) s = handleDelete sd entry s"
| "sftp_user Unmount_browser s = unmount_browser s"
| "sftp_user _ s = s"

fun sftp_step :: "sftp_browser \<Rightarrow> sftp_event \<Rightarrow> sftp_browser" where
  "sftp_step s (Connect_answered a) =
     (if connect_answer s \<noteq> None then s
      else all_settled (s\<lparr>connect_answer := Some a,
             connectedId := (case a of Inr i \<Rightarrow> Some i | Inl _ \<Rightarrow> connectedId s)\<rparr>))"
| "sftp_step s (Home_answered a) =
     (if home_answer s \<noteq> None then s else all_settled (s\<lparr>home_answer := Some a\<rparr>))"
| "sftp_step s (Canonicalize_answered a) = (if boot s \<noteq> Canonicalizing then s else canonicalized a s)"
| "sftp_step s (Listed sd n a) =
     (if \<not> list_ex (\<lambda>(sd', n', path). sd' = sd \<and> n' = n) (listings s) then s
      else (let s1 = s\<lparr>listings := filter (\<lambda>(sd', n', path). \<not> (sd' = sd \<and> n' = n)) (listings s)\<rparr>
            in put_pane sd (case a of Inr es \<Rightarrow> list_arrived n es (pane_of sd s1)
                                    | Inl e \<Rightarrow> list_failed n e (pane_of sd s1)) s1))"
| "sftp_step s (Task_answered k a) =
     (case map_of (sftp_tasks s) k of
        None \<Rightarrow> s
      | Some t \<Rightarrow> task_answered t a (s\<lparr>sftp_tasks := filter (\<lambda>(k', t). k' \<noteq> k) (sftp_tasks s)\<rparr>))"
| "sftp_step s e = (if sftp_disposed s then s else sftp_user e s)"

definition sftp_start :: "host \<Rightarrow> sftp_browser" where
  "sftp_start h =
     \<lparr>sftpIdRef = None, sftp_status_of = Sftp_connecting, sftp_error_text = None,
      local_pane = initial_pane, remote_pane = initial_pane,
      transferring = False, transferError = None, transferringEntry = None,
      sftp_disposed = False, connectedId = None, connect_answer = None, home_answer = None,
      boot = Waiting_for_both, listings = [], sftp_tasks = [], tasks_started = 0,
      sftp_calls = [Call (Sftp_call (SftpConnect (host_id h))), Call (Local_fs_call LocalHomeDir)]\<rparr>"

definition sftp_run :: "host \<Rightarrow> sftp_event list \<Rightarrow> sftp_browser" where
  "sftp_run h es = foldl sftp_step (sftp_start h) es"

section \<open>Lemmas on paths and sizes\<close>

lemma strip_slashes_snoc [simp]:
  "strip_slashes (path @ [c]) = (if c = slash then strip_slashes path else path @ [c])"
  by (simp add: strip_slashes_def)

lemma strip_slashes_append: "x \<noteq> [] \<Longrightarrow> last x \<noteq> slash \<Longrightarrow> strip_slashes (d @ x) = d @ x"
  by (cases x rule: rev_cases) (simp_all add: append.assoc[symmetric] del: append.assoc append_assoc)

lemma drop_name:
  "slash \<notin> set name \<Longrightarrow> dropWhile (\<lambda>c. c \<noteq> slash) (rev name @ slash # r) = slash # r"
  by (subst dropWhile_append2) auto

lemma parent_of_join:
  assumes "name \<noteq> []" and "slash \<notin> set name"
  shows "parentPath (joinPath dir name) = (if strip_slashes dir = [] then [slash] else strip_slashes dir)"
proof -
  have "last name \<in> set name" using assms(1) by simp
  then have "last name \<noteq> slash" using assms(2) by metis
  then have "strip_slashes (joinPath dir name) = strip_slashes dir @ [slash] @ name"
    using strip_slashes_append[of "[slash] @ name" "strip_slashes dir"] assms(1) by (simp add: joinPath_def)
  then show ?thesis
    using drop_name[OF assms(2), of "rev (strip_slashes dir)"] by (simp add: parentPath_def Let_def)
qed

lemma scale_size_range:
  "1 \<le> amount \<Longrightarrow> fst (scale_size amount unit units) \<ge> 1
     \<and> (snd (scale_size amount unit units) = last (unit # units) \<or> fst (scale_size amount unit units) < 1024)"
proof (induction units arbitrary: amount unit)
  case (Cons larger units)
  show ?case
  proof (cases "1024 \<le> amount")
    case True
    then have "1 \<le> amount / 1024" by simp
    from Cons.IH[OF this, of larger] True show ?thesis by simp
  next
    case False
    with Cons.prems show ?thesis by simp
  qed
qed simp

section \<open>A pane's listings\<close>

text \<open>
  A pane is a guarded copy of the directory whose listing was asked for last; the backend's
  state is the listing of every directory.
\<close>

definition list_finish :: "string \<Rightarrow> nat \<Rightarrow> (unit \<Rightarrow> string \<Rightarrow> browser_entry list) \<Rightarrow> file_pane \<Rightarrow> file_pane" where
  "list_finish path requestId answer p = list_arrived requestId (answer () path) p"

definition list_parts :: "string \<Rightarrow> unit list" where "list_parts path = [()]"

definition pane_shows :: "string \<Rightarrow> (string \<Rightarrow> browser_entry list) \<Rightarrow> file_pane \<Rightarrow> bool" where
  "pane_shows path directory p \<longleftrightarrow> fp_entries p = directory path \<and> \<not> fp_loading p"

interpretation pane_refetch: guarded_refetch list_begin list_finish list_parts fp_request pane_shows
  by unfold_locales
    (auto simp: list_begin_def list_finish_def list_parts_def list_arrived_def pane_shows_def Let_def)

section \<open>The path a listing belongs to\<close>

definition listing_path :: "sftp_browser \<Rightarrow> side \<Rightarrow> nat \<Rightarrow> string option" where
  "listing_path s sd n = map_of (map (\<lambda>(sd', n', path). ((sd', n'), path)) (listings s)) (sd, n)"

text \<open>Beside the browser: the last listing each pane took over, with the path it was asked for.\<close>

type_synonym accepted = "side \<Rightarrow> (string \<times> browser_entry list) option"

fun accept_step :: "sftp_browser \<times> accepted \<Rightarrow> sftp_event \<Rightarrow> sftp_browser \<times> accepted" where
  "accept_step (s, acc) (Listed sd n (Inr es)) =
     (sftp_step s (Listed sd n (Inr es)),
      case listing_path s sd n of
        None \<Rightarrow> acc
      | Some path \<Rightarrow> if n = fp_request (pane_of sd s) then acc(sd := Some (path, es)) else acc)"
| "accept_step (s, acc) e = (sftp_step s e, acc)"

definition live :: "side \<Rightarrow> sftp_browser \<Rightarrow> bool" where
  "live sd s \<longleftrightarrow> sd = Local_side \<or> sftp_status_of s = Sftp_connected"

text \<open>
  A run is steady when sessions have identifiers and no pane has been navigated away from the
  directory an operation was started in when that operation succeeds.
\<close>

fun steady :: "sftp_browser \<times> accepted \<Rightarrow> sftp_event \<Rightarrow> bool" where
  "steady (s, acc) (Connect_answered (Inr i)) = (i \<noteq> [])"
| "steady (s, acc) (Task_answered k None) =
     (case map_of (sftp_tasks s) k of
        Some (Change_task sd path) \<Rightarrow> path = fp_path (pane_of sd s)
      | Some (Transfer_task sd path) \<Rightarrow> path = fp_path (pane_of sd s)
      | _ \<Rightarrow> True)"
| "steady (s, acc) e = True"

definition pane_ok :: "side \<Rightarrow> sftp_browser \<times> accepted \<Rightarrow> bool" where
  "pane_ok sd w \<longleftrightarrow> (case w of (s, acc) \<Rightarrow>
     (\<forall>n path. (sd, n, path) \<in> set (listings s) \<longrightarrow> n \<le> fp_request (pane_of sd s))
     \<and> (live sd s \<and> fp_path (pane_of sd s) \<noteq> [] \<longrightarrow>
          (\<forall>path. listing_path s sd (fp_request (pane_of sd s)) = Some path \<longrightarrow> path = fp_path (pane_of sd s))
          \<and> (fp_loading (pane_of sd s) \<longrightarrow> listing_path s sd (fp_request (pane_of sd s)) \<noteq> None)
          \<and> (\<not> fp_loading (pane_of sd s) \<and> fp_error (pane_of sd s) = None \<longrightarrow>
               acc sd = Some (fp_path (pane_of sd s), fp_entries (pane_of sd s)))))"

definition boot_ok :: "sftp_browser \<Rightarrow> bool" where
  "boot_ok s \<longleftrightarrow>
     (\<forall>i. connect_answer s = Some (Inr i) \<longrightarrow> i \<noteq> [])
     \<and> (boot s = Canonicalizing \<longrightarrow> truthy (sftpIdRef s))
     \<and> (sftp_status_of s = Sftp_connected \<longrightarrow> boot s = Boot_over \<and> truthy (sftpIdRef s))"

lemma pane_of_put [simp]:
  "pane_of sd (put_pane sd' p s) = (if sd = sd' then p else pane_of sd s)"
  "listings (put_pane sd p s) = listings s" "sftp_status_of (put_pane sd p s) = sftp_status_of s"
  "sftpIdRef (put_pane sd p s) = sftpIdRef s" "boot (put_pane sd p s) = boot s"
  "connect_answer (put_pane sd p s) = connect_answer s" "sftp_calls (put_pane sd p s) = sftp_calls s"
  "sftp_disposed (put_pane sd p s) = sftp_disposed s" "home_answer (put_pane sd p s) = home_answer s"
  "connectedId (put_pane sd p s) = connectedId s"
  by (cases sd; cases sd'; simp)+

lemma refresh_keeps [simp]:
  "sftpIdRef (refresh sd path s) = sftpIdRef s" "boot (refresh sd path s) = boot s"
  "sftp_status_of (refresh sd path s) = sftp_status_of s" "connect_answer (refresh sd path s) = connect_answer s"
  "sftp_disposed (refresh sd path s) = sftp_disposed s" "home_answer (refresh sd path s) = home_answer s"
  "connectedId (refresh sd path s) = connectedId s"
  by (cases sd; simp add: refreshLocal_def refreshRemote_def sftp_emit_def split: prod.split)+

lemma path_effect_refresh:
  "path_effect sd s = (if fp_path (pane_of sd s) \<noteq> [] \<and> live sd s then refresh sd (fp_path (pane_of sd s)) s else s)"
  by (cases sd) (auto simp: live_def)

lemma navigate_keeps [simp]:
  "sftpIdRef (navigate sd path s) = sftpIdRef s" "boot (navigate sd path s) = boot s"
  "sftp_status_of (navigate sd path s) = sftp_status_of s" "connect_answer (navigate sd path s) = connect_answer s"
  "sftp_disposed (navigate sd path s) = sftp_disposed s" "home_answer (navigate sd path s) = home_answer s"
  "connectedId (navigate sd path s) = connectedId s"
  by (simp_all add: navigate_def path_effect_refresh)

definition listings_numbered :: "side \<Rightarrow> sftp_browser \<Rightarrow> bool" where
  "listings_numbered sd s \<longleftrightarrow> (\<forall>n path. (sd, n, path) \<in> set (listings s) \<longrightarrow> n \<le> fp_request (pane_of sd s))"

lemma pane_ok_numbered: "pane_ok sd (s, acc) \<Longrightarrow> listings_numbered sd s"
  by (simp add: pane_ok_def listings_numbered_def)

lemma pane_ok_idle:
  "listings_numbered sd s \<Longrightarrow> \<not> live sd s \<or> fp_path (pane_of sd s) = [] \<Longrightarrow> pane_ok sd (s, acc)"
  by (auto simp: pane_ok_def listings_numbered_def)

lemma pane_ok_frame:
  assumes "pane_ok sd (s, acc)" and "listings s' = listings s"
    and "fp_path (pane_of sd s') = fp_path (pane_of sd s)" "fp_entries (pane_of sd s') = fp_entries (pane_of sd s)"
    and "fp_loading (pane_of sd s') = fp_loading (pane_of sd s)" "fp_request (pane_of sd s') = fp_request (pane_of sd s)"
    and "fp_error (pane_of sd s') = None \<Longrightarrow> fp_error (pane_of sd s) = None" and "live sd s' \<Longrightarrow> live sd s"
  shows "pane_ok sd (s', acc)"
  using assms by (auto simp: pane_ok_def listing_path_def)

lemma listing_path_new:
  assumes "listings_numbered sd s" and "listings s' = listings s @ [(sd, Suc (fp_request (pane_of sd s)), path)]"
  shows "listing_path s' sd (Suc (fp_request (pane_of sd s))) = Some path"
proof -
  have "map_of (map (\<lambda>(sd', n', path). ((sd', n'), path)) (listings s)) (sd, Suc (fp_request (pane_of sd s))) = None"
    using assms(1) by (fastforce simp: map_of_eq_None_iff listings_numbered_def)
  then show ?thesis by (simp add: listing_path_def assms(2) map_add_def)
qed

lemma refresh_effect:
  assumes "sd = Remote_side \<Longrightarrow> truthy (sftpIdRef s)"
  shows "listings (refresh sd path s) = listings s @ [(sd, Suc (fp_request (pane_of sd s)), path)]"
    and "pane_of sd' (refresh sd path s) = (if sd' = sd
       then (pane_of sd s)\<lparr>fp_request := Suc (fp_request (pane_of sd s)), fp_loading := True, fp_error := None\<rparr>
       else pane_of sd' s)"
  using assms
  by (cases sd; cases sd'; simp add: refreshLocal_def refreshRemote_def list_begin_def sftp_emit_def Let_def)+

lemma refresh_makes_ok:
  assumes "listings_numbered sd s" and "path = fp_path (pane_of sd s)" and "sd = Remote_side \<Longrightarrow> truthy (sftpIdRef s)"
  shows "pane_ok sd (refresh sd path s, acc)"
proof -
  have "listing_path (refresh sd path s) sd (Suc (fp_request (pane_of sd s))) = Some path"
    by (rule listing_path_new[OF assms(1) refresh_effect(1)[OF assms(3)]])
  moreover have "n \<le> Suc (fp_request (pane_of sd s))" if "(sd, n, q) \<in> set (listings (refresh sd path s))" for n q
    using that assms(1) refresh_effect(1)[OF assms(3), where path = path] by (auto simp: listings_numbered_def intro: le_SucI)
  ultimately show ?thesis
    using assms(2) by (auto simp: pane_ok_def refresh_effect(2)[OF assms(3)])
qed

lemma refresh_other:
  assumes "pane_ok sd' (s, acc)" and "sd' \<noteq> sd"
  shows "pane_ok sd' (refresh sd path s, acc)"
proof (cases "sd = Remote_side \<and> \<not> truthy (sftpIdRef s)")
  case True
  with assms(1) show ?thesis by (auto simp: refreshRemote_def)
next
  case False
  then have "listing_path (refresh sd path s) sd' = listing_path s sd'"
    using assms(2) by (auto simp: fun_eq_iff listing_path_def refresh_effect(1) map_add_def split: option.split)
  moreover have "live sd' (refresh sd path s) = live sd' s" by (simp add: live_def)
  ultimately show ?thesis
    using False assms refresh_effect[of sd s, where path = path] by (auto simp: pane_ok_def)
qed

lemma refresh_ok:
  assumes "\<And>sd. pane_ok sd (s, acc)" and "path = fp_path (pane_of sd s)"
  shows "pane_ok sd' (refresh sd path s, acc)"
proof (cases "sd = Remote_side \<and> \<not> truthy (sftpIdRef s)")
  case True
  with assms(1) show ?thesis by (auto simp: refreshRemote_def)
next
  case False
  then show ?thesis
    using refresh_makes_ok[OF pane_ok_numbered[OF assms(1)] assms(2)] refresh_other[OF assms(1)]
    by (cases "sd' = sd") auto
qed

lemma path_effect_ok:
  assumes "listings_numbered sd s" and "live sd s \<Longrightarrow> sd = Remote_side \<Longrightarrow> truthy (sftpIdRef s)"
    and "sd' \<noteq> sd \<Longrightarrow> pane_ok sd' (s, acc)"
  shows "pane_ok sd' (path_effect sd s, acc)"
  using assms refresh_makes_ok[OF assms(1) refl, of acc] refresh_other[OF assms(3)] pane_ok_idle[OF assms(1), of acc]
  by (cases "sd' = sd") (auto simp: path_effect_refresh)

lemma navigate_ok:
  assumes "\<And>sd. pane_ok sd (s, acc)" and "boot_ok s"
  shows "pane_ok sd' (navigate sd path s, acc)"
proof (cases "fp_path (pane_of sd s) = path")
  case True
  with assms(1) show ?thesis by (simp add: navigate_def)
next
  case False
  have "pane_ok sd' (path_effect sd (put_pane sd ((pane_of sd s)\<lparr>fp_path := path\<rparr>) s), acc)"
  proof (rule path_effect_ok)
    show "listings_numbered sd (put_pane sd ((pane_of sd s)\<lparr>fp_path := path\<rparr>) s)"
      using pane_ok_numbered[OF assms(1)] by (simp add: listings_numbered_def)
    show "live sd (put_pane sd ((pane_of sd s)\<lparr>fp_path := path\<rparr>) s) \<Longrightarrow> sd = Remote_side \<Longrightarrow>
        truthy (sftpIdRef (put_pane sd ((pane_of sd s)\<lparr>fp_path := path\<rparr>) s))"
      using assms(2) by (auto simp: boot_ok_def live_def)
    show "sd' \<noteq> sd \<Longrightarrow> pane_ok sd' (put_pane sd ((pane_of sd s)\<lparr>fp_path := path\<rparr>) s, acc)"
      by (rule pane_ok_frame[OF assms(1)]) (auto simp: live_def)
  qed
  with False show ?thesis by (simp add: navigate_def)
qed

section \<open>The invariant of a run\<close>

lemma boot_ok_failed: "boot_ok s \<Longrightarrow> boot s \<noteq> Boot_over \<Longrightarrow> boot_ok (boot_failed e s)"
  by (auto simp: boot_ok_def boot_failed_def sftp_emit_def Let_def)

lemma live_failed: "live sd (boot_failed e s) \<Longrightarrow> live sd s"
  by (auto simp: live_def boot_failed_def sftp_emit_def Let_def split: if_splits)

lemma boot_failed_panes [simp]:
  "listings (boot_failed e s) = listings s" "pane_of sd (boot_failed e s) = pane_of sd s"
  by (cases sd; simp add: boot_failed_def sftp_emit_def Let_def)+

lemma pane_ok_failed: "pane_ok sd (s, acc) \<Longrightarrow> pane_ok sd (boot_failed e s, acc)"
  by (erule pane_ok_frame) (auto dest: live_failed)

lemma both_ready_ok:
  assumes "\<And>sd. pane_ok sd (s, acc)" and "boot_ok s" and "boot s = Waiting_for_both" and "i \<noteq> []"
  shows "boot_ok (both_ready i home s)" and "pane_ok sd (both_ready i home s, acc)"
proof -
  let ?s = "(sftp_emit [Call (Sftp_call (SftpCanonicalize i ''.''))] s)\<lparr>sftpIdRef := Some i, boot := Canonicalizing\<rparr>"
  have b: "boot_ok ?s" using assms(2-4) by (auto simp: boot_ok_def sftp_emit_def truthy_def)
  have p: "pane_ok sd (?s, acc)" for sd
    by (rule pane_ok_frame[OF assms(1)]) (cases sd; auto simp: sftp_emit_def live_def)+
  show "boot_ok (both_ready i home s)"
    using b assms(2,3) by (auto simp: both_ready_def boot_ok_def sftp_emit_def)
  have "pane_ok sd ((sftp_emit [Call (Sftp_call (SftpDisconnect i))] s)\<lparr>boot := Boot_over\<rparr>, acc)"
    by (rule pane_ok_frame[OF assms(1)]) (cases sd; auto simp: sftp_emit_def live_def)+
  with navigate_ok[OF p b] show "pane_ok sd (both_ready i home s, acc)" by (simp add: both_ready_def)
qed

lemma all_settled_ok:
  assumes "\<And>sd. pane_ok sd (s, acc)" and "boot_ok s"
  shows "boot_ok (all_settled s) \<and> pane_ok sd (all_settled s, acc)"
proof (cases "boot s = Waiting_for_both")
  case True
  then have "boot s \<noteq> Boot_over" by simp
  note failed = boot_ok_failed[OF assms(2) this] pane_ok_failed[OF assms(1)]
  have "i \<noteq> []" if "connect_answer s = Some (Inr i)" for i
    using that assms(2) by (simp add: boot_ok_def)
  with True assms failed both_ready_ok[OF assms True] show ?thesis
    by (auto simp: all_settled_def split: option.splits sum.splits)
next
  case False
  with assms show ?thesis by (simp add: all_settled_def)
qed

lemma canonicalized_ok:
  assumes "\<And>sd. pane_ok sd (s, acc)" and "boot_ok s" and "boot s = Canonicalizing"
  shows "boot_ok (canonicalized a s) \<and> pane_ok sd (canonicalized a s, acc)"
proof (cases a)
  case (Inl e)
  with assms pane_ok_failed[OF assms(1)] boot_ok_failed[OF assms(2)] show ?thesis
    by (simp add: canonicalized_def)
next
  case (Inr home)
  let ?s = "sftp_emit [Reload_hosts_list] (s\<lparr>remote_pane := (remote_pane s)\<lparr>fp_path := home\<rparr>,
      sftp_status_of := Sftp_connected, boot := Boot_over\<rparr>)"
  have i: "truthy (sftpIdRef s)" using assms(2,3) by (simp add: boot_ok_def)
  have "boot_ok (path_effect Remote_side ?s)"
    using assms(2) i by (simp add: boot_ok_def path_effect_refresh sftp_emit_def del: path_effect.simps refresh.simps)
  moreover have "pane_ok sd (path_effect Remote_side ?s, acc)"
  proof (rule path_effect_ok)
    show "listings_numbered Remote_side ?s"
      using pane_ok_numbered[OF assms(1), of Remote_side] by (simp add: listings_numbered_def sftp_emit_def)
    show "sd \<noteq> Remote_side \<Longrightarrow> pane_ok sd (?s, acc)"
      by (rule pane_ok_frame[OF assms(1)]) (cases sd; auto simp: sftp_emit_def live_def)+
  qed (use i in \<open>simp add: sftp_emit_def\<close>)
  moreover have "boot_ok (s\<lparr>boot := Boot_over\<rparr>) \<and> pane_ok sd (s\<lparr>boot := Boot_over\<rparr>, acc)"
  proof
    show "boot_ok (s\<lparr>boot := Boot_over\<rparr>)" using assms(2) by (simp add: boot_ok_def)
    show "pane_ok sd (s\<lparr>boot := Boot_over\<rparr>, acc)"
      by (rule pane_ok_frame[OF assms(1)]) (cases sd; auto simp: live_def)+
  qed
  ultimately show ?thesis using Inr by (simp add: canonicalized_def del: path_effect.simps)
qed

lemma live_cong: "sftp_status_of s' = sftp_status_of s \<Longrightarrow> live sd s' = live sd s"
  by (simp add: live_def)

text \<open>Steps that touch neither the panes, but for a selection or an error, nor the connection.\<close>

lemma start_task_keeps [simp]:
  "listings (start_task t s) = listings s" "pane_of sd (start_task t s) = pane_of sd s"
  "sftp_status_of (start_task t s) = sftp_status_of s" "sftpIdRef (start_task t s) = sftpIdRef s"
  "boot (start_task t s) = boot s" "connect_answer (start_task t s) = connect_answer s"
  "sftp_calls (start_task t s) = sftp_calls s" "sftp_disposed (start_task t s) = sftp_disposed s"
  "home_answer (start_task t s) = home_answer s" "connectedId (start_task t s) = connectedId s"
  by (cases sd; simp add: start_task_def)+

lemma emit_keeps [simp]:
  "listings (sftp_emit es s) = listings s" "pane_of sd (sftp_emit es s) = pane_of sd s"
  "sftp_status_of (sftp_emit es s) = sftp_status_of s" "sftpIdRef (sftp_emit es s) = sftpIdRef s"
  "boot (sftp_emit es s) = boot s" "connect_answer (sftp_emit es s) = connect_answer s"
  "sftp_calls (sftp_emit es s) = sftp_calls s @ es" "sftp_disposed (sftp_emit es s) = sftp_disposed s"
  "home_answer (sftp_emit es s) = home_answer s" "connectedId (sftp_emit es s) = connectedId s"
  by (cases sd; simp add: sftp_emit_def)+

definition same_view :: "sftp_browser \<Rightarrow> sftp_browser \<Rightarrow> bool" where
  "same_view s s' \<longleftrightarrow> listings s' = listings s \<and> sftp_status_of s' = sftp_status_of s \<and> sftpIdRef s' = sftpIdRef s
     \<and> boot s' = boot s \<and> connect_answer s' = connect_answer s
     \<and> (\<forall>sd. pane_of sd s' = pane_of sd s)"

lemma same_view_ok: "same_view s s' \<Longrightarrow> pane_ok sd (s, acc) \<Longrightarrow> pane_ok sd (s', acc)"
  "same_view s s' \<Longrightarrow> boot_ok s \<Longrightarrow> boot_ok s'"
  by (rule pane_ok_frame; simp add: same_view_def live_def) (simp add: same_view_def boot_ok_def)

lemma begin_transfer_view: "same_view s (begin_transfer sd path entry c s)"
proof -
  have "pane_of sd' (s\<lparr>transferring := True, transferringEntry := x, transferError := None\<rparr>) = pane_of sd' s" for sd' x
    by (cases sd') simp_all
  then show ?thesis by (simp add: same_view_def begin_transfer_def)
qed

lemma handler_views:
  "same_view s (handleUpload s)" "same_view s (handleDownload s)" "same_view s (handleNewFolder sd s)"
  "same_view s (handleRename sd entry s)" "same_view s (handleDelete sd entry s)"
  "same_view s (begin_change sd path c s)"
  using begin_transfer_view
  by (auto simp: handleUpload_def handleDownload_def handleNewFolder_def handleRename_def handleDelete_def
      begin_change_def same_view_def split: option.split)

lemma task_answered_ok:
  assumes "\<And>sd. pane_ok sd (s, acc)" and "boot_ok s"
    and "\<And>sd path. a = None \<Longrightarrow> t = Change_task sd path \<or> t = Transfer_task sd path \<Longrightarrow> path = fp_path (pane_of sd s)"
  shows "boot_ok (task_answered t a s) \<and> pane_ok sd (task_answered t a s, acc)"
proof (cases t)
  case (Change_task sd' path)
  show ?thesis
  proof (cases a)
    case None
    with Change_task refresh_ok[OF assms(1) assms(3)[OF None, of sd' path]] assms(2) show ?thesis
      by (simp add: boot_ok_def)
  next
    case (Some e)
    have "pane_ok sd (put_pane sd' ((pane_of sd' s)\<lparr>fp_error := Some e\<rparr>) s, acc)"
      by (rule pane_ok_frame[OF assms(1)]) (auto simp: live_def split: if_splits)
    with Change_task Some assms(2) show ?thesis by (simp add: boot_ok_def)
  qed
next
  case (Transfer_task sd' path)
  have "same_view (refresh sd' path s) ((refresh sd' path s)\<lparr>transferring := False, transferringEntry := None\<rparr>)"
    "same_view s (s\<lparr>transferError := e, transferring := False, transferringEntry := None\<rparr>)" for e
  proof -
    have "pane_of sd (x\<lparr>transferring := False, transferringEntry := None\<rparr>) = pane_of sd x"
      "pane_of sd (x\<lparr>transferError := e, transferring := False, transferringEntry := None\<rparr>) = pane_of sd x" for sd x
      by (cases sd; simp)+
    then show "same_view (refresh sd' path s) ((refresh sd' path s)\<lparr>transferring := False, transferringEntry := None\<rparr>)"
      "same_view s (s\<lparr>transferError := e, transferring := False, transferringEntry := None\<rparr>)"
      by (simp_all add: same_view_def)
  qed
  note views = this
  have "boot_ok (refresh sd' path s)" using assms(2) by (simp add: boot_ok_def)
  then show ?thesis
    using Transfer_task same_view_ok[OF views(1)] same_view_ok[OF views(2)] assms(1,2)
      refresh_ok[OF assms(1) assms(3)[of sd' path]]
    by (cases a) (auto simp: Let_def)
qed (use assms handler_views(6)[of s] same_view_ok[OF handler_views(6)] in auto)

lemma listed_ok:
  assumes "pane_ok sd (s, acc)" and "accept_step (s, acc) (Listed sd' n a) = (s', acc')"
  shows "pane_ok sd (s', acc')"
proof (cases "list_ex (\<lambda>(sd'', n', path). sd'' = sd' \<and> n' = n) (listings s)")
  case False
  then have "listing_path s sd' n = None"
    by (auto simp: listing_path_def map_of_eq_None_iff list_ex_iff)
  with False assms show ?thesis by (cases a) auto
next
  case True
  define s1 where "s1 = s\<lparr>listings := filter (\<lambda>(sd'', n', path). \<not> (sd'' = sd' \<and> n' = n)) (listings s)\<rparr>"
  have other: "listing_path s1 sd m = listing_path s sd m" if "(sd, m) \<noteq> (sd', n)" for m
  proof -
    have "map_of (map (\<lambda>(sd', n', path). ((sd', n'), path)) (filter (\<lambda>(sd'', n', path). \<not> (sd'' = sd' \<and> n' = n)) ls)) (sd, m) =
        map_of (map (\<lambda>(sd', n', path). ((sd', n'), path)) ls) (sd, m)" for ls
      using that by (induction ls) auto
    then show ?thesis by (simp add: listing_path_def s1_def)
  qed
  have path: "\<exists>path. listing_path s sd' n = Some path"
    using True by (auto simp: listing_path_def list_ex_iff map_of_eq_None_iff simp flip: not_None_eq) force
  have p1: "pane_of sd'' s1 = pane_of sd'' s" for sd'' by (cases sd'') (simp_all add: s1_def)
  have s': "s' = put_pane sd' (case a of Inr es \<Rightarrow> list_arrived n es (pane_of sd' s1)
                                    | Inl e \<Rightarrow> list_failed n e (pane_of sd' s1)) s1"
    using True assms(2) by (cases a) (auto simp: Let_def s1_def)
  show ?thesis
  proof (cases "sd = sd' \<and> n = fp_request (pane_of sd s)")
    case False
    then have "fp_request (pane_of sd s') = fp_request (pane_of sd s)" "pane_of sd s' = pane_of sd s"
      by (auto simp: s' p1 list_arrived_def list_failed_def split: sum.splits)
    moreover have "acc' sd = acc sd" using False assms(2) by (cases a) (auto split: option.splits if_splits)
    moreover have "listing_path s' sd (fp_request (pane_of sd s)) = listing_path s sd (fp_request (pane_of sd s))"
      using other[of "fp_request (pane_of sd s)"] False by (auto simp: s' listing_path_def)
    moreover have "set (listings s') \<subseteq> set (listings s)" "sftp_status_of s' = sftp_status_of s"
      by (auto simp: s' s1_def)
    ultimately show ?thesis using assms(1) by (auto simp: pane_ok_def live_def)
  next
    case here: True
    have "listing_path s' sd n = None"
      using here by (auto simp: s' s1_def listing_path_def map_of_eq_None_iff)
    moreover have "set (listings s') \<subseteq> set (listings s)" "sftp_status_of s' = sftp_status_of s"
      by (auto simp: s' s1_def)
    ultimately show ?thesis
      using assms here path by (cases a) (auto simp: pane_ok_def live_def s' p1 list_arrived_def list_failed_def)
  qed
qed

definition sftp_ok :: "sftp_browser \<times> accepted \<Rightarrow> bool" where
  "sftp_ok w \<longleftrightarrow> boot_ok (fst w) \<and> (\<forall>sd. pane_ok sd w)"

lemma sftp_user_ok:
  assumes "\<And>sd. pane_ok sd (s, acc)" and "boot_ok s"
  shows "boot_ok (sftp_user e s) \<and> pane_ok sd (sftp_user e s, acc)"
proof -
  note views = same_view_ok[OF handler_views(1)] same_view_ok[OF handler_views(2)] same_view_ok[OF handler_views(3)]
    same_view_ok[OF handler_views(4)] same_view_ok[OF handler_views(5)]
  have sel: "pane_ok sd (put_pane sd' ((pane_of sd' s)\<lparr>fp_selected := p\<rparr>) s, acc)" for sd' p
    by (rule pane_ok_frame[OF assms(1)]) (auto simp: live_def split: if_splits)
  have gone: "same_view s (unmount_browser s)"
  proof -
    have "pane_of sd (s\<lparr>sftp_disposed := True\<rparr>) = pane_of sd s" for sd by (cases sd) simp_all
    then show ?thesis by (simp add: same_view_def unmount_browser_def Let_def)
  qed
  show ?thesis
  proof (cases e)
    case (Navigate_to sd' path)
    then show ?thesis using navigate_ok[OF assms] assms(2) by (simp add: boot_ok_def)
  next
    case (Press_refresh sd')
    then show ?thesis using refresh_ok[OF assms(1) refl] assms(2) by (simp add: boot_ok_def)
  next
    case (Select_entry sd' p)
    then show ?thesis using sel assms(2) by (simp add: boot_ok_def)
  next
    case Unmount_browser
    then show ?thesis using same_view_ok[OF gone] assms by simp
  qed (use assms views in \<open>simp_all\<close>)
qed

lemma sftp_ok_step:
  assumes "sftp_ok w" and "steady w e"
  shows "sftp_ok (accept_step w e)"
proof (cases w)
  case (Pair s acc)
  have p: "pane_ok sd (s, acc)" and b: "boot_ok s" for sd
    using assms(1) Pair by (simp_all add: sftp_ok_def)
  note user = sftp_user_ok[OF p b]
  have settled: "sftp_ok (all_settled s', acc)" if "boot_ok s'" "listings s' = listings s" "sftp_status_of s' = sftp_status_of s"
    "\<And>sd. pane_of sd s' = pane_of sd s" for s'
  proof -
    have "pane_ok sd (s', acc)" for sd by (rule pane_ok_frame[OF p]) (simp_all add: that live_def)
    from all_settled_ok[OF this that(1)] show ?thesis by (simp add: sftp_ok_def)
  qed
  show ?thesis
  proof (cases e)
    case (Connect_answered a)
    let ?s = "s\<lparr>connect_answer := Some a, connectedId := (case a of Inr i \<Rightarrow> Some i | Inl _ \<Rightarrow> connectedId s)\<rparr>"
    have "boot_ok ?s" using b assms(2) Pair Connect_answered by (auto simp: boot_ok_def)
    moreover have "pane_of sd ?s = pane_of sd s" for sd by (cases sd) simp_all
    ultimately have "sftp_ok (all_settled ?s, acc)" by (intro settled) simp_all
    moreover have "sftp_ok (s, acc)" using p b by (simp add: sftp_ok_def)
    ultimately show ?thesis using Connect_answered Pair by simp
  next
    case (Home_answered a)
    have "boot_ok (s\<lparr>home_answer := Some a\<rparr>)" using b by (simp add: boot_ok_def)
    moreover have "pane_of sd (s\<lparr>home_answer := Some a\<rparr>) = pane_of sd s" for sd by (cases sd) simp_all
    ultimately have "sftp_ok (all_settled (s\<lparr>home_answer := Some a\<rparr>), acc)" by (intro settled) simp_all
    moreover have "sftp_ok (s, acc)" using p b by (simp add: sftp_ok_def)
    ultimately show ?thesis using Home_answered Pair by simp
  next
    case (Canonicalize_answered a)
    then show ?thesis using Pair p b canonicalized_ok[OF p b] by (auto simp: sftp_ok_def)
  next
    case (Listed sd n a)
    obtain s' acc' where w': "accept_step (s, acc) (Listed sd n a) = (s', acc')" by fastforce
    have "boot_ok s'" using w' b by (cases a) (auto simp: boot_ok_def Let_def split: if_splits)
    then show ?thesis using w' Listed Pair listed_ok[OF p w'] by (simp add: sftp_ok_def)
  next
    case (Task_answered k a)
    show ?thesis
    proof (cases "map_of (sftp_tasks s) k")
      case None
      then show ?thesis using Task_answered Pair p b by (simp add: sftp_ok_def)
    next
      case (Some t)
      let ?s = "s\<lparr>sftp_tasks := filter (\<lambda>(k', t). k' \<noteq> k) (sftp_tasks s)\<rparr>"
      have pane: "pane_of sd ?s = pane_of sd s" for sd by (cases sd) simp_all
      have "pane_ok sd (?s, acc)" for sd by (rule pane_ok_frame[OF p]) (simp_all only: pane, simp_all add: live_def)
      moreover have "boot_ok ?s" using b by (simp add: boot_ok_def)
      moreover have "path = fp_path (pane_of sd ?s)" if "a = None" "t = Change_task sd path \<or> t = Transfer_task sd path" for sd path
        using that assms(2) Pair Task_answered Some by (auto simp: pane)
      ultimately show ?thesis
        using task_answered_ok[of ?s acc a t] Task_answered Pair Some by (auto simp: sftp_ok_def)
    qed
  qed (use user Pair p b in \<open>simp_all add: sftp_ok_def del: sftp_user.simps\<close>)
qed

definition no_listing :: accepted where "no_listing = (\<lambda>sd. None)"

interpretation sftp_machine: invariant_machine "(sftp_start h, no_listing)" accept_step steady sftp_ok
proof
  have "pane_ok sd (sftp_start h, no_listing)" for sd
    by (rule pane_ok_idle) (cases sd; simp add: sftp_start_def listings_numbered_def initial_pane_def)+
  then show "sftp_ok (sftp_start h, no_listing)"
    by (simp add: sftp_ok_def boot_ok_def sftp_start_def)
  show "sftp_ok w \<Longrightarrow> steady w e \<Longrightarrow> sftp_ok (accept_step w e)" for w e by (rule sftp_ok_step)
qed

section \<open>The session\<close>

definition disconnect_call :: "string \<Rightarrow> sftp_effect" where
  "disconnect_call i = Call (Sftp_call (SftpDisconnect i))"

text \<open>The session is answered before the home directory fails, and has an identifier.\<close>

fun session_first :: "sftp_browser \<Rightarrow> sftp_event \<Rightarrow> bool" where
  "session_first s (Connect_answered (Inr i)) = (i \<noteq> [] \<and> boot s = Waiting_for_both)"
| "session_first s e = True"

definition session_kept :: "sftp_browser \<Rightarrow> bool" where
  "session_kept s \<longleftrightarrow>
     (\<forall>i. connect_answer s = Some (Inr i) \<longrightarrow>
        i \<noteq> [] \<and> connectedId s = Some i
        \<and> (disconnect_call i \<in> set (sftp_calls s)
           \<or> (boot s = Waiting_for_both \<and> home_answer s = None)
           \<or> (sftpIdRef s = Some i \<and> \<not> sftp_disposed s)))
     \<and> (boot s = Waiting_for_both \<longrightarrow> sftpIdRef s = None)
     \<and> (connect_answer s = None \<longrightarrow> boot s \<noteq> Canonicalizing \<and> connectedId s = None)
     \<and> (home_answer s = None \<longrightarrow> boot s \<noteq> Canonicalizing)
     \<and> (\<forall>e. connect_answer s = Some (Inl e) \<longrightarrow> boot s = Boot_over)
     \<and> (\<forall>e. home_answer s = Some (Inl e) \<longrightarrow> boot s = Boot_over)"

text \<open>Steps that keep the session, and may send other calls.\<close>

definition same_session :: "sftp_browser \<Rightarrow> sftp_browser \<Rightarrow> bool" where
  "same_session s s' \<longleftrightarrow> sftpIdRef s' = sftpIdRef s \<and> sftp_disposed s' = sftp_disposed s \<and> boot s' = boot s
     \<and> connect_answer s' = connect_answer s \<and> home_answer s' = home_answer s \<and> connectedId s' = connectedId s
     \<and> (\<exists>new. sftp_calls s' = sftp_calls s @ new \<and> (\<forall>i. disconnect_call i \<notin> set new))"

lemma same_session_refl [simp]: "same_session s s"
  by (simp add: same_session_def)

lemma same_session_trans: "same_session s s' \<Longrightarrow> same_session s' s'' \<Longrightarrow> same_session s s''"
  by (fastforce simp: same_session_def)

lemma session_kept_same: "same_session s s' \<Longrightarrow> session_kept s \<Longrightarrow> session_kept s'"
  by (auto simp: same_session_def session_kept_def)

lemma same_session_updates [simp]:
  "same_session s (put_pane sd p s)" "same_session s (s\<lparr>listings := ls\<rparr>)" "same_session s (s\<lparr>sftp_tasks := ts\<rparr>)"
  "same_session s (start_task t s)"
  "same_session s (s\<lparr>transferError := x\<rparr>)" "same_session s (s\<lparr>transferring := b, transferringEntry := y\<rparr>)"
  "same_session s (s\<lparr>transferring := b, transferringEntry := y, transferError := x\<rparr>)"
  by (simp_all add: same_session_def)

lemma same_session_emit: "\<forall>i. c \<noteq> disconnect_call i \<Longrightarrow> same_session s (sftp_emit [c] s)"
  by (auto simp: same_session_def)

lemma same_session_refresh: "same_session s (refresh sd path s)"
  by (cases sd)
    (auto simp: same_session_def refreshLocal_def refreshRemote_def disconnect_call_def sftp_emit_def split: prod.split)

lemma same_session_path_effect: "same_session s (path_effect sd s)"
  by (simp add: path_effect_refresh same_session_refresh)

lemma same_session_navigate: "same_session s (navigate sd path s)"
  using same_session_trans[OF same_session_updates(1) same_session_path_effect] by (simp add: navigate_def)

lemma same_session_begin:
  assumes "\<forall>i. c \<noteq> disconnect_call i"
  shows "same_session s (begin_transfer sd path entry c s)" and "same_session s (begin_change sd path c s)"
  unfolding begin_transfer_def begin_change_def
  by (rule same_session_trans[OF same_session_trans[OF same_session_updates(7) same_session_emit[OF assms]]
        same_session_updates(4)],
      rule same_session_trans[OF same_session_emit[OF assms] same_session_updates(4)])

lemma change_calls [simp]:
  "mkdir_call sd path s \<noteq> disconnect_call i" "rename_call sd old new s \<noteq> disconnect_call i"
  "delete_call sd entry s \<noteq> disconnect_call i"
  by (cases sd; simp add: disconnect_call_def with_session_def split: option.split)+

lemma same_session_task: "same_session s (task_answered t a s)"
proof (cases t)
  case (Transfer_task sd path)
  have "same_session s (x\<lparr>transferring := False, transferringEntry := None\<rparr>)" if "same_session s x" for x
    by (rule same_session_trans[OF that same_session_updates(6)])
  then show ?thesis
    using Transfer_task same_session_refresh by (cases a) (simp_all add: Let_def)
qed (auto simp: same_session_refresh intro: same_session_begin split: option.split)

lemma same_session_user: "e \<noteq> Unmount_browser \<Longrightarrow> same_session s (sftp_user e s)"
proof (cases e)
  case Press_upload
  then show ?thesis
    by (auto simp: handleUpload_def disconnect_call_def intro!: same_session_begin split: option.split)
next
  case Press_download
  then show ?thesis
    by (auto simp: handleDownload_def disconnect_call_def intro!: same_session_begin split: option.split)
qed (simp_all add: same_session_navigate same_session_refresh handleNewFolder_def handleRename_def handleDelete_def)

lemma same_session_step:
  assumes "\<forall>a. e \<noteq> Connect_answered a \<and> e \<noteq> Home_answered a \<and> e \<noteq> Canonicalize_answered a"
    and "e \<noteq> Unmount_browser"
  shows "same_session s (sftp_step s e)"
proof (cases e)
  case (Listed sd n a)
  then show ?thesis
    by (auto simp: Let_def intro: same_session_trans[OF same_session_updates(2) same_session_updates(1)])
next
  case (Task_answered k a)
  then show ?thesis
    by (auto intro: same_session_trans[OF same_session_updates(3) same_session_task] split: option.split)
qed (use assms same_session_user in \<open>auto simp del: sftp_user.simps\<close>)

lemma both_ready_kept:
  assumes "connectedId s = Some i" and "connect_answer s = Some (Inr i)" and "i \<noteq> []"
    and "home_answer s = Some (Inr home)"
  shows "session_kept (both_ready i home s)"
proof (cases "sftp_disposed s")
  case True
  with assms show ?thesis by (auto simp: both_ready_def session_kept_def disconnect_call_def sftp_emit_def)
next
  case False
  have "session_kept ((sftp_emit [Call (Sftp_call (SftpCanonicalize i ''.''))] s)\<lparr>sftpIdRef := Some i, boot := Canonicalizing\<rparr>)"
    using assms False by (auto simp: session_kept_def sftp_emit_def)
  with False session_kept_same[OF same_session_navigate] show ?thesis by (simp add: both_ready_def)
qed

lemma boot_failed_kept:
  assumes "\<And>i. connect_answer s = Some (Inr i) \<Longrightarrow> i \<noteq> [] \<and> connectedId s = Some i"
    and "connect_answer s = None \<Longrightarrow> connectedId s = None"
  shows "session_kept (boot_failed e s)"
  using assms by (auto simp: session_kept_def boot_failed_def sftp_emit_def disconnect_call_def truthy_def Let_def)

lemma all_settled_kept:
  assumes "boot s = Waiting_for_both" and "sftpIdRef s = None"
    and "\<And>i. connect_answer s = Some (Inr i) \<Longrightarrow> i \<noteq> [] \<and> connectedId s = Some i"
    and "connect_answer s = None \<Longrightarrow> connectedId s = None"
  shows "session_kept (all_settled s)"
proof -
  have "session_kept s" if "\<not> (\<exists>e. connect_answer s = Some (Inl e) \<or> home_answer s = Some (Inl e))"
    "connect_answer s = None \<or> home_answer s = None"
    using that assms by (auto simp: session_kept_def)
  moreover have "session_kept (boot_failed e s)" for e using assms(3,4) by (rule boot_failed_kept)
  ultimately show ?thesis
    using both_ready_kept[of s] assms(1,3)
    by (auto simp: all_settled_def split: option.splits sum.splits)
qed

lemma session_kept_step:
  assumes "session_kept s" and "session_first s e"
  shows "session_kept (sftp_step s e)"
proof (cases "\<exists>a. e = Connect_answered a \<or> e = Home_answered a \<or> e = Canonicalize_answered a")
  case True
  then consider a where "e = Connect_answered a" | a where "e = Home_answered a" | a where "e = Canonicalize_answered a"
    by blast
  then show ?thesis
  proof cases
    case (1 a)
    let ?s = "s\<lparr>connect_answer := Some a, connectedId := (case a of Inr i \<Rightarrow> Some i | Inl _ \<Rightarrow> connectedId s)\<rparr>"
    have "session_kept (all_settled ?s)" if "connect_answer s = None"
    proof (cases "boot s = Waiting_for_both")
      case True
      show ?thesis
        by (rule all_settled_kept) (use True assms that 1 in \<open>auto simp: session_kept_def\<close>)
    next
      case False
      with that assms have "boot s = Boot_over" by (cases "boot s") (auto simp: session_kept_def)
      with False assms that 1 show ?thesis by (cases a) (auto simp: all_settled_def session_kept_def)
    qed
    with 1 assms(1) show ?thesis by simp
  next
    case (2 a)
    have "session_kept (all_settled (s\<lparr>home_answer := Some a\<rparr>))" if "home_answer s = None"
    proof (cases "boot s = Waiting_for_both")
      case True
      with assms(1) have "sftpIdRef s = None" "connect_answer s = None \<Longrightarrow> connectedId s = None"
        "connect_answer s = Some (Inr i) \<Longrightarrow> i \<noteq> [] \<and> connectedId s = Some i" for i
        by (simp_all add: session_kept_def)
      then show ?thesis using True by (intro all_settled_kept) simp_all
    next
      case False
      with that assms have "boot s = Boot_over" by (cases "boot s") (auto simp: session_kept_def)
      with assms(1) that show ?thesis by (simp add: all_settled_def session_kept_def)
    qed
    with 2 assms(1) show ?thesis by simp
  next
    case (3 a)
    have "session_kept (canonicalized a s)" if c: "boot s = Canonicalizing"
    proof (cases a)
      case (Inl e)
      have "session_kept (boot_failed e s)"
        by (rule boot_failed_kept) (use assms(1) c in \<open>auto simp: session_kept_def\<close>)
      with Inl show ?thesis by (simp add: canonicalized_def)
    next
      case (Inr home)
      have "session_kept (s\<lparr>boot := Boot_over\<rparr>)"
        using assms(1) c by (auto simp: session_kept_def)
      moreover have "session_kept (sftp_emit [Reload_hosts_list] (s\<lparr>remote_pane := (remote_pane s)\<lparr>fp_path := home\<rparr>,
          sftp_status_of := Sftp_connected, boot := Boot_over\<rparr>))"
        using assms(1) c by (auto simp: session_kept_def sftp_emit_def)
      note session_kept_same[OF same_session_path_effect this, of Remote_side]
      ultimately show ?thesis using Inr by (simp add: canonicalized_def del: path_effect.simps)
    qed
    with 3 assms(1) show ?thesis by simp
  qed
next
  case False
  show ?thesis
  proof (cases "e = Unmount_browser")
    case True
    with assms(1) show ?thesis
      by (auto simp: session_kept_def unmount_browser_def sftp_emit_def disconnect_call_def truthy_def Let_def)
  next
    case notgone: False
    with False have "same_session s (sftp_step s e)" by (intro same_session_step) auto
    then show ?thesis using assms(1) by (rule session_kept_same)
  qed
qed

interpretation sftp_sessions: invariant_machine "sftp_start h" sftp_step session_first session_kept
  by unfold_locales (simp add: session_kept_def sftp_start_def, rule session_kept_step)

text \<open>Once the home directory has failed first, no session is ever disconnected.\<close>

definition session_leaked :: "sftp_browser \<Rightarrow> bool" where
  "session_leaked s \<longleftrightarrow> sftpIdRef s = None \<and> boot s = Boot_over \<and> connect_answer s \<noteq> None \<and> home_answer s \<noteq> None
     \<and> (\<forall>i. disconnect_call i \<notin> set (sftp_calls s))"

lemma session_leaked_step: "session_leaked s \<Longrightarrow> session_leaked (sftp_step s e)"
proof (cases "\<exists>a. e = Connect_answered a \<or> e = Home_answered a \<or> e = Canonicalize_answered a")
  case False
  assume "session_leaked s"
  moreover have "same_session s (sftp_step s e)" if "e \<noteq> Unmount_browser"
    using that False by (intro same_session_step) auto
  ultimately show ?thesis
    by (cases "e = Unmount_browser") (auto simp: session_leaked_def same_session_def unmount_browser_def Let_def)
qed (auto simp: session_leaked_def)

lemma session_leaked_run: "session_leaked s \<Longrightarrow> session_leaked (foldl sftp_step s es)"
  by (induction es arbitrary: s) (auto intro: session_leaked_step simp del: sftp_step.simps)

section \<open>Properties\<close>

text \<open>
  C15: the session is released. When the backend answers the connection before the home directory
  fails, then in every order of further answers and user actions the session is either still
  the browser's own, or waits for the home directory, or has been disconnected; so it is
  disconnected once the browser is gone and both are answered. When the home directory fails
  first, the session that comes later is never disconnected, whatever happens.
\<close>
theorem sftp_session_released:
  assumes "run_ok sftp_step session_first (sftp_start h) es"
    and "connect_answer (sftp_run h es) = Some (Inr i)"
  shows "(disconnect_call i \<in> set (sftp_calls (sftp_run h es))
        \<or> boot (sftp_run h es) = Waiting_for_both \<and> home_answer (sftp_run h es) = None
        \<or> sftpIdRef (sftp_run h es) = Some i \<and> \<not> sftp_disposed (sftp_run h es))
    \<and> disconnect_call j \<notin> set (sftp_calls (sftp_run h' (Home_answered (Inl e) # Connect_answered (Inr j) # es')))"
proof
  have "session_kept (sftp_run h es)"
    unfolding sftp_run_def by (rule sftp_sessions.inv_run[OF assms(1)])
  with assms(2) show "disconnect_call i \<in> set (sftp_calls (sftp_run h es))
        \<or> boot (sftp_run h es) = Waiting_for_both \<and> home_answer (sftp_run h es) = None
        \<or> sftpIdRef (sftp_run h es) = Some i \<and> \<not> sftp_disposed (sftp_run h es)"
    by (auto simp: session_kept_def)
  have "session_leaked (sftp_step (sftp_step (sftp_start h') (Home_answered (Inl e))) (Connect_answered (Inr j)))"
    by (simp add: sftp_start_def all_settled_def boot_failed_def session_leaked_def disconnect_call_def Let_def)
  from session_leaked_run[OF this, of es']
  show "disconnect_call j \<notin> set (sftp_calls (sftp_run h' (Home_answered (Inl e) # Connect_answered (Inr j) # es')))"
    by (simp add: sftp_run_def session_leaked_def del: sftp_step.simps)
qed

theorem sftp_session_released_witness:
  "disconnect_call ''s1'' \<in> set (sftp_calls (sftp_run (sample_host ''h'' None)
     [Connect_answered (Inr ''s1''), Unmount_browser, Home_answered (Inr ''/home/me'')]))"
proof -
  let ?es = "[Connect_answered (Inr ''s1''), Unmount_browser, Home_answered (Inr ''/home/me'')]"
  have ok: "run_ok sftp_step session_first (sftp_start (sample_host ''h'' None)) ?es"
    by (simp add: sftp_start_def all_settled_def)
  have a: "connect_answer (sftp_run (sample_host ''h'' None) ?es) = Some (Inr ''s1'')"
    "sftp_disposed (sftp_run (sample_host ''h'' None) ?es)"
    "home_answer (sftp_run (sample_host ''h'' None) ?es) \<noteq> None"
    by (simp_all add: sftp_run_def sftp_start_def all_settled_def both_ready_def unmount_browser_def sftp_emit_def Let_def)
  from conjunct1[OF sftp_session_released[OF ok a(1)]] a(2,3) show ?thesis by blast
qed

text \<open>
  C21: what a pane shows belongs to the path it shows. In every run in which no pane is navigated
  away while an operation that started in its directory is under way: a pane that is not
  loading and shows no error shows exactly the last listing it took over, and that listing
  was asked for its present path; and a listing the pane would still take over is for
  its present path. The remote pane is covered from the moment the browser is connected.
\<close>
theorem listing_is_of_shown_path:
  assumes "run_ok accept_step steady (sftp_start h, no_listing) es"
    and "foldl accept_step (sftp_start h, no_listing) es = (s, acc)"
    and "live sd s" and "fp_path (pane_of sd s) \<noteq> []"
  shows "(if fp_loading (pane_of sd s)
          then listing_path s sd (fp_request (pane_of sd s)) = Some (fp_path (pane_of sd s))
          else fp_error (pane_of sd s) \<noteq> None
            \<or> acc sd = Some (fp_path (pane_of sd s), fp_entries (pane_of sd s)))"
proof -
  have "sftp_ok (s, acc)"
    using sftp_machine.inv_run[OF assms(1)] assms(2) by simp
  then have "pane_ok sd (s, acc)" by (simp add: sftp_ok_def)
  with assms(3,4) show ?thesis by (auto simp: pane_ok_def)
qed

definition sample_entry :: "string \<Rightarrow> string \<Rightarrow> browser_entry" where
  "sample_entry d n = \<lparr>be_name = n, be_path = joinPath d n, be_isDir = False, be_size = 1, be_modified = None\<rparr>"

definition connected_events :: "sftp_event list" where
  "connected_events = [Connect_answered (Inr ''s1''), Home_answered (Inr ''/home''), Canonicalize_answered (Inr ''/srv'')]"

theorem listing_is_of_shown_path_witness:
  "let w = foldl accept_step (sftp_start (sample_host ''h'' None), no_listing)
     (connected_events @ [Navigate_to Remote_side ''/etc'', Listed Remote_side 1 (Inr [sample_entry ''/srv'' ''a'']),
        Listed Remote_side 2 (Inr [sample_entry ''/etc'' ''b''])])
   in snd w Remote_side = Some (''/etc'', [sample_entry ''/etc'' ''b''])
     \<and> fp_entries (pane_of Remote_side (fst w)) = [sample_entry ''/etc'' ''b'']"
proof -
  let ?es = "connected_events @ [Navigate_to Remote_side ''/etc'', Listed Remote_side 1 (Inr [sample_entry ''/srv'' ''a'']),
        Listed Remote_side 2 (Inr [sample_entry ''/etc'' ''b''])]"
  let ?w = "foldl accept_step (sftp_start (sample_host ''h'' None), no_listing) ?es"
  have ok: "run_ok accept_step steady (sftp_start (sample_host ''h'' None), no_listing) ?es" by code_simp
  have s: "live Remote_side (fst ?w)" "fp_path (pane_of Remote_side (fst ?w)) = ''/etc''"
    "\<not> fp_loading (pane_of Remote_side (fst ?w))" "fp_error (pane_of Remote_side (fst ?w)) = None"
    "fp_entries (pane_of Remote_side (fst ?w)) = [sample_entry ''/etc'' ''b'']"
    by code_simp+
  from listing_is_of_shown_path[OF ok surjective_pairing s(1)] s show ?thesis by (simp add: Let_def)
qed

text \<open>
  without that restriction it fails. When an upload succeeds after its pane was navigated
  elsewhere, the pane takes over the listing of the directory it has left and shows it under the
  new path, without an error; a file renamed there is moved into the new directory.
\<close>
theorem stale_refresh_shows_old_directory:
  fixes es :: "browser_entry list"
  assumes "map_of (sftp_tasks s) k = Some (Transfer_task Remote_side old)"
    and "truthy (sftpIdRef s)" and "be_name e \<noteq> name" and "name \<noteq> []"
  defines "s1 \<equiv> foldl sftp_step s [Task_answered k None, Listed Remote_side (Suc (fp_request (remote_pane s))) (Inr (e # es))]"
  shows "pane_content_of (remote_pane s1) = Pane_entries (e # es)
    \<and> fp_path (remote_pane s1) = fp_path (remote_pane s)
    \<and> Call (Sftp_call (SftpList (the (sftpIdRef s)) old)) \<in> set (sftp_calls s1)
    \<and> Call (Sftp_call (SftpRename (the (sftpIdRef s)) (be_path e) (joinPath (fp_path (remote_pane s)) name)))
        \<in> set (sftp_calls (task_answered (Rename_prompt Remote_side (fp_path (remote_pane s1)) e) (Some name) s1))"
proof -
  let ?n = "Suc (fp_request (remote_pane s))"
  define s0 where "s0 = s\<lparr>sftp_tasks := filter (\<lambda>(k', t). k' \<noteq> k) (sftp_tasks s)\<rparr>"
  have "sftp_step s (Task_answered k None) =
      (refreshRemote old s0)\<lparr>transferring := False, transferringEntry := None\<rparr>"
    using assms(1) by (simp add: s0_def Let_def)
  then have s1: "s1 = sftp_step ((refreshRemote old s0)\<lparr>transferring := False, transferringEntry := None\<rparr>)
      (Listed Remote_side ?n (Inr (e # es)))"
    by (simp add: s1_def del: sftp_step.simps)
  have "sftpIdRef s0 = sftpIdRef s" "remote_pane s0 = remote_pane s" "listings s0 = listings s" "sftp_calls s0 = sftp_calls s"
    by (simp_all add: s0_def)
  then have "remote_pane s1 = (remote_pane s)\<lparr>fp_request := ?n, fp_loading := False, fp_error := None, fp_entries := e # es\<rparr>
      \<and> sftp_calls s1 = sftp_calls s @ [Call (Sftp_call (SftpList (the (sftpIdRef s)) old))]
      \<and> sftpIdRef s1 = sftpIdRef s"
    using assms(2)
    by (simp add: s1 refreshRemote_def list_begin_def sftp_emit_def list_arrived_def Let_def)
  then show ?thesis
    using assms(2-4)
    by (auto simp: pane_content_of_def begin_change_def with_session_def truthy_iff start_task_def sftp_emit_def)
qed

definition away_events :: "sftp_event list" where
  "away_events = connected_events @
     [Listed Local_side 1 (Inr [sample_entry ''/home'' ''f'']), Listed Remote_side 1 (Inr [sample_entry ''/srv'' ''a'']),
      Select_entry Local_side ''/home/f'', Press_upload, Navigate_to Remote_side ''/etc'',
      Listed Remote_side 2 (Inr [sample_entry ''/etc'' ''b''])]"

theorem stale_refresh_shows_old_directory_witness:
  "let s = sftp_run (sample_host ''h'' None) away_events;
       s1 = foldl sftp_step s [Task_answered 0 None, Listed Remote_side 3 (Inr [sample_entry ''/srv'' ''a''])]
   in pane_content_of (remote_pane s) = Pane_entries [sample_entry ''/etc'' ''b'']
    \<and> pane_content_of (remote_pane s1) = Pane_entries [sample_entry ''/srv'' ''a'']
    \<and> fp_path (remote_pane s1) = ''/etc''"
proof -
  let ?s = "sftp_run (sample_host ''h'' None) away_events"
  have t: "map_of (sftp_tasks ?s) 0 = Some (Transfer_task Remote_side ''/srv'')"
    and i: "truthy (sftpIdRef ?s)" and p: "fp_path (remote_pane ?s) = ''/etc''"
    and r: "fp_request (remote_pane ?s) = 2"
    and c: "pane_content_of (remote_pane ?s) = Pane_entries [sample_entry ''/etc'' ''b'']"
    by code_simp+
  have n: "be_name (sample_entry ''/srv'' ''a'') \<noteq> ''z''" "''z'' \<noteq> []" by (simp_all add: sample_entry_def)
  from stale_refresh_shows_old_directory[OF t i n, of "[]"] show ?thesis
    by (simp add: Let_def c p r)
qed

end
