(* ===== verification/Host_Panel.thy ===== *)
theory Host_Panel
  imports Terminal_View Vpn_Store
begin

text \<open>
  The panel beside a host, \<open>src/src/components/panels/HostContextPanel.tsx\<close>: the bars and rates
  it prints, the polling of the host's statistics, which belongs to one host and one period of
  being connected, and the quick commands, which are written into the live terminal or run on a
  connection of their own.

  \<open>decimal\<close> and \<open>toFixed1\<close> print numbers. The stores the panel reads are arguments, as they were
  when a handler was started.
\<close>

section \<open>Bars and rates\<close>

definition MOST_USED_LIMIT :: nat where "MOST_USED_LIMIT = 10"

definition STATS_POLL_MS :: int where "STATS_POLL_MS = 5000"

definition formatRate :: "(int \<Rightarrow> string) \<Rightarrow> (real \<Rightarrow> string) \<Rightarrow> real \<Rightarrow> string" where
  "formatRate decimal toFixed1 bytesPerSec =
     (if bytesPerSec < 1024 then decimal (math_round bytesPerSec) @ '' B/s''
      else if bytesPerSec < 1024 * 1024 then toFixed1 (bytesPerSec / 1024) @ '' KB/s''
      else toFixed1 (bytesPerSec / (1024 * 1024)) @ '' MB/s'')"

definition formatMb :: "(real \<Rightarrow> string) \<Rightarrow> (real \<Rightarrow> string) \<Rightarrow> real \<Rightarrow> string" where
  "formatMb decimal toFixed1 mb =
     (if 1024 \<le> mb then toFixed1 (mb / 1024) @ '' GB'' else decimal mb @ '' MB'')"

definition stat_percent :: "real \<Rightarrow> real \<Rightarrow> real" where
  "stat_percent v limit = (if 0 < limit then min 100 (max 0 (v / limit * 100)) else 0)"

section \<open>State\<close>

record host_stats =
  cpu_percent :: real
  mem_used_mb :: real
  mem_total_mb :: real
  rx_bytes :: real
  tx_bytes :: real
  swap_used_mb :: real
  swap_total_mb :: real
  disk_used_mb :: real
  disk_total_mb :: real

record net_sample =
  sample_rx :: real
  sample_tx :: real
  sample_time :: int

text \<open>What a quick command waits for, with the values its closure has captured.\<close>

datatype command_task =
    Write_wait string string string bool
  | Gate_wait host string string
  | Exec_wait host string string

datatype command_answer =
    Written "string option"
  | Gate_answered vpn_gate_result
  | Executed "string + host_exec_result list"

datatype panel_effect = Panel_call bridge_call | Panel_gate host

text \<open>
  \<open>poll_run\<close> counts the runs of the polling effect: the flag \<open>cancelled\<close> of all runs but the last
  is set. A poll on its way has a number, its run and the host it asked.
\<close>

record host_panel =
  panel_host :: host
  panel_open :: bool
  stats :: "host_stats option"
  statsUnavailable :: bool
  prevSample :: "net_sample option"
  netRates :: "(real \<times> real) option"
  poll_run :: nat
  polls :: "(nat \<times> nat \<times> string) list"
  polls_sent :: nat
  runningId :: "string option"
  lastResult :: "(string \<times> host_exec_result option) option"
  commands :: "(nat \<times> command_task) list"
  commands_started :: nat
  panel_calls :: "panel_effect list"
  panel_history :: history_state

section \<open>What is shown of the stores\<close>

text \<open>The server's own history is preferred to the local one.\<close>

definition panel_top_used :: "host \<Rightarrow> history_state \<Rightarrow> (string \<times> string \<times> nat) list" where
  "panel_top_used h hist =
     (case remoteTopUsed hist (host_id h) of
        Some (r # rs) \<Rightarrow> map (\<lambda>r. (rank_command r, rank_command r, rank_count r)) (r # rs)
      | _ \<Rightarrow> map (\<lambda>u. (usage_label u, usage_body u, usage_count u))
               (topUsedCommands (entries_of hist (host_id h)) MOST_USED_LIMIT))"

definition panel_live_session :: "host \<Rightarrow> sessions_state \<Rightarrow> string option" where
  "panel_live_session h s =
     (let terminalTab = List.find (\<lambda>x. host_id (session_host x) = host_id h \<and> kind x = Terminal) (openSessions s);
          firstPaneId = (case terminalTab of None \<Rightarrow> None
            | Some tab \<Rightarrow> (case layout tab of None \<Rightarrow> None
                | Some t \<Rightarrow> (case collectLeaves t of [] \<Rightarrow> None | l # _ \<Rightarrow> Some (leaf_paneId l))))
      in case firstPaneId of None \<Rightarrow> None | Some p \<Rightarrow> if p = [] then None else sessionIds s p)"

definition vpn_transitioning :: "host \<Rightarrow> vpn_store \<Rightarrow> bool" where
  "vpn_transitioning h s =
     (if truthy (host_vpn_profile_id h)
      then state_of s (the (host_vpn_profile_id h)) \<in> {Some VConnecting, Some VDisconnecting} else False)"

section \<open>Polling\<close>

definition panel_emit :: "panel_effect list \<Rightarrow> host_panel \<Rightarrow> host_panel" where
  "panel_emit es s = s\<lparr>panel_calls := panel_calls s @ es\<rparr>"

definition poll :: "host_panel \<Rightarrow> host_panel" where
  "poll s = panel_emit [Panel_call (Stats_call (HostStats (host_id (panel_host s))))]
     (s\<lparr>polls := polls s @ [(polls_sent s, poll_run s, host_id (panel_host s))], polls_sent := Suc (polls_sent s)\<rparr>)"

text \<open>The effect on \<open>[host.id, sessionOpen]\<close>: the old run is cancelled, the new one starts at once.\<close>

definition poll_effect :: "host_panel \<Rightarrow> host_panel" where
  "poll_effect s =
     (let s1 = s\<lparr>poll_run := Suc (poll_run s), prevSample := None, stats := None, netRates := None,
                 statsUnavailable := False\<rparr>
      in if panel_open s1 then poll s1 else s1)"

definition net_rates_after :: "host_stats \<Rightarrow> int \<Rightarrow> host_panel \<Rightarrow> (real \<times> real) option" where
  "net_rates_after result now s =
     (case prevSample s of
        None \<Rightarrow> netRates s
      | Some prev \<Rightarrow>
          (let elapsedSeconds = real_of_int (now - sample_time prev) / 1000
           in if 0 < elapsedSeconds
              then Some (max 0 ((rx_bytes result - sample_rx prev) / elapsedSeconds),
                         max 0 ((tx_bytes result - sample_tx prev) / elapsedSeconds))
              else netRates s))"

fun poll_answered :: "string + host_stats \<Rightarrow> int \<Rightarrow> host_panel \<Rightarrow> host_panel" where
  "poll_answered (Inl e) now s = s\<lparr>statsUnavailable := True\<rparr>"
| "poll_answered (Inr result) now s =
     s\<lparr>netRates := net_rates_after result now s,
       prevSample := Some \<lparr>sample_rx = rx_bytes result, sample_tx = tx_bytes result, sample_time = now\<rparr>,
       stats := Some result, statsUnavailable := False\<rparr>"

section \<open>Quick commands\<close>

definition start_command :: "command_task \<Rightarrow> panel_effect \<Rightarrow> host_panel \<Rightarrow> host_panel" where
  "start_command t c s =
     panel_emit [c] (s\<lparr>commands := commands s @ [(commands_started s, t)], commands_started := Suc (commands_started s)\<rparr>)"

definition enter_key :: string where "enter_key = [CHR 0x0D]"

definition handleQuickCommand ::
  "string option \<Rightarrow> bool \<Rightarrow> string \<Rightarrow> string \<Rightarrow> string \<Rightarrow> host_panel \<Rightarrow> host_panel" where
  "handleQuickCommand live autoRun runKey label body s =
     (let s1 = s\<lparr>runningId := Some runKey, lastResult := None\<rparr>
      in if truthy live
         then start_command (Write_wait (host_id (panel_host s)) label body autoRun)
                (Panel_call (Session_call (SessionWrite (the live) (if autoRun then body @ enter_key else body)))) s1
         else start_command (Gate_wait (panel_host s) label body) (Panel_gate (panel_host s)) s1)"

definition recordCommandRun ::
  "string \<Rightarrow> string \<Rightarrow> string \<Rightarrow> string \<Rightarrow> string \<Rightarrow> int option \<Rightarrow> string option \<Rightarrow> host_panel \<Rightarrow> host_panel" where
  "recordCommandRun uuid now hostId label body exitStatus err s =
     s\<lparr>panel_history := record_entry uuid now hostId
         \<lparr>entry_id = [], entry_label = label, entry_body = body, entry_ranAt = [], entry_exitStatus = exitStatus,
          entry_error = err\<rparr> (panel_history s)\<rparr>"

definition command_over :: "host_panel \<Rightarrow> host_panel" where
  "command_over s = s\<lparr>runningId := None\<rparr>"

definition refused_result :: "host \<Rightarrow> vpn_gate_result \<Rightarrow> host_exec_result" where
  "refused_result h gate =
     \<lparr>er_host_id = host_id h, er_output = None,
      er_error = Some (case gate_message gate of Some m \<Rightarrow> m | None \<Rightarrow> ''Could not connect the VPN for this host.'')\<rparr>"

text \<open>
  The part after the \<open>await\<close>, up to the next one or through \<open>finally\<close>. An error that is thrown
  leaves the handler after \<open>finally\<close>: nobody catches it.
\<close>

fun command_answered :: "string \<Rightarrow> string \<Rightarrow> command_task \<Rightarrow> command_answer \<Rightarrow> host_panel \<Rightarrow> host_panel" where
  "command_answered uuid now (Write_wait hostId label body autoRun) (Written failure) s =
     command_over (if failure = None \<and> autoRun then recordCommandRun uuid now hostId label body None None s else s)"
| "command_answered uuid now (Gate_wait h label body) (Gate_answered gate) s =
     (if \<not> gate_ok gate then command_over (s\<lparr>lastResult := Some (label, Some (refused_result h gate))\<rparr>)
      else start_command (Exec_wait h label body) (Panel_call (runOnHosts [host_id h] body)) s)"
| "command_answered uuid now (Exec_wait h label body) (Executed answer) s =
     command_over
       (case answer of
          Inl e \<Rightarrow> s
        | Inr [] \<Rightarrow> s\<lparr>lastResult := Some (label, None)\<rparr>
        | Inr (result # rest) \<Rightarrow>
            recordCommandRun uuid now (host_id h) label body
              (case er_output result of None \<Rightarrow> None | Some out \<Rightarrow> exit_status out) (er_error result)
              (s\<lparr>lastResult := Some (label, Some result)\<rparr>))"
| "command_answered uuid now t a s = s"

section \<open>What is drawn\<close>

text \<open>
  The performance section: a bar is a label, its filled share and the text beside it. The arrows
  before the two rates and the dash without rates are not part of the text.
\<close>

datatype bar_text = Bar_text string | Bar_rates string string | Bar_dash

datatype performance_view = Connect_first | Bars "(string \<times> real \<times> bar_text) list" | Not_available | Loading_stats

definition or_one :: "real \<Rightarrow> real" where "or_one x = (if x = 0 then 1 else x)"

definition usage_bar :: "(real \<Rightarrow> string) \<Rightarrow> (real \<Rightarrow> string) \<Rightarrow> string \<Rightarrow> real \<Rightarrow> real \<Rightarrow> string \<times> real \<times> bar_text" where
  "usage_bar decimal toFixed1 label used all =
     (label, stat_percent used (or_one all),
      Bar_text (formatMb decimal toFixed1 used @ '' / '' @ formatMb decimal toFixed1 all))"

definition performance :: "(real \<Rightarrow> string) \<Rightarrow> (real \<Rightarrow> string) \<Rightarrow> host_panel \<Rightarrow> performance_view" where
  "performance decimal toFixed1 s =
     (let whole = (\<lambda>i. decimal (real_of_int i)); bar = usage_bar decimal toFixed1; rate = formatRate whole toFixed1
      in if \<not> panel_open s then Connect_first
         else case stats s of
           Some x \<Rightarrow> Bars
             ([(''CPU'', stat_percent (cpu_percent x) 100, Bar_text (whole (math_round (cpu_percent x)) @ ''%'')),
               bar ''RAM'' (mem_used_mb x) (mem_total_mb x)]
              @ (if 0 < swap_total_mb x then [bar ''Swap'' (swap_used_mb x) (swap_total_mb x)] else [])
              @ [bar ''Disk'' (disk_used_mb x) (disk_total_mb x),
                 (''Net'', stat_percent (case netRates s of None \<Rightarrow> 0 | Some (rx, tx) \<Rightarrow> rx + tx) (5 * 1024 * 1024),
                  case netRates s of None \<Rightarrow> Bar_dash | Some (rx, tx) \<Rightarrow> Bar_rates (rate rx) (rate tx))])
         | None \<Rightarrow> (if statsUnavailable s then Not_available else Loading_stats))"

text \<open>Which buttons are off: Connect, SFTP, and a quick command.\<close>

definition connect_off :: "bool \<Rightarrow> host_panel \<Rightarrow> bool" where
  "connect_off guardBusy s \<longleftrightarrow> \<not> truthy (host_identity_id (panel_host s)) \<or> guardBusy \<or> panel_open s"

definition sftp_off :: "bool \<Rightarrow> host_panel \<Rightarrow> bool" where
  "sftp_off guardBusy s \<longleftrightarrow> \<not> truthy (host_identity_id (panel_host s)) \<or> guardBusy"

definition command_off :: "string \<Rightarrow> host_panel \<Rightarrow> bool" where
  "command_off runKey s \<longleftrightarrow> \<not> truthy (host_identity_id (panel_host s)) \<or> runningId s = Some runKey"

section \<open>The panel as a state machine\<close>

datatype panel_event =
    Props_changed host bool
  | Poll_tick
  | Poll_answered nat "string + host_stats" int
  | Quick_command "string option" bool string string string
  | Command_answered nat command_answer string string

fun panel_step :: "host_panel \<Rightarrow> panel_event \<Rightarrow> host_panel" where
  "panel_step s (Props_changed h b) =
     (let s1 = s\<lparr>panel_host := h, panel_open := b\<rparr>
      in if host_id h = host_id (panel_host s) \<and> b = panel_open s then s1 else poll_effect s1)"
| "panel_step s Poll_tick = (if panel_open s then poll s else s)"
| "panel_step s (Poll_answered k a now) =
     (case map_of (polls s) k of
        None \<Rightarrow> s
      | Some (r, h) \<Rightarrow>
          (let s1 = s\<lparr>polls := filter (\<lambda>(k', x). k' \<noteq> k) (polls s)\<rparr>
           in if r \<noteq> poll_run s then s1 else poll_answered a now s1))"
| "panel_step s (Quick_command live autoRun runKey label body) =
     (if command_off runKey s then s
      else handleQuickCommand live autoRun runKey label body s)"
| "panel_step s (Command_answered k a uuid now) =
     (case map_of (commands s) k of
        None \<Rightarrow> s
      | Some t \<Rightarrow> command_answered uuid now t a (s\<lparr>commands := filter (\<lambda>(k', x). k' \<noteq> k) (commands s)\<rparr>))"

definition panel_start :: "host \<Rightarrow> bool \<Rightarrow> history_state \<Rightarrow> host_panel" where
  "panel_start h b hist =
     poll_effect \<lparr>panel_host = h, panel_open = b, stats = None, statsUnavailable = False, prevSample = None,
       netRates = None, poll_run = 0, polls = [], polls_sent = 0, runningId = None, lastResult = None,
       commands = [], commands_started = 0, panel_calls = [], panel_history = hist\<rparr>"

section \<open>Lemmas\<close>

lemma stat_percent_range: "0 \<le> stat_percent v limit" "stat_percent v limit \<le> 100"
  by (auto simp: stat_percent_def)

text \<open>The panel finds the session that \<open>findLiveSessionId\<close> of the tab store finds.\<close>

lemma panel_live_session_is_live:
  assumes "\<And>t l ls x. x \<in> set (openSessions s) \<Longrightarrow> layout x = Some t \<Longrightarrow> collectLeaves t = l # ls \<Longrightarrow> leaf_paneId l \<noteq> []"
  shows "panel_live_session h s = findLiveSessionId (openSessions s) (sessionIds s) (host_id h)"
  using assms find_SomeD[of _ "openSessions s"]
  by (fastforce simp: panel_live_session_def findLiveSessionId_def Let_def split: option.splits list.splits)

lemma panel_emit_keeps [simp]:
  "panel_host (panel_emit es s) = panel_host s" "panel_open (panel_emit es s) = panel_open s"
  "polls (panel_emit es s) = polls s" "poll_run (panel_emit es s) = poll_run s" "stats (panel_emit es s) = stats s"
  "netRates (panel_emit es s) = netRates s" "prevSample (panel_emit es s) = prevSample s"
  "statsUnavailable (panel_emit es s) = statsUnavailable s" "panel_history (panel_emit es s) = panel_history s"
  "runningId (panel_emit es s) = runningId s" "lastResult (panel_emit es s) = lastResult s"
  "commands (panel_emit es s) = commands s" "commands_started (panel_emit es s) = commands_started s"
  "panel_calls (panel_emit es s) = panel_calls s @ es"
  by (simp_all add: panel_emit_def)

definition polls_ok :: "host_panel \<Rightarrow> bool" where
  "polls_ok s \<longleftrightarrow>
     (\<forall>k r h. (k, r, h) \<in> set (polls s) \<longrightarrow>
        r \<le> poll_run s \<and> (r = poll_run s \<longrightarrow> h = host_id (panel_host s) \<and> panel_open s))
     \<and> (\<forall>rx tx. netRates s = Some (rx, tx) \<longrightarrow> 0 \<le> rx \<and> 0 \<le> tx)
     \<and> (\<not> panel_open s \<longrightarrow> stats s = None \<and> netRates s = None \<and> prevSample s = None)"

text \<open>Two states with the same polling.\<close>

definition same_polling :: "host_panel \<Rightarrow> host_panel \<Rightarrow> bool" where
  "same_polling s s' \<longleftrightarrow> panel_host s' = panel_host s \<and> panel_open s' = panel_open s \<and> polls s' = polls s
     \<and> poll_run s' = poll_run s \<and> netRates s' = netRates s \<and> stats s' = stats s \<and> prevSample s' = prevSample s
     \<and> statsUnavailable s' = statsUnavailable s"

lemma polls_ok_same: "same_polling s s' \<Longrightarrow> polls_ok s \<Longrightarrow> polls_ok s'"
  by (simp add: same_polling_def polls_ok_def)

lemma start_command_same: "same_polling s (start_command t c s)"
  by (simp add: same_polling_def start_command_def)

lemma command_answered_same: "same_polling s (command_answered uuid now t a s)"
  by (induction uuid now t a s rule: command_answered.induct)
    (auto simp: same_polling_def start_command_def command_over_def recordCommandRun_def split: sum.split list.split)

lemma quick_command_same: "same_polling s (handleQuickCommand live autoRun runKey label body s)"
  by (simp add: same_polling_def handleQuickCommand_def start_command_def Let_def)

lemma poll_ok: "polls_ok s \<Longrightarrow> panel_open s \<Longrightarrow> polls_ok (poll s)"
  by (auto simp: polls_ok_def poll_def)

lemma poll_effect_ok:
  assumes "\<And>k r h. (k, r, h) \<in> set (polls s) \<Longrightarrow> r \<le> poll_run s"
  shows "polls_ok (poll_effect s)"
proof -
  let ?s = "s\<lparr>poll_run := Suc (poll_run s), prevSample := None, stats := None, netRates := None, statsUnavailable := False\<rparr>"
  have "polls_ok ?s" using assms by (fastforce simp: polls_ok_def)
  then show ?thesis using poll_ok[of ?s] by (simp add: poll_effect_def Let_def)
qed

lemma net_rates_nonneg:
  "net_rates_after result now s = Some (rx, tx) \<Longrightarrow> (\<And>rx tx. netRates s = Some (rx, tx) \<Longrightarrow> 0 \<le> rx \<and> 0 \<le> tx) \<Longrightarrow>
     0 \<le> rx \<and> 0 \<le> tx"
  by (auto simp: net_rates_after_def Let_def split: option.splits if_splits)

lemma polls_ok_step:
  assumes "polls_ok s"
  shows "polls_ok (panel_step s e)"
proof (cases e)
  case (Props_changed h b)
  have "polls_ok (s\<lparr>panel_host := h, panel_open := b\<rparr>)"
    if "host_id h = host_id (panel_host s)" "b = panel_open s"
    using that assms by (simp add: polls_ok_def)
  moreover have "polls_ok (poll_effect (s\<lparr>panel_host := h, panel_open := b\<rparr>))"
    by (rule poll_effect_ok) (use assms in \<open>auto simp: polls_ok_def\<close>)
  ultimately show ?thesis using Props_changed by (simp add: Let_def)
next
  case Poll_tick
  with assms poll_ok show ?thesis by simp
next
  case (Poll_answered k a now)
  show ?thesis
  proof (cases "map_of (polls s) k")
    case None
    with Poll_answered assms show ?thesis by simp
  next
    case (Some rh)
    obtain r h where rh: "rh = (r, h)" by fastforce
    let ?s = "s\<lparr>polls := filter (\<lambda>(k', x). k' \<noteq> k) (polls s)\<rparr>"
    have ok: "polls_ok ?s" using assms by (auto simp: polls_ok_def)
    have "(k, r, h) \<in> set (polls s)" using Some rh by (auto dest: map_of_SomeD)
    then have "panel_open s" if "r = poll_run s" using that assms by (auto simp: polls_ok_def)
    then have "polls_ok (poll_answered a now ?s)" if "r = poll_run s"
      using ok that net_rates_nonneg[of _ now ?s]
      by (cases a) (auto simp: polls_ok_def)
    with Poll_answered Some rh ok show ?thesis by (simp add: Let_def)
  qed
next
  case (Quick_command live autoRun runKey label body)
  with assms polls_ok_same[OF quick_command_same] show ?thesis by simp
next
  case (Command_answered k a uuid now)
  have "same_polling s (s\<lparr>commands := cs\<rparr>)" for cs by (simp add: same_polling_def)
  from polls_ok_same[OF this assms] polls_ok_same[OF command_answered_same] Command_answered assms show ?thesis
    by (auto split: option.split)
qed

lemma bars_in_range: "performance decimal toFixed1 s = Bars bs \<Longrightarrow> (l, p, t) \<in> set bs \<Longrightarrow> 0 \<le> p \<and> p \<le> 100"
  by (auto simp: performance_def usage_bar_def Let_def stat_percent_range split: if_splits option.splits)

text \<open>
  The result of a quick command is not bound to the host: it stays on display, with the command's
  label only, when the panel turns to another host, also when it arrives after that.
\<close>

lemma result_outlives_host:
  "lastResult (panel_step s (Props_changed h b)) = lastResult s"
  "lastResult (foldl panel_step
     (panel_start ((sample_host ''a'' None)\<lparr>host_identity_id := Some ''i''\<rparr>) False initial_history)
     [Quick_command None True ''q'' ''List'' ''ls'', Command_answered 0 (Gate_answered gate_open) ''u'' ''n'',
      Props_changed (sample_host ''b'' None) False,
      Command_answered 1 (Executed (Inr [\<lparr>er_host_id = ''a'', er_output = None, er_error = Some ''refused''\<rparr>])) ''u'' ''n''])
   = Some (''List'', Some \<lparr>er_host_id = ''a'', er_output = None, er_error = Some ''refused''\<rparr>)"
  by (simp_all add: poll_effect_def poll_def panel_start_def command_off_def handleQuickCommand_def start_command_def
      command_over_def recordCommandRun_def panel_emit_def truthy_def gate_open_def Let_def)

interpretation panel_machine: invariant_machine "panel_start h b hist" panel_step "\<lambda>s e. True" polls_ok
  by unfold_locales (auto intro!: poll_effect_ok polls_ok_step simp: panel_start_def simp del: panel_step.simps)

section \<open>What the statistics should be\<close>

text \<open>
  A reference over the events alone. A period begins when the panel is mounted and whenever it turns
  to another host or the connection comes or goes. Polls are numbered through; those of the present
  period which are not answered yet are \<open>asked\<close>, the answers to the others are \<open>answered\<close>, with their
  number and the time at which they came.
\<close>

record polls_reference =
  ref_host :: string
  ref_open :: bool
  ref_sent :: nat
  asked :: "nat list"
  answered :: "(nat \<times> (string + host_stats) \<times> int) list"

definition ref_poll :: "polls_reference \<Rightarrow> polls_reference" where
  "ref_poll r = (if ref_open r then r\<lparr>asked := asked r @ [ref_sent r], ref_sent := Suc (ref_sent r)\<rparr> else r)"

fun ref_step :: "polls_reference \<Rightarrow> panel_event \<Rightarrow> polls_reference" where
  "ref_step r (Props_changed h b) =
     (if host_id h = ref_host r \<and> b = ref_open r then r
      else ref_poll \<lparr>ref_host = host_id h, ref_open = b, ref_sent = ref_sent r, asked = [], answered = []\<rparr>)"
| "ref_step r Poll_tick = ref_poll r"
| "ref_step r (Poll_answered k a now) =
     (if k \<in> set (asked r)
      then r\<lparr>asked := filter (\<lambda>k'. k' \<noteq> k) (asked r), answered := answered r @ [(k, a, now)]\<rparr> else r)"
| "ref_step r e = r"

definition ref_start :: "host \<Rightarrow> bool \<Rightarrow> polls_reference" where
  "ref_start h b = ref_poll \<lparr>ref_host = host_id h, ref_open = b, ref_sent = 0, asked = [], answered = []\<rparr>"

text \<open>
  What a period's answers amount to: the last statistics, whether the last answer was an error, and the
  rates between the last two successive statistics between which time has passed.
\<close>

definition goods :: "(nat \<times> (string + host_stats) \<times> int) list \<Rightarrow> (host_stats \<times> int) list" where
  "goods as = concat (map (\<lambda>(k, a, t). case a of Inl e \<Rightarrow> [] | Inr x \<Rightarrow> [(x, t)]) as)"

definition last_of :: "'a list \<Rightarrow> 'a option" where
  "last_of xs = (if xs = [] then None else Some (last xs))"

definition rates_between :: "(host_stats \<times> int) \<times> (host_stats \<times> int) \<Rightarrow> (real \<times> real) list" where
  "rates_between pq = (case pq of ((x, t), (y, u)) \<Rightarrow>
     if t < u then [(max 0 ((rx_bytes y - rx_bytes x) / (real_of_int (u - t) / 1000)),
                     max 0 ((tx_bytes y - tx_bytes x) / (real_of_int (u - t) / 1000)))] else [])"

definition ref_stats :: "polls_reference \<Rightarrow> host_stats option" where
  "ref_stats r = map_option fst (last_of (goods (answered r)))"

definition ref_unavailable :: "polls_reference \<Rightarrow> bool" where
  "ref_unavailable r \<longleftrightarrow> answered r \<noteq> [] \<and> isl (fst (snd (last (answered r))))"

definition ref_sample :: "polls_reference \<Rightarrow> net_sample option" where
  "ref_sample r = map_option (\<lambda>(x, t). \<lparr>sample_rx = rx_bytes x, sample_tx = tx_bytes x, sample_time = t\<rparr>)
     (last_of (goods (answered r)))"

definition ref_rates :: "polls_reference \<Rightarrow> (real \<times> real) option" where
  "ref_rates r = (let gs = goods (answered r) in last_of (concat (map rates_between (zip gs (tl gs)))))"

text \<open>The hosts the backend was asked about, in the order of the numbers.\<close>

fun asks_stats :: "panel_effect \<Rightarrow> string list" where
  "asks_stats (Panel_call (Stats_call (HostStats h))) = [h]"
| "asks_stats c = []"

definition asked_hosts :: "host_panel \<Rightarrow> string list" where
  "asked_hosts s = concat (map asks_stats (panel_calls s))"

lemma goods_snoc [simp]:
  "goods [] = []" "goods (as @ [(k, Inl e, t)]) = goods as" "goods (as @ [(k, Inr x, t)]) = goods as @ [(x, t)]"
  by (simp_all add: goods_def)

lemma last_of_simps [simp]: "last_of [] = None" "last_of (xs @ [x]) = Some x"
  by (simp_all add: last_of_def)

lemma zip_tl_snoc: "xs \<noteq> [] \<Longrightarrow> zip (xs @ [x]) (tl (xs @ [x])) = zip xs (tl xs) @ [(last xs, x)]"
proof (induction xs)
  case (Cons y ys)
  then show ?case by (cases ys) auto
qed simp

lemma last_of_append: "last_of (xs @ ys) = (if ys = [] then last_of xs else last_of ys)"
  by (simp add: last_of_def)

lemma ref_rates_snoc:
  "ref_rates (r\<lparr>asked := q, answered := answered r @ [(k, Inr y, u)]\<rparr>) =
     (case last_of (goods (answered r)) of None \<Rightarrow> ref_rates r
      | Some (x, t) \<Rightarrow> if t < u then last_of (rates_between ((x, t), (y, u))) else ref_rates r)"
proof (cases "goods (answered r) = []")
  case False
  then show ?thesis
    by (auto simp: ref_rates_def Let_def zip_tl_snoc last_of_append last_of_def[of "goods (answered r)"] rates_between_def
        simp del: tl_append2 split: prod.split)
qed (simp add: ref_rates_def Let_def)

lemma map_of_drop: "map_of (filter (\<lambda>(k', x). k' \<noteq> k) xs) = (map_of xs)(k := None)"
  by (induction xs) (auto simp: fun_eq_iff)

lemma asked_hosts_emit [simp]:
  "asked_hosts (panel_emit es s) = asked_hosts s @ concat (map asks_stats es)"
  by (simp add: asked_hosts_def panel_emit_def)

lemma asked_hosts_cong: "panel_calls s = panel_calls s' \<Longrightarrow> asked_hosts s = asked_hosts s'"
  by (simp add: asked_hosts_def)

text \<open>The panel and the reference agree.\<close>

definition polling_matches :: "host_panel \<Rightarrow> polls_reference \<Rightarrow> bool" where
  "polling_matches s r \<longleftrightarrow>
     host_id (panel_host s) = ref_host r \<and> panel_open s = ref_open r \<and> polls_sent s = ref_sent r
     \<and> length (asked_hosts s) = ref_sent r
     \<and> (\<forall>k n h. map_of (polls s) k = Some (n, h) \<longrightarrow> k < ref_sent r \<and> n \<le> poll_run s)
     \<and> (\<forall>k. k \<in> set (asked r) \<longleftrightarrow> (\<exists>h. map_of (polls s) k = Some (poll_run s, h)))
     \<and> (\<forall>k \<in> set (asked r) \<union> fst ` set (answered r). k < ref_sent r \<and> asked_hosts s ! k = ref_host r)
     \<and> (\<not> ref_open r \<longrightarrow> asked r = [] \<and> answered r = [])
     \<and> stats s = ref_stats r \<and> statsUnavailable s = ref_unavailable r
     \<and> prevSample s = ref_sample r \<and> netRates s = ref_rates r"

lemmas ref_views = ref_stats_def ref_unavailable_def ref_sample_def ref_rates_def

lemma poll_matches:
  assumes "polling_matches s r" and "panel_open s"
  shows "polling_matches (poll s) (ref_poll r)"
proof -
  have fresh: "map_of (polls s) (ref_sent r) = None"
    using assms(1) by (fastforce simp: polling_matches_def)
  have polls: "map_of (polls s @ [(ref_sent r, n, h)]) = (map_of (polls s))(ref_sent r \<mapsto> (n, h))" for n h
    using fresh by (auto simp: fun_eq_iff map_add_def split: option.split)
  have "asked_hosts (s\<lparr>polls := x, polls_sent := y\<rparr>) = asked_hosts s" for x y
    by (rule asked_hosts_cong) simp
  then have hosts: "asked_hosts (poll s) = asked_hosts s @ [ref_host r]"
    using assms(1) by (simp add: poll_def polling_matches_def)
  have map: "map_of (polls (poll s)) = (map_of (polls s))(ref_sent r \<mapsto> (poll_run s, host_id (panel_host s)))"
    using assms(1) polls by (simp add: poll_def polling_matches_def)
  have rest: "panel_host (poll s) = panel_host s" "panel_open (poll s) = panel_open s" "poll_run (poll s) = poll_run s"
    "polls_sent (poll s) = Suc (polls_sent s)" "stats (poll s) = stats s" "netRates (poll s) = netRates s"
    "prevSample (poll s) = prevSample s" "statsUnavailable (poll s) = statsUnavailable s"
    by (simp_all add: poll_def panel_emit_def)
  have r: "ref_poll r = r\<lparr>asked := asked r @ [ref_sent r], ref_sent := Suc (ref_sent r)\<rparr>"
    using assms by (simp add: ref_poll_def polling_matches_def)
  have old: "k < ref_sent r" if "k \<in> set (asked r) \<union> fst ` set (answered r)" for k
    using assms(1) that by (auto simp: polling_matches_def)
  then have "ref_sent r \<notin> set (asked r)" by blast
  with assms old fresh show ?thesis
    unfolding polling_matches_def hosts map rest r
    by (simp add: nth_append ref_views less_Suc_eq)
qed

lemma period_matches:
  assumes "length (asked_hosts s) = polls_sent s"
    and "\<And>k n h. map_of (polls s) k = Some (n, h) \<Longrightarrow> k < polls_sent s \<and> n \<le> poll_run s"
  shows "polling_matches (poll_effect s)
     (ref_poll \<lparr>ref_host = host_id (panel_host s), ref_open = panel_open s, ref_sent = polls_sent s, asked = [], answered = []\<rparr>)"
proof -
  let ?s = "s\<lparr>poll_run := Suc (poll_run s), prevSample := None, stats := None, netRates := None, statsUnavailable := False\<rparr>"
  let ?r = "\<lparr>ref_host = host_id (panel_host s), ref_open = panel_open s, ref_sent = polls_sent s, asked = [], answered = []\<rparr>"
  have "asked_hosts ?s = asked_hosts s" by (simp add: asked_hosts_def)
  then have "polling_matches ?s ?r"
    using assms by (fastforce simp: polling_matches_def ref_views)
  with poll_matches[OF this] show ?thesis
    by (cases "panel_open s") (simp_all add: poll_effect_def ref_poll_def Let_def)
qed

lemma answer_matches:
  assumes "polling_matches s r"
  shows "polling_matches (panel_step s (Poll_answered k a now)) (ref_step r (Poll_answered k a now))"
proof (cases "k \<in> set (asked r)")
  case True
  then obtain h where h: "map_of (polls s) k = Some (poll_run s, h)"
    using assms by (auto simp: polling_matches_def)
  have hosts: "asked_hosts (s\<lparr>polls := x, netRates := n, prevSample := p, stats := y, statsUnavailable := z\<rparr>) = asked_hosts s"
    "asked_hosts (s\<lparr>polls := x, statsUnavailable := z\<rparr>) = asked_hosts s" for n p x y z
    by (simp_all add: asked_hosts_def)
  have rates: "net_rates_after x now (s\<lparr>polls := q\<rparr>) =
      ref_rates (r\<lparr>asked := q', answered := answered r @ [(k, Inr x, now)]\<rparr>)" for x q q'
    using assms unfolding ref_rates_snoc
    by (auto simp: polling_matches_def net_rates_after_def ref_sample_def rates_between_def last_of_def[of "[_]"] Let_def split: option.split)
  show ?thesis
  proof (cases a)
    case (Inl e)
    with assms True h show ?thesis
      unfolding polling_matches_def by (simp add: Let_def map_of_drop hosts ref_views) blast
  next
    case (Inr x)
    with assms True h show ?thesis
      unfolding polling_matches_def by (simp add: Let_def map_of_drop hosts rates) (auto simp: ref_views)
  qed
next
  case False
  then have "r = ref_step r (Poll_answered k a now)" by simp
  moreover have "asked_hosts (s\<lparr>polls := x\<rparr>) = asked_hosts s" for x by (simp add: asked_hosts_def)
  ultimately show ?thesis
    using assms False unfolding polling_matches_def
    by (cases "map_of (polls s) k") (auto simp: Let_def map_of_drop split: prod.splits)
qed

lemma no_poll_matches:
  assumes "polling_matches s r" and "same_polling s s'" and "polls_sent s' = polls_sent s" and "asked_hosts s' = asked_hosts s"
  shows "polling_matches s' r"
  using assms by (simp add: polling_matches_def same_polling_def)

lemma start_command_asks [simp]:
  "polls_sent (start_command t c s) = polls_sent s"
  "asked_hosts (start_command t c s) = asked_hosts s @ asks_stats c"
  using asked_hosts_cong[of "s\<lparr>commands := x, commands_started := y\<rparr>" s for x y]
  by (simp_all add: start_command_def) (simp add: panel_emit_def)

lemma record_asks [simp]:
  "polls_sent (recordCommandRun uuid now hid label body x err s) = polls_sent s"
  "asked_hosts (recordCommandRun uuid now hid label body x err s) = asked_hosts s"
  "polls_sent (command_over s) = polls_sent s" "asked_hosts (command_over s) = asked_hosts s"
  "asked_hosts (s\<lparr>lastResult := y\<rparr>) = asked_hosts s" "asked_hosts (s\<lparr>commands := cs\<rparr>) = asked_hosts s"
  "asked_hosts (s\<lparr>runningId := z\<rparr>) = asked_hosts s" "asked_hosts (s\<lparr>panel_host := h, panel_open := b\<rparr>) = asked_hosts s"
  by (simp_all add: recordCommandRun_def command_over_def asked_hosts_def)

lemma command_answered_asks:
  "polls_sent (command_answered uuid now t a s) = polls_sent s \<and> asked_hosts (command_answered uuid now t a s) = asked_hosts s"
  by (induction uuid now t a s rule: command_answered.induct) (auto simp: runOnHosts_def split: sum.split list.split)

lemma quick_command_asks:
  "polls_sent (handleQuickCommand live autoRun runKey label body s) = polls_sent s
    \<and> asked_hosts (handleQuickCommand live autoRun runKey label body s) = asked_hosts s"
  using asked_hosts_cong[of "s\<lparr>runningId := x, lastResult := y\<rparr>" s for x y]
  by (simp add: handleQuickCommand_def Let_def)

lemma step_matches:
  assumes "polling_matches s r"
  shows "polling_matches (panel_step s e) (ref_step r e)"
proof (cases e)
  case (Props_changed h b)
  let ?s = "s\<lparr>panel_host := h, panel_open := b\<rparr>"
  have hosts: "asked_hosts ?s = asked_hosts s" by simp
  have sent: "polls_sent s = ref_sent r" "length (asked_hosts s) = ref_sent r"
    "\<And>k n h. map_of (polls s) k = Some (n, h) \<Longrightarrow> k < ref_sent r \<and> n \<le> poll_run s"
    using assms unfolding polling_matches_def by blast+
  have "polling_matches ?s r" if "host_id h = ref_host r" "b = ref_open r"
    using assms that hosts by (simp add: polling_matches_def ref_views)
  moreover have "polling_matches (poll_effect ?s)
      (ref_poll \<lparr>ref_host = host_id h, ref_open = b, ref_sent = ref_sent r, asked = [], answered = []\<rparr>)"
    using period_matches[of ?s] sent by simp
  moreover have "host_id (panel_host s) = ref_host r" "panel_open s = ref_open r"
    using assms by (simp_all add: polling_matches_def)
  ultimately show ?thesis using Props_changed by (simp add: Let_def)
next
  case Poll_tick
  with assms poll_matches[OF assms] show ?thesis by (auto simp: polling_matches_def ref_poll_def)
next
  case (Poll_answered k a now)
  with answer_matches[OF assms] show ?thesis by (simp only:)
next
  case (Quick_command live autoRun runKey label body)
  have "polling_matches (handleQuickCommand live autoRun runKey label body s) r"
    by (rule no_poll_matches[OF assms quick_command_same]) (simp_all add: quick_command_asks)
  with assms Quick_command show ?thesis by simp
next
  case (Command_answered k a uuid now)
  have "polling_matches (s\<lparr>commands := cs\<rparr>) r" for cs
    by (rule no_poll_matches[OF assms]) (simp_all add: same_polling_def)
  from no_poll_matches[OF this command_answered_same] command_answered_asks Command_answered assms show ?thesis
    by (auto split: option.split)
qed

lemma run_matches: "polling_matches (foldl panel_step (panel_start h b hist) es) (foldl ref_step (ref_start h b) es)"
proof (induction es rule: rev_induct)
  case Nil
  let ?s = "\<lparr>panel_host = h, panel_open = b, stats = None, statsUnavailable = False, prevSample = None,
    netRates = None, poll_run = 0, polls = [], polls_sent = 0, runningId = None, lastResult = None,
    commands = [], commands_started = 0, panel_calls = [], panel_history = hist\<rparr>"
  show ?case using period_matches[of ?s] by (simp add: panel_start_def ref_start_def asked_hosts_def)
next
  case (snoc e es)
  from step_matches[OF this] show ?case by simp
qed

section \<open>Properties\<close>

text \<open>
  C24: the statistics belong to the host shown. In every run of the panel, whatever hosts it was
  switched between, whatever commands were run and however late the backend answers, what is shown is what the
  reference makes of the events: the last statistics among the answers of the present period,
  whether the last of these answers was an error, and the rates between successive ones of them, so
  nothing is left from before a switch. The polls of the period have asked the backend about the
  host shown. Without a connection nothing is shown; rates are never negative, also when the
  host's counters restart.
\<close>
theorem stats_are_of_shown_host:
  assumes "s = foldl panel_step (panel_start h0 b0 hist) es" and "r = foldl ref_step (ref_start h0 b0) es"
  shows "(host_id (panel_host s), panel_open s) = (ref_host r, ref_open r)
    \<and> (stats s, statsUnavailable s, netRates s) = (ref_stats r, ref_unavailable r, ref_rates r)
    \<and> (\<forall>k \<in> set (asked r) \<union> fst ` set (answered r). k < length (asked_hosts s) \<and> asked_hosts s ! k = host_id (panel_host s))
    \<and> (\<not> panel_open s \<longrightarrow> asked r = [] \<and> answered r = [] \<and> stats s = None \<and> netRates s = None)
    \<and> (\<forall>rx tx. netRates s = Some (rx, tx) \<longrightarrow> 0 \<le> rx \<and> 0 \<le> tx)"
proof -
  have "polls_ok s" unfolding assms(1) by (rule panel_machine.inv_run) simp
  moreover have "polling_matches s r" unfolding assms by (rule run_matches)
  ultimately show ?thesis by (auto simp: polls_ok_def polling_matches_def)
qed

definition sample_stats :: host_stats where
  "sample_stats = \<lparr>cpu_percent = 5, mem_used_mb = 1, mem_total_mb = 2, rx_bytes = 10, tx_bytes = 20, swap_used_mb = 0,
     swap_total_mb = 0, disk_used_mb = 1, disk_total_mb = 4\<rparr>"

text \<open>
  Host \<open>a\<close> is shown with its statistics and rates; the panel turns to \<open>b\<close>, and one more poll of
  \<open>a\<close> is answered: nothing is shown, and the one poll of the period has asked for \<open>b\<close>.
\<close>

definition switch_events :: "panel_event list" where
  "switch_events = [Poll_answered 0 (Inr sample_stats) 5, Poll_tick, Poll_tick,
     Poll_answered 1 (Inr (sample_stats\<lparr>rx_bytes := 30\<rparr>)) 5005,
     Props_changed (sample_host ''b'' None) True, Poll_answered 2 (Inr sample_stats) 9000]"

theorem stats_are_of_shown_host_witness:
  "(let s = foldl panel_step (panel_start (sample_host ''a'' None) True initial_history) switch_events
    in stats s = None \<and> netRates s = None \<and> asked_hosts s ! 3 = ''b'')
   \<and> netRates (foldl panel_step (panel_start (sample_host ''a'' None) True initial_history) (take 4 switch_events)) = Some (4, 0)"
proof -
  have ref: "foldl ref_step (ref_start (sample_host ''a'' None) True) switch_events =
      \<lparr>ref_host = ''b'', ref_open = True, ref_sent = 4, asked = [3], answered = []\<rparr>"
    by (simp add: ref_start_def ref_poll_def switch_events_def)
  have early: "answered (foldl ref_step (ref_start (sample_host ''a'' None) True) (take 4 switch_events)) =
      [(0, Inr sample_stats, 5), (1, Inr (sample_stats\<lparr>rx_bytes := 30\<rparr>), 5005)]"
    by (simp add: ref_start_def ref_poll_def switch_events_def)
  have "goods [(0, Inr sample_stats, 5), (1, Inr (sample_stats\<lparr>rx_bytes := 30\<rparr>), 5005)] =
      [(sample_stats, 5), (sample_stats\<lparr>rx_bytes := 30\<rparr>, 5005)]" by (simp add: goods_def)
  then have "ref_rates (foldl ref_step (ref_start (sample_host ''a'' None) True) (take 4 switch_events)) = Some (4, 0)"
    by (simp add: ref_rates_def early Let_def rates_between_def last_of_def sample_stats_def)
  with stats_are_of_shown_host[OF refl refl, of "sample_host ''a'' None" True initial_history "take 4 switch_events"]
    stats_are_of_shown_host[OF refl refl, of "sample_host ''a'' None" True initial_history switch_events]
  show ?thesis unfolding ref Let_def by (simp add: ref_views)
qed

text \<open>
  a quick command. With a live terminal exactly one write is sent, with Enter when Auto-Run is
  on, and it is recorded exactly when it was submitted and the write succeeded. Without one the
  gate is asked first; a refusal is shown and nothing is sent; otherwise the command is run
  once, its result is shown and recorded with its exit status. An error that the call itself
  throws is neither shown nor recorded. In every case the button is released.
\<close>
theorem quick_command_outcomes:
  fixes s :: host_panel and autoRun :: bool and label body u n :: string
  assumes "truthy (host_identity_id (panel_host s))" and "runningId s \<noteq> Some runKey" and "commands s = []" and "sid \<noteq> []"
  defines "k \<equiv> commands_started s" and "i \<equiv> host_id (panel_host s)"
  defines "live \<equiv> \<lambda>failure. foldl panel_step s
      [Quick_command (Some sid) autoRun runKey label body, Command_answered k (Written failure) u n]"
    and "refused \<equiv> \<lambda>gate. foldl panel_step s
      [Quick_command None autoRun runKey label body, Command_answered k (Gate_answered gate) u n]"
    and "run \<equiv> \<lambda>answer. foldl panel_step s
      [Quick_command None autoRun runKey label body, Command_answered k (Gate_answered gate_open) u n,
       Command_answered (Suc k) (Executed answer) u n]"
  shows "panel_calls (live failure) =
        panel_calls s @ [Panel_call (Session_call (SessionWrite sid (if autoRun then body @ enter_key else body)))]
    \<and> panel_history (live failure) =
        (if failure = None \<and> autoRun
         then record_entry u n i \<lparr>entry_id = [], entry_label = label, entry_body = body, entry_ranAt = [],
                entry_exitStatus = None, entry_error = None\<rparr> (panel_history s)
         else panel_history s)
    \<and> (\<not> gate_ok gate \<longrightarrow>
        panel_calls (refused gate) = panel_calls s @ [Panel_gate (panel_host s)]
        \<and> lastResult (refused gate) = Some (label, Some (refused_result (panel_host s) gate))
        \<and> panel_history (refused gate) = panel_history s \<and> runningId (refused gate) = None)
    \<and> panel_calls (run answer) = panel_calls s @ [Panel_gate (panel_host s), Panel_call (runOnHosts [i] body)]
    \<and> (case answer of
         Inr (r # rs) \<Rightarrow> lastResult (run answer) = Some (label, Some r)
           \<and> panel_history (run answer) = record_entry u n i \<lparr>entry_id = [], entry_label = label, entry_body = body,
                entry_ranAt = [], entry_exitStatus = (case er_output r of None \<Rightarrow> None | Some out \<Rightarrow> exit_status out),
                entry_error = er_error r\<rparr> (panel_history s)
       | Inr [] \<Rightarrow> lastResult (run answer) = Some (label, None) \<and> panel_history (run answer) = panel_history s
       | Inl e \<Rightarrow> lastResult (run answer) = None \<and> panel_history (run answer) = panel_history s)
    \<and> runningId (live failure) = None \<and> runningId (run answer) = None \<and> commands (run answer) = []"
  using assms(1-4)
  by (auto simp: k_def i_def live_def refused_def run_def handleQuickCommand_def start_command_def command_over_def
      recordCommandRun_def command_off_def truthy_def gate_open_def Let_def split: sum.split list.split)

theorem quick_command_outcomes_witness:
  "panel_calls (foldl panel_step (panel_start ((sample_host ''h'' None)\<lparr>host_identity_id := Some ''i''\<rparr>) False initial_history)
      [Quick_command (Some ''s1'') True ''q'' ''List'' ''ls'', Command_answered 0 (Written None) ''u'' ''n''])
    = [Panel_call (Session_call (SessionWrite ''s1'' (''ls'' @ enter_key)))]"
proof -
  let ?s = "panel_start ((sample_host ''h'' None)\<lparr>host_identity_id := Some ''i''\<rparr>) False initial_history"
  have s: "truthy (host_identity_id (panel_host ?s))" "runningId ?s \<noteq> Some ''q''" "commands ?s = []" "''s1'' \<noteq> []"
    "commands_started ?s = 0" "panel_calls ?s = []"
    by (simp_all add: panel_start_def poll_effect_def truthy_def Let_def)
  from conjunct1[OF quick_command_outcomes[OF s(1-4), where autoRun = True and label = "''List''" and body = "''ls''"
      and failure = None and u = "''u''" and n = "''n''"]]
  show ?thesis unfolding s(5,6) by simp
qed

text \<open>
  with Auto-Run off, a quick command never reaches the command history. The text is written to
  the session directly, so the terminal's line tracking does not see it; when the user then presses
  Enter, the session gets the carriage return and runs the command, but the pane, whose own line
  is empty, records nothing, and the panel leaves recording to the pane.
\<close>
theorem inserted_command_unrecorded:
  fixes v :: terminal_view and label body u n :: string
  assumes "\<not> disposed v" and "sessionIdRef v = Some sid" and "sid \<noteq> []" and "trim (lineBuffer (keys v)) = []"
    and "truthy (host_identity_id (panel_host s))" and "runningId s \<noteq> Some runKey" and "commands s = []"
  defines "s' \<equiv> foldl panel_step s [Quick_command (Some sid) False runKey label body,
      Command_answered (commands_started s) (Written None) u n]"
  shows "panel_calls s' = panel_calls s @ [Panel_call (Session_call (SessionWrite sid body))]
    \<and> panel_history s' = panel_history s
    \<and> session_write sid enter_key \<in> set (effects (pane_step env v (User_data enter_key)))
    \<and> history_store (pane_step env v (User_data enter_key)) = history_store v"
proof -
  have "type_data enter_key (keys v) = ((keys v)\<lparr>lineBuffer := [], suppressNextLine := False\<rparr>, [])"
    using assms(4) by (simp add: type_data_def enter_key_def escape_char_def type_char_def line_end_def Let_def)
  moreover have "panel_calls s' = panel_calls s @ [Panel_call (Session_call (SessionWrite sid body))]
      \<and> panel_history s' = panel_history s"
    using assms(3,5-7)
    by (simp add: s'_def command_off_def handleQuickCommand_def start_command_def command_over_def truthy_def Let_def)
  ultimately show ?thesis
    using assms(1-3) by (simp add: on_data_def truthy_def Let_def)
qed

theorem inserted_command_unrecorded_witness:
  "panel_history (foldl panel_step (panel_start ((sample_host ''h'' None)\<lparr>host_identity_id := Some ''i''\<rparr>) False initial_history)
      [Quick_command (Some ''s1'') False ''q'' ''List'' ''ls'', Command_answered 0 (Written None) ''u'' ''n''])
    = initial_history"
proof -
  let ?s = "panel_start ((sample_host ''h'' None)\<lparr>host_identity_id := Some ''i''\<rparr>) False initial_history"
  let ?v = "pane_step sample_env sample_pane (Connect_resolved 0 ''s1'')"
  have s: "truthy (host_identity_id (panel_host ?s))" "runningId ?s \<noteq> Some ''q''" "commands ?s = []"
    "commands_started ?s = 0" "panel_history ?s = initial_history"
    by (simp_all add: panel_start_def poll_effect_def truthy_def Let_def)
  have v: "\<not> disposed ?v" "sessionIdRef ?v = Some ''s1''" "trim (lineBuffer (keys ?v)) = []"
    by code_simp+
  from inserted_command_unrecorded[OF v(1,2) _ v(3) s(1-3), of "''List''" "''ls''" "''u''" "''n''" sample_env]
  show ?thesis unfolding s(4,5) by simp
qed

end
