(* ===== verification/Tag_Input.thy ===== *)
theory Tag_Input
  imports Entity_Stores
begin

text \<open>
  The tag input of the host form, \<open>src/src/components/forms/TagInput.tsx\<close>: suggestions, picking
  and removing a tag, and committing the typed label, which picks an existing tag or creates one.
  The selected identifiers belong to the form, which takes over whatever \<open>onChange\<close> is called
  with; all tags are those of the tags store when the handler runs. A creation that waits for its
  answer keeps the selection of the render it was started in.
\<close>

section \<open>Definitions\<close>

record tag_input =
  selectedTagIds :: "string list"
  tag_text :: string
  tag_error :: "string option"
  creations :: "(nat \<times> string list) list"
  creations_started :: nat
  tag_requests :: "tags_mutation list"

definition tag_input_start :: "string list \<Rightarrow> tag_input" where
  "tag_input_start ids = \<lparr>selectedTagIds = ids, tag_text = [], tag_error = None, creations = [],
     creations_started = 0, tag_requests = []\<rparr>"

definition selected_tags :: "tag list \<Rightarrow> string list \<Rightarrow> tag list" where
  "selected_tags allTags ids = List.map_filter (\<lambda>i. List.find (\<lambda>t. tag_id t = i) allTags) ids"

definition tag_query :: "tag_input \<Rightarrow> string" where
  "tag_query s = toLowerCase (trim (tag_text s))"

definition suggestions :: "tag list \<Rightarrow> tag_input \<Rightarrow> tag list" where
  "suggestions allTags s =
     (if tag_query s \<noteq> []
      then take 6 (filter (\<lambda>t. tag_id t \<notin> set (selectedTagIds s) \<and> str_includes (toLowerCase (tag_label t)) (tag_query s))
        allTags)
      else [])"

text \<open>\<open>addTagId\<close> in the render whose selection is \<open>seen\<close>.\<close>

definition addTagId :: "string list \<Rightarrow> string \<Rightarrow> tag_input \<Rightarrow> tag_input" where
  "addTagId seen i s =
     s\<lparr>selectedTagIds := (if i \<in> set seen then selectedTagIds s else seen @ [i]), tag_text := []\<rparr>"

definition removeTagId :: "string \<Rightarrow> tag_input \<Rightarrow> tag_input" where
  "removeTagId i s = s\<lparr>selectedTagIds := filter (\<lambda>x. x \<noteq> i) (selectedTagIds s)\<rparr>"

definition commitTypedLabel :: "tag list \<Rightarrow> tag_input \<Rightarrow> tag_input" where
  "commitTypedLabel allTags s =
     (let label = trim (tag_text s)
      in if label = [] then s
         else (let s1 = s\<lparr>tag_error := None\<rparr>
           in case List.find (\<lambda>t. toLowerCase (tag_label t) = toLowerCase label) allTags of
                Some existing \<Rightarrow> addTagId (selectedTagIds s) (tag_id existing) s1
              | None \<Rightarrow> s1\<lparr>creations := creations s @ [(creations_started s, selectedTagIds s)],
                  creations_started := Suc (creations_started s), tag_requests := tag_requests s @ [CreateTag label]\<rparr>))"

definition tag_created :: "nat \<Rightarrow> string + tag \<Rightarrow> tag_input \<Rightarrow> tag_input" where
  "tag_created k answer s =
     (case map_of (creations s) k of
        None \<Rightarrow> s
      | Some seen \<Rightarrow>
          (let s1 = s\<lparr>creations := filter (\<lambda>(k', x). k' \<noteq> k) (creations s)\<rparr>
           in case answer of
                Inr created \<Rightarrow> addTagId seen (tag_id created) s1
              | Inl e \<Rightarrow> s1\<lparr>tag_error := Some e\<rparr>))"

datatype tag_event =
    Tag_typed string
  | Tag_commit
  | Tag_backspace
  | Tag_escape
  | Tag_pick tag
  | Tag_remove string
  | Tag_created nat "string + tag"

text \<open>\<open>Tag_commit\<close> is Enter, the comma, and leaving the input.\<close>

fun tag_step :: "tag list \<Rightarrow> tag_input \<Rightarrow> tag_event \<Rightarrow> tag_input" where
  "tag_step allTags s (Tag_typed x) = s\<lparr>tag_text := x\<rparr>"
| "tag_step allTags s Tag_commit = commitTypedLabel allTags s"
| "tag_step allTags s Tag_backspace =
     (if tag_text s = [] \<and> selected_tags allTags (selectedTagIds s) \<noteq> []
      then removeTagId (tag_id (last (selected_tags allTags (selectedTagIds s)))) s else s)"
| "tag_step allTags s Tag_escape = s\<lparr>tag_text := []\<rparr>"
| "tag_step allTags s (Tag_pick t) =
     (if t \<in> set (suggestions allTags s) then addTagId (selectedTagIds s) (tag_id t) s else s)"
| "tag_step allTags s (Tag_remove i) =
     (if i \<in> set (map tag_id (selected_tags allTags (selectedTagIds s))) then removeTagId i s else s)"
| "tag_step allTags s (Tag_created k answer) = tag_created k answer s"

section \<open>Lemmas\<close>

text \<open>No tag is selected twice, neither now nor in the selection that a waiting creation has seen.\<close>

definition tags_distinct :: "tag_input \<Rightarrow> bool" where
  "tags_distinct s \<longleftrightarrow> distinct (selectedTagIds s) \<and> (\<forall>(k, seen) \<in> set (creations s). distinct seen)"

lemma suggestion_unselected: "t \<in> set (suggestions allTags s) \<Longrightarrow> tag_id t \<notin> set (selectedTagIds s)"
  by (auto simp: suggestions_def dest: in_set_takeD split: if_splits)

lemma addTagId_distinct: "tags_distinct s \<Longrightarrow> distinct seen \<Longrightarrow> tags_distinct (addTagId seen i s)"
  by (simp add: tags_distinct_def addTagId_def)

lemma commit_distinct: "tags_distinct s \<Longrightarrow> tags_distinct (commitTypedLabel allTags s)"
  by (auto simp: commitTypedLabel_def Let_def tags_distinct_def addTagId_def split: option.split)

lemma tag_created_distinct:
  assumes "tags_distinct s"
  shows "tags_distinct (tag_created k answer s)"
proof (cases "map_of (creations s) k")
  case (Some seen)
  let ?s = "s\<lparr>creations := filter (\<lambda>(k', x). k' \<noteq> k) (creations s)\<rparr>"
  from assms Some have "distinct seen" by (auto simp: tags_distinct_def dest: map_of_SomeD)
  moreover from assms have s: "tags_distinct ?s" by (auto simp: tags_distinct_def)
  ultimately have "tags_distinct (addTagId seen i ?s)" for i by (intro addTagId_distinct)
  moreover from s have "tags_distinct (?s\<lparr>tag_error := e\<rparr>)" for e by (simp add: tags_distinct_def)
  ultimately show ?thesis using Some by (simp add: tag_created_def Let_def split: sum.split)
qed (simp add: tag_created_def assms)

lemma tag_step_distinct:
  assumes "tags_distinct s"
  shows "tags_distinct (tag_step allTags s e)"
proof (cases e)
  case Tag_commit
  with assms commit_distinct show ?thesis by simp
next
  case (Tag_pick t)
  have "distinct (selectedTagIds s)" using assms by (simp add: tags_distinct_def)
  with Tag_pick assms addTagId_distinct show ?thesis by simp
next
  case (Tag_created k answer)
  with assms tag_created_distinct show ?thesis by simp
qed (use assms in \<open>simp_all add: tags_distinct_def removeTagId_def\<close>)

interpretation tag_machine:
  invariant_machine "tag_input_start ids" "\<lambda>s (allTags, e). tag_step allTags s e" "\<lambda>s e. True"
    "\<lambda>s. distinct ids \<longrightarrow> tags_distinct s"
proof unfold_locales
  show "distinct ids \<longrightarrow> tags_distinct (case e of (allTags, e) \<Rightarrow> tag_step allTags s e)"
    if "distinct ids \<longrightarrow> tags_distinct s" for s e
    using that tag_step_distinct by (simp split: prod.split)
qed (simp add: tags_distinct_def tag_input_start_def)

lemmas commit_simps = commitTypedLabel_def addTagId_def tag_created_def Let_def

section \<open>Properties\<close>

text \<open>
  the tag input. No tag is ever selected twice, whatever the user does and however late
  answers arrive. A typed label that names a tag, in any case of its letters, selects it at once
  and empties the input; another label is sent to the backend, trimmed, and its tag is selected
  when it arrives; an empty one does nothing.
\<close>
theorem tag_input_selects:
  assumes "distinct ids"
  shows "distinct (selectedTagIds (foldl (\<lambda>s (allTags, e). tag_step allTags s e) (tag_input_start ids) es))
    \<and> (trim (tag_text s) = [] \<longrightarrow> commitTypedLabel ts s = s)
    \<and> (trim (tag_text s) \<noteq> [] \<and> List.find (\<lambda>t. toLowerCase (tag_label t) = toLowerCase (trim (tag_text s))) ts = Some t \<longrightarrow>
        set (selectedTagIds (commitTypedLabel ts s)) = insert (tag_id t) (set (selectedTagIds s))
        \<and> tag_text (commitTypedLabel ts s) = [] \<and> tag_requests (commitTypedLabel ts s) = tag_requests s)
    \<and> (trim (tag_text s) \<noteq> [] \<and> creations s = []
        \<and> List.find (\<lambda>t. toLowerCase (tag_label t) = toLowerCase (trim (tag_text s))) ts = None \<longrightarrow>
        tag_requests (commitTypedLabel ts s) = tag_requests s @ [CreateTag (trim (tag_text s))]
        \<and> set (selectedTagIds (tag_created (creations_started s) (Inr t) (commitTypedLabel ts s)))
            = insert (tag_id t) (set (selectedTagIds s)))"
proof -
  have "tags_distinct (foldl (\<lambda>s (allTags, e). tag_step allTags s e) (tag_input_start ids) es)"
    using tag_machine.inv_run[of ids es] assms by simp
  then show ?thesis by (auto simp: tags_distinct_def commit_simps)
qed

theorem tag_input_selects_witness:
  "distinct (selectedTagIds (foldl (\<lambda>s (allTags, e). tag_step allTags s e) (tag_input_start [''a''])
     [([], Tag_typed '' prod ''), ([], Tag_commit), ([], Tag_created 0 (Inr \<lparr>tag_id = ''b'', tag_label = ''prod''\<rparr>))]))"
  by (rule conjunct1[OF tag_input_selects]) simp

text \<open>
  a slow creation undoes what was selected meanwhile: the answer is added to the selection of
  the render in which the label was committed, so a tag that was picked since then is lost, and a
  tag that was removed since then is back.
\<close>
theorem slow_tag_overwrites:
  assumes "trim (tag_text s) \<noteq> []" and "creations s = []"
    and "List.find (\<lambda>t. toLowerCase (tag_label t) = toLowerCase (trim (tag_text s))) ts = None"
    and "tag_id t \<notin> set (selectedTagIds s)" and "i \<in> set (selectedTagIds s)"
    and "other \<in> set (suggestions ts' (s\<lparr>tag_text := x\<rparr>))" and "i \<in> set (map tag_id (selected_tags ts' (selectedTagIds s)))"
  defines "pending \<equiv> commitTypedLabel ts s" and "answer \<equiv> Tag_created (creations_started s) (Inr t)"
  defines "picked \<equiv> foldl (tag_step ts') pending [Tag_escape, Tag_typed x, Tag_pick other]"
    and "removed \<equiv> tag_step ts' pending (Tag_remove i)"
  shows "selectedTagIds picked = selectedTagIds s @ [tag_id other]
    \<and> selectedTagIds (tag_step ts' picked answer) = selectedTagIds s @ [tag_id t]
    \<and> i \<notin> set (selectedTagIds removed)
    \<and> selectedTagIds (tag_step ts' removed answer) = selectedTagIds s @ [tag_id t]"
  using assms(1-7) suggestion_unselected[OF assms(6)]
  by (simp add: pending_def answer_def picked_def removed_def commit_simps removeTagId_def suggestions_def tag_query_def)

theorem slow_tag_overwrites_witness:
  "let s = foldl (tag_step [\<lparr>tag_id = ''a'', tag_label = ''web''\<rparr>, \<lparr>tag_id = ''b'', tag_label = ''db''\<rparr>])
      (commitTypedLabel [] \<lparr>selectedTagIds = [''a''], tag_text = ''prod'', tag_error = None, creations = [],
         creations_started = 0, tag_requests = []\<rparr>)
      [Tag_escape, Tag_typed ''d'', Tag_pick \<lparr>tag_id = ''b'', tag_label = ''db''\<rparr>]
   in selectedTagIds s = [''a'', ''b'']
     \<and> selectedTagIds (tag_step [\<lparr>tag_id = ''a'', tag_label = ''web''\<rparr>, \<lparr>tag_id = ''b'', tag_label = ''db''\<rparr>] s
         (Tag_created 0 (Inr \<lparr>tag_id = ''p'', tag_label = ''prod''\<rparr>))) = [''a'', ''p'']"
proof -
  let ?s = "\<lparr>selectedTagIds = [''a''], tag_text = ''prod'', tag_error = None, creations = [],
     creations_started = 0, tag_requests = []\<rparr>"
  let ?ts = "[\<lparr>tag_id = ''a'', tag_label = ''web''\<rparr>, \<lparr>tag_id = ''b'', tag_label = ''db''\<rparr>]"
  have "trim (tag_text ?s) \<noteq> []" "\<lparr>tag_id = ''b'', tag_label = ''db''\<rparr> \<in> set (suggestions ?ts (?s\<lparr>tag_text := ''d''\<rparr>))"
    "''a'' \<in> set (map tag_id (selected_tags ?ts (selectedTagIds ?s)))"
    by code_simp+
  from slow_tag_overwrites[OF this(1) _ _ _ _ this(2,3), of "[]" "\<lparr>tag_id = ''p'', tag_label = ''prod''\<rparr>"]
  show ?thesis by (simp add: Let_def)
qed

end
