(* ===== verification/Host_Form.thy ===== *)
theory Host_Form
  imports Tag_Input "HOL-Library.Word"
begin

text \<open>
  The form for a host, \<open>src/src/components/forms/HostForm.tsx\<close>, around the tag input
  of theory \<open>Tag_Input\<close>: the fields and their setters, choosing a file for a key or a VPN profile,
  the validation, and the submission, which creates a key, an identity and a VPN profile on the
  way to the host.

  What the stores answer is an argument. A submission works on the values of the render it was
  started in, so the whole of it is computed from them when it ends; what the user changes in the
  meantime reaches the form only.
\<close>

section \<open>The fields\<close>

datatype pick_mode = New_one | Existing_one

datatype key_mode = Existing_key | Import_key

datatype vpn_mode = Vpn_none | Vpn_existing | Vpn_new

datatype browse_target = Key_file | Vpn_file

type_synonym field_errors = "(string \<times> string) list"

text \<open>The input of \<open>createHost\<close>, with the port as the number it is before the backend reads it.\<close>

record form_host_input =
  fh_group_id :: "string option"
  fh_label :: string
  fh_hostname :: string
  fh_port :: js_number
  fh_identity_id :: "string option"
  fh_vpn_profile_id :: "string option"
  fh_color :: "string option"
  fh_icon :: "string option"
  fh_notes :: "string option"
  fh_sort_order :: int
  fh_tag_ids :: "string list"

record host_form =
  form_label :: string
  form_hostname :: string
  form_port :: js_number
  form_groupId :: string
  form_color :: "string option"
  form_icon :: "string option"
  form_tagIds :: "string list"
  identityMode :: pick_mode
  form_identityId :: string
  form_username :: string
  form_auth :: auth_method
  form_password :: string
  form_sshKeyId :: string
  keyMode :: key_mode
  importKeyLabel :: string
  importKeyPem :: string
  importKeyPassphrase :: string
  vpnMode :: vpn_mode
  form_vpnProfileId :: string
  vpnLabel :: string
  vpnConfig :: string
  vpnAuthUsername :: string
  vpnAuthPassword :: string
  vpnAvoidDefaultRoute :: bool
  form_notes :: string

definition or_empty :: "string option \<Rightarrow> string" where
  "or_empty x = (case x of None \<Rightarrow> [] | Some y \<Rightarrow> y)"

definition or_null :: "string \<Rightarrow> string option" where
  "or_null x = (if x = [] then None else Some x)"

definition initial_form :: "host option \<Rightarrow> string option \<Rightarrow> ssh_key list \<Rightarrow> host_form" where
  "initial_form h defaultGroupId ks =
     (let field = (\<lambda>get. Option.bind h get)
      in \<lparr>form_label = (case h of None \<Rightarrow> [] | Some x \<Rightarrow> host_label x),
          form_hostname = (case h of None \<Rightarrow> [] | Some x \<Rightarrow> host_hostname x),
          form_port = (case h of None \<Rightarrow> Num 22 | Some x \<Rightarrow> Num (real_of_int (host_port x))),
          form_groupId = (case field host_group_id of Some g \<Rightarrow> g | None \<Rightarrow> or_empty defaultGroupId),
          form_color = field host_color, form_icon = field host_icon,
          form_tagIds = (case h of None \<Rightarrow> [] | Some x \<Rightarrow> map tag_id (host_tags x)),
          identityMode = (if truthy (field host_identity_id) then Existing_one else New_one),
          form_identityId = or_empty (field host_identity_id),
          form_username = [], form_auth = Password, form_password = [], form_sshKeyId = [],
          keyMode = (if ks \<noteq> [] then Existing_key else Import_key),
          importKeyLabel = [], importKeyPem = [], importKeyPassphrase = [],
          vpnMode = (if truthy (field host_vpn_profile_id) then Vpn_existing else Vpn_none),
          form_vpnProfileId = or_empty (field host_vpn_profile_id),
          vpnLabel = [], vpnConfig = [], vpnAuthUsername = [], vpnAuthPassword = [], vpnAvoidDefaultRoute = True,
          form_notes = or_empty (field host_notes)\<rparr>)"

text \<open>The inputs and buttons, each with its setter.\<close>

datatype form_edit =
    Edit_label string | Edit_hostname string | Edit_port js_number | Edit_group string
  | Pick_color "string option" | Pick_icon "string option" | Edit_tags "string list"
  | Pick_identity_mode pick_mode | Pick_identity string | Edit_username string | Pick_password | Pick_private_key
  | Edit_password string | Pick_key_mode key_mode | Pick_ssh_key string | Edit_key_label string | Edit_key_pem string
  | Edit_key_passphrase string | Pick_vpn_mode vpn_mode | Pick_profile string | Edit_vpn_label string
  | Edit_vpn_config string | Tick_avoid_default_route bool | Edit_vpn_username string | Edit_vpn_password string
  | Edit_notes string

fun edit :: "form_edit \<Rightarrow> host_form \<Rightarrow> host_form" where
  "edit (Edit_label x) f = f\<lparr>form_label := x\<rparr>"
| "edit (Edit_hostname x) f = f\<lparr>form_hostname := x\<rparr>"
| "edit (Edit_port x) f = f\<lparr>form_port := x\<rparr>"
| "edit (Edit_group x) f = f\<lparr>form_groupId := x\<rparr>"
| "edit (Pick_color x) f = f\<lparr>form_color := x\<rparr>"
| "edit (Pick_icon x) f = f\<lparr>form_icon := x\<rparr>"
| "edit (Edit_tags x) f = f\<lparr>form_tagIds := x\<rparr>"
| "edit (Pick_identity_mode x) f = f\<lparr>identityMode := x\<rparr>"
| "edit (Pick_identity x) f = f\<lparr>form_identityId := x\<rparr>"
| "edit (Edit_username x) f = f\<lparr>form_username := x\<rparr>"
| "edit Pick_password f = f\<lparr>form_auth := Password\<rparr>"
| "edit Pick_private_key f = f\<lparr>form_auth := Private_key\<rparr>"
| "edit (Edit_password x) f = f\<lparr>form_password := x\<rparr>"
| "edit (Pick_key_mode x) f = f\<lparr>keyMode := x\<rparr>"
| "edit (Pick_ssh_key x) f = f\<lparr>form_sshKeyId := x\<rparr>"
| "edit (Edit_key_label x) f = f\<lparr>importKeyLabel := x\<rparr>"
| "edit (Edit_key_pem x) f = f\<lparr>importKeyPem := x\<rparr>"
| "edit (Edit_key_passphrase x) f = f\<lparr>importKeyPassphrase := x\<rparr>"
| "edit (Pick_vpn_mode x) f = f\<lparr>vpnMode := x\<rparr>"
| "edit (Pick_profile x) f = f\<lparr>form_vpnProfileId := x\<rparr>"
| "edit (Edit_vpn_label x) f = f\<lparr>vpnLabel := x\<rparr>"
| "edit (Edit_vpn_config x) f = f\<lparr>vpnConfig := x\<rparr>"
| "edit (Tick_avoid_default_route x) f = f\<lparr>vpnAvoidDefaultRoute := x\<rparr>"
| "edit (Edit_vpn_username x) f = f\<lparr>vpnAuthUsername := x\<rparr>"
| "edit (Edit_vpn_password x) f = f\<lparr>vpnAuthPassword := x\<rparr>"
| "edit (Edit_notes x) f = f\<lparr>form_notes := x\<rparr>"

section \<open>Choosing a file\<close>

text \<open>
  The last part of the path, \<open>path.split(/[/\\]/).pop()\<close>, without an extension of the list
  (\<open>fileName.replace(/\.(pem|key|pub)$/i, "")\<close>).
\<close>

definition path_separator :: "char \<Rightarrow> bool" where
  "path_separator c \<longleftrightarrow> c = CHR 0x2F \<or> c = CHR 0x5C"

definition file_name :: "string \<Rightarrow> string" where
  "file_name path = rev (takeWhile (\<lambda>c. \<not> path_separator c) (rev path))"

definition ends_with_any_case :: "string \<Rightarrow> string \<Rightarrow> bool" where
  "ends_with_any_case name suffix \<longleftrightarrow>
     length suffix \<le> length name \<and> toLowerCase (drop (length name - length suffix) name) = suffix"

definition strip_extension :: "string list \<Rightarrow> string \<Rightarrow> string" where
  "strip_extension exts name =
     (case List.find (\<lambda>e. ends_with_any_case name (CHR ''.'' # e)) exts of
        None \<Rightarrow> name
      | Some e \<Rightarrow> take (length name - Suc (length e)) name)"

datatype browse_answer = Browse_cancelled | Browse_failed string | Browse_read string string

text \<open>\<open>handleBrowseKey\<close> and \<open>handleBrowseVpn\<close> after their awaits; whether the label was empty was seen before.\<close>

fun browsed :: "browse_target \<Rightarrow> bool \<Rightarrow> string \<Rightarrow> string \<Rightarrow> host_form \<Rightarrow> host_form" where
  "browsed Key_file no_label path contents f =
     (let f1 = f\<lparr>importKeyPem := contents\<rparr>
      in if no_label then f1\<lparr>importKeyLabel := strip_extension [''pem'', ''key'', ''pub''] (file_name path)\<rparr> else f1)"
| "browsed Vpn_file no_label path contents f =
     (let f1 = f\<lparr>vpnConfig := contents\<rparr>
      in if no_label then f1\<lparr>vpnLabel := strip_extension [''ovpn'', ''conf''] (file_name path)\<rparr> else f1)"

fun unlabelled :: "browse_target \<Rightarrow> host_form \<Rightarrow> bool" where
  "unlabelled Key_file f \<longleftrightarrow> importKeyLabel f = []"
| "unlabelled Vpn_file f \<longleftrightarrow> vpnLabel f = []"

section \<open>Validation\<close>

definition bad_port :: "js_number \<Rightarrow> bool" where
  "bad_port p \<longleftrightarrow> (case p of NaN \<Rightarrow> True | Num x \<Rightarrow> x = 0 \<or> x < 1 \<or> 65535 < x)"

definition hasCredentialData :: "host_form \<Rightarrow> bool" where
  "hasCredentialData f \<longleftrightarrow>
     form_auth f = Password \<and> form_password f \<noteq> []
     \<or> form_auth f = Private_key
       \<and> (keyMode f = Existing_key \<and> form_sshKeyId f \<noteq> [] \<or> keyMode f = Import_key \<and> importKeyPem f \<noteq> [])"

definition validate :: "host_form \<Rightarrow> field_errors" where
  "validate f =
     (if trim (form_label f) = [] then [(''label'', ''Enter a label.'')] else [])
   @ (if trim (form_hostname f) = [] then [(''hostname'', ''Enter a hostname or IP.'')] else [])
   @ (if bad_port (form_port f) then [(''port'', ''Enter a port between 1 and 65535.'')] else [])
   @ (if identityMode f = New_one \<and> form_auth f = Private_key \<and> keyMode f = Existing_key \<and> form_sshKeyId f = []
      then [(''sshKeyId'', ''Select an SSH key, or switch to \"Import new key\".'')] else [])
   @ (if identityMode f = New_one \<and> form_auth f = Private_key \<and> keyMode f = Import_key \<and> importKeyPem f = []
      then [(''importKeyPem'', ''Upload or paste a private key, or switch to \"Use saved key\".'')] else [])
   @ (if identityMode f = New_one \<and> form_username f = [] \<and> hasCredentialData f
      then [(''username'', ''Enter a username, or clear the password/key to skip creating credentials for this host.'')]
      else [])
   @ (if vpnMode f = Vpn_new \<and> vpnConfig f = []
      then [(''vpnConfig'', ''Upload or paste a .ovpn profile, or switch VPN back to \"None\".'')] else [])"

section \<open>Submission\<close>

text \<open>
  A part of the submission: the calls it made, in order, and its error or its value. \<open>then_do\<close>
  is \<open>await\<close>: an error skips the rest.
\<close>

datatype form_call =
    Form_import_key import_key_input
  | Form_create_identity identity_input
  | Form_create_profile vpn_profile_input
  | Form_update_host string form_host_input
  | Form_create_host form_host_input

type_synonym 'a tried = "form_call list \<times> (string + 'a)"

definition then_do :: "'a tried \<Rightarrow> ('a \<Rightarrow> 'b tried) \<Rightarrow> 'b tried" where
  "then_do t k = (case t of (cs, Inl e) \<Rightarrow> (cs, Inl e) | (cs, Inr x) \<Rightarrow> (case k x of (ds, r) \<Rightarrow> (cs @ ds, r)))"

definition returning :: "'a \<Rightarrow> 'a tried" where "returning x = ([], Inr x)"

text \<open>What the operations of the stores answer.\<close>

record form_stores =
  do_importKey :: "import_key_input \<Rightarrow> string + ssh_key"
  do_createIdentity :: "identity_input \<Rightarrow> string + identity"
  do_createProfile :: "vpn_profile_input \<Rightarrow> string + vpn_profile"
  do_updateHost :: "string \<Rightarrow> form_host_input \<Rightarrow> string + host"
  do_createHost :: "form_host_input \<Rightarrow> string + host"

definition user_at_host :: "host_form \<Rightarrow> string" where
  "user_at_host f = form_username f @ ''@'' @ (if form_hostname f \<noteq> [] then form_hostname f else form_label f)"

definition import_input :: "host_form \<Rightarrow> import_key_input" where
  "import_input f =
     \<lparr>ik_label = (if importKeyLabel f \<noteq> [] then importKeyLabel f else user_at_host f),
      ik_private_key_pem = importKeyPem f, ik_passphrase = or_null (importKeyPassphrase f)\<rparr>"

definition resolve_key :: "form_stores \<Rightarrow> host_form \<Rightarrow> string tried" where
  "resolve_key st f =
     (if form_auth f = Private_key \<and> keyMode f = Import_key
      then ([Form_import_key (import_input f)], map_sum id key_id (do_importKey st (import_input f)))
      else returning (form_sshKeyId f))"

definition identity_input_of :: "host_form \<Rightarrow> string \<Rightarrow> identity_input" where
  "identity_input_of f resolvedSshKeyId =
     \<lparr>ii_label = user_at_host f, ii_username = form_username f, ii_auth_method = form_auth f,
      ii_ssh_key_id = (if form_auth f = Private_key then Some resolvedSshKeyId else None),
      ii_password = Some (if form_auth f = Password then form_password f else [])\<rparr>"

definition resolve_identity :: "form_stores \<Rightarrow> host_form \<Rightarrow> string option tried" where
  "resolve_identity st f =
     (if identityMode f = New_one \<and> form_username f \<noteq> []
      then then_do (resolve_key st f) (\<lambda>k.
        ([Form_create_identity (identity_input_of f k)],
         map_sum id (\<lambda>i. Some (identity_id i)) (do_createIdentity st (identity_input_of f k))))
      else returning (if identityMode f = Existing_one then or_null (form_identityId f) else None))"

definition profile_input_of :: "host_form \<Rightarrow> vpn_profile_input" where
  "profile_input_of f =
     \<lparr>vi_label = (if vpnLabel f \<noteq> [] then vpnLabel f
                 else (if form_label f \<noteq> [] then form_label f else form_hostname f) @ '' VPN''),
      vi_config = vpnConfig f, vi_auth_username = or_null (vpnAuthUsername f),
      vi_auth_password = Some (vpnAuthPassword f), vi_avoid_default_route = vpnAvoidDefaultRoute f\<rparr>"

definition resolve_vpn :: "form_stores \<Rightarrow> host_form \<Rightarrow> string option tried" where
  "resolve_vpn st f =
     (if vpnMode f = Vpn_new
      then ([Form_create_profile (profile_input_of f)],
            map_sum id (\<lambda>p. Some (profile_id p)) (do_createProfile st (profile_input_of f)))
      else returning (if vpnMode f = Vpn_existing then or_null (form_vpnProfileId f) else None))"

definition host_input_of :: "host option \<Rightarrow> host_form \<Rightarrow> string option \<Rightarrow> string option \<Rightarrow> form_host_input" where
  "host_input_of h f resolvedIdentityId resolvedVpnProfileId =
     \<lparr>fh_group_id = or_null (form_groupId f), fh_label = form_label f, fh_hostname = form_hostname f,
      fh_port = form_port f, fh_identity_id = resolvedIdentityId, fh_vpn_profile_id = resolvedVpnProfileId,
      fh_color = form_color f, fh_icon = form_icon f, fh_notes = or_null (form_notes f),
      fh_sort_order = (case h of None \<Rightarrow> 0 | Some x \<Rightarrow> host_sort_order x), fh_tag_ids = form_tagIds f\<rparr>"

definition save_host :: "form_stores \<Rightarrow> host option \<Rightarrow> form_host_input \<Rightarrow> host tried" where
  "save_host st h input =
     (case h of
        Some x \<Rightarrow> ([Form_update_host (host_id x) input], do_updateHost st (host_id x) input)
      | None \<Rightarrow> ([Form_create_host input], do_createHost st input))"

definition submit :: "form_stores \<Rightarrow> host option \<Rightarrow> host_form \<Rightarrow> host tried" where
  "submit st h f =
     then_do (resolve_identity st f) (\<lambda>i. then_do (resolve_vpn st f) (\<lambda>v. save_host st h (host_input_of h f i v)))"

section \<open>The form as a state machine\<close>

text \<open>
  A submission on its way keeps the host and the values it was started with and whether the button was
  "Save & Connect"; \<open>form_exit\<close> is what the form was left with.
\<close>

datatype form_exit = Form_done | Form_connect host

record form_state =
  form_host :: "host option"
  form_fields :: host_form
  form_error :: "string option"
  fieldErrors :: field_errors
  submission :: "(host option \<times> host_form \<times> bool) option"
  browses :: "(nat \<times> browse_target \<times> bool) list"
  browses_started :: nat
  form_calls :: "form_call list"
  form_left :: "form_exit option"

definition form_start :: "host option \<Rightarrow> string option \<Rightarrow> ssh_key list \<Rightarrow> form_state" where
  "form_start h defaultGroupId ks =
     \<lparr>form_host = h, form_fields = initial_form h defaultGroupId ks, form_error = None, fieldErrors = [],
      submission = None, browses = [], browses_started = 0, form_calls = [], form_left = None\<rparr>"

definition submitting :: "form_state \<Rightarrow> bool" where "submitting s \<longleftrightarrow> submission s \<noteq> None"

definition handleBrowse :: "browse_target \<Rightarrow> form_state \<Rightarrow> form_state" where
  "handleBrowse t s =
     s\<lparr>form_error := None, browses := browses s @ [(browses_started s, t, unlabelled t (form_fields s))],
       browses_started := Suc (browses_started s)\<rparr>"

definition browse_answered :: "nat \<Rightarrow> browse_answer \<Rightarrow> form_state \<Rightarrow> form_state" where
  "browse_answered k a s =
     (case map_of (browses s) k of
        None \<Rightarrow> s
      | Some (t, no_label) \<Rightarrow>
          (let s1 = s\<lparr>browses := filter (\<lambda>(k', x). k' \<noteq> k) (browses s)\<rparr>
           in case a of
                Browse_cancelled \<Rightarrow> s1
              | Browse_failed e \<Rightarrow> s1\<lparr>form_error := Some e\<rparr>
              | Browse_read path contents \<Rightarrow> s1\<lparr>form_fields := browsed t no_label path contents (form_fields s)\<rparr>))"

text \<open>\<open>handleSubmit\<close> up to its first \<open>await\<close>, and from there to the end.\<close>

definition handleSubmit :: "bool \<Rightarrow> form_state \<Rightarrow> form_state" where
  "handleSubmit connectAfterSave s =
     (let s1 = s\<lparr>form_error := None, fieldErrors := validate (form_fields s)\<rparr>
      in if validate (form_fields s) \<noteq> [] then s1 else s1\<lparr>submission := Some (form_host s, form_fields s, connectAfterSave)\<rparr>)"

definition submit_ended :: "form_stores \<Rightarrow> bool \<Rightarrow> form_state \<Rightarrow> form_state" where
  "submit_ended st can_connect s =
     (case submission s of
        None \<Rightarrow> s
      | Some (h, f, connectAfterSave) \<Rightarrow>
          (let r = submit st h f;
               s1 = s\<lparr>submission := None, form_calls := form_calls s @ fst r\<rparr>
           in case snd r of
                Inl e \<Rightarrow> s1\<lparr>form_error := Some e\<rparr>
              | Inr saved \<Rightarrow> s1\<lparr>form_left :=
                  Some (if connectAfterSave \<and> can_connect then Form_connect saved else Form_done)\<rparr>))"

datatype form_event =
    Edit form_edit
  | Browse browse_target
  | Browse_answered nat browse_answer
  | Press_save bool
  | Submit_ended form_stores bool

fun form_step :: "form_state \<Rightarrow> form_event \<Rightarrow> form_state" where
  "form_step s (Edit e) = s\<lparr>form_fields := edit e (form_fields s)\<rparr>"
| "form_step s (Browse t) = handleBrowse t s"
| "form_step s (Browse_answered k a) = browse_answered k a s"
| "form_step s (Press_save connectAfterSave) = (if submitting s then s else handleSubmit connectAfterSave s)"
| "form_step s (Submit_ended st can_connect) = submit_ended st can_connect s"

section \<open>The tag input inside the form\<close>

text \<open>The form holds the selection and takes over what the tag input makes of it.\<close>

fun tags_in_form :: "tag list \<Rightarrow> tag_event \<Rightarrow> form_state \<times> tag_input \<Rightarrow> form_state \<times> tag_input" where
  "tags_in_form allTags e (s, t) =
     (let t' = tag_step allTags (t\<lparr>selectedTagIds := form_tagIds (form_fields s)\<rparr>) e
      in (form_step s (Edit (Edit_tags (selectedTagIds t'))), t'))"

section \<open>Lemmas\<close>

text \<open>
  What the backend reads (\<open>src/src-tauri/src/models\<close>): \<open>port: u16\<close>, \<open>sort_order: i32\<close>,
  \<open>Option<Uuid>\<close>, \<open>Vec<Uuid>\<close>, \<open>String\<close>. An identifier is a UUID in the form in which the backend
  writes it, with hyphens. \<open>id_or_null\<close> is
  what an empty option of a select is turned into by \<open>|| null\<close>: anything but the empty text.
\<close>

definition id_or_null :: "string option \<Rightarrow> bool" where "id_or_null x \<longleftrightarrow> x \<noteq> Some []"

definition hex_digit :: "char \<Rightarrow> bool" where
  "hex_digit c \<longleftrightarrow> c \<in> set ''0123456789abcdefABCDEF''"

definition uuid_text :: "string \<Rightarrow> bool" where
  "uuid_text x \<longleftrightarrow> length x = 36
     \<and> list_all (\<lambda>i. if i \<in> {8, 13, 18, 23} then x ! i = CHR ''-'' else hex_digit (x ! i)) [0..<36]"

definition id_typed :: "string option \<Rightarrow> bool" where
  "id_typed x \<longleftrightarrow> (case x of None \<Rightarrow> True | Some y \<Rightarrow> uuid_text y)"

definition i32 :: "int \<Rightarrow> bool" where "i32 n \<longleftrightarrow> - (2 ^ 31) \<le> n \<and> n < 2 ^ 31"

definition rust_u16 :: "js_number \<Rightarrow> 16 word option" where
  "rust_u16 n = (case n of NaN \<Rightarrow> None
     | Num x \<Rightarrow> if x = real_of_int \<lfloor>x\<rfloor> \<and> 0 \<le> x \<and> x < 65536 then Some (word_of_int \<lfloor>x\<rfloor>) else None)"

text \<open>All of a host input but its port, the whole of it, and a port that is in range but not whole.\<close>

definition host_rest_typed :: "form_host_input \<Rightarrow> bool" where
  "host_rest_typed i \<longleftrightarrow> trim (fh_label i) \<noteq> [] \<and> trim (fh_hostname i) \<noteq> []
     \<and> id_typed (fh_group_id i) \<and> id_typed (fh_identity_id i) \<and> id_typed (fh_vpn_profile_id i)
     \<and> i32 (fh_sort_order i) \<and> list_all uuid_text (fh_tag_ids i)"

definition host_input_typed :: "form_host_input \<Rightarrow> bool" where
  "host_input_typed i \<longleftrightarrow> host_rest_typed i \<and> (case rust_u16 (fh_port i) of None \<Rightarrow> False | Some w \<Rightarrow> w \<noteq> 0)"

definition fraction_in_range :: "js_number \<Rightarrow> bool" where
  "fraction_in_range n \<longleftrightarrow> (case n of NaN \<Rightarrow> False | Num x \<Rightarrow> 1 \<le> x \<and> x \<le> 65535 \<and> x \<noteq> real_of_int \<lfloor>x\<rfloor>)"

fun call_typed :: "form_call \<Rightarrow> bool" where
  "call_typed (Form_import_key i) \<longleftrightarrow> ik_label i \<noteq> [] \<and> ik_private_key_pem i \<noteq> [] \<and> ik_passphrase i \<noteq> Some []"
| "call_typed (Form_create_identity i) \<longleftrightarrow> ii_label i \<noteq> [] \<and> ii_username i \<noteq> []
     \<and> (if ii_auth_method i = Private_key then ii_ssh_key_id i \<noteq> None \<and> id_typed (ii_ssh_key_id i)
        else ii_auth_method i = Password \<and> ii_ssh_key_id i = None)"
| "call_typed (Form_create_profile i) \<longleftrightarrow> vi_label i \<noteq> [] \<and> vi_config i \<noteq> [] \<and> vi_auth_username i \<noteq> Some []"
| "call_typed (Form_update_host k i) \<longleftrightarrow> uuid_text k \<and> host_input_typed i"
| "call_typed (Form_create_host i) \<longleftrightarrow> host_input_typed i"

text \<open>A host call whose port is a fraction, and which is typed in everything else.\<close>

fun only_port_fractional :: "form_call \<Rightarrow> bool" where
  "only_port_fractional (Form_update_host k i) \<longleftrightarrow> uuid_text k \<and> host_rest_typed i \<and> fraction_in_range (fh_port i)"
| "only_port_fractional (Form_create_host i) \<longleftrightarrow> host_rest_typed i \<and> fraction_in_range (fh_port i)"
| "only_port_fractional c \<longleftrightarrow> False"

text \<open>
  What the form is given: the identifiers of the backend's answers, of the host it edits and of
  what the selects and the tag input offer are UUIDs; a select's first option is the empty text.
\<close>

definition stores_give_ids :: "form_stores \<Rightarrow> bool" where
  "stores_give_ids st \<longleftrightarrow>
     (\<forall>i k. do_importKey st i = Inr k \<longrightarrow> uuid_text (key_id k)) \<and> (\<forall>i d. do_createIdentity st i = Inr d \<longrightarrow> uuid_text (identity_id d))
     \<and> (\<forall>i p. do_createProfile st i = Inr p \<longrightarrow> uuid_text (profile_id p))"

definition picked_id :: "string \<Rightarrow> bool" where "picked_id x \<longleftrightarrow> x = [] \<or> uuid_text x"

fun edit_gives_ids :: "form_edit \<Rightarrow> bool" where
  "edit_gives_ids (Edit_group x) \<longleftrightarrow> picked_id x"
| "edit_gives_ids (Pick_identity x) \<longleftrightarrow> picked_id x"
| "edit_gives_ids (Pick_ssh_key x) \<longleftrightarrow> picked_id x"
| "edit_gives_ids (Pick_profile x) \<longleftrightarrow> picked_id x"
| "edit_gives_ids (Edit_tags x) \<longleftrightarrow> list_all uuid_text x"
| "edit_gives_ids e \<longleftrightarrow> True"

definition host_typed :: "host option \<Rightarrow> bool" where
  "host_typed h \<longleftrightarrow> (case h of None \<Rightarrow> True
     | Some x \<Rightarrow> uuid_text (host_id x) \<and> id_typed (host_group_id x) \<and> id_typed (host_identity_id x)
         \<and> id_typed (host_vpn_profile_id x) \<and> i32 (host_sort_order x) \<and> list_all (\<lambda>t. uuid_text (tag_id t)) (host_tags x))"

definition whole_number :: "js_number \<Rightarrow> bool" where
  "whole_number n \<longleftrightarrow> (case n of NaN \<Rightarrow> True | Num x \<Rightarrow> x = real_of_int \<lfloor>x\<rfloor>)"

fun port_whole :: "form_event \<Rightarrow> bool" where
  "port_whole (Edit (Edit_port p)) \<longleftrightarrow> whole_number p"
| "port_whole e \<longleftrightarrow> True"

lemma uuid_text_nonempty [simp]: "\<not> uuid_text []"
  by (simp add: uuid_text_def)

lemma id_typed_simps [simp]: "id_typed None" "id_typed (Some x) \<longleftrightarrow> uuid_text x"
  by (simp_all add: id_typed_def)

lemma picked_or_null [simp]: "id_typed (or_null x) \<longleftrightarrow> picked_id x"
  by (simp add: or_null_def picked_id_def)

lemma uuid_picked [simp]: "uuid_text x \<Longrightarrow> picked_id x"
  by (simp add: picked_id_def)

lemma picked_or_empty [simp]: "id_typed x \<Longrightarrow> picked_id (or_empty x)"
  by (cases x) (simp_all add: or_empty_def picked_id_def)

lemma then_do_all:
  assumes "list_all P (fst t)" and "\<And>x. snd t = Inr x \<Longrightarrow> list_all P (fst (k x))"
  shows "list_all P (fst (then_do t k))"
  using assms by (auto simp: then_do_def split: prod.split sum.split)

lemma then_do_value:
  "snd (then_do t k) = (case snd t of Inl e \<Rightarrow> Inl e | Inr x \<Rightarrow> snd (k x))"
  by (auto simp: then_do_def split: prod.split sum.split)

lemma validate_Nil:
  "validate f = [] \<longleftrightarrow> trim (form_label f) \<noteq> [] \<and> trim (form_hostname f) \<noteq> [] \<and> \<not> bad_port (form_port f)
     \<and> (identityMode f = New_one \<and> form_auth f = Private_key \<longrightarrow>
          (if keyMode f = Existing_key then form_sshKeyId f \<noteq> [] else importKeyPem f \<noteq> []))
     \<and> (identityMode f = New_one \<and> form_username f = [] \<longrightarrow> \<not> hasCredentialData f)
     \<and> (vpnMode f = Vpn_new \<longrightarrow> vpnConfig f \<noteq> [])"
  by (cases "keyMode f") (auto simp: validate_def)

lemma not_bad_port: "\<not> bad_port p \<longleftrightarrow> (\<exists>x. p = Num x \<and> 1 \<le> x \<and> x \<le> 65535)"
  by (cases p) (auto simp: bad_port_def)

lemma or_null_id [simp]: "or_null x \<noteq> Some []" "id_or_null (or_null x)"
  by (simp_all add: or_null_def id_or_null_def)

lemma map_sum_Inr: "map_sum id f r = Inr y \<longleftrightarrow> (\<exists>x. r = Inr x \<and> y = f x)"
  by (cases r) auto

text \<open>The port as the backend reads it.\<close>

lemma rust_u16_port:
  assumes "1 \<le> x" and "x \<le> 65535"
  shows "if x = real_of_int \<lfloor>x\<rfloor> then \<exists>w. rust_u16 (Num x) = Some w \<and> 1 \<le> unat w \<and> real (unat w) = x
    else rust_u16 (Num x) = None"
proof -
  have "unat (word_of_int \<lfloor>x\<rfloor> :: 16 word) = nat \<lfloor>x\<rfloor>"
    using assms by (simp add: unat_eq_nat_uint uint_word_of_int take_bit_eq_mod)
  then show ?thesis
    using assms by (auto simp: rust_u16_def simp del: of_nat_unat)
qed

lemma host_input_typed_port:
  assumes "\<not> bad_port (fh_port i)" and "host_rest_typed i"
  shows "host_input_typed i \<longleftrightarrow> whole_number (fh_port i)" and "fraction_in_range (fh_port i) \<longleftrightarrow> \<not> whole_number (fh_port i)"
proof -
  obtain x where x: "fh_port i = Num x" "1 \<le> x" "x \<le> 65535" using assms(1) by (auto simp: not_bad_port)
  with rust_u16_port[OF x(2,3)] assms(2)
  show "host_input_typed i \<longleftrightarrow> whole_number (fh_port i)"
    by (auto simp: host_input_typed_def whole_number_def split: if_splits)
  from x show "fraction_in_range (fh_port i) \<longleftrightarrow> \<not> whole_number (fh_port i)"
    by (simp add: fraction_in_range_def whole_number_def)
qed

lemma fractional_not_typed: "only_port_fractional c \<Longrightarrow> \<not> call_typed c"
  by (cases c) (auto simp: host_input_typed_def fraction_in_range_def rust_u16_def split: js_number.splits)

text \<open>
  The form's authentication is by password or by key; the saved identities' agent is not offered.
  The identifiers it holds are UUIDs or empty. In the runs with \<open>w\<close> its port is never a fraction.
\<close>

definition form_ok :: "bool \<Rightarrow> host_form \<Rightarrow> bool" where
  "form_ok w f \<longleftrightarrow> form_auth f \<noteq> Agent \<and> picked_id (form_groupId f) \<and> picked_id (form_identityId f)
     \<and> picked_id (form_sshKeyId f) \<and> picked_id (form_vpnProfileId f) \<and> list_all uuid_text (form_tagIds f)
     \<and> (w \<longrightarrow> whole_number (form_port f))"

definition sent_ok :: "bool \<Rightarrow> form_call \<Rightarrow> bool" where
  "sent_ok w c \<longleftrightarrow> call_typed c \<or> \<not> w \<and> only_port_fractional c"

definition event_ok :: "bool \<Rightarrow> form_event \<Rightarrow> bool" where
  "event_ok w e \<longleftrightarrow> (case e of Edit d \<Rightarrow> edit_gives_ids d | Submit_ended st b \<Rightarrow> stores_give_ids st | _ \<Rightarrow> True)
     \<and> (w \<longrightarrow> port_whole e)"

lemma edit_ok: "form_ok w f \<Longrightarrow> event_ok w (Edit e) \<Longrightarrow> form_ok w (edit e f)"
  by (cases e) (simp_all add: form_ok_def event_ok_def)

lemma browsed_ok: "form_ok w f \<Longrightarrow> form_ok w (browsed t b p c f)"
  by (cases t) (simp_all add: form_ok_def Let_def)

lemma user_at_host_nonempty [simp]: "user_at_host f \<noteq> []"
  by (simp add: user_at_host_def)

lemma resolve_key_typed:
  assumes "validate f = []" and "identityMode f = New_one" and "form_ok w f" and "stores_give_ids st"
  shows "list_all (sent_ok w) (fst (resolve_key st f))"
    and "snd (resolve_key st f) = Inr k \<Longrightarrow> form_auth f = Private_key \<Longrightarrow> uuid_text k"
  using assms
  by (cases "keyMode f"; auto simp: sent_ok_def resolve_key_def validate_Nil returning_def import_input_def map_sum_Inr
      stores_give_ids_def form_ok_def picked_id_def)+

lemma resolve_identity_typed:
  assumes "validate f = []" and "form_ok w f" and "stores_give_ids st"
  shows "list_all (sent_ok w) (fst (resolve_identity st f))"
    and "snd (resolve_identity st f) = Inr i \<Longrightarrow> id_typed i"
proof -
  show "list_all (sent_ok w) (fst (resolve_identity st f))"
  proof (cases "identityMode f = New_one \<and> form_username f \<noteq> []")
    case True
    then have new: "identityMode f = New_one" by simp
    have "list_all (sent_ok w) (fst (then_do (resolve_key st f) (\<lambda>k.
        ([Form_create_identity (identity_input_of f k)], map_sum id (\<lambda>i. Some (identity_id i)) (do_createIdentity st (identity_input_of f k))))))"
    proof (rule then_do_all)
      show "list_all (sent_ok w) (fst ([Form_create_identity (identity_input_of f k)],
          map_sum id (\<lambda>i. Some (identity_id i)) (do_createIdentity st (identity_input_of f k))))"
        if "snd (resolve_key st f) = Inr k" for k
        using resolve_key_typed(2)[OF assms(1) new assms(2,3) that] True assms(2)
        by (cases "form_auth f") (auto simp: sent_ok_def identity_input_of_def form_ok_def)
    qed (rule resolve_key_typed(1)[OF assms(1) new assms(2,3)])
    with True show ?thesis by (simp add: resolve_identity_def)
  qed (auto simp: resolve_identity_def returning_def)
  show "id_typed i" if "snd (resolve_identity st f) = Inr i"
    using that assms(2,3)
    by (auto simp: resolve_identity_def then_do_value returning_def map_sum_Inr stores_give_ids_def form_ok_def
        split: if_splits sum.splits)
qed

lemma resolve_vpn_typed:
  assumes "validate f = []" and "form_ok w f" and "stores_give_ids st"
  shows "list_all (sent_ok w) (fst (resolve_vpn st f))" and "snd (resolve_vpn st f) = Inr v \<Longrightarrow> id_typed v"
  using assms
  by (auto simp: sent_ok_def resolve_vpn_def validate_Nil returning_def profile_input_of_def map_sum_Inr form_ok_def
      stores_give_ids_def split: if_splits)

lemma save_host_typed:
  assumes "validate f = []" and "form_ok w f" and "host_typed h" and "id_typed i" and "id_typed v"
  shows "list_all (sent_ok w) (fst (save_host st h (host_input_of h f i v)))"
proof -
  let ?i = "host_input_of h f i v"
  have rest: "host_rest_typed ?i"
    using assms by (auto simp: host_rest_typed_def host_input_of_def validate_Nil form_ok_def host_typed_def i32_def
        split: option.splits)
  moreover have "\<not> bad_port (fh_port ?i)" and "w \<longrightarrow> whole_number (fh_port ?i)"
    using assms(1,2) by (simp_all add: host_input_of_def validate_Nil form_ok_def)
  ultimately have "host_input_typed ?i \<or> \<not> w \<and> fraction_in_range (fh_port ?i)"
    using host_input_typed_port[of ?i] by blast
  with rest assms(3) show ?thesis by (auto simp: sent_ok_def save_host_def host_typed_def split: option.splits)
qed

lemma submit_typed:
  assumes "validate f = []" and "form_ok w f" and "host_typed h" and "stores_give_ids st"
  shows "list_all (sent_ok w) (fst (submit st h f))"
  unfolding submit_def
  by (intro then_do_all)
    (simp_all add: resolve_identity_typed[OF assms(1,2,4)] resolve_vpn_typed[OF assms(1,2,4)] save_host_typed[OF assms(1,2,3)])

definition form_inv :: "bool \<Rightarrow> form_state \<Rightarrow> bool" where
  "form_inv w s \<longleftrightarrow> form_ok w (form_fields s) \<and> host_typed (form_host s)
     \<and> (\<forall>h f c. submission s = Some (h, f, c) \<longrightarrow> validate f = [] \<and> form_ok w f \<and> host_typed h)
     \<and> list_all (sent_ok w) (form_calls s)"

lemma form_step_inv:
  assumes "form_inv w s" and "event_ok w e"
  shows "form_inv w (form_step s e)"
proof (cases e)
  case (Edit d)
  with assms edit_ok show ?thesis by (simp add: form_inv_def)
next
  case (Browse t)
  with assms show ?thesis by (simp add: form_inv_def handleBrowse_def)
next
  case (Browse_answered k a)
  with assms browsed_ok show ?thesis
    by (auto simp: form_inv_def browse_answered_def Let_def split: option.split browse_answer.split)
next
  case (Press_save c)
  with assms show ?thesis by (auto simp: form_inv_def handleSubmit_def Let_def)
next
  case (Submit_ended st b)
  with assms submit_typed[of _ w _ st] show ?thesis
    by (auto simp: form_inv_def event_ok_def submit_ended_def Let_def split: option.split sum.split)
qed

lemma form_start_inv: "host_typed h \<Longrightarrow> id_typed g \<Longrightarrow> form_inv w (form_start h g ks)"
  by (cases h)
    (auto simp: form_inv_def form_start_def initial_form_def form_ok_def host_typed_def whole_number_def list_all_iff
      picked_id_def[of "[]"] or_empty_def[of None] Let_def split: option.split)

interpretation form_machine: invariant_machine "form_start h g ks" form_step "\<lambda>s. event_ok w"
    "\<lambda>s. host_typed h \<and> id_typed g \<longrightarrow> form_inv w s"
  by unfold_locales (auto intro: form_start_inv form_step_inv)

lemma submit_value:
  "snd (submit st h f) = (case snd (resolve_identity st f) of Inl e \<Rightarrow> Inl e | Inr i \<Rightarrow>
     (case snd (resolve_vpn st f) of Inl e \<Rightarrow> Inl e | Inr v \<Rightarrow> snd (save_host st h (host_input_of h f i v))))"
  by (simp add: submit_def then_do_value split: sum.split)

lemma submit_saved:
  assumes "snd (submit st h f) = Inr saved"
  obtains i v where "snd (resolve_identity st f) = Inr i" and "snd (resolve_vpn st f) = Inr v"
    and "snd (save_host st h (host_input_of h f i v)) = Inr saved"
  using assms by (auto simp: submit_value split: sum.splits)

section \<open>Properties\<close>

text \<open>
  C17: whatever is typed, picked and submitted, and whatever the backend answers, every call of the
  form carries values of the types the backend reads, with one exception. Labels, usernames,
  keys and configurations are not empty; identifiers are UUIDs or absent, never empty; an
  identity has a key exactly when it authenticates by key; the port is a \<open>u16\<close> other than 0. The
  exception is a port with a fraction between 1 and 65535: the call that carries it is typed in
  everything else, but is not one that the backend reads. If no such number is ever typed, there is
  no exception.
\<close>
theorem form_sends_typed_values:
  assumes "host_typed h" and "id_typed g" and "list_all (event_ok False) es"
  shows "list_all (\<lambda>c. call_typed c \<longleftrightarrow> \<not> only_port_fractional c) (form_calls (foldl form_step (form_start h g ks) es))
    \<and> (list_all port_whole es \<longrightarrow> list_all call_typed (form_calls (foldl form_step (form_start h g ks) es)))"
proof -
  have run: "list_all (sent_ok w) (form_calls (foldl form_step (form_start h g ks) es))" if "list_all (event_ok w) es" for w
    using form_machine.inv_run[where w = w and h = h and g = g and ks = ks and es = es] assms(1,2) that by (simp add: run_ok_all form_inv_def)
  have "list_all (event_ok True) es" if "list_all port_whole es"
    using assms(3) that by (auto simp: list_all_iff event_ok_def)
  with run[of True] run[of False, OF assms(3)] show ?thesis
    using fractional_not_typed by (auto simp: list_all_iff sent_ok_def)
qed

definition sample_identity :: identity where
  "sample_identity = \<lparr>identity_id = ''i1'', identity_label = ''root@db'', identity_username = ''root'',
     identity_auth_method = Password, identity_ssh_key_id = None, identity_has_password = True\<rparr>"

text \<open>Stores that refuse keys and VPN profiles, and hosts whose port is no 16 bit number.\<close>

definition sample_stores :: form_stores where
  "sample_stores = \<lparr>do_importKey = (\<lambda>i. Inl ''no keys''), do_createIdentity = (\<lambda>i. Inr sample_identity),
     do_createProfile = (\<lambda>i. Inl ''no profiles''),
     do_updateHost = (\<lambda>k i. Inl ''no host''),
     do_createHost = (\<lambda>i. if rust_u16 (fh_port i) = None then Inl ''invalid port'' else Inr (sample_host ''h1'' None))\<rparr>"

definition sample_edits :: "js_number \<Rightarrow> form_event list" where
  "sample_edits p = map Edit [Edit_label ''db'', Edit_hostname ''db.lan'', Edit_port p, Edit_username ''root'',
     Edit_password ''secret'']"

definition sample_form :: "js_number \<Rightarrow> form_state" where
  "sample_form p = foldl form_step (form_start None None []) (sample_edits p)"

lemma sample_form_fields [simp]:
  "submission (sample_form p) = None" "form_calls (sample_form p) = []" "form_host (sample_form p) = None"
  "form_port (form_fields (sample_form p)) = p" "identityMode (form_fields (sample_form p)) = New_one"
  "form_username (form_fields (sample_form p)) = ''root''" "form_auth (form_fields (sample_form p)) = Password"
  "form_password (form_fields (sample_form p)) = ''secret''" "vpnMode (form_fields (sample_form p)) = Vpn_none"
  "form_tagIds (form_fields (sample_form p)) = []"
  "validate (form_fields (sample_form p)) = [] \<longleftrightarrow> \<not> bad_port p"
  by (simp_all add: sample_form_def sample_edits_def form_start_def initial_form_def validate_Nil trim_def js_space_def Let_def)

definition uuid_stores :: form_stores where
  "uuid_stores = sample_stores\<lparr>do_createIdentity :=
     (\<lambda>i. Inr (sample_identity\<lparr>identity_id := ''67e55044-10b1-426f-9247-bb680e5fe0c8''\<rparr>))\<rparr>"

theorem form_sends_typed_values_witness:
  "(let run = (\<lambda>p. form_calls (foldl form_step (form_start None None [])
        (sample_edits p @ [Press_save False, Submit_ended uuid_stores True])))
    in list_all call_typed (run (Num 22)) \<and> length (run (Num 22)) = 2
       \<and> list_all (\<lambda>c. call_typed c \<longleftrightarrow> \<not> only_port_fractional c) (run (Num (45 / 2))))"
proof -
  have ids: "stores_give_ids uuid_stores"
    by (simp add: stores_give_ids_def uuid_stores_def sample_stores_def uuid_text_def hex_digit_def upt_rec)
  have ok: "list_all (event_ok False) (sample_edits p @ [Press_save False, Submit_ended uuid_stores True])" for p
    using ids by (simp add: sample_edits_def event_ok_def)
  have whole: "list_all port_whole (sample_edits (Num 22) @ [Press_save False, Submit_ended uuid_stores True])"
    by (simp add: sample_edits_def whole_number_def)
  have start: "host_typed None" "id_typed None" by (simp_all add: host_typed_def)
  note r = form_sends_typed_values[OF start ok, where ks = "[]"]
  have "length (form_calls (foldl form_step (form_start None None [])
      (sample_edits (Num 22) @ [Press_save False, Submit_ended uuid_stores True]))) = 2"
    by (simp flip: sample_form_def
        add: submitting_def bad_port_def handleSubmit_def submit_ended_def submit_def resolve_identity_def resolve_key_def
        resolve_vpn_def returning_def then_do_def save_host_def uuid_stores_def sample_stores_def rust_u16_def host_input_of_def Let_def)
  then show ?thesis
    using r[of "Num 22"] r[of "Num (45 / 2)"] whole by (simp only: Let_def simp_thms)
qed

text \<open>
  a port with a fraction passes the validation but is no \<open>u16\<close>, so a backend that refuses such
  hosts refuses every submission; by then the identity has been created. A host that is saved
  has the port that was typed, between 1 and 65535.
\<close>
theorem port_must_be_whole:
  assumes "validate f = []" and "form_port f = Num x"
    and "\<forall>i inp. rust_u16 (fh_port inp) = None \<longrightarrow>
      (\<exists>e. do_updateHost st i inp = Inl e) \<and> (\<exists>e. do_createHost st inp = Inl e)"
  shows "(snd (submit st h f) = Inr saved \<longrightarrow> (\<exists>w. rust_u16 (form_port f) = Some w \<and> 1 \<le> unat w \<and> real (unat w) = x))
    \<and> (x \<noteq> real_of_int \<lfloor>x\<rfloor> \<longrightarrow> (\<exists>e. snd (submit st h f) = Inl e)
        \<and> (identityMode f = New_one \<and> form_username f \<noteq> [] \<and> form_auth f = Password \<longrightarrow>
           hd (fst (submit st h f)) = Form_create_identity (identity_input_of f (form_sshKeyId f))))"
proof -
  have x: "1 \<le> x" "x \<le> 65535" using assms(1,2) by (auto simp: validate_Nil not_bad_port)
  have port: "fh_port (host_input_of h f i v) = Num x" for i v by (simp add: host_input_of_def assms(2))
  have whole: "x = real_of_int \<lfloor>x\<rfloor>" if "snd (submit st h f) = Inr saved'" for saved'
  proof (rule ccontr)
    assume "x \<noteq> real_of_int \<lfloor>x\<rfloor>"
    with rust_u16_port[OF x] have "rust_u16 (Num x) = None" by simp
    with assms(3) port have "\<exists>e. snd (save_host st h (host_input_of h f i v)) = Inl e" for i v
      by (auto simp: save_host_def split: option.split)
    moreover from that obtain i v where "snd (save_host st h (host_input_of h f i v)) = Inr saved'"
      by (rule submit_saved)
    ultimately show False by (metis Inl_Inr_False)
  qed
  have "\<exists>e. snd (submit st h f) = Inl e" if "x \<noteq> real_of_int \<lfloor>x\<rfloor>"
    using whole that by (cases "snd (submit st h f)") auto
  moreover have "hd (fst (submit st h f)) = Form_create_identity (identity_input_of f (form_sshKeyId f))"
    if "identityMode f = New_one" "form_username f \<noteq> []" "form_auth f = Password"
    using that by (auto simp: submit_def resolve_identity_def resolve_key_def returning_def then_do_def split: prod.split sum.split)
  ultimately show ?thesis using whole rust_u16_port[OF x] assms(2) by (auto simp del: of_nat_unat)
qed

theorem port_must_be_whole_witness:
  "(\<exists>e. snd (submit sample_stores None (form_fields (sample_form (Num (45 / 2))))) = Inl e)
   \<and> hd (fst (submit sample_stores None (form_fields (sample_form (Num (45 / 2)))))) =
       Form_create_identity (identity_input_of (form_fields (sample_form (Num (45 / 2)))) [])"
proof -
  let ?f = "form_fields (sample_form (Num (45 / 2)))"
  have v: "validate ?f = []" "form_port ?f = Num (45 / 2)" by (simp_all add: bad_port_def)
  have "form_sshKeyId ?f = []" by (simp add: sample_form_def sample_edits_def form_start_def initial_form_def Let_def)
  moreover have "\<forall>i inp. rust_u16 (fh_port inp) = None \<longrightarrow>
      (\<exists>e. do_updateHost sample_stores i inp = Inl e) \<and> (\<exists>e. do_createHost sample_stores inp = Inl e)"
    by (simp add: sample_stores_def)
  moreover have "\<lfloor>45 / 2 :: real\<rfloor> = 22" by (simp add: floor_eq_iff)
  ultimately show ?thesis using port_must_be_whole[OF v, of sample_stores None] by simp
qed

text \<open>
  C19: no credential that was typed is dropped. When the user has entered a password or chosen a
  key for new credentials and the host is saved, then an identity was created that carries
  exactly this password or this key, and the saved host refers to it.
\<close>
theorem typed_credentials_are_saved:
  assumes "validate f = []" and "identityMode f = New_one" and "hasCredentialData f"
    and "snd (submit st h f) = Inr saved"
  shows "\<exists>k d v. do_createIdentity st (identity_input_of f k) = Inr d
    \<and> snd (save_host st h (host_input_of h f (Some (identity_id d)) v)) = Inr saved
    \<and> (form_auth f = Password \<longrightarrow> ii_password (identity_input_of f k) = Some (form_password f))
    \<and> (form_auth f = Private_key \<longrightarrow> ii_ssh_key_id (identity_input_of f k) = Some k
        \<and> (if keyMode f = Existing_key then k = form_sshKeyId f
           else \<exists>key. do_importKey st (import_input f) = Inr key \<and> k = key_id key))"
proof -
  have "form_username f \<noteq> []" using assms(1-3) by (auto simp: validate_Nil)
  moreover obtain i v where "snd (resolve_identity st f) = Inr i"
    and saved: "snd (save_host st h (host_input_of h f i v)) = Inr saved"
    using assms(4) by (rule submit_saved)
  ultimately obtain k d where k: "snd (resolve_key st f) = Inr k"
    and d: "do_createIdentity st (identity_input_of f k) = Inr d" "i = Some (identity_id d)"
    using assms(2) by (auto simp: resolve_identity_def then_do_value map_sum_Inr split: sum.splits)
  have "if keyMode f = Existing_key then k = form_sshKeyId f
      else \<exists>key. do_importKey st (import_input f) = Inr key \<and> k = key_id key" if "form_auth f = Private_key"
    using that k by (cases "keyMode f") (auto simp: resolve_key_def returning_def map_sum_Inr)
  with d saved show ?thesis by (intro exI[of _ k] exI[of _ d] exI[of _ v]) (auto simp: identity_input_of_def)
qed

theorem typed_credentials_are_saved_witness:
  "\<exists>k d. do_createIdentity sample_stores (identity_input_of (form_fields (sample_form (Num 22))) k) = Inr d
    \<and> ii_password (identity_input_of (form_fields (sample_form (Num 22))) k) = Some ''secret''"
proof -
  let ?f = "form_fields (sample_form (Num 22))"
  have v: "validate ?f = []" "identityMode ?f = New_one" by (simp_all add: bad_port_def)
  moreover have "hasCredentialData ?f" by (simp add: hasCredentialData_def)
  moreover have "snd (submit sample_stores None ?f) = Inr (sample_host ''h1'' None)"
    by (simp add: submit_value resolve_identity_def resolve_key_def resolve_vpn_def returning_def then_do_value save_host_def
        host_input_of_def sample_stores_def rust_u16_def)
  ultimately show ?thesis using typed_credentials_are_saved[of ?f sample_stores None] by fastforce
qed

text \<open>
  pressing Save again after the host was refused creates the credentials again: the form
  forgets the identity that it has created, so the second, successful submission leaves two
  identities with the same input, and the host refers to the later one.
\<close>
theorem retry_creates_identity_twice:
  fixes s :: form_state
  defines "f \<equiv> form_fields s" and "inp \<equiv> identity_input_of (form_fields s) (form_sshKeyId (form_fields s))"
  assumes "submission s = None" and "form_host s = None" and "validate f = []"
    and "identityMode f = New_one" and "form_username f \<noteq> []" and "form_auth f = Password" and "vpnMode f = Vpn_none"
    and "do_createIdentity st inp = Inr d" and "do_createIdentity st' inp = Inr d'"
    and "do_createHost st (host_input_of None f (Some (identity_id d)) None) = Inl e"
    and "do_createHost st' (host_input_of None f (Some (identity_id d')) None) = Inr saved"
  shows "let s' = foldl form_step s [Press_save c, Submit_ended st b, Press_save c', Submit_ended st' b']
    in form_calls s' = form_calls s @
        [Form_create_identity inp, Form_create_host (host_input_of None f (Some (identity_id d)) None),
         Form_create_identity inp, Form_create_host (host_input_of None f (Some (identity_id d')) None)]
      \<and> form_left s' = Some (if c' \<and> b' then Form_connect saved else Form_done)"
proof -
  have "submit st None f = ([Form_create_identity inp, Form_create_host (host_input_of None f (Some (identity_id d)) None)], Inl e)"
    and "submit st' None f = ([Form_create_identity inp, Form_create_host (host_input_of None f (Some (identity_id d')) None)], Inr saved)"
    using assms(6-13)
    by (simp_all add: submit_def resolve_identity_def resolve_key_def resolve_vpn_def returning_def then_do_def save_host_def
        f_def inp_def)
  then show ?thesis
    using assms(3-5) by (simp add: f_def submitting_def handleSubmit_def submit_ended_def Let_def)
qed

theorem retry_creates_identity_twice_witness:
  "length (form_calls (foldl form_step (sample_form (Num 22))
      [Press_save False, Submit_ended (sample_stores\<lparr>do_createHost := (\<lambda>i. Inl ''locked'')\<rparr>) True,
       Press_save False, Submit_ended sample_stores True])) = 4"
proof -
  let ?s = "sample_form (Num 22)"
  have v: "validate (form_fields ?s) = []" by (simp add: bad_port_def)
  have d: "do_createIdentity (sample_stores\<lparr>do_createHost := g\<rparr>) i = Inr sample_identity"
    "do_createIdentity sample_stores i = Inr sample_identity" for g i
    by (simp_all add: sample_stores_def)
  have h: "do_createHost sample_stores (host_input_of None (form_fields ?s) i None) = Inr (sample_host ''h1'' None)" for i
    by (simp add: sample_stores_def host_input_of_def rust_u16_def)
  show ?thesis
    using retry_creates_identity_twice[of ?s "sample_stores\<lparr>do_createHost := (\<lambda>i. Inl ''locked'')\<rparr>" sample_identity
        sample_stores sample_identity "''locked''" "sample_host ''h1'' None" False True False True] v d h
    by (simp add: Let_def)
qed

text \<open>
  a tag that was typed but not created yet is missing on the host. Pressing Save takes the focus
  from the tag input, which sends the label to the backend; the submission works on the
  selection before that, so the host is saved without the tag, which then appears in the form.
\<close>
theorem typed_tag_is_not_saved:
  fixes s :: form_state and t :: tag_input and ts ts' :: "tag list" and c :: bool and x :: tag
  assumes "trim (tag_text t) \<noteq> []" and "creations t = []"
    and "List.find (\<lambda>x. toLowerCase (tag_label x) = toLowerCase (trim (tag_text t))) ts = None"
    and "submission s = None" and "validate (form_fields s) = []" and "tag_id x \<notin> set (form_tagIds (form_fields s))"
  defines "blurred \<equiv> tags_in_form ts Tag_commit (s, t)"
  defines "saving \<equiv> (form_step (fst blurred) (Press_save c), snd blurred)"
  defines "created \<equiv> tags_in_form ts' (Tag_created (creations_started t) (Inr x)) saving"
  shows "tag_requests (snd blurred) = tag_requests t @ [CreateTag (trim (tag_text t))]
    \<and> (\<exists>f. submission (fst created) = Some (form_host s, f, c) \<and> form_tagIds f = form_tagIds (form_fields s)
        \<and> fh_tag_ids (host_input_of h f i v) = form_tagIds (form_fields s))
    \<and> form_tagIds (form_fields (fst created)) = form_tagIds (form_fields s) @ [tag_id x]"
  using assms(1-6)
  by (simp add: blurred_def saving_def created_def commit_simps submitting_def handleSubmit_def host_input_of_def
      validate_Nil hasCredentialData_def)

theorem typed_tag_is_not_saved_witness:
  "\<exists>f. submission (fst (tags_in_form [] (Tag_created 0 (Inr \<lparr>tag_id = ''p'', tag_label = ''prod''\<rparr>))
      (form_step (fst (tags_in_form [] Tag_commit (sample_form (Num 22), (tag_input_start [])\<lparr>tag_text := ''prod''\<rparr>))) (Press_save False),
       snd (tags_in_form [] Tag_commit (sample_form (Num 22), (tag_input_start [])\<lparr>tag_text := ''prod''\<rparr>))))) = Some (None, f, False)
     \<and> form_tagIds f = []"
proof -
  let ?t = "(tag_input_start [])\<lparr>tag_text := ''prod''\<rparr>"
  have t: "trim (tag_text ?t) \<noteq> []" "creations ?t = []" "creations_started ?t = 0" by code_simp+
  have "validate (form_fields (sample_form (Num 22))) = []" by (simp add: bad_port_def)
  from typed_tag_is_not_saved[OF t(1,2) _ _ this, where ts = "[]" and x = "\<lparr>tag_id = ''p'', tag_label = ''prod''\<rparr>"
      and c = False and ts' = "[]", unfolded t(3) sample_form_fields list.set]
  show ?thesis by (simp only: find.simps simp_thms empty_iff) blast
qed

end
