(* ===== verification/Vault_Lock.thy ===== *)
theory Vault_Lock
  imports App_Shell
begin

text \<open>
  The frame around the shell, \<open>src/src/App.tsx\<close>: unlocking the vault at the start, locking it after
  a period without input (\<open>components/common/useIdleTimer.ts\<close>), the overlay that unlocks it
  (\<open>VaultLockOverlay.tsx\<close>), and the classes of the colour theme. Every event carries the time, in
  milliseconds, at which it is handled.
\<close>

section \<open>State\<close>

datatype boot_state = Boot_loading | Boot_ready | Boot_error

text \<open>\<open>idle_due\<close> is when the running timer of \<open>useIdleTimer\<close> fires.\<close>

record vault_app =
  app_boot :: boot_state
  app_error :: "string option"
  locked :: bool
  lock_enabled :: bool
  lock_minutes :: js_number
  idle_due :: "real option"
  unlocking :: bool
  unlock_error :: "string option"
  vault_calls :: "vault_call list"

text \<open>A delay that is not a number counts as zero.\<close>

definition timeoutMs :: "vault_app \<Rightarrow> real" where
  "timeoutMs s = (case lock_minutes s of NaN \<Rightarrow> 0 | Num m \<Rightarrow> m * 60000)"

definition idle_enabled :: "vault_app \<Rightarrow> bool" where
  "idle_enabled s \<longleftrightarrow> app_boot s = Boot_ready \<and> lock_enabled s \<and> \<not> locked s"

definition vault_emit :: "vault_call \<Rightarrow> vault_app \<Rightarrow> vault_app" where
  "vault_emit c s = s\<lparr>vault_calls := vault_calls s @ [c]\<rparr>"

definition app_start :: "settings \<Rightarrow> vault_app" where
  "app_start st =
     \<lparr>app_boot = Boot_loading, app_error = None, locked = False, lock_enabled = vaultAutoLockEnabled st,
      lock_minutes = vaultAutoLockMinutes st, idle_due = None, unlocking = False, unlock_error = None,
      vault_calls = [VaultAutoUnlock]\<rparr>"

section \<open>The idle timer\<close>

definition reset_timer :: "real \<Rightarrow> vault_app \<Rightarrow> vault_app" where
  "reset_timer now s = s\<lparr>idle_due := Some (now + timeoutMs s)\<rparr>"

text \<open>The effect on \<open>[enabled, timeoutMs]\<close> after a handler that turned \<open>old\<close> into \<open>s\<close>.\<close>

definition idle_effect :: "real \<Rightarrow> vault_app \<Rightarrow> vault_app \<Rightarrow> vault_app" where
  "idle_effect now old s =
     (if idle_enabled s = idle_enabled old \<and> timeoutMs s = timeoutMs old then s
      else if idle_enabled s then reset_timer now s else s\<lparr>idle_due := None\<rparr>)"

text \<open>\<open>onIdle\<close>: the overlay appears, with nothing under way, and the backend is told.\<close>

definition onIdle :: "vault_app \<Rightarrow> vault_app" where
  "onIdle s = vault_emit VaultLock (s\<lparr>locked := True, unlocking := False, unlock_error := None\<rparr>)"

section \<open>Starting, locking and unlocking\<close>

datatype vault_event =
    Booted "string option"
  | Lock_settings bool js_number
  | Activity_seen
  | Clock
  | Click_unlock
  | Unlock_answered "string option"

definition handleUnlock :: "vault_app \<Rightarrow> vault_app" where
  "handleUnlock s = vault_emit VaultAutoUnlock (s\<lparr>unlocking := True, unlock_error := None\<rparr>)"

definition unlock_answered :: "string option \<Rightarrow> vault_app \<Rightarrow> vault_app" where
  "unlock_answered failure s =
     (case failure of
        None \<Rightarrow> s\<lparr>locked := False, unlocking := False\<rparr>
      | Some e \<Rightarrow> s\<lparr>unlock_error := Some e, unlocking := False\<rparr>)"

fun vault_update :: "real \<Rightarrow> vault_app \<Rightarrow> vault_event \<Rightarrow> vault_app" where
  "vault_update now s (Booted failure) =
     (if app_boot s \<noteq> Boot_loading then s
      else case failure of
        None \<Rightarrow> s\<lparr>app_boot := Boot_ready\<rparr>
      | Some e \<Rightarrow> s\<lparr>app_boot := Boot_error, app_error := Some e\<rparr>)"
| "vault_update now s (Lock_settings enabled minutes) = s\<lparr>lock_enabled := enabled, lock_minutes := minutes\<rparr>"
| "vault_update now s Activity_seen = (if idle_due s = None then s else reset_timer now s)"
| "vault_update now s Clock =
     (case idle_due s of None \<Rightarrow> s | Some due \<Rightarrow> if due \<le> now then onIdle (s\<lparr>idle_due := None\<rparr>) else s)"
| "vault_update now s Click_unlock = (if locked s \<and> \<not> unlocking s then handleUnlock s else s)"
| "vault_update now s (Unlock_answered failure) = (if locked s \<and> unlocking s then unlock_answered failure s else s)"

definition vault_step :: "vault_app \<Rightarrow> real \<times> vault_event \<Rightarrow> vault_app" where
  "vault_step s = (\<lambda>(now, e). idle_effect now s (vault_update now s e))"

text \<open>What is rendered: the shell is there when the vault is unlocked, under the overlay too.\<close>

datatype app_screen = Starting | Start_failed "string option" | Shell_view bool

definition app_view :: "vault_app \<Rightarrow> app_screen" where
  "app_view s = (case app_boot s of Boot_loading \<Rightarrow> Starting | Boot_error \<Rightarrow> Start_failed (app_error s)
     | Boot_ready \<Rightarrow> Shell_view (locked s))"

section \<open>Lock and shell together\<close>

text \<open>
  The overlay covers the window, so that nothing of the shell can be clicked or dragged. The
  shell's listeners for keys are on \<open>window\<close>: they hear them with or without the overlay, as the
  shell hears the backend's answers.
\<close>

fun needs_pointer :: "shell_event \<Rightarrow> bool" where
  "needs_pointer (Key_down k) = False"
| "needs_pointer Escape_key = False"
| "needs_pointer (Gate_answer n r) = False"
| "needs_pointer (Window_resized w) = False"
| "needs_pointer (Pane_update e) = False"
| "needs_pointer (Prefs_update a) = False"
| "needs_pointer (Hosts_loaded hs) = False"
| "needs_pointer e = True"

fun user_input :: "shell_event \<Rightarrow> bool" where
  "user_input (Key_down k) = True"
| "user_input Escape_key = True"
| "user_input e = needs_pointer e"

datatype app_event = App_vault vault_event | App_shell shell_event

fun app_step :: "uuids \<Rightarrow> vault_app \<times> shell \<Rightarrow> real \<times> app_event \<Rightarrow> vault_app \<times> shell" where
  "app_step u (s, sh) (now, App_vault e) = (vault_step s (now, e), sh)"
| "app_step u (s, sh) (now, App_shell e) =
     (if user_input e then vault_step s (now, Activity_seen) else s,
      if app_boot s \<noteq> Boot_ready \<or> (locked s \<and> needs_pointer e) then sh else shell_step u sh e)"

section \<open>The colour theme\<close>

text \<open>The class \<open>dark\<close> of the document, its colour scheme, and whether the system's preference is listened to.\<close>

record theme_view =
  dark_class :: bool
  colorScheme :: string
  theme_listening :: bool

definition scheme_of :: "bool \<Rightarrow> string" where
  "scheme_of d = (if d then ''dark'' else ''light'')"

definition theme_effect :: "theme_mode \<Rightarrow> bool \<Rightarrow> theme_view" where
  "theme_effect t prefers_dark =
     (case t of
        Light \<Rightarrow> \<lparr>dark_class = False, colorScheme = ''light'', theme_listening = False\<rparr>
      | Dark \<Rightarrow> \<lparr>dark_class = True, colorScheme = ''dark'', theme_listening = False\<rparr>
      | System \<Rightarrow> \<lparr>dark_class = prefers_dark, colorScheme = scheme_of prefers_dark, theme_listening = True\<rparr>)"

definition media_changed :: "bool \<Rightarrow> theme_view \<Rightarrow> theme_view" where
  "media_changed prefers_dark v =
     (if theme_listening v then v\<lparr>dark_class := prefers_dark, colorScheme := scheme_of prefers_dark\<rparr> else v)"

section \<open>Lemmas\<close>

text \<open>The timer runs exactly while it is enabled, and the shell is open only behind a successful unlock.\<close>

definition timer_ok :: "vault_app \<Rightarrow> bool" where
  "timer_ok s \<longleftrightarrow> (idle_due s = None \<longleftrightarrow> \<not> idle_enabled s)"

definition vault_calls_ok :: "vault_app \<Rightarrow> bool" where
  "vault_calls_ok s \<longleftrightarrow> vault_calls s \<noteq> [] \<and> (locked s \<longrightarrow> app_boot s = Boot_ready)
     \<and> (last (vault_calls s) = VaultLock \<longrightarrow> locked s)
     \<and> (unlocking s \<longrightarrow> locked s \<and> last (vault_calls s) = VaultAutoUnlock)"

lemma vault_emit_simps [simp]:
  "vault_calls (vault_emit c s) = vault_calls s @ [c]" "locked (vault_emit c s) = locked s"
  "idle_due (vault_emit c s) = idle_due s" "app_boot (vault_emit c s) = app_boot s"
  "lock_enabled (vault_emit c s) = lock_enabled s" "lock_minutes (vault_emit c s) = lock_minutes s"
  "unlocking (vault_emit c s) = unlocking s" "unlock_error (vault_emit c s) = unlock_error s"
  by (simp_all add: vault_emit_def)

lemma idle_effect_simps [simp]:
  "vault_calls (idle_effect now old s) = vault_calls s" "locked (idle_effect now old s) = locked s"
  "app_boot (idle_effect now old s) = app_boot s" "unlocking (idle_effect now old s) = unlocking s"
  "unlock_error (idle_effect now old s) = unlock_error s" "idle_enabled (idle_effect now old s) = idle_enabled s"
  by (simp_all add: idle_effect_def reset_timer_def idle_enabled_def)

lemma reset_timer_simps [simp]:
  "idle_enabled (reset_timer now s) = idle_enabled s" "timeoutMs (reset_timer now s) = timeoutMs s"
  "idle_due (reset_timer now s) = Some (now + timeoutMs s)" "locked (reset_timer now s) = locked s"
  by (simp_all add: reset_timer_def idle_enabled_def timeoutMs_def)

lemma lock_simps [simp]:
  "locked (onIdle s) = True" "idle_due (onIdle s) = idle_due s" "vault_calls (onIdle s) = vault_calls s @ [VaultLock]"
  "unlocking (onIdle s) = False" "app_boot (onIdle s) = app_boot s" "idle_enabled (onIdle s) = False"
  "locked (handleUnlock s) = locked s" "idle_due (handleUnlock s) = idle_due s"
  "vault_calls (handleUnlock s) = vault_calls s @ [VaultAutoUnlock]" "unlocking (handleUnlock s) = True"
  "app_boot (handleUnlock s) = app_boot s" "idle_enabled (handleUnlock s) = idle_enabled s"
  "locked (unlock_answered f s) = (locked s \<and> f \<noteq> None)" "idle_due (unlock_answered f s) = idle_due s"
  "vault_calls (unlock_answered f s) = vault_calls s" "unlocking (unlock_answered f s) = False"
  "app_boot (unlock_answered f s) = app_boot s"
  by (simp_all add: onIdle_def handleUnlock_def unlock_answered_def idle_enabled_def split: option.split)

lemma vault_update_due:
  "idle_due (vault_update now s e) =
     (if idle_due s = None then None else if e = Activity_seen then Some (now + timeoutMs s)
      else if e = Clock \<and> the (idle_due s) \<le> now then None else idle_due s)"
  by (cases e) (simp_all split: option.split)

lemma vault_update_locked:
  "locked (vault_update now s e) =
     (if e = Clock \<and> idle_due s \<noteq> None \<and> the (idle_due s) \<le> now then True
      else if e = Unlock_answered None \<and> unlocking s then False else locked s)"
  by (cases e) (auto simp: reset_timer_def split: option.split)

lemma vault_update_calls:
  "vault_calls (vault_update now s e) =
     (if e = Clock \<and> idle_due s \<noteq> None \<and> the (idle_due s) \<le> now then vault_calls s @ [VaultLock]
      else if e = Click_unlock \<and> locked s \<and> \<not> unlocking s then vault_calls s @ [VaultAutoUnlock] else vault_calls s)"
  by (cases e) (simp_all add: reset_timer_def split: option.split)

lemma vault_update_unlocking:
  "unlocking (vault_update now s e) =
     (if e = Clock \<and> idle_due s \<noteq> None \<and> the (idle_due s) \<le> now then False
      else if e = Click_unlock then unlocking s \<or> locked s
      else if (\<exists>f. e = Unlock_answered f) \<and> locked s then False else unlocking s)"
  by (cases e) (auto simp: reset_timer_def split: option.split)

lemma vault_update_ready: "app_boot s = Boot_ready \<Longrightarrow> app_boot (vault_update now s e) = Boot_ready"
  by (cases e) (simp_all add: reset_timer_def split: option.split)

declare vault_update.simps [simp del]

lemmas vault_updates = vault_update_calls vault_update_unlocking vault_update_locked vault_update_ready

lemma vault_update_timer:
  assumes "timer_ok s" and "idle_enabled (vault_update now s e) = idle_enabled s"
  shows "timer_ok (vault_update now s e)"
proof -
  have "idle_due s = None \<or> \<not> (e = Clock \<and> the (idle_due s) \<le> now)"
    using assms vault_update_locked[of now s e] by (auto simp: timer_ok_def idle_enabled_def)
  with assms show ?thesis unfolding timer_ok_def by (auto simp: vault_update_due)
qed

lemma vault_step_timer:
  assumes "timer_ok s"
  shows "timer_ok (vault_step s e)"
proof (cases e)
  case (Pair now ev)
  show ?thesis
    using vault_update_timer[OF assms, of now ev]
    by (auto simp: Pair vault_step_def idle_effect_def timer_ok_def reset_timer_def idle_enabled_def)
qed

lemma vault_step_calls:
  assumes "vault_calls_ok s" and "timer_ok s"
  shows "vault_calls_ok (vault_step s e)"
proof (cases e)
  case (Pair now ev)
  have "vault_calls_ok (vault_update now s ev)"
  proof (cases "ev = Clock")
    case True
    have "vault_calls_ok (onIdle (s\<lparr>idle_due := None\<rparr>))" if "idle_due s \<noteq> None"
      using that assms(2) by (auto simp: timer_ok_def idle_enabled_def vault_calls_ok_def)
    with True assms(1) show ?thesis by (auto simp: vault_update.simps split: option.split)
  next
    case False
    with assms(1) show ?thesis
      by (cases ev; cases "locked s"; cases "unlocking s")
        (simp_all add: vault_calls_ok_def vault_update.simps reset_timer_def split: option.split)
  qed
  then show ?thesis by (simp add: Pair vault_step_def vault_calls_ok_def)
qed

lemma app_start_ok: "timer_ok (app_start st)" "vault_calls_ok (app_start st)"
  by (simp_all add: app_start_def timer_ok_def vault_calls_ok_def idle_enabled_def)

interpretation vault_machine:
  invariant_machine "app_start st" vault_step "\<lambda>s e. True" "\<lambda>s. timer_ok s \<and> vault_calls_ok s"
  by unfold_locales (simp_all add: app_start_ok vault_step_timer vault_step_calls)

text \<open>When a window that is left alone counts as idle: some look at the clock is late enough.\<close>

fun idles :: "real \<Rightarrow> real \<Rightarrow> (real \<times> vault_event) list \<Rightarrow> bool" where
  "idles limit since [] = False"
| "idles limit since ((now, Activity_seen) # es) = idles limit now es"
| "idles limit since ((now, Clock) # es) = (since + limit \<le> now \<or> idles limit since es)"
| "idles limit since ((now, e) # es) = idles limit since es"

definition only_waits :: "(real \<times> vault_event) list \<Rightarrow> bool" where
  "only_waits es \<longleftrightarrow> list_all (\<lambda>(now, e). e = Activity_seen \<or> e = Clock) es"

lemma stays_locked:
  assumes "locked s" and "idle_due s = None" and "only_waits es"
  shows "foldl vault_step s es = s"
  using assms(3)
proof (induction es)
  case (Cons e es)
  then have "vault_step s e = s" using assms(1,2) by (auto simp: only_waits_def vault_step_def idle_effect_def vault_update.simps)
  with Cons show ?case by (simp add: only_waits_def)
qed simp

lemma idle_run:
  assumes "idle_due s = Some (since + timeoutMs s)" and "idle_enabled s" and "only_waits es"
  shows "locked (foldl vault_step s es) \<longleftrightarrow> idles (timeoutMs s) since es"
  using assms
proof (induction es arbitrary: s since)
  case Nil
  then show ?case by (simp add: idle_enabled_def)
next
  case (Cons e es)
  obtain now where e: "e = (now, Activity_seen) \<or> e = (now, Clock)" and es: "only_waits es"
    using Cons.prems(3) by (cases e) (auto simp: only_waits_def)
  from e show ?case
  proof
    assume e: "e = (now, Activity_seen)"
    have "timeoutMs (reset_timer now s) = timeoutMs s" "idle_enabled (reset_timer now s)"
      using Cons.prems(2) by (simp_all add: reset_timer_def timeoutMs_def idle_enabled_def)
    with e es Cons.prems(1,2) Cons.IH[of "reset_timer now s" now] show ?thesis
      by (simp add: vault_step_def idle_effect_def vault_update.simps)
  next
    assume e: "e = (now, Clock)"
    show ?thesis
    proof (cases "since + timeoutMs s \<le> now")
      case True
      let ?s = "vault_step s e"
      have "locked ?s" "idle_due ?s = None"
        using True e Cons.prems(1,2) by (simp_all add: vault_update.simps vault_step_def idle_effect_def onIdle_def idle_enabled_def)
      with stays_locked[OF _ _ es] True e show ?thesis by simp
    next
      case False
      then have "vault_step s e = s" using e Cons.prems(1) by (simp add: vault_step_def idle_effect_def vault_update.simps)
      with False e es Cons show ?thesis by simp
    qed
  qed
qed

section \<open>Properties\<close>

text \<open>
  C11: the vault is locked exactly when the user was idle for long enough. From any state in which
  the timer is enabled, as long as only input and the passing of time are seen: it is locked iff
  at some look at the clock the delay had passed since the last input before it (counted from
  the latest reset at first).
\<close>
theorem locks_exactly_when_idle:
  assumes "s = foldl vault_step (app_start st) es" and "idle_enabled s" and "only_waits es'"
  shows "\<exists>due. idle_due s = Some due
    \<and> (locked (foldl vault_step s es') \<longleftrightarrow> idles (timeoutMs s) (due - timeoutMs s) es')"
proof -
  have "timer_ok s" using vault_machine.inv_run[of st es] assms(1) by simp
  then obtain due where due: "idle_due s = Some due" using assms(2) by (auto simp: timer_ok_def)
  with idle_run[of s "due - timeoutMs s"] assms(2,3) show ?thesis by simp
qed

definition auto_lock_settings :: settings where
  "auto_lock_settings = initial_settings\<lparr>vaultAutoLockEnabled := True, vaultAutoLockMinutes := Num 1\<rparr>"

lemma sample_app:
  "vault_step (app_start auto_lock_settings) (0, Booted None) =
     (app_start auto_lock_settings)\<lparr>app_boot := Boot_ready, idle_due := Some 60000\<rparr>"
  "idle_enabled ((app_start auto_lock_settings)\<lparr>app_boot := Boot_ready, idle_due := d\<rparr>)"
  "timeoutMs ((app_start auto_lock_settings)\<lparr>app_boot := Boot_ready, idle_due := d\<rparr>) = 60000"
  by (simp_all add: vault_step_def vault_update.simps idle_effect_def idle_enabled_def timeoutMs_def reset_timer_def app_start_def
      auto_lock_settings_def)

theorem locks_exactly_when_idle_witness:
  "locked (foldl vault_step (vault_step (app_start auto_lock_settings) (0, Booted None))
      [(30000, Activity_seen), (60000, Clock), (90000, Clock)])"
proof -
  let ?s = "vault_step (app_start auto_lock_settings) (0, Booted None)"
  have s: "idle_enabled ?s" "timeoutMs ?s = 60000" "idle_due ?s = Some 60000" by (simp_all add: sample_app)
  have "only_waits [(30000, Activity_seen), (60000, Clock), (90000, Clock)]" by (simp add: only_waits_def)
  from locks_exactly_when_idle[of _ auto_lock_settings "[(0, Booted None)]", OF _ _ this] s show ?thesis by simp
qed

text \<open>
  C13: the lock protocol. In every run: the backend was last told to lock only if the overlay is
  up; when the overlay goes, an unlock that the user asked for has just succeeded, and it was
  the last thing asked of the backend; a failed unlock leaves the overlay up with its error.
\<close>
theorem unlocked_only_by_success:
  assumes "s = foldl vault_step (app_start st) es" and "s' = vault_step s (now, e)"
  shows "(last (vault_calls s) = VaultLock \<longrightarrow> locked s)
    \<and> (locked s \<and> \<not> locked s' \<longrightarrow> e = Unlock_answered None \<and> last (vault_calls s') = VaultAutoUnlock)
    \<and> (locked s' \<and> \<not> locked s \<longrightarrow> e = Clock \<and> last (vault_calls s') = VaultLock \<and> idle_due s' = None)
    \<and> (locked s \<and> unlocking s \<and> e = Unlock_answered (Some m) \<longrightarrow> locked s' \<and> unlock_error s' = Some m \<and> \<not> unlocking s')"
proof -
  have ok: "timer_ok s" "vault_calls_ok s" using vault_machine.inv_run[of st es] assms(1) by simp_all
  have "timer_ok s'" using vault_step_timer[OF ok(1)] assms(2) by simp
  then have due: "locked s' \<Longrightarrow> idle_due s' = None" by (simp add: timer_ok_def idle_enabled_def)
  have "locked s \<and> \<not> locked s' \<longrightarrow> e = Unlock_answered None \<and> last (vault_calls s') = VaultAutoUnlock"
    using ok(2) unfolding assms(2) vault_step_def vault_calls_ok_def by (simp add: vault_updates)
  moreover have "locked s' \<and> \<not> locked s \<longrightarrow> e = Clock \<and> last (vault_calls s') = VaultLock"
    unfolding assms(2) vault_step_def by (simp add: vault_updates)
  moreover have "locked s' \<and> unlock_error s' = Some m \<and> \<not> unlocking s'"
    if "locked s" "unlocking s" "e = Unlock_answered (Some m)"
    using that unfolding assms(2) vault_step_def by (simp add: vault_updates) (simp add: vault_update.simps unlock_answered_def idle_effect_def)
  ultimately show ?thesis using ok(2) due by (simp add: vault_calls_ok_def)
qed

theorem unlocked_only_by_success_witness:
  "let s = foldl vault_step (app_start auto_lock_settings) [(0, Booted None), (60000, Clock), (61000, Click_unlock)];
       s' = vault_step s (62000, Unlock_answered (Some ''no keyring''))
   in locked s' \<and> unlock_error s' = Some ''no keyring''"
proof -
  let ?s = "foldl vault_step (app_start auto_lock_settings) [(0, Booted None), (60000, Clock), (61000, Click_unlock)]"
  let ?s1 = "(app_start auto_lock_settings)\<lparr>app_boot := Boot_ready, idle_due := Some 60000\<rparr>"
  have "locked (vault_step ?s1 (60000, Clock)) \<and> \<not> unlocking (vault_step ?s1 (60000, Clock))"
    by (simp add: vault_step_def vault_updates)
  then have "locked ?s" "unlocking ?s" by (simp_all add: sample_app, simp_all add: vault_step_def vault_updates)
  with unlocked_only_by_success[OF refl refl, of auto_lock_settings
      "[(0, Booted None), (60000, Clock), (61000, Click_unlock)]" 62000 "Unlock_answered (Some ''no keyring'')" "''no keyring''"]
  show ?thesis unfolding Let_def by blast
qed

text \<open>
  the lock does not hold off the keyboard. With the overlay up, Ctrl+W on a session closes its
  tab and drops its panes' sessions, and the vault is still locked and was asked for nothing.
  A click on the same tab's close button does nothing.
\<close>
theorem locked_shell_hears_keys:
  assumes "locked s" and "idle_due s = None" and "app_boot s = Boot_ready" and "mainView sh = Session_view t"
    and "ev_ctrlKey k \<or> ev_metaKey k" and "toLowerCase (ev_key k) = ''w''"
  shows "fst (app_step u (s, sh) (now, App_shell (Key_down k))) = s
    \<and> openSessions (tabs (snd (app_step u (s, sh) (now, App_shell (Key_down k))))) = filter (\<lambda>x. tabId x \<noteq> t) (openSessions (tabs sh))
    \<and> tabs (snd (app_step u (s, sh) (now, App_shell (Key_down k)))) = closeSession t (tabs sh)
    \<and> snd (app_step u (s, sh) (now, App_shell (Close_tab_click t))) = sh"
proof -
  have "tabs (shell_step u sh (Key_down k)) = closeSession t (tabs sh)"
    using assms(4-6) tabs_part_fields(1)[OF same_tabs_part(4), of sh "handleCloseTab t sh"]
    by (simp add: shell_step_def shell_key_def handleCloseTab_fields)
  then show ?thesis using assms(1-3) by (simp add: vault_step_def idle_effect_def vault_update.simps closeSession_tabs)
qed

theorem locked_shell_hears_keys_witness:
  "let s = (app_start auto_lock_settings)\<lparr>app_boot := Boot_ready, locked := True\<rparr>;
       k = \<lparr>ev_keydown = True, ev_ctrlKey = True, ev_metaKey = False, ev_shiftKey = False, ev_key = ''w''\<rparr>;
       r = app_step sample_uuids (s, three_tabs) (0, App_shell (Key_down k))
   in locked (fst r) \<and> length (openSessions (tabs three_tabs)) = 3 \<and> length (openSessions (tabs (snd r))) = 2"
proof -
  let ?s = "(app_start auto_lock_settings)\<lparr>app_boot := Boot_ready, locked := True\<rparr>"
  let ?k = "\<lparr>ev_keydown = True, ev_ctrlKey = True, ev_metaKey = False, ev_shiftKey = False, ev_key = ''w''\<rparr>"
  let ?t = "tabId (openSessions (tabs three_tabs) ! 1)"
  have t: "mainView three_tabs = Session_view ?t" "length (openSessions (tabs three_tabs)) = 3"
    "length (filter (\<lambda>x. tabId x \<noteq> ?t) (openSessions (tabs three_tabs))) = 2"
    by code_simp+
  have k: "ev_ctrlKey ?k \<or> ev_metaKey ?k" "toLowerCase (ev_key ?k) = ''w''" by code_simp+
  have s: "locked ?s" "idle_due ?s = None" "app_boot ?s = Boot_ready" by (simp_all add: app_start_def)
  from locked_shell_hears_keys[OF s t(1) k, of sample_uuids 0] s(1) t(2,3) show ?thesis
    unfolding Let_def by metis
qed

text \<open>The document follows the theme: a changed preference of the system counts only in the mode that follows it.\<close>

lemma theme_follows:
  "theme_listening (foldl (\<lambda>v p. media_changed p v) (theme_effect t p0) ps) \<longleftrightarrow> t = System"
  "dark_class (foldl (\<lambda>v p. media_changed p v) (theme_effect t p0) ps) \<longleftrightarrow>
     (case t of Light \<Rightarrow> False | Dark \<Rightarrow> True | System \<Rightarrow> last (p0 # ps))"
proof -
  have "theme_listening (foldl (\<lambda>v p. media_changed p v) v ps) = theme_listening v
      \<and> dark_class (foldl (\<lambda>v p. media_changed p v) v ps) = (if theme_listening v then last (dark_class v # ps) else dark_class v)" for v
    by (induction ps arbitrary: v) (auto simp: media_changed_def)
  then show "theme_listening (foldl (\<lambda>v p. media_changed p v) (theme_effect t p0) ps) \<longleftrightarrow> t = System"
    "dark_class (foldl (\<lambda>v p. media_changed p v) (theme_effect t p0) ps) \<longleftrightarrow>
     (case t of Light \<Rightarrow> False | Dark \<Rightarrow> True | System \<Rightarrow> last (p0 # ps))"
    by (simp_all add: theme_effect_def split: theme_mode.split)
qed

end
