(* ===== verification/Vpn_Panel.thy ===== *)
theory Vpn_Panel
  imports Vpn_Store Entity_Stores
begin

text \<open>
  The panel of VPN profiles, \<open>src/src/components/panels/VpnPanel.tsx\<close>, together with the store it
  works on: connecting and disconnecting, the one-time setup, deleting a profile, and the poll
  while a profile is changing its state. The mutations of the store that \<open>Vpn_Store\<close> leaves out
  are here. Every handler is cut at its awaits. \<open>ellipsis\<close> is the character U+2026.
\<close>

section \<open>Mutations of the store\<close>

datatype vpn_mutation =
    CreateProfile vpn_profile_input | UpdateProfile string vpn_profile_input | DeleteProfile string

fun vpn_mutation_call :: "vpn_mutation \<Rightarrow> bridge_call" where
  "vpn_mutation_call (CreateProfile i) = Vpn_call (VpnProfileCreate i)"
| "vpn_mutation_call (UpdateProfile p i) = Vpn_call (VpnProfileUpdate p i)"
| "vpn_mutation_call (DeleteProfile p) = Vpn_call (VpnProfileDelete p)"

definition vpn_mutate :: "(bridge_call \<Rightarrow> string option) \<Rightarrow> string option \<Rightarrow> vpn_mutation \<Rightarrow> outcome" where
  "vpn_mutate refuses reload_error m = then_reload refuses reload_error (vpn_mutation_call m)"

section \<open>What is shown\<close>

fun statusLabel :: "string \<Rightarrow> vpn_state option \<Rightarrow> string" where
  "statusLabel ellipsis (Some VConnected) = ''Connected''"
| "statusLabel ellipsis (Some VConnecting) = ''Connecting'' @ ellipsis"
| "statusLabel ellipsis (Some VDisconnecting) = ''Disconnecting'' @ ellipsis"
| "statusLabel ellipsis (Some VError) = ''Error''"
| "statusLabel ellipsis state = ''Disconnected''"

fun statusDotClass :: "vpn_state option \<Rightarrow> string" where
  "statusDotClass (Some VConnected) = ''bg-emerald-500''"
| "statusDotClass (Some VConnecting) = ''bg-amber-500''"
| "statusDotClass (Some VDisconnecting) = ''bg-amber-500''"
| "statusDotClass (Some VError) = ''bg-red-500''"
| "statusDotClass state = ''bg-slate-400 dark:bg-slate-600''"

definition some_status :: "(vpn_state \<Rightarrow> bool) \<Rightarrow> vpn_store \<Rightarrow> bool" where
  "some_status P s \<longleftrightarrow> (\<exists>x \<in> ran (vpn_statuses s). P (vpn_state x))"

definition anyBusy :: "vpn_store \<Rightarrow> bool" where
  "anyBusy s \<longleftrightarrow> some_status (\<lambda>x. x = VConnecting \<or> x = VDisconnecting) s"

definition anyActive :: "vpn_store \<Rightarrow> bool" where
  "anyActive s \<longleftrightarrow> some_status (\<lambda>x. x = VConnected \<or> x = VConnecting) s"

section \<open>State\<close>

datatype vpn_task =
    Connect_task string | Disconnect_task string | Disconnect_all_task
  | Install_task | Setup_status_task | Delete_task string | Reload_task nat

datatype vpn_answer =
    Vpn_failed string | Vpn_done | Vpn_answered vpn_status | Setup_is bool | Reloaded "vpn_part \<Rightarrow> vpn_tables"

text \<open>What leaves the panel: a call of the backend, or the calls of a refetch with its number.\<close>

datatype vpn_panel_effect = Vpn_panel_call vpn_call | Vpn_refetch vpn_load nat

record vpn_panel =
  vpn_data :: vpn_store
  settingUp :: bool
  setupError :: "string option"
  actionError :: "string option"
  busyId :: "string option"
  disconnectingAll :: bool
  vpn_tasks :: "(nat \<times> vpn_task) list"
  vpn_tasks_started :: nat
  vpn_effects :: "vpn_panel_effect list"

definition vpn_panel_start :: "vpn_store \<Rightarrow> vpn_panel" where
  "vpn_panel_start st = \<lparr>vpn_data = st, settingUp = False, setupError = None, actionError = None, busyId = None,
     disconnectingAll = False, vpn_tasks = [], vpn_tasks_started = 0, vpn_effects = []\<rparr>"

definition vpn_begin :: "vpn_task \<Rightarrow> vpn_panel_effect list \<Rightarrow> vpn_panel \<Rightarrow> vpn_panel" where
  "vpn_begin t es p = p\<lparr>vpn_tasks := vpn_tasks p @ [(vpn_tasks_started p, t)],
     vpn_tasks_started := Suc (vpn_tasks_started p), vpn_effects := vpn_effects p @ es\<rparr>"

section \<open>Handlers\<close>

definition handleSetup :: "vpn_panel \<Rightarrow> vpn_panel" where
  "handleSetup p =
     (if settingUp p then p
      else vpn_begin Install_task [Vpn_panel_call VpnSetupInstall] (p\<lparr>setupError := None, settingUp := True\<rparr>))"

text \<open>\<open>connect\<close> and \<open>disconnect\<close> of the store up to their awaits.\<close>

definition handleToggle :: "string \<Rightarrow> vpn_panel \<Rightarrow> vpn_panel" where
  "handleToggle i p =
     (if busyId p = Some i \<or> \<not> setupInstalled (vpn_data p) then p
      else let p1 = p\<lparr>actionError := None, busyId := Some i\<rparr>
        in if state_of (vpn_data p) i = Some VConnected
           then vpn_begin (Disconnect_task i) [Vpn_panel_call (VpnDisconnect i)] p1
           else vpn_begin (Connect_task i) [Vpn_panel_call (VpnConnect i)]
                  (p1\<lparr>vpn_data := set_vpn_status i \<lparr>vpn_state = VConnecting, vpn_message = None\<rparr> (vpn_data p)\<rparr>))"

definition handleDisconnectAll :: "vpn_panel \<Rightarrow> vpn_panel" where
  "handleDisconnectAll p =
     (if disconnectingAll p \<or> \<not> anyActive (vpn_data p) then p
      else vpn_begin Disconnect_all_task [Vpn_panel_call VpnDisconnectAll]
             (p\<lparr>actionError := None, disconnectingAll := True\<rparr>))"

text \<open>The Delete button, and the answer of its dialog.\<close>

definition delete_clicked :: "vpn_panel \<Rightarrow> vpn_panel" where
  "delete_clicked p = p\<lparr>actionError := None\<rparr>"

definition delete_confirmed :: "string \<Rightarrow> vpn_panel \<Rightarrow> vpn_panel" where
  "delete_confirmed i p = vpn_begin (Delete_task i) [Vpn_panel_call (VpnProfileDelete i)] p"

definition start_refetch :: "vpn_load \<Rightarrow> vpn_panel \<Rightarrow> nat \<times> vpn_panel" where
  "start_refetch k p =
     (case vpn_load_begin k (vpn_data p) of
        (n, st) \<Rightarrow> (n, p\<lparr>vpn_data := st, vpn_effects := vpn_effects p @ [Vpn_refetch k n]\<rparr>))"

text \<open>The rest of a handler after an \<open>await\<close>, with its \<open>catch\<close> and \<open>finally\<close>.\<close>

fun vpn_resume :: "vpn_task \<Rightarrow> vpn_answer \<Rightarrow> vpn_panel \<Rightarrow> vpn_panel" where
  "vpn_resume (Connect_task i) (Vpn_failed e) p = p\<lparr>actionError := Some e, busyId := None\<rparr>"
| "vpn_resume (Connect_task i) (Vpn_answered st) p =
     p\<lparr>vpn_data := set_vpn_status i st (vpn_data p), busyId := None\<rparr>"
| "vpn_resume (Disconnect_task i) (Vpn_failed e) p = p\<lparr>actionError := Some e, busyId := None\<rparr>"
| "vpn_resume (Disconnect_task i) Vpn_done p =
     p\<lparr>vpn_data := set_vpn_status i \<lparr>vpn_state = VDisconnecting, vpn_message = None\<rparr> (vpn_data p), busyId := None\<rparr>"
| "vpn_resume Disconnect_all_task (Vpn_failed e) p = p\<lparr>actionError := Some e, disconnectingAll := False\<rparr>"
| "vpn_resume Disconnect_all_task Vpn_done p = p\<lparr>vpn_data := disconnectAll (vpn_data p), disconnectingAll := False\<rparr>"
| "vpn_resume Install_task (Vpn_failed e) p = p\<lparr>setupError := Some e, settingUp := False\<rparr>"
| "vpn_resume Install_task Vpn_done p = vpn_begin Setup_status_task [Vpn_panel_call VpnSetupStatus] p"
| "vpn_resume Setup_status_task (Vpn_failed e) p = p\<lparr>setupError := Some e, settingUp := False\<rparr>"
| "vpn_resume Setup_status_task (Setup_is b) p = p\<lparr>vpn_data := (vpn_data p)\<lparr>setupInstalled := b\<rparr>, settingUp := False\<rparr>"
| "vpn_resume (Delete_task i) (Vpn_failed e) p = p\<lparr>actionError := Some e\<rparr>"
| "vpn_resume (Delete_task i) Vpn_done p =
     (case start_refetch Load_all p of (n, p1) \<Rightarrow> vpn_begin (Reload_task n) [] p1)"
| "vpn_resume (Reload_task n) (Vpn_failed e) p = p\<lparr>actionError := Some e\<rparr>"
| "vpn_resume (Reload_task n) (Reloaded answer) p = p\<lparr>vpn_data := vpn_load_finish Load_all n answer (vpn_data p)\<rparr>"
| "vpn_resume t a p = p"

text \<open>
  The interval of the poll, which runs while a profile is changing its state; the answer of a
  refresh; and what other parts of the program do to the store.
\<close>

datatype vpn_event =
    Setup_click
  | Toggle_click string
  | Disconnect_all_click
  | Delete_click
  | Delete_confirmed string
  | Vpn_resumed nat vpn_answer
  | Refresh_tick
  | Refreshed nat "vpn_connection_status list"
  | Store_is vpn_store

fun vpn_panel_step :: "vpn_panel \<Rightarrow> vpn_event \<Rightarrow> vpn_panel" where
  "vpn_panel_step p Setup_click = (if setupInstalled (vpn_data p) then p else handleSetup p)"
| "vpn_panel_step p (Toggle_click i) = handleToggle i p"
| "vpn_panel_step p Disconnect_all_click = handleDisconnectAll p"
| "vpn_panel_step p Delete_click = delete_clicked p"
| "vpn_panel_step p (Delete_confirmed i) = delete_confirmed i p"
| "vpn_panel_step p (Vpn_resumed k a) =
     (case map_of (vpn_tasks p) k of
        None \<Rightarrow> p
      | Some t \<Rightarrow> vpn_resume t a (p\<lparr>vpn_tasks := filter (\<lambda>(k', x). k' \<noteq> k) (vpn_tasks p)\<rparr>))"
| "vpn_panel_step p Refresh_tick = (if anyBusy (vpn_data p) then snd (start_refetch Refresh_active p) else p)"
| "vpn_panel_step p (Refreshed n active) =
     p\<lparr>vpn_data := vpn_load_finish Refresh_active n
        (\<lambda>part. \<lparr>db_profiles = [], db_active = active, db_setup = False\<rparr>) (vpn_data p)\<rparr>"
| "vpn_panel_step p (Store_is st) = p\<lparr>vpn_data := st\<rparr>"

section \<open>Lemmas\<close>

lemma vpn_begin_simps [simp]:
  "vpn_data (vpn_begin t es p) = vpn_data p" "busyId (vpn_begin t es p) = busyId p"
  "vpn_tasks (vpn_begin t es p) = vpn_tasks p @ [(vpn_tasks_started p, t)]"
  "vpn_tasks_started (vpn_begin t es p) = Suc (vpn_tasks_started p)"
  "vpn_effects (vpn_begin t es p) = vpn_effects p @ es" "actionError (vpn_begin t es p) = actionError p"
  by (simp_all add: vpn_begin_def)

lemma start_refetch_simps [simp]:
  "fst (start_refetch k p) = Suc (vpn_requestId (vpn_data p))"
  "profiles (vpn_data (snd (start_refetch k p))) = profiles (vpn_data p)"
  "vpn_statuses (vpn_data (snd (start_refetch k p))) = vpn_statuses (vpn_data p)"
  "vpn_requestId (vpn_data (snd (start_refetch k p))) = Suc (vpn_requestId (vpn_data p))"
  "vpn_tasks (snd (start_refetch k p)) = vpn_tasks p" "vpn_tasks_started (snd (start_refetch k p)) = vpn_tasks_started p"
  "vpn_effects (snd (start_refetch k p)) = vpn_effects p @ [Vpn_refetch k (Suc (vpn_requestId (vpn_data p)))]"
  by (simp_all add: start_refetch_def vpn_load_begin_def Let_def)

lemma refresh_keeps_profiles [simp]:
  "profiles (vpn_load_finish Refresh_active n answer s) = profiles s"
  "vpn_requestId (vpn_load_finish k n answer s) = vpn_requestId s"
  by (simp, cases k, simp_all)

lemma some_status_cong: "vpn_statuses s = vpn_statuses s' \<Longrightarrow> anyBusy s = anyBusy s'"
  by (simp add: anyBusy_def some_status_def)

lemma set_status_state [simp]:
  "state_of (set_vpn_status i st s) j = (if j = i then Some (vpn_state st) else state_of s j)"
  "setupInstalled (set_vpn_status i st s) = setupInstalled s" "profiles (set_vpn_status i st s) = profiles s"
  "vpn_requestId (set_vpn_status i st s) = vpn_requestId s"
  by (simp_all add: set_vpn_status_def state_of_def)

lemma busy_state: "state_of s i = Some VConnecting \<or> state_of s i = Some VDisconnecting \<Longrightarrow> anyBusy s"
  by (auto simp: state_of_def anyBusy_def some_status_def intro: ranI)

lemma delete_done:
  assumes "vpn_tasks p = [(k, Delete_task i)]"
  shows "vpn_panel_step p (Vpn_resumed k Vpn_done) =
    vpn_begin (Reload_task (Suc (vpn_requestId (vpn_data p)))) [] (snd (start_refetch Load_all (p\<lparr>vpn_tasks := []\<rparr>)))"
  using assms by (simp add: start_refetch_def vpn_load_begin_def Let_def)

section \<open>Properties\<close>

text \<open>
  the poll swallows a reload. A profile was deleted in the backend and the reload is on its way;
  the poll, which runs whenever some profile is changing its state, starts a refresh in the
  meantime. Both share one counter, so the reload's answer is dropped as stale, while the refresh
  brings statuses only: in either order of the two answers everything has been processed,
  nothing failed, and the deleted profile is still in the list. Without the poll the list is the
  backend's.
\<close>
theorem poll_swallows_reload:
  fixes answer :: "vpn_part \<Rightarrow> vpn_tables" and active :: "vpn_connection_status list"
  assumes "vpn_tasks p = [(k, Delete_task i)]" and "anyBusy (vpn_data p)"
  defines "deleted \<equiv> vpn_panel_step p (Vpn_resumed k Vpn_done)"
    and "reload \<equiv> Vpn_resumed (vpn_tasks_started p) (Reloaded answer)"
    and "refreshed \<equiv> Refreshed (Suc (Suc (vpn_requestId (vpn_data p)))) active"
  shows "profiles (vpn_data (foldl vpn_panel_step deleted [Refresh_tick, reload, refreshed])) = profiles (vpn_data p)
    \<and> profiles (vpn_data (foldl vpn_panel_step deleted [Refresh_tick, refreshed, reload])) = profiles (vpn_data p)
    \<and> vpn_tasks (foldl vpn_panel_step deleted [Refresh_tick, reload, refreshed]) = []
    \<and> profiles (vpn_data (vpn_panel_step deleted reload)) = db_profiles (answer Profiles_answer)"
proof -
  have d: "vpn_tasks deleted = [(vpn_tasks_started p, Reload_task (Suc (vpn_requestId (vpn_data p))))]"
    "profiles (vpn_data deleted) = profiles (vpn_data p)" "vpn_statuses (vpn_data deleted) = vpn_statuses (vpn_data p)"
    "vpn_requestId (vpn_data deleted) = Suc (vpn_requestId (vpn_data p))"
    unfolding deleted_def delete_done[OF assms(1)] by simp_all
  have "anyBusy (vpn_data deleted)" using assms(2) some_status_cong[OF d(3)] by simp
  then show ?thesis using d by (simp add: reload_def refreshed_def)
qed

definition sample_profile :: "string \<Rightarrow> vpn_profile" where
  "sample_profile i = \<lparr>profile_id = i, profile_label = i, profile_config = ''client'', profile_auth_username = None,
     profile_has_auth_password = False, profile_avoid_default_route = True, profile_created_at = ''t''\<rparr>"

definition busy_panel :: vpn_panel where
  "busy_panel = vpn_panel_start (set_vpn_status ''a'' \<lparr>vpn_state = VConnecting, vpn_message = None\<rparr>
     (initial_vpn\<lparr>profiles := [sample_profile ''a'', sample_profile ''b''], setupInstalled := True\<rparr>))"

lemma busy_panel_simps [simp]:
  "vpn_tasks busy_panel = []" "vpn_tasks_started busy_panel = 0" "vpn_requestId (vpn_data busy_panel) = 0"
  "profiles (vpn_data busy_panel) = [sample_profile ''a'', sample_profile ''b'']" "anyBusy (vpn_data busy_panel)"
  "setupInstalled (vpn_data busy_panel)" "busyId busy_panel = None" "vpn_effects busy_panel = []"
  "state_of (vpn_data busy_panel) ''b'' = None"
  by (simp_all add: busy_panel_def vpn_panel_start_def initial_vpn_def busy_state[of _ "''a''"] state_of_def set_vpn_status_def)

theorem poll_swallows_reload_witness:
  "profiles (vpn_data (foldl vpn_panel_step busy_panel
      [Delete_confirmed ''b'', Vpn_resumed 0 Vpn_done, Refresh_tick,
       Vpn_resumed 1 (Reloaded (\<lambda>part. \<lparr>db_profiles = [sample_profile ''a''], db_active = [], db_setup = True\<rparr>)), Refreshed 2 []]))
    = [sample_profile ''a'', sample_profile ''b'']"
proof -
  let ?p = "vpn_panel_step busy_panel (Delete_confirmed ''b'')"
  have p: "vpn_tasks ?p = [(0, Delete_task ''b'')]" "anyBusy (vpn_data ?p)" "vpn_tasks_started ?p = Suc 0"
    "vpn_requestId (vpn_data ?p) = 0" "profiles (vpn_data ?p) = [sample_profile ''a'', sample_profile ''b'']"
    by (simp_all add: delete_confirmed_def)
  from conjunct1[OF poll_swallows_reload[OF p(1,2), of
      "\<lambda>part. \<lparr>db_profiles = [sample_profile ''a''], db_active = [], db_setup = True\<rparr>" "[]"], unfolded p(3-5)]
  show ?thesis by (simp add: numeral_2_eq_2 del: vpn_panel_step.simps)
qed

text \<open>
  the toggle of a profile. It disconnects exactly what is shown as connected and connects
  everything else, one call each. An answer is shown as it is; an error is shown and releases
  the button. After a failed connect the profile is shown as connecting, but not for good: that
  state keeps the poll going, the next tick asks the backend again, and its answer is what is
  shown then.
\<close>
theorem toggle_outcomes:
  fixes i e :: string
  assumes "vpn_tasks p = []" and "setupInstalled (vpn_data p)" and "busyId p \<noteq> Some i"
  defines "q \<equiv> vpn_panel_step p (Toggle_click i)" and "k \<equiv> vpn_tasks_started p"
  defines "failed \<equiv> vpn_panel_step q (Vpn_resumed k (Vpn_failed e))"
  shows "vpn_effects q = vpn_effects p @
      [Vpn_panel_call (if state_of (vpn_data p) i = Some VConnected then VpnDisconnect i else VpnConnect i)]
    \<and> busyId q = Some i \<and> busyId failed = None \<and> actionError failed = Some e \<and> vpn_tasks failed = []
    \<and> (state_of (vpn_data p) i \<noteq> Some VConnected \<longrightarrow>
        state_of (vpn_data (vpn_panel_step q (Vpn_resumed k (Vpn_answered st)))) i = Some (vpn_state st)
        \<and> state_of (vpn_data failed) i = Some VConnecting
        \<and> (let r = vpn_panel_step failed Refresh_tick; n = Suc (vpn_requestId (vpn_data p))
           in vpn_effects r = vpn_effects failed @ [Vpn_refetch Refresh_active n]
             \<and> vpn_statuses (vpn_data (vpn_panel_step r (Refreshed n active))) = statusMap active))
    \<and> (state_of (vpn_data p) i = Some VConnected \<longrightarrow>
        state_of (vpn_data (vpn_panel_step q (Vpn_resumed k Vpn_done))) i = Some VDisconnecting
        \<and> state_of (vpn_data failed) i = Some VConnected)"
proof (cases "state_of (vpn_data p) i = Some VConnected")
  case True
  then show ?thesis using assms(1-3) by (simp add: q_def failed_def k_def handleToggle_def Let_def)
next
  case False
  then have "anyBusy (vpn_data failed)" "state_of (vpn_data failed) i = Some VConnecting"
    "vpn_requestId (vpn_data failed) = vpn_requestId (vpn_data p)"
    using assms(1-3) by (simp_all add: q_def failed_def k_def handleToggle_def Let_def busy_state[of _ i])
  then have "let r = vpn_panel_step failed Refresh_tick; n = Suc (vpn_requestId (vpn_data p))
           in vpn_effects r = vpn_effects failed @ [Vpn_refetch Refresh_active n]
             \<and> vpn_statuses (vpn_data (vpn_panel_step r (Refreshed n active))) = statusMap active"
    by (simp add: Let_def)
  then show ?thesis using False assms(1-3) by (simp add: q_def failed_def k_def handleToggle_def Let_def)
qed

theorem toggle_outcomes_witness:
  "actionError (vpn_panel_step (vpn_panel_step busy_panel (Toggle_click ''b'')) (Vpn_resumed 0 (Vpn_failed ''no openvpn''))) = Some ''no openvpn''"
proof -
  have "busyId busy_panel \<noteq> Some ''b''" by simp
  from toggle_outcomes[OF busy_panel_simps(1,6) this, of "''no openvpn''"] show ?thesis by simp
qed

text \<open>
  the busy flag is one for all profiles. While a first profile is connecting, pressing the
  button of a second one takes the flag over, and the second answer clears it: the first button is
  enabled although its call is under way, and pressing it sends a second connect for it.
\<close>
theorem busy_flag_is_shared:
  fixes i j :: string and st :: vpn_status
  assumes "vpn_tasks p = []" and "setupInstalled (vpn_data p)" and "busyId p = None" and "i \<noteq> j"
    and "state_of (vpn_data p) i \<noteq> Some VConnected" and "state_of (vpn_data p) j \<noteq> Some VConnected"
  defines "k \<equiv> vpn_tasks_started p"
  defines "q \<equiv> foldl vpn_panel_step p [Toggle_click i, Toggle_click j, Vpn_resumed (Suc k) (Vpn_answered st)]"
  shows "busyId q = None \<and> vpn_tasks q = [(k, Connect_task i)]
    \<and> vpn_tasks (vpn_panel_step q (Toggle_click i)) = [(k, Connect_task i), (Suc (Suc k), Connect_task i)]
    \<and> vpn_effects (vpn_panel_step q (Toggle_click i)) =
        vpn_effects p @ map (\<lambda>x. Vpn_panel_call (VpnConnect x)) [i, j, i]"
  using assms(1-6) by (simp add: q_def k_def handleToggle_def Let_def)

theorem busy_flag_is_shared_witness:
  "vpn_effects (foldl vpn_panel_step busy_panel
      [Toggle_click ''b'', Toggle_click ''c'', Vpn_resumed 1 (Vpn_answered \<lparr>vpn_state = VConnected, vpn_message = None\<rparr>),
       Toggle_click ''b''])
    = map (\<lambda>x. Vpn_panel_call (VpnConnect x)) [''b'', ''c'', ''b'']"
proof -
  have "state_of (vpn_data busy_panel) ''c'' \<noteq> Some VConnected" "state_of (vpn_data busy_panel) ''b'' \<noteq> Some VConnected"
    by (simp_all add: busy_panel_def vpn_panel_start_def initial_vpn_def state_of_def set_vpn_status_def)
  from busy_flag_is_shared[OF busy_panel_simps(1,6,7) _ this(2,1), of "\<lparr>vpn_state = VConnected, vpn_message = None\<rparr>"]
  show ?thesis by (simp del: vpn_panel_step.simps)
qed

end
