(* ===== verification/Code_Blocks.thy ===== *)
theory Code_Blocks
  imports Bridge
begin

text \<open>
  Fenced code blocks in the assistant's answers, \<open>src/src/lib/codeBlocks.ts\<close>, and what the buttons
  of such a block send, \<open>src/src/lib/aiCommandActions.ts\<close> and \<open>components/ai/AiCodeBlock.tsx\<close>.

  The regular expression \<open>/```([a-zA-Z0-9_+-]*)\n([\s\S]*?)```/g\<close> is the recogniser it stands for:
  the language takes every character it can (a newline is none of them, so there is nothing to
  give back), and the lazy content ends at the first closing fence. Matches are searched for from
  left to right, each behind the one before.
\<close>

section \<open>Definitions\<close>

datatype message_segment = Text_segment string | Code_segment "string option" string

definition fence :: string where "fence = ''```''"

definition language_char :: "char \<Rightarrow> bool" where
  "language_char c \<longleftrightarrow>
     (let n = of_char c :: nat
      in (97 \<le> n \<and> n \<le> 122) \<or> (65 \<le> n \<and> n \<le> 90) \<or> (48 \<le> n \<and> n \<le> 57) \<or> c \<in> set ''_+-'')"

text \<open>The text before the first closing fence, and the rest behind it.\<close>

fun until_fence :: "string \<Rightarrow> (string \<times> string) option" where
  "until_fence [] = None"
| "until_fence (c # cs) =
     (if starts_with (c # cs) fence then Some ([], drop 3 (c # cs))
      else map_option (\<lambda>(a, rest). (c # a, rest)) (until_fence cs))"

text \<open>A match at the start of the text: language, content, and the text behind it.\<close>

definition fence_match :: "string \<Rightarrow> (string \<times> string \<times> string) option" where
  "fence_match s =
     (if \<not> starts_with s fence then None
      else let body = drop 3 s; language = takeWhile language_char body
        in case dropWhile language_char body of
             [] \<Rightarrow> None
           | c # cs \<Rightarrow> if c \<noteq> newline then None
               else map_option (\<lambda>(content, rest). (language, content, rest)) (until_fence cs))"

definition text_segments :: "string \<Rightarrow> message_segment list" where
  "text_segments s = (if s = [] then [] else [Text_segment s])"

text \<open>\<open>content.replace(/\n$/, "")\<close>\<close>

definition strip_newline :: "string \<Rightarrow> string" where
  "strip_newline s = (if s \<noteq> [] \<and> last s = newline then butlast s else s)"

definition code_segment :: "string \<Rightarrow> string \<Rightarrow> message_segment" where
  "code_segment language content = Code_segment (if language = [] then None else Some language) (strip_newline content)"

lemma until_fence_Some: "until_fence s = Some (a, rest) \<Longrightarrow> s = a @ fence @ rest"
proof (induction s arbitrary: a rest)
  case (Cons c cs)
  show ?case
  proof (cases "starts_with (c # cs) fence")
    case True
    then have "c # cs = fence @ drop 3 (c # cs)" by (auto simp: starts_with_iff fence_def)
    with True Cons.prems show ?thesis by simp
  next
    case False
    with Cons show ?thesis by auto
  qed
qed simp

lemma fence_match_Some:
  assumes "fence_match s = Some (language, content, rest)"
  shows "s = fence @ language @ newline # content @ fence @ rest" and "list_all language_char language"
proof -
  from assms obtain cs where st: "starts_with s fence" and body: "dropWhile language_char (drop 3 s) = newline # cs"
    "until_fence cs = Some (content, rest)" and l: "language = takeWhile language_char (drop 3 s)"
    by (auto simp: fence_match_def Let_def split: list.splits if_splits)
  from st have "s = fence @ drop 3 s" by (auto simp: starts_with_iff fence_def)
  also have "drop 3 s = language @ dropWhile language_char (drop 3 s)" by (simp add: l)
  also have "dropWhile language_char (drop 3 s) = newline # content @ fence @ rest"
    using body until_fence_Some by simp
  finally show "s = fence @ language @ newline # content @ fence @ rest" .
  show "list_all language_char language" by (auto simp: l list_all_iff dest: set_takeWhileD)
qed

text \<open>\<open>seen\<close> is the text since the last match, \<open>text.slice(lastIndex, start)\<close>.\<close>

function segments_from :: "string \<Rightarrow> string \<Rightarrow> message_segment list" where
  "segments_from seen [] = text_segments seen"
| "segments_from seen (c # cs) =
     (case fence_match (c # cs) of
        Some (language, content, rest) \<Rightarrow> text_segments seen @ code_segment language content # segments_from [] rest
      | None \<Rightarrow> segments_from (seen @ [c]) cs)"
  by pat_completeness auto
termination
  by (relation "measure (\<lambda>(seen, s). length s)") (auto dest!: fence_match_Some(1) simp: fence_def)

definition parseCodeBlocks :: "string \<Rightarrow> message_segment list" where
  "parseCodeBlocks s = segments_from [] s"

text \<open>The buttons: pasting sends the content to the session as it is.\<close>

definition pasteCommandToTerminal :: "string \<Rightarrow> string \<Rightarrow> bridge_call" where
  "pasteCommandToTerminal sessionId s = Session_call (SessionWrite sessionId s)"

definition paste_clicked :: "string option \<Rightarrow> string \<Rightarrow> bridge_call list" where
  "paste_clicked liveSessionId content =
     (if truthy liveSessionId then [pasteCommandToTerminal (the liveSessionId) content] else [])"

section \<open>Lemmas\<close>

text \<open>The text a segment may have been cut out of.\<close>

inductive segment_source :: "message_segment \<Rightarrow> string \<Rightarrow> bool" where
  text_source: "s \<noteq> [] \<Longrightarrow> segment_source (Text_segment s) s"
| code_source: "list_all language_char language \<Longrightarrow>
    segment_source (code_segment language content) (fence @ language @ newline # content @ fence)"

lemma segments_from_sources:
  "\<exists>sources. list_all2 segment_source (segments_from seen s) sources \<and> seen @ s = concat sources"
proof (induction seen s rule: segments_from.induct)
  case (1 seen)
  show ?case
    by (cases "seen = []") (auto simp: text_segments_def intro!: exI[of _ "[seen]"] segment_source.intros)
next
  case (2 seen c cs)
  show ?case
  proof (cases "fence_match (c # cs)")
    case None
    with 2 show ?thesis by auto
  next
    case (Some m)
    obtain language content rest where m: "m = (language, content, rest)" by (cases m)
    have "\<exists>sources. list_all2 segment_source (segments_from [] rest) sources \<and> rest = concat sources"
      using 2 Some m by auto
    then obtain sources where rest: "list_all2 segment_source (segments_from [] rest) sources" "rest = concat sources"
      by blast
    have "list_all2 segment_source (text_segments seen) (if seen = [] then [] else [seen])"
      by (simp add: text_segments_def segment_source.intros)
    moreover have "segment_source (code_segment language content) (fence @ language @ newline # content @ fence)"
      using fence_match_Some(2) Some m by (auto intro: segment_source.intros)
    ultimately have "list_all2 segment_source (segments_from seen (c # cs))
        ((if seen = [] then [] else [seen]) @ (fence @ language @ newline # content @ fence) # sources)"
      using rest(1) Some m by (simp add: list_all2_appendI)
    moreover have "seen @ c # cs =
        concat ((if seen = [] then [] else [seen]) @ (fence @ language @ newline # content @ fence) # sources)"
      using fence_match_Some(1)[of "c # cs" language content rest] Some m rest(2) by simp
    ultimately show ?thesis by blast
  qed
qed

text \<open>Printing segments: every code block is closed on a line of its own.\<close>

fun print_segment :: "message_segment \<Rightarrow> string" where
  "print_segment (Text_segment s) = s"
| "print_segment (Code_segment language content) =
     fence @ (case language of None \<Rightarrow> [] | Some l \<Rightarrow> l) @ newline # content @ newline # fence"

text \<open>What can be printed and read back: no fence inside a text or a code block, no two texts in a row.\<close>

fun printable :: "message_segment \<Rightarrow> bool" where
  "printable (Text_segment s) \<longleftrightarrow> s \<noteq> [] \<and> \<not> str_includes s fence"
| "printable (Code_segment language content) \<longleftrightarrow> language \<noteq> Some [] \<and> \<not> str_includes content fence
     \<and> (case language of None \<Rightarrow> True | Some l \<Rightarrow> list_all language_char l)"

fun is_text :: "message_segment \<Rightarrow> bool" where
  "is_text (Text_segment s) = True"
| "is_text (Code_segment l c) = False"

fun texts_apart :: "message_segment list \<Rightarrow> bool" where
  "texts_apart (a # b # xs) = (\<not> (is_text a \<and> is_text b) \<and> texts_apart (b # xs))"
| "texts_apart xs = True"

lemma str_includes_Cons: "str_includes (c # cs) sub \<longleftrightarrow> starts_with (c # cs) sub \<or> str_includes cs sub"
  by simp

lemma until_fence_first:
  assumes "\<not> str_includes content fence"
  shows "until_fence (content @ newline # fence @ rest) = Some (content @ [newline], rest)"
  using assms
proof (induction content)
  case Nil
  show ?case by (simp add: fence_def newline_def)
next
  case (Cons c cs)
  have "\<not> starts_with ((c # cs) @ newline # fence @ rest) fence"
  proof
    assume st: "starts_with ((c # cs) @ newline # fence @ rest) fence"
    show False
      using st Cons.prems
      by (cases cs; cases "tl cs") (auto simp: fence_def newline_def starts_with_iff split: if_splits)
  qed
  with Cons show ?case by simp
qed

lemma fence_match_print:
  assumes "printable (Code_segment language content)"
  shows "fence_match (print_segment (Code_segment language content) @ rest) =
    Some (case language of None \<Rightarrow> [] | Some l \<Rightarrow> l, content @ [newline], rest)"
proof -
  let ?l = "case language of None \<Rightarrow> [] | Some l \<Rightarrow> l"
  have "list_all language_char ?l" using assms by (simp split: option.splits)
  moreover have "\<not> language_char newline" by (simp add: language_char_def newline_def)
  ultimately have "takeWhile language_char (?l @ newline # xs) = ?l" "dropWhile language_char (?l @ newline # xs) = newline # xs" for xs
    by (simp_all add: list_all_iff takeWhile_append dropWhile_append)
  then show ?thesis
    using assms until_fence_first[of content rest] by (simp add: fence_match_def fence_def)
qed

text \<open>In a text without a fence, and before a fence that opens a code block, nothing matches.\<close>

lemma no_match_in_text:
  assumes "\<not> str_includes s fence" and "s \<noteq> []"
    and "rest = [] \<or> (\<exists>more. rest = fence @ more)"
  shows "fence_match (s @ rest) = None"
proof (rule ccontr)
  assume "fence_match (s @ rest) \<noteq> None"
  then obtain l c r where "fence_match (s @ rest) = Some (l, c, r)" by auto
  from fence_match_Some[OF this] have eq: "s @ rest = fence @ l @ newline # c @ fence @ r"
    and l: "list_all language_char l" by blast+
  have short: "length s < 3"
  proof (rule ccontr)
    assume "\<not> length s < 3"
    then have "take 3 (s @ rest) = take 3 s" by simp
    then have "s = fence @ drop 3 s" using eq by (metis append_take_drop_id fence_def take_append append_Nil2
        length_Cons list.size(3) numeral_3_eq_3 diff_self_eq_0 take0 take_all le_refl)
    then have "str_includes s fence" by (metis append_Nil str_includes_iff)
    with assms(1) show False ..
  qed
  with eq assms(3) obtain more where rest: "rest = fence @ more" by (auto simp: fence_def)
  have "\<not> language_char (CHR ''`'')" "CHR ''`'' \<noteq> newline" by (simp_all add: language_char_def newline_def)
  with eq[unfolded rest] l short assms(2) show False
    by (cases s; cases "tl s"; cases l) (auto simp: fence_def)
qed

lemma segments_from_text:
  assumes "\<not> str_includes s fence" and "rest = [] \<or> (\<exists>more. rest = fence @ more)"
  shows "segments_from seen (s @ rest) = segments_from (seen @ s) rest"
  using assms(1)
proof (induction s arbitrary: seen)
  case (Cons c cs)
  have "fence_match ((c # cs) @ rest) = None"
    using Cons.prems assms(2) by (intro no_match_in_text) auto
  with Cons show ?case by simp
qed simp

lemma segments_from_code:
  assumes "printable (Code_segment language content)"
  shows "segments_from seen (print_segment (Code_segment language content) @ rest) =
    text_segments seen @ Code_segment language content # segments_from [] rest"
proof -
  obtain c cs where c: "print_segment (Code_segment language content) @ rest = c # cs" by (simp add: fence_def)
  have "code_segment (case language of None \<Rightarrow> [] | Some l \<Rightarrow> l) (content @ [newline]) = Code_segment language content"
    using assms by (auto simp: code_segment_def strip_newline_def split: option.split)
  with fence_match_print[OF assms, of rest] show ?thesis unfolding c by simp
qed

lemma print_parse:
  "list_all printable segs \<Longrightarrow> texts_apart segs \<Longrightarrow> segments_from [] (concat (map print_segment segs)) = segs"
proof (induction segs)
  case Nil
  then show ?case by (simp add: text_segments_def)
next
  case (Cons a segs)
  have segs: "segments_from [] (concat (map print_segment segs)) = segs"
    using Cons by (cases segs) auto
  show ?case
  proof (cases a)
    case (Code_segment language content)
    with Cons.prems segs segments_from_code[of language content "[]" "concat (map print_segment segs)"]
    show ?thesis by (simp add: text_segments_def)
  next
    case (Text_segment s)
    show ?thesis
    proof (cases segs)
      case Nil
      with Text_segment Cons.prems segments_from_text[of s "[]" "[]"] show ?thesis by (simp add: text_segments_def)
    next
      case (Cons b rest)
      with Text_segment Cons.prems obtain language content where b: "b = Code_segment language content"
        by (cases b) auto
      have code: "segments_from seen (concat (map print_segment segs)) =
          text_segments seen @ b # segments_from [] (concat (map print_segment rest))" for seen
        using Cons.prems Cons b segments_from_code[of language content seen] by simp
      have "segments_from [] (s @ concat (map print_segment segs)) = segments_from s (concat (map print_segment segs))"
        using Text_segment Cons.prems Cons b segments_from_text[of s "concat (map print_segment segs)" "[]"] by simp
      also have "\<dots> = Text_segment s # segments_from [] (concat (map print_segment segs))"
        using Text_segment Cons.prems code by (simp add: text_segments_def)
      finally show ?thesis using Text_segment segs by simp
    qed
  qed
qed

section \<open>Properties\<close>

text \<open>
  C36: splitting an answer into text and code loses nothing and invents nothing: whatever the answer
  is, each segment stands for a piece of it (a code block for its fences, language and content,
  up to one newline before the closing fence), and the pieces in order are the whole answer.
  Segments that are printed with each block's fences on lines of their own are read back as they
  were, provided no text or content has a fence in it.
\<close>
theorem code_blocks_roundtrip:
  "(\<exists>sources. list_all2 segment_source (parseCodeBlocks s) sources \<and> s = concat sources)
    \<and> (list_all printable segs \<and> texts_apart segs \<longrightarrow> parseCodeBlocks (concat (map print_segment segs)) = segs)"
  using segments_from_sources[of "[]" s] print_parse[of segs] by (simp add: parseCodeBlocks_def)

definition sample_segments :: "message_segment list" where
  "sample_segments = [Text_segment ''Run `this`:'', Code_segment (Some ''sh'') ''uptime'', Code_segment None [], Text_segment ''ok'']"

theorem code_blocks_roundtrip_witness:
  "parseCodeBlocks (concat (map print_segment sample_segments)) = sample_segments"
proof -
  have "list_all printable sample_segments \<and> texts_apart sample_segments" by code_simp
  with code_blocks_roundtrip[of "[]" sample_segments] show ?thesis by blast
qed

end
