(* ===== verification/Store_Forms.thy ===== *)
theory Store_Forms
  imports Host_Form Vpn_Panel
begin

text \<open>
  The forms for groups, identities, keys, snippets and VPN profiles under
  \<open>src/src/components/forms\<close>, and running a snippet on several hosts (\<open>RunSnippetForm.tsx\<close>). The five
  forms share one machine: typing, validating, one call of a store at a time, its error on the
  form. What each form adds is its fields, its validation and its call; the locale \<open>form_contract\<close>
  is the contract between the two.
\<close>

section \<open>The machine of a form\<close>

record 'f store_form =
  sf_fields :: 'f
  sf_error :: "string option"
  sf_fieldErrors :: field_errors
  sf_submitting :: bool
  sf_calls :: "bridge_call list"
  sf_done :: bool

definition store_form_start :: "'f \<Rightarrow> 'f store_form" where
  "store_form_start f = \<lparr>sf_fields = f, sf_error = None, sf_fieldErrors = [], sf_submitting = False, sf_calls = [],
     sf_done = False\<rparr>"

text \<open>
  \<open>Sf_typed\<close>: the inputs have new values. \<open>Sf_answered\<close>: the store's operation has ended, with its
  reload; the form is left when it succeeded.
\<close>

datatype 'f store_form_event = Sf_typed 'f | Sf_browse | Sf_browse_failed string | Sf_submit | Sf_answered "string option"

fun store_form_step ::
  "('f \<Rightarrow> field_errors) \<Rightarrow> ('f \<Rightarrow> bridge_call) \<Rightarrow> 'f store_form \<Rightarrow> 'f store_form_event \<Rightarrow> 'f store_form" where
  "store_form_step check call s (Sf_typed f) = s\<lparr>sf_fields := f\<rparr>"
| "store_form_step check call s Sf_browse = s\<lparr>sf_error := None\<rparr>"
| "store_form_step check call s (Sf_browse_failed e) = s\<lparr>sf_error := Some e\<rparr>"
| "store_form_step check call s Sf_submit =
     (if sf_submitting s then s
      else let s1 = s\<lparr>sf_error := None, sf_fieldErrors := check (sf_fields s)\<rparr>
        in if check (sf_fields s) \<noteq> [] then s1
           else s1\<lparr>sf_submitting := True, sf_calls := sf_calls s @ [call (sf_fields s)]\<rparr>)"
| "store_form_step check call s (Sf_answered failure) =
     (if \<not> sf_submitting s then s
      else case failure of
             None \<Rightarrow> s\<lparr>sf_submitting := False, sf_done := True\<rparr>
           | Some e \<Rightarrow> s\<lparr>sf_submitting := False, sf_error := Some e\<rparr>)"

definition store_form_run ::
  "('f \<Rightarrow> field_errors) \<Rightarrow> ('f \<Rightarrow> bridge_call) \<Rightarrow> 'f \<Rightarrow> 'f store_form_event list \<Rightarrow> 'f store_form" where
  "store_form_run check call f es = foldl (store_form_step check call) (store_form_start f) es"

definition required :: "string \<Rightarrow> string \<Rightarrow> string \<Rightarrow> field_errors" where
  "required field message x = (if trim x = [] then [(field, message)] else [])"

section \<open>The group form\<close>

record group_form =
  gf_name :: string
  gf_parentId :: string

definition group_form_of :: "group option \<Rightarrow> string option \<Rightarrow> group_form" where
  "group_form_of g defaultParentId =
     \<lparr>gf_name = (case g of None \<Rightarrow> [] | Some x \<Rightarrow> group_name x),
      gf_parentId = (case Option.bind g group_parent_id of Some p \<Rightarrow> p | None \<Rightarrow> or_empty defaultParentId)\<rparr>"

definition group_check :: "group_form \<Rightarrow> field_errors" where
  "group_check f = required ''name'' ''Enter a name.'' (gf_name f)"

definition group_save :: "group option \<Rightarrow> group_form \<Rightarrow> bridge_call" where
  "group_save g f =
     (let input = \<lparr>gi_parent_id = or_null (gf_parentId f), gi_name = gf_name f,
                   gi_sort_order = (case g of None \<Rightarrow> 0 | Some x \<Rightarrow> group_sort_order x)\<rparr>
      in case g of Some x \<Rightarrow> Group_call (GroupUpdate (group_id x) input) | None \<Rightarrow> Group_call (GroupCreate input))"

text \<open>The groups offered as parents.\<close>

definition parent_options :: "group option \<Rightarrow> group list \<Rightarrow> group list" where
  "parent_options g gs = filter (\<lambda>x. Some (group_id x) \<noteq> map_option group_id g) gs"

section \<open>The identity form\<close>

record identity_form =
  if_label :: string
  if_username :: string
  if_auth :: auth_method
  if_sshKeyId :: string
  if_password :: string

definition identity_form_of :: "identity option \<Rightarrow> identity_form" where
  "identity_form_of d =
     \<lparr>if_label = (case d of None \<Rightarrow> [] | Some x \<Rightarrow> identity_label x),
      if_username = (case d of None \<Rightarrow> [] | Some x \<Rightarrow> identity_username x),
      if_auth = (case d of None \<Rightarrow> Password | Some x \<Rightarrow> identity_auth_method x),
      if_sshKeyId = or_empty (Option.bind d identity_ssh_key_id), if_password = []\<rparr>"

definition identity_check :: "identity_form \<Rightarrow> field_errors" where
  "identity_check f = required ''label'' ''Enter a label.'' (if_label f)
     @ required ''username'' ''Enter a username.'' (if_username f)
     @ (if if_auth f = Private_key \<and> if_sshKeyId f = [] then [(''sshKeyId'', ''Select an SSH key.'')] else [])"

text \<open>\<open>typed || (saved ? null : "")\<close>: an empty password on an update leaves the stored one alone.\<close>

definition password_input :: "bool \<Rightarrow> string \<Rightarrow> string option" where
  "password_input saved typed = (if typed \<noteq> [] then Some typed else if saved then None else Some [])"

definition identity_save :: "identity option \<Rightarrow> identity_form \<Rightarrow> bridge_call" where
  "identity_save d f =
     (let input = \<lparr>ii_label = if_label f, ii_username = if_username f, ii_auth_method = if_auth f,
                   ii_ssh_key_id = (if if_auth f = Private_key then or_null (if_sshKeyId f) else None),
                   ii_password = password_input (d \<noteq> None) (if_password f)\<rparr>
      in case d of Some x \<Rightarrow> Identity_call (IdentityUpdate (identity_id x) input) | None \<Rightarrow> Identity_call (IdentityCreate input))"

section \<open>The key form\<close>

record key_form =
  kf_generate :: bool
  kf_label :: string
  kf_pem :: string
  kf_passphrase :: string

definition key_form_start :: key_form where
  "key_form_start = \<lparr>kf_generate = True, kf_label = [], kf_pem = [], kf_passphrase = []\<rparr>"

definition key_check :: "key_form \<Rightarrow> field_errors" where
  "key_check f = required ''label'' ''Enter a label.'' (kf_label f)
     @ (if kf_generate f then [] else required ''privateKeyPem'' ''Upload or paste a private key.'' (kf_pem f))"

definition key_save :: "key_form \<Rightarrow> bridge_call" where
  "key_save f =
     (if kf_generate f then Key_call (KeyGenerate \<lparr>gk_label = kf_label f\<rparr>)
      else Key_call (KeyImport \<lparr>ik_label = kf_label f, ik_private_key_pem = kf_pem f, ik_passphrase = or_null (kf_passphrase f)\<rparr>))"

definition key_browsed :: "bool \<Rightarrow> string \<Rightarrow> string \<Rightarrow> key_form \<Rightarrow> key_form" where
  "key_browsed no_label path contents f =
     (let f1 = f\<lparr>kf_pem := contents\<rparr>
      in if no_label then f1\<lparr>kf_label := strip_extension [''pem'', ''key'', ''pub''] (file_name path)\<rparr> else f1)"

section \<open>The snippet form\<close>

definition snippet_input_start :: "snippet option \<Rightarrow> snippet_input" where
  "snippet_input_start s =
     \<lparr>si_label = (case s of None \<Rightarrow> [] | Some x \<Rightarrow> snippet_label x),
      si_body = (case s of None \<Rightarrow> [] | Some x \<Rightarrow> snippet_body x)\<rparr>"

definition snippet_check :: "snippet_input \<Rightarrow> field_errors" where
  "snippet_check f = required ''label'' ''Enter a label.'' (si_label f) @ required ''body'' ''Enter a command.'' (si_body f)"

definition snippet_save :: "snippet option \<Rightarrow> snippet_input \<Rightarrow> bridge_call" where
  "snippet_save s f = snippets_mutation_call (case s of Some x \<Rightarrow> UpdateSnippet (snippet_id x) f | None \<Rightarrow> CreateSnippet f)"

section \<open>The VPN profile form\<close>

record profile_form =
  pf_label :: string
  pf_config :: string
  pf_authUsername :: string
  pf_authPassword :: string
  pf_avoidDefaultRoute :: bool

definition profile_form_of :: "vpn_profile option \<Rightarrow> profile_form" where
  "profile_form_of p =
     \<lparr>pf_label = (case p of None \<Rightarrow> [] | Some x \<Rightarrow> profile_label x),
      pf_config = (case p of None \<Rightarrow> [] | Some x \<Rightarrow> profile_config x),
      pf_authUsername = or_empty (Option.bind p profile_auth_username), pf_authPassword = [],
      pf_avoidDefaultRoute = (case p of None \<Rightarrow> True | Some x \<Rightarrow> profile_avoid_default_route x)\<rparr>"

definition profile_check :: "profile_form \<Rightarrow> field_errors" where
  "profile_check f = required ''label'' ''Enter a label.'' (pf_label f)
     @ required ''config'' ''Upload or paste an .ovpn profile.'' (pf_config f)"

definition profile_save :: "vpn_profile option \<Rightarrow> profile_form \<Rightarrow> bridge_call" where
  "profile_save p f =
     (let input = \<lparr>vi_label = pf_label f, vi_config = pf_config f, vi_auth_username = or_null (pf_authUsername f),
                   vi_auth_password = password_input (p \<noteq> None) (pf_authPassword f),
                   vi_avoid_default_route = pf_avoidDefaultRoute f\<rparr>
      in vpn_mutation_call (case p of Some x \<Rightarrow> UpdateProfile (profile_id x) input | None \<Rightarrow> CreateProfile input))"

definition profile_browsed :: "bool \<Rightarrow> string \<Rightarrow> string \<Rightarrow> profile_form \<Rightarrow> profile_form" where
  "profile_browsed no_label path contents f =
     (let f1 = f\<lparr>pf_config := contents\<rparr>
      in if no_label then f1\<lparr>pf_label := strip_extension [''ovpn'', ''conf''] (file_name path)\<rparr> else f1)"

section \<open>The five forms\<close>

text \<open>The fields on the screen start from the item that is edited and follow the user's events.\<close>

definition run_group_form ::
  "group option \<Rightarrow> string option \<Rightarrow> group_form store_form_event list \<Rightarrow> group_form store_form" where
  "run_group_form g defaultParentId =
     store_form_run group_check (group_save g) (group_form_of g defaultParentId)"

definition run_identity_form :: "identity option \<Rightarrow> identity_form store_form_event list \<Rightarrow> identity_form store_form" where
  "run_identity_form d = store_form_run identity_check (identity_save d) (identity_form_of d)"

definition run_key_form :: "key_form store_form_event list \<Rightarrow> key_form store_form" where
  "run_key_form = store_form_run key_check key_save key_form_start"

definition run_snippet_form :: "snippet option \<Rightarrow> snippet_input store_form_event list \<Rightarrow> snippet_input store_form" where
  "run_snippet_form s = store_form_run snippet_check (snippet_save s) (snippet_input_start s)"

definition run_profile_form :: "vpn_profile option \<Rightarrow> profile_form store_form_event list \<Rightarrow> profile_form store_form" where
  "run_profile_form p = store_form_run profile_check (profile_save p) (profile_form_of p)"

section \<open>Running a snippet\<close>

text \<open>
  \<open>handleRun\<close>: the gates of all selected hosts, then one call for those that are ready. \<open>gate\<close> is
  what \<open>ensureVpnUp\<close> answers for a host, \<open>run\<close> what \<open>runOnHosts\<close> answers.
\<close>

definition toggle_selected :: "string \<Rightarrow> string set \<Rightarrow> string set" where
  "toggle_selected i selected = (if i \<in> selected then selected - {i} else insert i selected)"

definition target_hosts :: "string set \<Rightarrow> host list \<Rightarrow> host list" where
  "target_hosts selected hs = filter (\<lambda>h. host_id h \<in> selected) hs"

definition gate_failures :: "(host \<Rightarrow> vpn_gate_result) \<Rightarrow> host list \<Rightarrow> host_exec_result list" where
  "gate_failures gate targets =
     map (\<lambda>h. \<lparr>er_host_id = host_id h, er_output = None,
           er_error = Some (case gate_message (gate h) of Some m \<Rightarrow> m | None \<Rightarrow> ''Could not connect the VPN for this host.'')\<rparr>)
       (filter (\<lambda>h. \<not> gate_ok (gate h)) targets)"

definition ready_ids :: "(host \<Rightarrow> vpn_gate_result) \<Rightarrow> host list \<Rightarrow> string list" where
  "ready_ids gate targets = map host_id (filter (\<lambda>h. gate_ok (gate h)) targets)"

text \<open>The calls made, and the results shown or the error.\<close>

definition handleRun ::
  "string set \<Rightarrow> host list \<Rightarrow> string \<Rightarrow> (host \<Rightarrow> vpn_gate_result) \<Rightarrow> (string list \<Rightarrow> string + host_exec_result list) \<Rightarrow>
     bridge_call list \<times> (string + host_exec_result list)" where
  "handleRun selected hs body gate run =
     (let targets = target_hosts selected hs; ready = ready_ids gate targets; failures = gate_failures gate targets
      in if ready = [] then ([], Inr failures)
         else ([runOnHosts ready body], case run ready of Inl e \<Rightarrow> Inl e | Inr rs \<Rightarrow> Inr (rs @ failures)))"

section \<open>The contract\<close>

text \<open>What the backend reads: required texts are not blank, absent identifiers are null and not empty.\<close>

definition identity_typed :: "identity_input \<Rightarrow> bool" where
  "identity_typed i \<longleftrightarrow> trim (ii_label i) \<noteq> [] \<and> trim (ii_username i) \<noteq> []
     \<and> (if ii_auth_method i = Private_key then truthy (ii_ssh_key_id i) else ii_ssh_key_id i = None)"

definition profile_typed :: "vpn_profile_input \<Rightarrow> bool" where
  "profile_typed i \<longleftrightarrow> trim (vi_label i) \<noteq> [] \<and> trim (vi_config i) \<noteq> [] \<and> vi_auth_username i \<noteq> Some []"

fun store_call_typed :: "bridge_call \<Rightarrow> bool" where
  "store_call_typed (Group_call (GroupCreate i)) = (trim (gi_name i) \<noteq> [] \<and> id_or_null (gi_parent_id i))"
| "store_call_typed (Group_call (GroupUpdate g i)) = (trim (gi_name i) \<noteq> [] \<and> id_or_null (gi_parent_id i))"
| "store_call_typed (Identity_call (IdentityCreate i)) = identity_typed i"
| "store_call_typed (Identity_call (IdentityUpdate d i)) = identity_typed i"
| "store_call_typed (Key_call (KeyGenerate i)) = (trim (gk_label i) \<noteq> [])"
| "store_call_typed (Key_call (KeyImport i)) =
     (trim (ik_label i) \<noteq> [] \<and> trim (ik_private_key_pem i) \<noteq> [] \<and> ik_passphrase i \<noteq> Some [])"
| "store_call_typed (Snippet_call (SnippetCreate i)) = (trim (si_label i) \<noteq> [] \<and> trim (si_body i) \<noteq> [])"
| "store_call_typed (Snippet_call (SnippetUpdate s i)) = (trim (si_label i) \<noteq> [] \<and> trim (si_body i) \<noteq> [])"
| "store_call_typed (Vpn_call (VpnProfileCreate i)) = profile_typed i"
| "store_call_typed (Vpn_call (VpnProfileUpdate p i)) = profile_typed i"
| "store_call_typed c = False"

locale form_contract =
  fixes check :: "'f \<Rightarrow> field_errors" and call :: "'f \<Rightarrow> bridge_call"
  assumes checked: "check f = [] \<Longrightarrow> store_call_typed (call f)"
begin

lemma calls_typed: "list_all store_call_typed (sf_calls (store_form_run check call f es))"
proof -
  have step: "list_all store_call_typed (sf_calls s) \<Longrightarrow> list_all store_call_typed (sf_calls (store_form_step check call s e))" for s e
    by (cases e) (auto simp: Let_def checked split: option.split)
  have "list_all store_call_typed (sf_calls s) \<Longrightarrow> list_all store_call_typed (sf_calls (foldl (store_form_step check call) s es))" for s
    by (induction es arbitrary: s) (simp_all add: step)
  then show ?thesis by (simp add: store_form_run_def store_form_start_def)
qed

text \<open>One call at a time: pressing the button again before the answer does nothing.\<close>

lemma no_second_call:
  "sf_submitting s \<Longrightarrow> sf_calls (foldl (store_form_step check call) s (map Sf_typed fs @ [Sf_submit])) = sf_calls s"
  by (induction fs arbitrary: s) simp_all

text \<open>A refused call leaves what was typed, shows the error and can be sent again.\<close>

lemma refused_keeps_fields:
  fixes e :: string
  assumes "\<not> sf_submitting s" and "check (sf_fields s) = []"
  defines "s' \<equiv> foldl (store_form_step check call) s [Sf_submit, Sf_answered (Some e)]"
  shows "sf_fields s' = sf_fields s" and "sf_error s' = Some e" and "\<not> sf_submitting s'"
    and "sf_calls (store_form_step check call s' Sf_submit) = sf_calls s @ [call (sf_fields s), call (sf_fields s)]"
  using assms(1,2) by (simp_all add: s'_def)

end

lemma required_Nil [simp]: "required field message x = [] \<longleftrightarrow> trim x \<noteq> []"
  by (simp add: required_def)

interpretation group_form: form_contract group_check "group_save g" for g
  by unfold_locales (auto simp: group_check_def group_save_def Let_def split: option.split)

interpretation identity_form: form_contract identity_check "identity_save d" for d
  by unfold_locales
    (auto simp: identity_check_def identity_save_def identity_typed_def Let_def truthy_def or_null_def split: option.split if_splits)

interpretation key_form: form_contract key_check key_save
  by unfold_locales (auto simp: key_check_def key_save_def split: if_splits)

interpretation snippet_form: form_contract snippet_check "snippet_save s" for s
  by unfold_locales (auto simp: snippet_check_def snippet_save_def split: option.split)

interpretation profile_form: form_contract profile_check "profile_save p" for p
  by unfold_locales (auto simp: profile_check_def profile_save_def profile_typed_def Let_def split: option.split)

lemma mset_filter_split: "mset (filter P xs) + mset (filter (\<lambda>x. \<not> P x) xs) = mset xs"
  by (induction xs) auto

section \<open>Groups that no rendering reaches\<close>

lemma filter_m_subset: "filter_m f xs = Some ys \<Longrightarrow> set ys \<subseteq> set xs"
  by (induction xs arbitrary: ys) (auto split: option.splits if_splits)

lemma map_m_from: "map_m f xs = Some ys \<Longrightarrow> y \<in> set ys \<Longrightarrow> \<exists>x\<in>set xs. f x = Some y"
  by (induction xs arbitrary: ys) (auto split: option.splits)

lemma level_at_depth: "level_at gs d p \<Longrightarrow> g \<in> set gs \<Longrightarrow> group_parent_id g = p \<Longrightarrow> at_depth gs d g"
  by (auto simp: level_at_def split: option.splits intro: at_depth.intros)

text \<open>Every group that is drawn has a chain of parents up to the top.\<close>

lemma drawn_group_reached:
  assumes "render_level lc filtering m shut gs hs f p n = Some rows" and "level_at gs d p" and "Group_row x e \<in> set rows"
  shows "\<exists>k. at_depth gs k x"
  using assms
proof (induction f arbitrary: p n d rows)
  case (Suc f)
  from Suc.prems(1) obtain gl blocks where
    gl: "filter_m (\<lambda>g. group_has_match filtering m gs hs (Suc f) (group_id g)) (childGroups (getGroupChildren lc gs hs p)) = Some gl"
    and blocks: "map_m (\<lambda>g. if filtering \<or> group_id g \<notin> shut
          then (case render_level lc filtering m shut gs hs f (Some (group_id g)) (Suc n) of
                  None \<Rightarrow> None | Some rows \<Rightarrow> Some (Group_row g n # rows))
          else Some [Group_row g n]) gl = Some blocks"
    and rows: "rows = concat blocks @ map (\<lambda>h. Host_row h n) (filter m (childHosts (getGroupChildren lc gs hs p)))"
    by (auto simp: Let_def simp del: group_has_match.simps split: option.splits)
  from Suc.prems(3) rows obtain block where block: "block \<in> set blocks" "Group_row x e \<in> set block" by auto
  from map_m_from[OF blocks block(1)] obtain g where g: "g \<in> set gl"
    and sub: "block = [Group_row g n] \<or> (\<exists>rs. render_level lc filtering m shut gs hs f (Some (group_id g)) (Suc n) = Some rs
      \<and> block = Group_row g n # rs)"
    by (auto split: if_splits option.splits)
  have child: "g \<in> set gs" "group_parent_id g = p" using g filter_m_subset[OF gl] by auto
  have "at_depth gs d g" by (rule level_at_depth[OF Suc.prems(2) child])
  moreover have "\<exists>k. at_depth gs k x" if "render_level lc filtering m shut gs hs f (Some (group_id g)) (Suc n) = Some rs"
    "Group_row x e \<in> set rs" for rs
    using Suc.IH[OF that(1) level_at_child[OF Suc.prems(2) child] that(2)] .
  ultimately show ?case using sub block(2) by auto
qed simp

text \<open>A set of groups whose parents all lie in it is not reached, and neither is what is below it.\<close>

definition closed_off :: "group list \<Rightarrow> string set \<Rightarrow> bool" where
  "closed_off gs I \<longleftrightarrow> (\<forall>x\<in>set gs. group_id x \<in> I \<longrightarrow> (\<exists>i\<in>I. group_parent_id x = Some i))"

lemma closed_off_not_reached:
  assumes "closed_off gs I" and "at_depth gs d x"
  shows "group_id x \<notin> I"
  using assms(2,1) by (induction rule: at_depth.induct) (fastforce simp: closed_off_def)+

lemma below_unreached:
  assumes "below gs p h" and "distinct (map group_id gs)" and "\<exists>i. p = Some i \<and> (\<forall>d x. at_depth gs d x \<longrightarrow> group_id x \<noteq> i)"
  shows "\<exists>j. host_group_id h = Some j \<and> (\<forall>d x. at_depth gs d x \<longrightarrow> group_id x \<noteq> j)"
  using assms(1,3)
proof (induction rule: below.induct)
  case (through g p h)
  have "group_id x \<noteq> group_id g" if "at_depth gs d x" for d x
  proof
    assume "group_id x = group_id g"
    then have "x = g" using same_group[OF assms(2) at_depth_mem[OF that] through.hyps(1)] by simp
    with that through.hyps(2) through.prems show False by (auto elim: at_depth.cases)
  qed
  with through.IH show ?case by blast
qed auto

lemma shown_not_below:
  assumes "distinct (map group_id gs)" and "closed_off gs I" and "i \<in> I" and "below gs None h"
  shows "\<not> below gs (Some i) h"
proof
  assume "below gs (Some i) h"
  then obtain j where j: "host_group_id h = Some j" "\<forall>d x. at_depth gs d x \<longrightarrow> group_id x \<noteq> j"
    using below_unreached[OF _ assms(1)] closed_off_not_reached[OF assms(2)] assms(3) by blast
  obtain e where "level_at gs e (host_group_id h)"
    using below_depth[OF assms(4), of 0] by (auto simp: level_at_def)
  with j show False by (auto simp: level_at_def)
qed

lemma below_from_top:
  "at_depth gs d g \<Longrightarrow> below gs (Some (group_id g)) h \<Longrightarrow> below gs None h"
  by (induction rule: at_depth.induct) (auto intro: below.through)

section \<open>Properties\<close>

text \<open>
  C18: the forms for groups, identities, keys, snippets and VPN profiles never send an empty value where
  the backend wants one or none, whatever is typed, submitted and answered: required texts are
  not blank, there is a key for exactly the identities that authenticate by key, and null, not an empty
  string, stands for what is absent.
\<close>
theorem store_forms_send_typed:
  "list_all store_call_typed (sf_calls (run_group_form g defaultParentId es1))
    \<and> list_all store_call_typed (sf_calls (run_identity_form d es2))
    \<and> list_all store_call_typed (sf_calls (run_key_form es3))
    \<and> list_all store_call_typed (sf_calls (run_snippet_form s es4))
    \<and> list_all store_call_typed (sf_calls (run_profile_form p es5))"
  unfolding run_group_form_def run_identity_form_def run_key_form_def run_snippet_form_def run_profile_form_def
  by (intro conjI group_form.calls_typed identity_form.calls_typed key_form.calls_typed snippet_form.calls_typed
      profile_form.calls_typed)

text \<open>
  running a snippet on several hosts. The command is sent at most once, for exactly the selected
  hosts whose gate opened, in the order of the list; when the backend answers with one result
  per host, every selected host that exists has exactly one result, and a host whose gate
  stayed shut has the gate's message as its error and was sent nothing.
\<close>
theorem run_snippet_results:
  assumes "\<And>ids rs. run ids = Inr rs \<Longrightarrow> map er_host_id rs = ids" and "distinct (map host_id hs)"
    and "handleRun selected hs body gate run = (calls, Inr results)"
  shows "calls = (let ready = [host_id h. h \<leftarrow> hs, host_id h \<in> selected \<and> gate_ok (gate h)]
        in if ready = [] then [] else [runOnHosts ready body])
    \<and> mset (map er_host_id results) = mset [host_id h. h \<leftarrow> hs, host_id h \<in> selected]
    \<and> distinct (map er_host_id results)
    \<and> (\<forall>h\<in>set hs. host_id h \<in> selected \<and> \<not> gate_ok (gate h) \<longrightarrow>
        \<lparr>er_host_id = host_id h, er_output = None,
         er_error = Some (case gate_message (gate h) of Some m \<Rightarrow> m | None \<Rightarrow> ''Could not connect the VPN for this host.'')\<rparr>
        \<in> set results)"
proof -
  let ?ts = "target_hosts selected hs"
  have ready: "ready_ids gate ?ts = [host_id h. h \<leftarrow> hs, host_id h \<in> selected \<and> gate_ok (gate h)]"
    by (induction hs) (auto simp: ready_ids_def target_hosts_def)
  have targets: "map host_id ?ts = [host_id h. h \<leftarrow> hs, host_id h \<in> selected]"
    by (induction hs) (auto simp: target_hosts_def)
  have calls: "calls = (if ready_ids gate ?ts = [] then [] else [runOnHosts (ready_ids gate ?ts) body])"
    using assms(3) by (auto simp: handleRun_def Let_def)
  have failed: "map er_host_id (gate_failures gate ?ts) = map host_id (filter (\<lambda>h. \<not> gate_ok (gate h)) ?ts)"
    by (simp add: gate_failures_def)
  obtain rs where results: "results = rs @ gate_failures gate ?ts" and rs: "map er_host_id rs = ready_ids gate ?ts"
    using assms(1,3) by (fastforce simp: handleRun_def Let_def split: if_splits sum.splits)
  have "mset (map er_host_id results) = mset (map host_id ?ts)"
    unfolding results map_append rs failed ready_ids_def
    by (simp only: mset_append mset_map mset_filter_split flip: image_mset_union)
  moreover have "distinct (map host_id ?ts)"
    using assms(2) unfolding target_hosts_def by (rule distinct_map_filter)
  ultimately have "mset (map er_host_id results) = mset (map host_id ?ts)" "distinct (map er_host_id results)"
    using mset_eq_imp_distinct_iff[of "map er_host_id results" "map host_id ?ts"] by blast+
  moreover have "\<forall>h\<in>set hs. host_id h \<in> selected \<and> \<not> gate_ok (gate h) \<longrightarrow>
      \<lparr>er_host_id = host_id h, er_output = None,
       er_error = Some (case gate_message (gate h) of Some m \<Rightarrow> m | None \<Rightarrow> ''Could not connect the VPN for this host.'')\<rparr>
      \<in> set results"
    unfolding results by (auto simp: gate_failures_def target_hosts_def)
  ultimately show ?thesis
    using calls unfolding ready targets Let_def by blast
qed

theorem run_snippet_results_witness:
  "\<exists>rs. snd (handleRun {''a'', ''b''} [sample_host ''a'' None, sample_host ''b'' (Some ''p''), sample_host ''c'' None] ''uptime''
        (\<lambda>h. \<lparr>gate_ok = host_vpn_profile_id h = None, gate_message = None\<rparr>)
        (\<lambda>ids. Inr (map (\<lambda>i. \<lparr>er_host_id = i, er_output = None, er_error = None\<rparr>) ids))) = Inr rs
     \<and> mset (map er_host_id rs) = {#''a'', ''b''#}"
proof -
  let ?hs = "[sample_host ''a'' None, sample_host ''b'' (Some ''p''), sample_host ''c'' None]"
  let ?gate = "\<lambda>h. \<lparr>gate_ok = host_vpn_profile_id h = None, gate_message = None\<rparr>"
  let ?run = "\<lambda>ids. Inr (map (\<lambda>i. \<lparr>er_host_id = i, er_output = None, er_error = None\<rparr>) ids)"
  obtain rs where "handleRun {''a'', ''b''} ?hs ''uptime'' ?gate ?run = ([runOnHosts [''a''] ''uptime''], Inr rs)"
    by (simp add: handleRun_def target_hosts_def ready_ids_def)
  moreover have "map er_host_id xs = ids" if "?run ids = Inr xs" for ids xs
    using that by (auto simp: comp_def)
  ultimately show ?thesis
    using run_snippet_results[of ?run ?hs "{''a'', ''b''}" "''uptime''" ?gate _ rs] by fastforce
qed

text \<open>
  C23: the group form can make a group disappear. It offers every other group as the parent, also
  the group's own subgroups. Saving one of them leaves a cycle that no rendering reaches: both
  groups are still there, and the tree is drawn to its end, but neither of them has a row in it, and
  no host that is anywhere below one of them has. Before, if the group could be reached, every host
  below it that the search keeps had its row.
\<close>
theorem moved_group_disappears:
  assumes "g \<in> set gs" and "c \<in> set gs" and "group_id c \<noteq> group_id g" and "group_id c \<noteq> []"
    and "group_parent_id c = Some (group_id g)" and "distinct (map group_id gs)" and "distinct (map host_id hs)"
    and "isFiltering v \<or> collapsed v = {}" and "length gs < n"
  defines "f \<equiv> (group_form_of (Some g) None)\<lparr>gf_parentId := group_id c\<rparr>"
  defines "gs' \<equiv> group_row_update gs (Sent (group_save (Some g) f))"
  shows "c \<in> set (parent_options (Some g) gs)
    \<and> (trim (group_name g) \<noteq> [] \<longrightarrow> group_check f = [])
    \<and> map group_id gs' = map group_id gs
    \<and> (\<exists>rows. renderLevel lc v gs' hs n None 0 = Some rows
        \<and> (\<forall>x d. Group_row x d \<in> set rows \<longrightarrow> group_id x \<noteq> group_id g \<and> group_id x \<noteq> group_id c)
        \<and> (\<forall>h\<in>set (row_hosts rows). \<not> below gs' (Some (group_id g)) h \<and> \<not> below gs' (Some (group_id c)) h))
    \<and> ((\<exists>d. at_depth gs d g) \<longrightarrow> (\<exists>rows. renderLevel lc v gs hs n None 0 = Some rows
        \<and> (\<forall>h\<in>set hs. hostMatches v h \<and> below gs (Some (group_id g)) h \<longrightarrow> h \<in> set (row_hosts rows))))"
proof -
  have gs': "gs' = map_at group_id (group_id g) (\<lambda>x. x\<lparr>group_parent_id := Some (group_id c), group_name := group_name g,
      group_sort_order := group_sort_order g\<rparr>) gs"
    using assms(4) by (simp add: gs'_def f_def group_save_def group_form_of_def or_null_def)
  have ids: "map group_id gs' = map group_id gs" unfolding gs' by (rule map_key_map_at) simp
  have parent: "group_parent_id x = (if group_id x = group_id g then Some (group_id c) else Some (group_id g))"
    if "x \<in> set gs'" "group_id x = group_id g \<or> group_id x = group_id c" for x
  proof -
    from that(1) obtain y where y: "y \<in> set gs" "group_id y = group_id x"
      "x = (if group_id y = group_id g then y\<lparr>group_parent_id := Some (group_id c), group_name := group_name g,
        group_sort_order := group_sort_order g\<rparr> else y)"
      unfolding gs' map_at_def by auto
    show ?thesis
    proof (cases "group_id y = group_id g")
      case True
      from True y(2) have "group_id x = group_id g" by metis
      moreover from y(3) have "group_parent_id x = Some (group_id c)" unfolding if_P[OF True] by simp
      ultimately show ?thesis by simp
    next
      case False
      have "x = y" using y(3) unfolding if_not_P[OF False] .
      with y(2) False that(2) have "group_id y = group_id c" by metis
      then have "y = c" using same_group[OF assms(6) y(1) assms(2)] by blast
      then show ?thesis using \<open>x = y\<close> assms(3,5) by simp
    qed
  qed
  then have off: "closed_off gs' {group_id g, group_id c}" by (auto simp: closed_off_def)
  have open_: "isFiltering v \<or> collapsed v = {} \<and> (\<forall>h. hostMatches v h)" using assms(8) by (auto simp: hostMatches_def)
  have shown: "\<exists>rows. renderLevel lc v gl hs n None 0 = Some rows
      \<and> set (row_hosts rows) = {h \<in> set hs. hostMatches v h \<and> below gl None h}" if "map group_id gl = map group_id gs" for gl
  proof -
    have "distinct (map group_id gl)" "length gl < n" using assms(6,9) that by (simp, metis length_map)
    with render_level_shows[OF _ assms(7) open_, of gl 0 None n lc 0] show ?thesis
      by (auto simp: renderLevel_def shows_hosts_def level_at_def)
  qed
  from shown[OF ids] obtain rows where rows: "renderLevel lc v gs' hs n None 0 = Some rows"
    "set (row_hosts rows) = {h \<in> set hs. hostMatches v h \<and> below gs' None h}" by blast
  have "group_id x \<noteq> group_id g \<and> group_id x \<noteq> group_id c" if "Group_row x d \<in> set rows" for x d
  proof -
    have "level_at gs' 0 None" by (simp add: level_at_def)
    from drawn_group_reached[OF rows(1)[unfolded renderLevel_def] this that] closed_off_not_reached[OF off]
    show ?thesis by blast
  qed
  moreover have "\<not> below gs' (Some (group_id g)) h \<and> \<not> below gs' (Some (group_id c)) h" if "h \<in> set (row_hosts rows)" for h
    using shown_not_below[OF _ off, of _ h] that rows(2) ids assms(6) by simp
  moreover have "\<exists>rows. renderLevel lc v gs hs n None 0 = Some rows
      \<and> (\<forall>h\<in>set hs. hostMatches v h \<and> below gs (Some (group_id g)) h \<longrightarrow> h \<in> set (row_hosts rows))"
    if "\<exists>d. at_depth gs d g"
    using shown[OF refl] below_from_top that by blast
  moreover have "c \<in> set (parent_options (Some g) gs)" using assms(2,3) by (simp add: parent_options_def)
  moreover have "trim (group_name g) \<noteq> [] \<longrightarrow> group_check f = []"
    by (simp add: f_def group_check_def group_form_of_def)
  ultimately show ?thesis using ids rows(1) by blast
qed

theorem moved_group_disappears_witness:
  "(\<exists>rows. renderLevel code_unit_order \<lparr>search = [], tagFilter = {}, collapsed = {}\<rparr>
      (group_row_update [sample_group ''g'' None, sample_group ''s'' (Some ''g'')]
         (Sent (group_save (Some (sample_group ''g'' None)) \<lparr>gf_name = ''g'', gf_parentId = ''s''\<rparr>)))
      [(sample_host ''web1'' None)\<lparr>host_group_id := Some ''s''\<rparr>] 3 None 0 = Some rows
    \<and> (\<forall>x d. Group_row x d \<in> set rows \<longrightarrow> group_id x \<noteq> ''g'' \<and> group_id x \<noteq> ''s''))
   \<and> (\<exists>rows. renderLevel code_unit_order \<lparr>search = [], tagFilter = {}, collapsed = {}\<rparr>
      [sample_group ''g'' None, sample_group ''s'' (Some ''g'')] [(sample_host ''web1'' None)\<lparr>host_group_id := Some ''s''\<rparr>] 3 None 0 = Some rows
    \<and> (sample_host ''web1'' None)\<lparr>host_group_id := Some ''s''\<rparr> \<in> set (row_hosts rows))"
proof -
  let ?gs = "[sample_group ''g'' None, sample_group ''s'' (Some ''g'')]"
  let ?h = "(sample_host ''web1'' None)\<lparr>host_group_id := Some ''s''\<rparr>"
  have g: "group_id (sample_group a b) = a" "group_name (sample_group a b) = a" "group_parent_id (sample_group a b) = b" for a b
    by (simp_all add: sample_group_def)
  have "at_depth ?gs 0 (sample_group ''g'' None)" by (rule at_depth.root) (simp_all add: g)
  moreover have "below ?gs (Some ''g'') ?h"
    using below.through[of "sample_group ''s'' (Some ''g'')" ?gs "Some ''g''" ?h] below.direct[of ?h "Some ''s''"]
    by (simp add: g)
  moreover have "hostMatches \<lparr>search = [], tagFilter = {}, collapsed = {}\<rparr> ?h" by code_simp
  ultimately show ?thesis
    using moved_group_disappears[of "sample_group ''g'' None" ?gs "sample_group ''s'' (Some ''g'')" "[?h]"
        "\<lparr>search = [], tagFilter = {}, collapsed = {}\<rparr>" 3 code_unit_order]
    by (simp add: g group_form_of_def) blast
qed

end
