(* ===== verification/Updates.thy ===== *)
theory Updates
  imports Friendly_Error Bridge
begin

text \<open>
  Updating the application: the section "About" of \<open>src/src/components/panels/SettingsPanel.tsx\<close>, where
  the user asks for a check, and the prompt after the start, \<open>components/common/UpdatePrompt.tsx\<close>.
  The updater plugin, the package installer and the restart are the environment: their answers
  and the plugin's progress reports are events.
\<close>

section \<open>Progress of a download\<close>

record update =
  update_version :: string
  update_current :: string
  update_body :: "string option"

datatype update_method = Native | Deb | Rpm | Unsupported

record download =
  dl_total :: "int option"
  dl_bytes :: int

datatype progress_report = Dl_started "int option" | Dl_progress int | Dl_finished

definition new_download :: download where
  "new_download = \<lparr>dl_total = None, dl_bytes = 0\<rparr>"

fun count_bytes :: "progress_report \<Rightarrow> download \<Rightarrow> download" where
  "count_bytes (Dl_started contentLength) d = d\<lparr>dl_total := contentLength, dl_bytes := 0\<rparr>"
| "count_bytes (Dl_progress chunkLength) d = d\<lparr>dl_bytes := dl_bytes d + chunkLength\<rparr>"
| "count_bytes Dl_finished d = d"

definition percent_of :: "download \<Rightarrow> int option" where
  "percent_of d = (case dl_total d of
     None \<Rightarrow> None
   | Some n \<Rightarrow> if n = 0 then None else Some (min 100 (math_round (real_of_int (dl_bytes d) / real_of_int n * 100))))"

text \<open>An installation under way: the update and the variables of its handler.\<close>

type_synonym installs = "(nat \<times> update \<times> download) list"

definition put_download :: "nat \<Rightarrow> download \<Rightarrow> installs \<Rightarrow> installs" where
  "put_download k d is = map (\<lambda>(j, u, d'). (j, u, if j = k then d else d')) is"

section \<open>The section About\<close>

datatype update_state =
    Update_idle | Update_checking | Up_to_date | Update_found update
  | Update_downloading update "int option" | Ready_to_restart | Update_failed string

datatype update_effect =
    Read_version | Read_method | Check_update | Download_and_install update | Install_package string
  | Open_releases | Relaunch | Close_update update

record about_section =
  about_version :: "string option"
  update_state :: update_state
  updateMethod :: update_method
  about_checking :: bool
  about_installs :: installs
  about_started :: nat
  about_restarts :: nat
  about_effects :: "update_effect list"

definition about_start :: about_section where
  "about_start = \<lparr>about_version = None, update_state = Update_idle, updateMethod = Native, about_checking = False,
     about_installs = [], about_started = 0, about_restarts = 0, about_effects = [Read_version, Read_method]\<rparr>"

definition handleCheckForUpdate :: "about_section \<Rightarrow> about_section" where
  "handleCheckForUpdate s =
     s\<lparr>update_state := Update_checking, about_checking := True,
       about_effects := about_effects s @ (if about_version s = None then [Read_version] else []) @ [Check_update]\<rparr>"

definition check_answered :: "string + update option \<Rightarrow> about_section \<Rightarrow> about_section" where
  "check_answered answer s =
     s\<lparr>about_checking := False, update_state :=
         (case answer of
            Inl e \<Rightarrow> Update_failed (friendlyUpdaterError e)
          | Inr None \<Rightarrow> Up_to_date
          | Inr (Some u) \<Rightarrow> Update_found u)\<rparr>"

definition install_effect :: "update_method \<Rightarrow> update \<Rightarrow> update_effect" where
  "install_effect m u = (if m = Native then Download_and_install u else Install_package (update_version u))"

definition handleInstall :: "update \<Rightarrow> about_section \<Rightarrow> about_section" where
  "handleInstall u s =
     (if updateMethod s = Unsupported then s\<lparr>about_effects := about_effects s @ [Open_releases]\<rparr>
      else s\<lparr>update_state := Update_downloading u None,
             about_installs := about_installs s @ [(about_started s, u, new_download)], about_started := Suc (about_started s),
             about_effects := about_effects s @ [install_effect (updateMethod s) u]\<rparr>)"

text \<open>A report changes what is shown only when it is of progress.\<close>

definition about_progress :: "nat \<Rightarrow> progress_report \<Rightarrow> about_section \<Rightarrow> about_section" where
  "about_progress k r s =
     (case map_of (about_installs s) k of
        None \<Rightarrow> s
      | Some (u, d) \<Rightarrow>
          (let d' = count_bytes r d; s1 = s\<lparr>about_installs := put_download k d' (about_installs s)\<rparr>
           in case r of Dl_progress n \<Rightarrow> s1\<lparr>update_state := Update_downloading u (percent_of d')\<rparr> | _ \<Rightarrow> s1))"

definition about_installed :: "nat \<Rightarrow> string option \<Rightarrow> about_section \<Rightarrow> about_section" where
  "about_installed k failure s =
     (case map_of (about_installs s) k of
        None \<Rightarrow> s
      | Some run \<Rightarrow>
          s\<lparr>about_installs := filter (\<lambda>(j, x). j \<noteq> k) (about_installs s),
            update_state := (case failure of None \<Rightarrow> Ready_to_restart | Some e \<Rightarrow> Update_failed (friendlyUpdaterError e))\<rparr>)"

text \<open>\<open>handleRestart\<close>: a restart that works ends the program; one that fails is shown.\<close>

definition handleRestart :: "about_section \<Rightarrow> about_section" where
  "handleRestart s = s\<lparr>about_restarts := Suc (about_restarts s), about_effects := about_effects s @ [Relaunch]\<rparr>"

definition restart_failed :: "string \<Rightarrow> about_section \<Rightarrow> about_section" where
  "restart_failed e s =
     (if about_restarts s = 0 then s
      else s\<lparr>about_restarts := about_restarts s - 1, update_state := Update_failed e\<rparr>)"

datatype about_event =
    Version_read string | Method_read update_method
  | Check_clicked | Check_done "string + update option"
  | Install_clicked | Install_progress nat progress_report | Install_done nat "string option"
  | Restart_clicked | Restart_failed string

text \<open>The buttons are there in their phases only; "Check for updates" is off during a check.\<close>

fun about_step :: "about_section \<Rightarrow> about_event \<Rightarrow> about_section" where
  "about_step s (Version_read v) = s\<lparr>about_version := Some v\<rparr>"
| "about_step s (Method_read m) = s\<lparr>updateMethod := m\<rparr>"
| "about_step s Check_clicked =
     (case update_state s of
        Update_idle \<Rightarrow> handleCheckForUpdate s
      | Up_to_date \<Rightarrow> handleCheckForUpdate s
      | Update_failed e \<Rightarrow> handleCheckForUpdate s
      | _ \<Rightarrow> s)"
| "about_step s (Check_done answer) = (if about_checking s then check_answered answer s else s)"
| "about_step s Install_clicked = (case update_state s of Update_found u \<Rightarrow> handleInstall u s | _ \<Rightarrow> s)"
| "about_step s (Install_progress k r) = about_progress k r s"
| "about_step s (Install_done k failure) = about_installed k failure s"
| "about_step s Restart_clicked = (if update_state s = Ready_to_restart then handleRestart s else s)"
| "about_step s (Restart_failed e) = restart_failed e s"

section \<open>The prompt after the start\<close>

definition STARTUP_CHECK_DELAY_MS :: nat where "STARTUP_CHECK_DELAY_MS = 1500"

datatype prompt_state =
    No_prompt
  | Prompt_available update update_method
  | Prompt_downloading update "int option"
  | Prompt_failed update string

record update_prompt =
  prompt_active :: bool
  prompt :: prompt_state
  prompt_due :: bool
  prompt_checking :: bool
  prompt_asking :: "update option"
  prompt_installs :: installs
  prompt_started :: nat
  prompt_opening :: "update option"
  prompt_effects :: "update_effect list"

definition prompt_start :: update_prompt where
  "prompt_start = \<lparr>prompt_active = True, prompt = No_prompt, prompt_due = True, prompt_checking = False, prompt_asking = None,
     prompt_installs = [], prompt_started = 0, prompt_opening = None, prompt_effects = []\<rparr>"

definition prompt_emit :: "update_effect \<Rightarrow> update_prompt \<Rightarrow> update_prompt" where
  "prompt_emit e s = s\<lparr>prompt_effects := prompt_effects s @ [e]\<rparr>"

text \<open>\<open>dismiss\<close> of the render that shows \<open>u\<close>.\<close>

definition dismiss :: "update \<Rightarrow> update_prompt \<Rightarrow> update_prompt" where
  "dismiss u s = (prompt_emit (Close_update u) s)\<lparr>prompt := No_prompt\<rparr>"

definition prompt_install :: "update_prompt \<Rightarrow> update_prompt" where
  "prompt_install s =
     (case prompt s of
        Prompt_available u m \<Rightarrow>
          (if m = Unsupported then (prompt_emit Open_releases s)\<lparr>prompt_opening := Some u\<rparr>
           else (prompt_emit (install_effect m u) s)\<lparr>prompt := Prompt_downloading u None,
                  prompt_installs := prompt_installs s @ [(prompt_started s, u, new_download)],
                  prompt_started := Suc (prompt_started s)\<rparr>)
      | _ \<Rightarrow> s)"

definition prompt_progress :: "nat \<Rightarrow> progress_report \<Rightarrow> update_prompt \<Rightarrow> update_prompt" where
  "prompt_progress k r s =
     (case map_of (prompt_installs s) k of
        None \<Rightarrow> s
      | Some (u, d) \<Rightarrow>
          (let d' = count_bytes r d; s1 = s\<lparr>prompt_installs := put_download k d' (prompt_installs s)\<rparr>
           in case r of Dl_progress n \<Rightarrow> s1\<lparr>prompt := Prompt_downloading u (percent_of d')\<rparr> | _ \<Rightarrow> s1))"

text \<open>
  An installation stays under way until it has failed, or the restart that follows it: a restart
  that works ends the program, one that fails ends the handler like a failed installation.
\<close>

definition prompt_installed :: "nat \<Rightarrow> string option \<Rightarrow> update_prompt \<Rightarrow> update_prompt" where
  "prompt_installed k failure s =
     (case map_of (prompt_installs s) k of
        None \<Rightarrow> s
      | Some (u, d) \<Rightarrow>
          (case failure of
             None \<Rightarrow> prompt_emit Relaunch s
           | Some e \<Rightarrow> s\<lparr>prompt_installs := filter (\<lambda>(j, x). j \<noteq> k) (prompt_installs s),
                         prompt := Prompt_failed u (friendlyUpdaterError e)\<rparr>))"

datatype prompt_event =
    Startup_timer
  | Startup_answer "string + update option"
  | Startup_method "update_method option"
  | Prompt_install_clicked
  | Releases_opened
  | Prompt_progress nat progress_report
  | Prompt_installed nat "string option"
  | Prompt_dismissed
  | Prompt_unmounted

fun prompt_step :: "update_prompt \<Rightarrow> prompt_event \<Rightarrow> update_prompt" where
  "prompt_step s Startup_timer =
     (if prompt_active s \<and> prompt_due s then (prompt_emit Check_update s)\<lparr>prompt_due := False, prompt_checking := True\<rparr>
      else s)"
| "prompt_step s (Startup_answer answer) =
     (if \<not> prompt_checking s then s
      else let s1 = s\<lparr>prompt_checking := False\<rparr>
        in case answer of Inr (Some u) \<Rightarrow> (prompt_emit Read_method s1)\<lparr>prompt_asking := Some u\<rparr> | _ \<Rightarrow> s1)"
| "prompt_step s (Startup_method m) =
     (case prompt_asking s of
        None \<Rightarrow> s
      | Some u \<Rightarrow>
          (let s1 = s\<lparr>prompt_asking := None\<rparr>
           in if prompt_active s1 then s1\<lparr>prompt := Prompt_available u (case m of None \<Rightarrow> Native | Some x \<Rightarrow> x)\<rparr>
              else prompt_emit (Close_update u) s1))"
| "prompt_step s Prompt_install_clicked = prompt_install s"
| "prompt_step s Releases_opened =
     (case prompt_opening s of None \<Rightarrow> s | Some u \<Rightarrow> (dismiss u s)\<lparr>prompt_opening := None\<rparr>)"
| "prompt_step s (Prompt_progress k r) = prompt_progress k r s"
| "prompt_step s (Prompt_installed k failure) = prompt_installed k failure s"
| "prompt_step s Prompt_dismissed =
     (case prompt s of
        Prompt_available u m \<Rightarrow> dismiss u s
      | Prompt_failed u e \<Rightarrow> dismiss u s
      | _ \<Rightarrow> s)"
| "prompt_step s Prompt_unmounted = s\<lparr>prompt_active := False\<rparr>"

section \<open>Lemmas\<close>

text \<open>Reports are sane when lengths are not negative.\<close>

fun sane_report :: "progress_report \<Rightarrow> bool" where
  "sane_report (Dl_started n) \<longleftrightarrow> (case n of None \<Rightarrow> True | Some x \<Rightarrow> 0 \<le> x)"
| "sane_report (Dl_progress n) \<longleftrightarrow> 0 \<le> n"
| "sane_report Dl_finished \<longleftrightarrow> True"

definition download_ok :: "download \<Rightarrow> bool" where
  "download_ok d \<longleftrightarrow> 0 \<le> dl_bytes d \<and> (case dl_total d of None \<Rightarrow> True | Some x \<Rightarrow> 0 \<le> x)"

definition percent_ok :: "int option \<Rightarrow> bool" where
  "percent_ok p \<longleftrightarrow> (case p of None \<Rightarrow> True | Some x \<Rightarrow> 0 \<le> x \<and> x \<le> 100)"

lemma new_download_ok [simp]: "download_ok new_download"
  by (simp add: download_ok_def new_download_def)

lemma count_bytes_ok: "download_ok d \<Longrightarrow> sane_report r \<Longrightarrow> download_ok (count_bytes r d)"
  by (cases r) (auto simp: download_ok_def split: option.splits)

lemma percent_of_ok: "download_ok d \<Longrightarrow> percent_ok (percent_of d)"
  by (auto simp: percent_ok_def percent_of_def download_ok_def math_round_def split: option.splits)

lemma math_round_mono: "x \<le> y \<Longrightarrow> math_round x \<le> math_round y"
  unfolding math_round_def by (rule floor_mono) simp

text \<open>Progress never goes back.\<close>

lemma percent_grows:
  assumes "download_ok d" and "0 \<le> n" and "percent_of d = Some p" and "percent_of (count_bytes (Dl_progress n) d) = Some q"
  shows "p \<le> q"
proof -
  from assms(1,3) obtain m where m: "dl_total d = Some m" "0 < m"
    by (auto simp: percent_of_def download_ok_def split: option.splits if_splits)
  have "real_of_int (dl_bytes d) / real_of_int m * 100 \<le> real_of_int (dl_bytes d + n) / real_of_int m * 100"
    using m(2) assms(2) by (simp add: divide_right_mono)
  from math_round_mono[OF this] m assms(3,4) show ?thesis by (auto simp: percent_of_def)
qed

text \<open>One installation at a time, which is what is shown.\<close>

fun installs_ok :: "update option \<Rightarrow> installs \<Rightarrow> bool" where
  "installs_ok shown [] = True"
| "installs_ok shown [(k, u, d)] = (shown = Some u \<and> download_ok d)"
| "installs_ok shown (x # y # zs) = False"

lemma installs_ok_cases:
  assumes "installs_ok shown is" and "map_of is k = Some (u, d)"
  shows "is = [(k, u, d)]" and "shown = Some u" and "download_ok d"
  using assms by (cases "(shown, is)" rule: installs_ok.cases; auto split: if_splits)+

lemma installs_ok_nonempty: "installs_ok shown is \<Longrightarrow> is \<noteq> [] \<Longrightarrow> length is = 1 \<and> shown \<noteq> None"
  by (cases "(shown, is)" rule: installs_ok.cases) auto

fun state_percent :: "update_state \<Rightarrow> int option" where
  "state_percent (Update_downloading u p) = p"
| "state_percent _ = None"

fun installing :: "update_state \<Rightarrow> update option" where
  "installing (Update_downloading u p) = Some u"
| "installing _ = None"

definition about_ok :: "about_section \<Rightarrow> bool" where
  "about_ok s \<longleftrightarrow> installs_ok (installing (update_state s)) (about_installs s) \<and> percent_ok (state_percent (update_state s))
     \<and> (about_checking s \<longleftrightarrow> update_state s = Update_checking)
     \<and> (installing (update_state s) = None \<longrightarrow> about_installs s = [])
     \<and> about_restarts s \<le> 1 \<and> (about_restarts s = 1 \<longrightarrow> update_state s = Ready_to_restart)"

text \<open>What is assumed of the events: sane reports, and no second "Restart now" before the first has failed.\<close>

fun about_event_ok :: "about_section \<Rightarrow> about_event \<Rightarrow> bool" where
  "about_event_ok s (Install_progress k r) = sane_report r"
| "about_event_ok s Restart_clicked = (about_restarts s = 0)"
| "about_event_ok s e = True"

lemma about_start_ok: "about_ok about_start"
  by (simp add: about_ok_def about_start_def percent_ok_def)

lemma about_progress_ok:
  assumes "about_ok s" and "sane_report r"
  shows "about_ok (about_progress k r s)"
proof (cases "map_of (about_installs s) k")
  case (Some run)
  obtain u d where run: "run = (u, d)" by (cases run)
  have i: "about_installs s = [(k, u, d)]" "installing (update_state s) = Some u" "download_ok d"
    using installs_ok_cases[of "installing (update_state s)" "about_installs s" k u d] assms(1) Some run by (simp_all add: about_ok_def)
  then have d: "download_ok (count_bytes r d)" "percent_ok (percent_of (count_bytes r d))"
    using count_bytes_ok[OF _ assms(2)] percent_of_ok by blast+
  from i(2) obtain p where "update_state s = Update_downloading u p" by (cases "update_state s") auto
  with assms(1) i d Some run show ?thesis
    by (cases r) (simp_all add: about_progress_def about_ok_def put_download_def Let_def)
qed (simp add: about_progress_def assms(1))

lemma about_installed_ok:
  assumes "about_ok s"
  shows "about_ok (about_installed k failure s)"
proof (cases "map_of (about_installs s) k")
  case (Some run)
  obtain u d where run: "run = (u, d)" by (cases run)
  have i: "about_installs s = [(k, u, d)]" "installing (update_state s) = Some u"
    using installs_ok_cases[of "installing (update_state s)" "about_installs s" k u d] assms Some run by (simp_all add: about_ok_def)
  then have "\<not> about_checking s" "about_restarts s = 0" using assms by (cases "update_state s"; auto simp: about_ok_def)+
  with i Some run show ?thesis
    by (simp add: about_installed_def about_ok_def percent_ok_def split: option.split)
qed (simp add: about_installed_def assms)

lemma about_step_ok:
  assumes "about_ok s" and "about_event_ok s e"
  shows "about_ok (about_step s e)"
proof (cases e)
  case (Install_progress k r)
  with assms about_progress_ok show ?thesis by simp
next
  case (Install_done k failure)
  with assms about_installed_ok show ?thesis by simp
next
  case (Check_done answer)
  with assms(1) show ?thesis
    by (auto simp: about_ok_def check_answered_def percent_ok_def split: sum.split option.split)
next
  case Check_clicked
  with assms(1) show ?thesis
    by (cases "update_state s") (auto simp: about_ok_def handleCheckForUpdate_def)
next
  case Install_clicked
  with assms(1) show ?thesis
    by (cases "update_state s") (auto simp: about_ok_def handleInstall_def percent_ok_def)
next
  case Restart_clicked
  with assms show ?thesis by (auto simp: about_ok_def handleRestart_def percent_ok_def)
next
  case (Restart_failed e)
  with assms(1) show ?thesis by (auto simp: about_ok_def restart_failed_def percent_ok_def)
qed (use assms(1) in \<open>auto simp: about_ok_def percent_ok_def\<close>)

interpretation about_machine: invariant_machine about_start about_step about_event_ok about_ok
  by unfold_locales (rule about_start_ok, rule about_step_ok)

fun prompt_percent :: "prompt_state \<Rightarrow> int option" where
  "prompt_percent (Prompt_downloading u p) = p"
| "prompt_percent _ = None"

fun prompt_installing :: "prompt_state \<Rightarrow> update option" where
  "prompt_installing (Prompt_downloading u p) = Some u"
| "prompt_installing _ = None"

text \<open>The prompt asks once, so what it shows while the check is under way is nothing.\<close>

definition prompt_ok :: "update_prompt \<Rightarrow> bool" where
  "prompt_ok s \<longleftrightarrow> installs_ok (prompt_installing (prompt s)) (prompt_installs s) \<and> percent_ok (prompt_percent (prompt s))
     \<and> (prompt_due s \<or> prompt_checking s \<or> prompt_asking s \<noteq> None \<longrightarrow> prompt s = No_prompt \<and> prompt_opening s = None)
     \<and> (prompt_due s \<longrightarrow> \<not> prompt_checking s \<and> prompt_asking s = None) \<and> \<not> (prompt_checking s \<and> prompt_asking s \<noteq> None)
     \<and> (prompt_installing (prompt s) = None \<longrightarrow> prompt_installs s = [])
     \<and> (prompt_opening s \<noteq> None \<longrightarrow> prompt s = No_prompt \<or> (\<exists>u. prompt s = Prompt_available u Unsupported))"

fun prompt_event_ok :: "prompt_event \<Rightarrow> bool" where
  "prompt_event_ok (Prompt_progress k r) = sane_report r"
| "prompt_event_ok e = True"

lemma prompt_emit_simps [simp]:
  "prompt (prompt_emit e s) = prompt s" "prompt_due (prompt_emit e s) = prompt_due s"
  "prompt_checking (prompt_emit e s) = prompt_checking s" "prompt_asking (prompt_emit e s) = prompt_asking s"
  "prompt_installs (prompt_emit e s) = prompt_installs s" "prompt_opening (prompt_emit e s) = prompt_opening s"
  "prompt_active (prompt_emit e s) = prompt_active s" "prompt_effects (prompt_emit e s) = prompt_effects s @ [e]"
  by (simp_all add: prompt_emit_def)

lemma prompt_start_ok: "prompt_ok prompt_start"
  by (simp add: prompt_ok_def prompt_start_def percent_ok_def)

text \<open>A prompt that shows nothing in progress has no installation under way.\<close>

lemma prompt_rest:
  "installs_ok None [] \<and> installs_ok (Some u) [(k, u, new_download)] \<and> percent_ok None"
  by (simp add: percent_ok_def)

lemma prompt_progress_ok:
  assumes "prompt_ok s" and "sane_report r"
  shows "prompt_ok (prompt_progress k r s)"
proof (cases "map_of (prompt_installs s) k")
  case (Some run)
  obtain u d where run: "run = (u, d)" by (cases run)
  have i: "prompt_installs s = [(k, u, d)]" "prompt_installing (prompt s) = Some u" "download_ok d"
    using installs_ok_cases[of "prompt_installing (prompt s)" "prompt_installs s" k u d] assms(1) Some run by (simp_all add: prompt_ok_def)
  then have d: "download_ok (count_bytes r d)" "percent_ok (percent_of (count_bytes r d))"
    using count_bytes_ok[OF _ assms(2)] percent_of_ok by blast+
  from i(2) obtain p where "prompt s = Prompt_downloading u p" by (cases "prompt s") auto
  with assms(1) i d Some run show ?thesis
    by (cases r) (simp_all add: prompt_progress_def prompt_ok_def put_download_def Let_def)
qed (simp add: prompt_progress_def assms(1))

lemma prompt_installed_ok:
  assumes "prompt_ok s"
  shows "prompt_ok (prompt_installed k failure s)"
proof (cases "map_of (prompt_installs s) k")
  case (Some run)
  obtain u d where run: "run = (u, d)" by (cases run)
  have i: "prompt_installs s = [(k, u, d)]" "prompt_installing (prompt s) = Some u"
    using installs_ok_cases[of "prompt_installing (prompt s)" "prompt_installs s" k u d] assms Some run by (simp_all add: prompt_ok_def)
  from i(2) obtain p where "prompt s = Prompt_downloading u p" by (cases "prompt s") auto
  with assms i Some run show ?thesis
    by (cases failure) (simp_all add: prompt_installed_def prompt_ok_def, simp add: percent_ok_def)
qed (simp add: prompt_installed_def assms)

lemma prompt_step_ok:
  assumes "prompt_ok s" and "prompt_event_ok e"
  shows "prompt_ok (prompt_step s e)"
proof (cases e)
  case (Prompt_progress k r)
  with assms prompt_progress_ok show ?thesis by simp
next
  case (Prompt_installed k failure)
  with assms prompt_installed_ok show ?thesis by simp
next
  case Prompt_install_clicked
  with assms(1) show ?thesis
    by (cases "prompt s") (auto simp: prompt_install_def prompt_ok_def prompt_rest)
next
  case Startup_timer
  with assms(1) show ?thesis by (auto simp: prompt_ok_def)
next
  case (Startup_answer answer)
  with assms(1) show ?thesis
    by (auto simp: prompt_ok_def Let_def split: sum.split option.split)
next
  case (Startup_method m)
  with assms(1) show ?thesis
    by (auto simp: prompt_ok_def Let_def prompt_rest split: option.split)
next
  case Releases_opened
  with assms(1) show ?thesis
    by (auto simp: prompt_ok_def dismiss_def prompt_rest split: option.split)
next
  case Prompt_dismissed
  with assms(1) show ?thesis
    by (cases "prompt s") (auto simp: prompt_ok_def dismiss_def prompt_rest)
next
  case Prompt_unmounted
  with assms(1) show ?thesis by (simp add: prompt_ok_def)
qed

interpretation prompt_machine: invariant_machine prompt_start prompt_step "\<lambda>s. prompt_event_ok" prompt_ok
  by unfold_locales (rule prompt_start_ok, rule prompt_step_ok)

section \<open>Properties\<close>

text \<open>
  progress. In every run of the section About and of the prompt, with reports of any order as
  long as their lengths are not negative: the percentage shown is between 0 and 100, it never
  goes back within a download, and without a total length none is shown.
\<close>
theorem update_progress_bounds:
  assumes "run_ok about_step about_event_ok about_start es" and "list_all prompt_event_ok es'"
  defines "s \<equiv> foldl about_step about_start es" and "s' \<equiv> foldl prompt_step prompt_start es'"
  shows "percent_ok (state_percent (update_state s)) \<and> percent_ok (prompt_percent (prompt s'))
    \<and> (update_state s = Update_downloading u (Some p) \<and> 0 \<le> n
        \<and> map_of (about_installs s) k = Some (u, d) \<and> percent_of d = Some p \<longrightarrow>
       (\<exists>q. update_state (about_step s (Install_progress k (Dl_progress n))) = Update_downloading u (Some q) \<and> p \<le> q \<and> q \<le> 100))
    \<and> (map_of (about_installs s) k = Some (u, d) \<and> dl_total d = None \<longrightarrow>
       update_state (about_step s (Install_progress k (Dl_progress n))) = Update_downloading u None)"
proof -
  have ok: "about_ok s" using about_machine.inv_run[of es] assms(1) by (simp add: s_def)
  have "prompt_ok s'" using prompt_machine.inv_run[of es'] assms(2) by (simp add: run_ok_all s'_def)
  moreover have "\<exists>q. update_state (about_step s (Install_progress k (Dl_progress n))) = Update_downloading u (Some q) \<and> p \<le> q \<and> q \<le> 100"
    if "0 \<le> n" and run: "map_of (about_installs s) k = Some (u, d)" and p: "percent_of d = Some p"
  proof -
    have d: "download_ok d" using installs_ok_cases[of "installing (update_state s)" "about_installs s" k u d] ok run by (simp add: about_ok_def)
    from p obtain q where q: "percent_of (count_bytes (Dl_progress n) d) = Some q"
      by (auto simp: percent_of_def split: option.splits if_splits)
    with percent_grows[OF d \<open>0 \<le> n\<close> p] percent_of_ok[OF count_bytes_ok[OF d], of "Dl_progress n"] that(1) run show ?thesis
      by (auto simp: about_progress_def percent_ok_def Let_def)
  qed
  ultimately show ?thesis
    using ok by (auto simp: about_ok_def prompt_ok_def about_progress_def percent_of_def Let_def)
qed

definition sample_update :: update where
  "sample_update = \<lparr>update_version = ''2.0'', update_current = ''1.0'', update_body = None\<rparr>"

theorem update_progress_bounds_witness:
  "percent_ok (state_percent (update_state (foldl about_step about_start
     [Check_clicked, Check_done (Inr (Some sample_update)), Install_clicked,
      Install_progress 0 (Dl_started (Some 10)), Install_progress 0 (Dl_progress 25)])))"
  by (rule conjunct1[OF update_progress_bounds[where es' = "[]"]]) simp_all

text \<open>
  one installation at a time. In every run, while an installation of the prompt is under way,
  the prompt shows its progress and cannot be dismissed or start another one; the same for the
  section About, which cannot start a check either. An installation of a kind that cannot update
  itself is never started: the releases page is opened instead. (Of the section About this holds
  while it stays mounted and "Restart now" is not pressed twice before the first restart failed.)
\<close>
theorem one_installation_at_a_time:
  assumes "run_ok about_step about_event_ok about_start es" and "list_all prompt_event_ok es'"
  defines "s \<equiv> foldl about_step about_start es" and "s' \<equiv> foldl prompt_step prompt_start es'"
  shows "(prompt_installs s' \<noteq> [] \<longrightarrow> (\<exists>u p. prompt s' = Prompt_downloading u p) \<and> length (prompt_installs s') = 1
        \<and> prompt_step s' Prompt_dismissed = s' \<and> prompt_step s' Prompt_install_clicked = s')
    \<and> (about_installs s \<noteq> [] \<longrightarrow> (\<exists>u p. update_state s = Update_downloading u p) \<and> length (about_installs s) = 1
        \<and> about_step s Install_clicked = s \<and> about_step s Check_clicked = s)
    \<and> (prompt s' = Prompt_available u Unsupported \<longrightarrow>
        prompt_effects (prompt_step s' Prompt_install_clicked) = prompt_effects s' @ [Open_releases]
        \<and> prompt_installs (prompt_step s' Prompt_install_clicked) = [])"
proof -
  have ok: "about_ok s" using about_machine.inv_run[of es] assms(1) by (simp add: s_def)
  have ok': "prompt_ok s'" using prompt_machine.inv_run[of es'] assms(2) by (simp add: run_ok_all s'_def)
  have "(\<exists>u p. prompt s' = Prompt_downloading u p) \<and> length (prompt_installs s') = 1"
    if "prompt_installs s' \<noteq> []"
    using that ok' installs_ok_nonempty[of "prompt_installing (prompt s')" "prompt_installs s'"]
    by (cases "prompt s'") (simp_all add: prompt_ok_def)
  moreover have "(\<exists>u p. update_state s = Update_downloading u p) \<and> length (about_installs s) = 1"
    if "about_installs s \<noteq> []"
    using that ok installs_ok_nonempty[of "installing (update_state s)" "about_installs s"]
    by (cases "update_state s") (simp_all add: about_ok_def)
  moreover have "prompt_installs s' = []" if "prompt s' = Prompt_available u Unsupported"
    using that ok' by (simp add: prompt_ok_def)
  ultimately show ?thesis by (auto simp: prompt_install_def)
qed

theorem one_installation_at_a_time_witness:
  "let s = foldl prompt_step prompt_start
      [Startup_timer, Startup_answer (Inr (Some sample_update)), Startup_method (Some Deb), Prompt_install_clicked]
   in prompt_step s Prompt_dismissed = s"
proof -
  let ?es = "[Startup_timer, Startup_answer (Inr (Some sample_update)), Startup_method (Some Deb), Prompt_install_clicked]"
  have "prompt_installs (foldl prompt_step prompt_start ?es) \<noteq> []"
    by (simp add: prompt_start_def prompt_emit_def prompt_install_def Let_def)
  with one_installation_at_a_time[of "[]" ?es] show ?thesis unfolding Let_def by simp
qed

text \<open>A restart that fails after a successful installation is shown as a failed installation.\<close>

lemma failed_restart_shown_as_failed_install:
  "prompt (foldl prompt_step s [Prompt_installed k None, Prompt_installed k (Some e)]) = Prompt_failed u (friendlyUpdaterError e)"
  if "map_of (prompt_installs s) k = Some (u, d)"
  using that by (simp add: prompt_installed_def)

end
