(* ===== verification/Dialogs.thy ===== *)
theory Dialogs
  imports Entity_Stores
begin

text \<open>
  The dialogs and what is asked with them: \<open>useConfirm.tsx\<close>, \<open>usePrompt.tsx\<close> and \<open>Modal.tsx\<close> of
  \<open>src/src/components/common\<close>, the deletions of the panels for keys, identities and snippets, the
  context menu of a host (\<open>useHostContextMenu.tsx\<close>) and the notifications (\<open>Notifications.tsx\<close>).
\<close>

section \<open>Asking\<close>

record confirm_options =
  co_title :: "string option"
  co_danger :: "bool option"
  co_label :: "string option"

definition danger :: confirm_options where
  "danger = \<lparr>co_title = None, co_danger = Some True, co_label = None\<rparr>"

text \<open>The dialog that is shown, with the handler that waits for its answer.\<close>

record confirm_dialog =
  cd_message :: string
  cd_title :: string
  cd_danger :: bool
  cd_label :: string
  cd_handler :: nat

definition confirm_shown :: "string \<Rightarrow> confirm_options \<Rightarrow> nat \<Rightarrow> confirm_dialog" where
  "confirm_shown message options handler =
     \<lparr>cd_message = message,
      cd_title = (case co_title options of Some t \<Rightarrow> t | None \<Rightarrow> ''Confirm''),
      cd_danger = (case co_danger options of Some d \<Rightarrow> d | None \<Rightarrow> False),
      cd_label = (case co_label options of Some l \<Rightarrow> l | None \<Rightarrow> if co_danger options = Some True then ''Delete'' else ''OK''),
      cd_handler = handler\<rparr>"

section \<open>Deleting an item\<close>

text \<open>
  What differs between the panels: the question, the call, and whether the old error goes before
  the question or after it.
\<close>

record 'i deletable =
  del_message :: "'i \<Rightarrow> string"
  del_call :: "'i \<Rightarrow> bridge_call"
  del_clears_first :: bool

text \<open>
  The handlers that wait: \<open>del_asking\<close> for the answer of a dialog, \<open>del_sent\<close> for the end of the
  store's operation.
\<close>

record 'i deletion =
  del_dialog :: "confirm_dialog option"
  del_asking :: "(nat \<times> 'i) list"
  del_sent :: "(nat \<times> 'i) list"
  del_error :: "string option"
  del_calls :: "bridge_call list"
  del_next :: nat

definition no_deletion :: "'i deletion" where
  "no_deletion = \<lparr>del_dialog = None, del_asking = [], del_sent = [], del_error = None, del_calls = [], del_next = 0\<rparr>"

datatype 'i deletion_event = Delete_pressed 'i | Responded bool | Delete_ended nat "string option"

definition ask_deletion :: "'i deletable \<Rightarrow> 'i \<Rightarrow> 'i deletion \<Rightarrow> 'i deletion" where
  "ask_deletion p x s =
     s\<lparr>del_error := (if del_clears_first p then None else del_error s),
       del_dialog := Some (confirm_shown (del_message p x) danger (del_next s)),
       del_asking := del_asking s @ [(del_next s, x)], del_next := Suc (del_next s)\<rparr>"

text \<open>The rest of the handler, from the answer to the call.\<close>

definition deletion_answered :: "'i deletable \<Rightarrow> nat \<Rightarrow> bool \<Rightarrow> 'i deletion \<Rightarrow> 'i deletion" where
  "deletion_answered p k yes s =
     (case map_of (del_asking s) k of
        None \<Rightarrow> s
      | Some x \<Rightarrow>
          (let s1 = s\<lparr>del_asking := filter (\<lambda>(j, y). j \<noteq> k) (del_asking s)\<rparr>
           in if \<not> yes then s1
              else s1\<lparr>del_error := (if del_clears_first p then del_error s else None),
                      del_sent := del_sent s @ [(k, x)], del_calls := del_calls s @ [del_call p x]\<rparr>))"

text \<open>\<open>respond\<close>: the handler of the shown dialog goes on and the dialog closes.\<close>

definition respond :: "'i deletable \<Rightarrow> bool \<Rightarrow> 'i deletion \<Rightarrow> 'i deletion" where
  "respond p yes s =
     (case del_dialog s of
        None \<Rightarrow> s
      | Some d \<Rightarrow> (deletion_answered p (cd_handler d) yes s)\<lparr>del_dialog := None\<rparr>)"

definition deletion_ended :: "nat \<Rightarrow> string option \<Rightarrow> 'i deletion \<Rightarrow> 'i deletion" where
  "deletion_ended k failure s =
     (case map_of (del_sent s) k of
        None \<Rightarrow> s
      | Some x \<Rightarrow>
          s\<lparr>del_sent := filter (\<lambda>(j, y). j \<noteq> k) (del_sent s),
            del_error := (case failure of None \<Rightarrow> del_error s | Some e \<Rightarrow> Some e)\<rparr>)"

fun deletion_step :: "'i deletable \<Rightarrow> 'i deletion \<Rightarrow> 'i deletion_event \<Rightarrow> 'i deletion" where
  "deletion_step p s (Delete_pressed x) = ask_deletion p x s"
| "deletion_step p s (Responded yes) = respond p yes s"
| "deletion_step p s (Delete_ended k failure) = deletion_ended k failure s"

definition deletion_run :: "'i deletable \<Rightarrow> 'i deletion_event list \<Rightarrow> 'i deletion" where
  "deletion_run p es = foldl (deletion_step p) no_deletion es"

text \<open>The panels. A template literal is a concatenation.\<close>

definition keys_panel :: "ssh_key deletable" where
  "keys_panel =
     \<lparr>del_message = (\<lambda>k. ''Delete key \"'' @ key_label k @ ''\"? Identities using it will need a replacement.''),
      del_call = (\<lambda>k. hosts_mutation_call (DeleteKey (key_id k))), del_clears_first = True\<rparr>"

definition identities_panel :: "identity deletable" where
  "identities_panel =
     \<lparr>del_message = (\<lambda>i. ''Delete identity \"'' @ identity_label i @ ''\"?''),
      del_call = (\<lambda>i. hosts_mutation_call (DeleteIdentity (identity_id i))), del_clears_first = True\<rparr>"

definition snippets_panel :: "snippet deletable" where
  "snippets_panel =
     \<lparr>del_message = (\<lambda>s. ''Delete snippet \"'' @ snippet_label s @ ''\"?''),
      del_call = (\<lambda>s. snippets_mutation_call (DeleteSnippet (snippet_id s))), del_clears_first = True\<rparr>"

definition host_menu_deletion :: "host deletable" where
  "host_menu_deletion =
     \<lparr>del_message = (\<lambda>h. ''Delete host \"'' @ host_label h @ ''\"?''),
      del_call = (\<lambda>h. hosts_mutation_call (DeleteHost (host_id h))), del_clears_first = True\<rparr>"

definition group_menu_deletion :: "group deletable" where
  "group_menu_deletion =
     \<lparr>del_message = (\<lambda>g. ''Delete group \"'' @ group_name g @ ''\"? Hosts inside become ungrouped.''),
      del_call = (\<lambda>g. hosts_mutation_call (DeleteGroup (group_id g))), del_clears_first = True\<rparr>"

section \<open>The context menu of a host\<close>

record host_menu =
  menu_host :: "host option"
  menu_connects :: "host list"
  menu_edits :: "host list"
  menu_calls :: "bridge_call list"
  menu_deletion :: "host deletion"

definition host_menu_start :: host_menu where
  "host_menu_start = \<lparr>menu_host = None, menu_connects = [], menu_edits = [], menu_calls = [], menu_deletion = no_deletion\<rparr>"

definition duplicate_input :: "host \<Rightarrow> host_input" where
  "duplicate_input h =
     \<lparr>hi_group_id = host_group_id h, hi_label = host_label h @ '' (copy)'', hi_hostname = host_hostname h,
      hi_port = host_port h, hi_identity_id = host_identity_id h, hi_vpn_profile_id = host_vpn_profile_id h,
      hi_color = host_color h, hi_icon = host_icon h, hi_notes = host_notes h, hi_sort_order = host_sort_order h,
      hi_tag_ids = map tag_id (host_tags h)\<rparr>"

definition handleDuplicate :: "host \<Rightarrow> host_menu \<Rightarrow> host_menu" where
  "handleDuplicate h s =
     s\<lparr>menu_host := None, menu_calls := menu_calls s @ [hosts_mutation_call (CreateHost (duplicate_input h))]\<rparr>"

definition handleDeleteHost :: "host \<Rightarrow> host_menu \<Rightarrow> host_menu" where
  "handleDeleteHost h s = s\<lparr>menu_host := None, menu_deletion := ask_deletion host_menu_deletion h (menu_deletion s)\<rparr>"

text \<open>
  \<open>Menu_outside\<close>: a click, a right click or Escape that reaches the window. \<open>Row_delete\<close>: the button in
  the row of the sidebar, which bypasses the menu.
\<close>

datatype host_menu_event =
    Menu_opened host | Menu_outside | Menu_connect | Menu_duplicate | Menu_edit | Menu_delete | Row_delete host
  | Menu_deletion_event "host deletion_event"

fun host_menu_step :: "host_menu \<Rightarrow> host_menu_event \<Rightarrow> host_menu" where
  "host_menu_step s (Menu_opened h) = s\<lparr>menu_host := Some h\<rparr>"
| "host_menu_step s Menu_outside = s\<lparr>menu_host := None\<rparr>"
| "host_menu_step s Menu_connect =
     (case menu_host s of
        Some h \<Rightarrow> if truthy (host_identity_id h) then s\<lparr>menu_host := None, menu_connects := menu_connects s @ [h]\<rparr> else s
      | None \<Rightarrow> s)"
| "host_menu_step s Menu_duplicate = (case menu_host s of Some h \<Rightarrow> handleDuplicate h s | None \<Rightarrow> s)"
| "host_menu_step s Menu_edit =
     (case menu_host s of Some h \<Rightarrow> s\<lparr>menu_host := None, menu_edits := menu_edits s @ [h]\<rparr> | None \<Rightarrow> s)"
| "host_menu_step s Menu_delete = (case menu_host s of Some h \<Rightarrow> handleDeleteHost h s | None \<Rightarrow> s)"
| "host_menu_step s (Row_delete h) = handleDeleteHost h s"
| "host_menu_step s (Menu_deletion_event e) =
     (case e of
        Delete_pressed h \<Rightarrow> s
      | _ \<Rightarrow> s\<lparr>menu_deletion := deletion_step host_menu_deletion (menu_deletion s) e\<rparr>)"

section \<open>The focus trap of a dialog\<close>

text \<open>
  \<open>onKeyDown\<close>: \<open>focusable\<close> are the elements of the dialog that can be focused, in the order of the
  document, \<open>active\<close> is the focused element.
\<close>

datatype 'e key_outcome = Modal_close | Modal_prevent | Modal_focus 'e | Browser_default

definition modal_keydown :: "string \<Rightarrow> bool \<Rightarrow> bool \<Rightarrow> 'e list \<Rightarrow> 'e \<Rightarrow> 'e key_outcome" where
  "modal_keydown key shift dismissible focusable active =
     (if key = ''Escape'' \<and> dismissible then Modal_close
      else if key = ''Tab'' then
        (if focusable = [] then Modal_prevent
         else if shift \<and> active = hd focusable then Modal_focus (last focusable)
         else if \<not> shift \<and> active = last focusable then Modal_focus (hd focusable)
         else Browser_default)
      else Browser_default)"

text \<open>The element focused when the dialog opens: the first one, or the dialog's own box.\<close>

definition modal_focus :: "'e \<Rightarrow> 'e list \<Rightarrow> 'e" where
  "modal_focus box focusable = (case focusable of [] \<Rightarrow> box | x # xs \<Rightarrow> x)"

text \<open>
  What the browser does with Tab: the next element in the order of the document, or the previous
  one; none is the end of the page. The box of the dialog is not in that order; from it, the
  browser goes to its first element, or back to the last element before it.
\<close>

fun succ_in :: "'e list \<Rightarrow> 'e \<Rightarrow> 'e option" where
  "succ_in (x # y # zs) a = (if x = a then Some y else succ_in (y # zs) a)"
| "succ_in _ a = None"

definition browser_tab :: "bool \<Rightarrow> 'e list \<Rightarrow> 'e list \<Rightarrow> 'e list \<Rightarrow> 'e \<Rightarrow> 'e \<Rightarrow> 'e option" where
  "browser_tab shift before inside after box active =
     (if active = box then
        (if shift then (if before = [] then None else Some (last before))
         else case inside @ after of [] \<Rightarrow> None | x # xs \<Rightarrow> Some x)
      else if shift then succ_in (rev (before @ inside @ after)) active
      else succ_in (before @ inside @ after) active)"

definition tab_pressed :: "bool \<Rightarrow> 'e list \<Rightarrow> 'e list \<Rightarrow> 'e list \<Rightarrow> 'e \<Rightarrow> 'e \<Rightarrow> 'e option" where
  "tab_pressed shift before inside after box active =
     (case modal_keydown ''Tab'' shift True inside active of
        Modal_focus e \<Rightarrow> Some e
      | Browser_default \<Rightarrow> browser_tab shift before inside after box active
      | _ \<Rightarrow> Some active)"

section \<open>Notifications\<close>

datatype notification_intent = Intent_success | Intent_error | Intent_info

record notification =
  note_id :: nat
  note_message :: string
  note_intent :: notification_intent

record notifications =
  note_next :: nat
  note_items :: "notification list"
  note_timers :: "(nat \<times> nat) list"

definition no_notifications :: notifications where
  "no_notifications = \<lparr>note_next = 0, note_items = [], note_timers = []\<rparr>"

definition last_two :: "'a list \<Rightarrow> 'a list" where
  "last_two xs = drop (length xs - 2) xs"

definition notify :: "nat \<Rightarrow> string \<Rightarrow> notification_intent \<Rightarrow> notifications \<Rightarrow> notifications" where
  "notify now message intent s =
     (let i = Suc (note_next s)
      in s\<lparr>note_next := i,
           note_items := last_two (note_items s) @ [\<lparr>note_id = i, note_message = message, note_intent = intent\<rparr>],
           note_timers := note_timers s @ [(now + 4200, i)]\<rparr>)"

text \<open>The timers that are due at \<open>now\<close> run.\<close>

definition timers_run :: "nat \<Rightarrow> notifications \<Rightarrow> notifications" where
  "timers_run now s =
     (let due = [i. (t, i) \<leftarrow> note_timers s, t \<le> now]
      in s\<lparr>note_items := filter (\<lambda>n. note_id n \<notin> set due) (note_items s),
           note_timers := filter (\<lambda>(t, i). now < t) (note_timers s)\<rparr>)"

datatype notification_event = Notified nat string notification_intent | Clock nat

fun notification_step :: "notifications \<Rightarrow> notification_event \<Rightarrow> notifications" where
  "notification_step s (Notified now message intent) = notify now message intent s"
| "notification_step s (Clock now) = timers_run now s"

section \<open>Lemmas\<close>

text \<open>What a user sees and decides: the item of the last question, and the items whose question was answered with yes.\<close>

fun asked_item :: "'i option \<Rightarrow> 'i deletion_event list \<Rightarrow> 'i option" where
  "asked_item shown [] = shown"
| "asked_item shown (Delete_pressed x # es) = asked_item (Some x) es"
| "asked_item shown (Responded yes # es) = asked_item None es"
| "asked_item shown (Delete_ended k failure # es) = asked_item shown es"

fun confirmed_items :: "'i option \<Rightarrow> 'i deletion_event list \<Rightarrow> 'i list" where
  "confirmed_items shown [] = []"
| "confirmed_items shown (Delete_pressed x # es) = confirmed_items (Some x) es"
| "confirmed_items shown (Responded yes # es) =
     (case shown of Some x \<Rightarrow> if yes then [x] else [] | None \<Rightarrow> []) @ confirmed_items None es"
| "confirmed_items shown (Delete_ended k failure # es) = confirmed_items shown es"

text \<open>The question on the screen is that of a handler that waits, and handlers have distinct numbers.\<close>

definition asks :: "'i deletable \<Rightarrow> 'i option \<Rightarrow> 'i deletion \<Rightarrow> bool" where
  "asks p shown s \<longleftrightarrow>
     (\<forall>k\<in>fst ` set (del_asking s). k < del_next s)
     \<and> (case shown of
          None \<Rightarrow> del_dialog s = None
        | Some x \<Rightarrow> \<exists>k. del_dialog s = Some (confirm_shown (del_message p x) danger k) \<and> map_of (del_asking s) k = Some x)"

lemma map_of_fresh: "k \<notin> fst ` set xs \<Longrightarrow> map_of (xs @ [(k, x)]) k = Some x"
  by (induction xs) auto

lemma asks_pressed:
  assumes "asks p shown s"
  shows "asks p (Some x) (ask_deletion p x s)"
proof -
  have old: "\<forall>k\<in>fst ` set (del_asking s). k < del_next s" using assms by (simp add: asks_def)
  then have "del_next s \<notin> fst ` set (del_asking s)" by blast
  with old map_of_fresh[OF this] show ?thesis
    by (auto simp: asks_def ask_deletion_def ball_Un less_Suc_eq simp del: map_of_append intro!: exI[of _ "del_next s"])
qed

lemma asks_responded:
  assumes "asks p shown s"
  shows "asks p None (respond p yes s)"
    and "del_calls (respond p yes s) = del_calls s @ map (del_call p) (case shown of Some x \<Rightarrow> if yes then [x] else [] | None \<Rightarrow> [])"
  using assms
  by (auto simp: asks_def respond_def deletion_answered_def confirm_shown_def Let_def split: option.splits)

lemma asks_ended: "asks p shown s \<Longrightarrow> asks p shown (deletion_ended k failure s) \<and> del_calls (deletion_ended k failure s) = del_calls s"
  by (auto simp: asks_def deletion_ended_def split: option.split)

lemma deletion_follows_user:
  assumes "asks p shown s"
  shows "asks p (asked_item shown es) (foldl (deletion_step p) s es)
    \<and> del_calls (foldl (deletion_step p) s es) = del_calls s @ map (del_call p) (confirmed_items shown es)"
  using assms
proof (induction es arbitrary: shown s)
  case (Cons e es)
  show ?case
  proof (cases e)
    case (Delete_pressed x)
    with Cons.IH[OF asks_pressed[OF Cons.prems, of x]] show ?thesis by (simp add: ask_deletion_def)
  next
    case (Responded yes)
    with Cons.IH[OF asks_responded(1)[OF Cons.prems, of yes]] asks_responded(2)[OF Cons.prems, of yes] show ?thesis by simp
  next
    case (Delete_ended k failure)
    with Cons.IH[OF conjunct1[OF asks_ended[OF Cons.prems, of k failure]]] asks_ended[OF Cons.prems, of k failure]
    show ?thesis by simp
  qed
qed simp

lemma succ_in_nth:
  "distinct xs \<Longrightarrow> i < length xs \<Longrightarrow> succ_in xs (xs ! i) = (if Suc i < length xs then Some (xs ! Suc i) else None)"
proof (induction xs "xs ! i" arbitrary: i rule: succ_in.induct)
  case (1 x y zs)
  show ?case
  proof (cases i)
    case (Suc j)
    with 1 have "x \<noteq> (y # zs) ! j" by (metis distinct.simps(2) length_Cons nth_Cons_Suc nth_mem Suc_less_SucD)
    with 1 Suc show ?thesis by simp
  qed simp
qed auto

text \<open>At most three items, in the order of their numbers, each with its timer and the event that raised it.\<close>

definition notes_ok :: "notification_event set \<Rightarrow> notifications \<Rightarrow> bool" where
  "notes_ok seen s \<longleftrightarrow>
     length (note_items s) \<le> 3 \<and> sorted_wrt (<) (map note_id (note_items s))
     \<and> (\<forall>n\<in>set (note_items s). note_id n \<le> note_next s
         \<and> (\<exists>t. (t + 4200, note_id n) \<in> set (note_timers s) \<and> Notified t (note_message n) (note_intent n) \<in> seen))"

lemma last_two_sub: "set (last_two xs) \<subseteq> set xs" "length (last_two xs) \<le> 2" "sorted_wrt P xs \<Longrightarrow> sorted_wrt P (last_two xs)"
  "map f (last_two xs) = last_two (map f xs)"
  by (auto simp: last_two_def sorted_wrt_drop drop_map dest: in_set_dropD)

lemma notes_ok_notify:
  assumes "notes_ok seen s"
  shows "notes_ok (insert (Notified now m i) seen) (notify now m i s)"
proof -
  let ?old = "last_two (note_items s)"
  have all_items: "\<forall>n\<in>set (note_items s). note_id n \<le> note_next s
      \<and> (\<exists>t. (t + 4200, note_id n) \<in> set (note_timers s) \<and> Notified t (note_message n) (note_intent n) \<in> seen)"
    and sorted: "sorted_wrt (<) (map note_id (note_items s))"
    using assms unfolding notes_ok_def by simp_all
  have old: "\<forall>n\<in>set ?old. note_id n \<le> note_next s
      \<and> (\<exists>t. (t + 4200, note_id n) \<in> set (note_timers s) \<and> Notified t (note_message n) (note_intent n) \<in> seen)"
    using all_items last_two_sub(1)[of "note_items s"] by (meson subsetD)
  moreover have "sorted_wrt (<) (map note_id ?old)"
    unfolding last_two_sub(4) by (rule last_two_sub(3)[OF sorted])
  ultimately show ?thesis
    using last_two_sub(2)[of "note_items s"]
    by (auto simp: notes_ok_def notify_def Let_def sorted_wrt_append le_Suc_eq)
qed

lemma kept_timer:
  assumes "n \<in> set (note_items (timers_run now s))" and "(t, note_id n) \<in> set (note_timers s)"
  shows "now < t"
proof (rule ccontr)
  assume "\<not> now < t"
  with assms(2) have "note_id n \<in> set [i. (t, i) \<leftarrow> note_timers s, t \<le> now]" by (auto intro!: bexI[of _ "(t, note_id n)"])
  with assms(1) show False unfolding timers_run_def Let_def by auto
qed

lemma notes_ok_clock:
  assumes "notes_ok seen s"
  shows "notes_ok seen (timers_run now s)"
proof -
  have items: "note_items (timers_run now s) = filter (\<lambda>n. note_id n \<notin> set [i. (t, i) \<leftarrow> note_timers s, t \<le> now]) (note_items s)"
    and timers: "note_timers (timers_run now s) = filter (\<lambda>(t, i). now < t) (note_timers s)"
    and number: "note_next (timers_run now s) = note_next s" by (simp_all add: timers_run_def Let_def)
  have sub: "n \<in> set (note_items s)" if "n \<in> set (note_items (timers_run now s))" for n
    using that unfolding items by simp
  have "length (note_items (timers_run now s)) \<le> 3"
    using assms length_filter_le le_trans unfolding items notes_ok_def by blast
  moreover have "sorted_wrt (<) (map note_id (note_items (timers_run now s)))"
    using assms unfolding items notes_ok_def by (simp add: sorted_wrt_map sorted_wrt_filter)
  moreover have "\<exists>t. (t + 4200, note_id n) \<in> set (note_timers (timers_run now s)) \<and> Notified t (note_message n) (note_intent n) \<in> seen"
    if n: "n \<in> set (note_items (timers_run now s))" for n
  proof -
    from assms sub[OF n] obtain t where t: "(t + 4200, note_id n) \<in> set (note_timers s)"
      "Notified t (note_message n) (note_intent n) \<in> seen" unfolding notes_ok_def by blast
    with kept_timer[OF n t(1)] show ?thesis unfolding timers by auto
  qed
  ultimately show ?thesis
    using assms sub unfolding notes_ok_def number by blast
qed

lemma notes_ok_run: "notes_ok seen s \<Longrightarrow> notes_ok (seen \<union> set es) (foldl notification_step s es)"
proof (induction es arbitrary: seen s)
  case (Cons e es)
  then show ?case
  proof (cases e)
    case (Notified now m i)
    with Cons.IH[OF notes_ok_notify[OF Cons.prems]] show ?thesis by simp
  next
    case (Clock now)
    have "notes_ok (insert e seen) (timers_run now s)"
      using notes_ok_clock[OF Cons.prems, of now] unfolding notes_ok_def by blast
    from Cons.IH[OF this] Clock show ?thesis by simp
  qed
qed simp

section \<open>Properties\<close>

text \<open>
  C16: nothing is deleted unasked. For every panel and every sequence of presses, answers and ends of
  calls, the calls sent are exactly the deletions of the items whose question was on the screen
  when the button "Delete" was pressed, in that order; and what is on the screen is the danger
  question of the last item pressed, and no question after an answer.
\<close>
theorem nothing_deleted_unasked:
  "del_calls (deletion_run p es) = map (del_call p) (confirmed_items None es)
    \<and> (case asked_item None es of
         None \<Rightarrow> del_dialog (deletion_run p es) = None
       | Some x \<Rightarrow> \<exists>k. del_dialog (deletion_run p es)
           = Some \<lparr>cd_message = del_message p x, cd_title = ''Confirm'', cd_danger = True, cd_label = ''Delete'', cd_handler = k\<rparr>)"
proof -
  have "asks p None no_deletion" by (simp add: asks_def no_deletion_def)
  from deletion_follows_user[OF this, of es] show ?thesis
    by (auto simp: deletion_run_def no_deletion_def asks_def confirm_shown_def danger_def split: option.split)
qed

text \<open>
  the focus trap. While an element of the dialog has the focus, Tab and Shift+Tab go round the
  dialog's elements, whatever is in the page around it. From the dialog's own box, which has the
  focus after a click beside its elements, Shift+Tab leaves the dialog for the page behind it.
\<close>
theorem focus_goes_round:
  assumes "distinct (before @ inside @ after)" and "box \<notin> set (before @ inside @ after)" and "i < length inside"
  shows "tab_pressed False before inside after box (inside ! i) = Some (inside ! (Suc i mod length inside))
    \<and> tab_pressed True before inside after box (inside ! i) = Some (inside ! ((i + length inside - 1) mod length inside))
    \<and> (before \<noteq> [] \<longrightarrow> tab_pressed True before inside after box box = Some (last before))"
proof -
  let ?n = "length inside" and ?page = "before @ inside @ after" and ?m = "length before"
  have ne: "inside \<noteq> []" using assms(3) by auto
  have mem: "inside ! i \<noteq> box" "hd inside \<noteq> box"
    using assms(2,3) ne hd_in_set[OF ne] by fastforce+
  have d: "distinct inside" using assms(1) by simp
  have ends: "inside ! i = last inside \<longleftrightarrow> Suc i = ?n" "inside ! i = hd inside \<longleftrightarrow> i = 0"
    using nth_eq_iff_index_eq[OF d assms(3), of "?n - 1"] nth_eq_iff_index_eq[OF d assms(3), of 0] assms(3)
    by (simp_all add: last_conv_nth[OF ne] hd_conv_nth[OF ne] ne) (cases ?n; auto)
  have page: "?page ! (?m + i) = inside ! i" using assms(3) by (simp add: nth_append)
  have "succ_in ?page (inside ! i) = Some (inside ! Suc i)" if "Suc i < ?n"
    using succ_in_nth[OF assms(1), of "?m + i"] that by (simp add: nth_append)
  then have forward: "tab_pressed False before inside after box (inside ! i) = Some (inside ! (Suc i mod ?n))"
    using ne mem ends assms(3) by (auto simp: tab_pressed_def modal_keydown_def browser_tab_def hd_conv_nth)
  have "succ_in (rev ?page) (inside ! i) = Some (inside ! (i - 1))" if "0 < i"
  proof -
    let ?j = "length ?page - 1 - (?m + i)"
    have L: "?m + i < length ?page" "0 < ?m + i" using assms(3) that by simp_all
    then have j: "length ?page - Suc ?j = ?m + i" "length ?page - Suc (Suc ?j) = ?m + i - 1"
      "?j < length ?page" "Suc ?j < length (rev ?page)" unfolding length_rev by linarith+
    have prev: "?page ! (?m + i - 1) = inside ! (i - 1)" using that assms(3) by (cases i) (simp_all add: nth_append)
    have "rev ?page ! ?j = inside ! i" using rev_nth[OF j(3)] unfolding j(1) page .
    moreover have "rev ?page ! Suc ?j = inside ! (i - 1)"
      using rev_nth[OF j(4)[unfolded length_rev]] unfolding j(2) prev .
    moreover have "distinct (rev ?page)" using assms(1) by (simp only: distinct_rev)
    ultimately show ?thesis
      using succ_in_nth[of "rev ?page" ?j] j(3,4) by (simp del: rev_append)
  qed
  then have "tab_pressed True before inside after box (inside ! i) = Some (inside ! ((i + ?n - 1) mod ?n))"
    using ne mem ends assms(3) mod_add_self2[of "i - 1" ?n]
    by (cases "i = 0") (auto simp: tab_pressed_def modal_keydown_def browser_tab_def last_conv_nth)
  with forward show ?thesis
    using ne mem by (simp add: tab_pressed_def modal_keydown_def browser_tab_def)
qed

theorem focus_goes_round_witness:
  "tab_pressed True [''menu''] [''name'', ''save''] [''log''] ''box'' ''name'' = Some ''save''"
  using focus_goes_round[of "[''menu'']" "[''name'', ''save'']" "[''log'']" "''box''" 0] by simp

text \<open>
  notifications do not pile up: in every run at most three are on the screen, the newest last, and
  after the timers have run every one on the screen was raised less than 4.2 seconds ago.
\<close>
theorem notifications_bounded:
  "let s = foldl notification_step no_notifications es in
     length (note_items s) \<le> 3 \<and> sorted_wrt (<) (map note_id (note_items s))
     \<and> (\<forall>n\<in>set (note_items (timers_run now s)). \<exists>t. Notified t (note_message n) (note_intent n) \<in> set es \<and> now < t + 4200)"
proof -
  let ?s = "foldl notification_step no_notifications es"
  have ok: "notes_ok ({} \<union> set es) ?s"
    by (rule notes_ok_run) (simp add: notes_ok_def no_notifications_def)
  have "\<exists>t. Notified t (note_message n) (note_intent n) \<in> set es \<and> now < t + 4200"
    if n: "n \<in> set (note_items (timers_run now ?s))" for n
  proof -
    have "n \<in> set (note_items ?s)" using n by (simp add: timers_run_def Let_def)
    with ok obtain t where t: "(t + 4200, note_id n) \<in> set (note_timers ?s)" "Notified t (note_message n) (note_intent n) \<in> set es"
      unfolding notes_ok_def by auto
    with kept_timer[OF n t(1)] show ?thesis by blast
  qed
  with ok show ?thesis unfolding Let_def notes_ok_def by blast
qed

text \<open>
  A copy differs from its original in the label only; nothing is asked, and the menu closes. A host
  without an identity cannot be connected from the menu.
\<close>

lemma menu_duplicates:
  assumes "menu_host s = Some h"
  shows "menu_calls (host_menu_step s Menu_duplicate) = menu_calls s @ [Host_call (HostCreate (duplicate_input h))]"
    and "menu_host (host_menu_step s Menu_duplicate) = None"
    and "\<not> truthy (host_identity_id h) \<Longrightarrow> host_menu_step s Menu_connect = s"
  using assms by (simp_all add: handleDuplicate_def)

lemma row_delete_asks_like_menu:
  "menu_host s = Some h \<Longrightarrow> host_menu_step s Menu_delete = host_menu_step s (Row_delete h)"
  by simp

end
