(* ===== verification/Settings_Panel.thy ===== *)
theory Settings_Panel
  imports Dialogs Settings_Store Host_Form
begin

text \<open>
  Two sections of \<open>src/src/components/panels/SettingsPanel.tsx\<close>: the pinned host keys
  (\<open>KnownHostsSection\<close>) and the keys of the AI providers (\<open>AiAssistantSection\<close>). The section "About" is
  in the theory Updates; the other controls of the panel each set one field of the settings store.
\<close>

section \<open>Known hosts\<close>

record known_host =
  kh_hostname :: string
  kh_port :: int
  kh_fingerprint :: string
  kh_accepted_at :: string

text \<open>A whole number that is not negative, as a template literal prints it.\<close>

fun decimal :: "nat \<Rightarrow> string" where
  "decimal n = (if n < 10 then [char_of (48 + n)] else decimal (n div 10) @ [char_of (48 + n mod 10)])"

declare decimal.simps [simp del]

definition known_host_deletion :: "known_host deletable" where
  "known_host_deletion =
     \<lparr>del_message = (\<lambda>h. ''Remove the pinned key for '' @ kh_hostname h @ '':'' @ decimal (nat (kh_port h))
        @ ''? The next connection will trust whatever key it presents, same as connecting for the first time.''),
      del_call = (\<lambda>h. Known_hosts_call (KnownHostsDelete (kh_hostname h) (kh_port h))), del_clears_first = False\<rparr>"

text \<open>\<open>kh_loads\<close> counts the lists that are asked for. They carry no number.\<close>

record known_hosts =
  kh_hosts :: "known_host list"
  kh_loaded :: bool
  kh_loads :: nat
  kh_deletion :: "known_host deletion"

definition kh_load :: "known_hosts \<Rightarrow> known_hosts" where
  "kh_load s =
     s\<lparr>kh_loads := Suc (kh_loads s),
       kh_deletion := (kh_deletion s)\<lparr>del_calls := del_calls (kh_deletion s) @ [Known_hosts_call KnownHostsList]\<rparr>\<rparr>"

definition known_hosts_start :: known_hosts where
  "known_hosts_start = kh_load \<lparr>kh_hosts = [], kh_loaded = False, kh_loads = 0, kh_deletion = no_deletion\<rparr>"

definition kh_listed :: "string + known_host list \<Rightarrow> known_hosts \<Rightarrow> known_hosts" where
  "kh_listed answer s =
     (if kh_loads s = 0 then s
      else let s1 = s\<lparr>kh_loads := kh_loads s - 1\<rparr>
        in case answer of
             Inl e \<Rightarrow> s1\<lparr>kh_deletion := (kh_deletion s1)\<lparr>del_error := Some e\<rparr>\<rparr>
           | Inr hs \<Rightarrow> s1\<lparr>kh_hosts := hs, kh_loaded := True\<rparr>)"

datatype known_hosts_event = Kh_listed "string + known_host list" | Kh_deletion "known_host deletion_event"

text \<open>\<open>handleDelete\<close>: after a deletion that succeeded the list is asked for again.\<close>

fun known_hosts_step :: "known_hosts \<Rightarrow> known_hosts_event \<Rightarrow> known_hosts" where
  "known_hosts_step s (Kh_listed answer) = kh_listed answer s"
| "known_hosts_step s (Kh_deletion e) =
     (let s1 = s\<lparr>kh_deletion := deletion_step known_host_deletion (kh_deletion s) e\<rparr>
      in case e of
           Delete_ended k None \<Rightarrow> if map_of (del_sent (kh_deletion s)) k = None then s1 else kh_load s1
         | _ \<Rightarrow> s1)"

text \<open>The line "No pinned host keys yet."\<close>

definition kh_shows_empty :: "known_hosts \<Rightarrow> bool" where
  "kh_shows_empty s \<longleftrightarrow> kh_loaded s \<and> kh_hosts s = []"

section \<open>The keys of the AI providers\<close>

record ai_settings_status =
  openai_configured :: bool
  anthropic_configured :: bool

fun is_configured :: "ai_provider \<Rightarrow> ai_settings_status \<Rightarrow> bool" where
  "is_configured Openai st = openai_configured st"
| "is_configured Anthropic st = anthropic_configured st"

record ai_inputs =
  openaiKey :: string
  openaiModel :: string
  anthropicKey :: string
  anthropicModel :: string

fun typed_key :: "ai_provider \<Rightarrow> ai_inputs \<Rightarrow> string" where
  "typed_key Openai i = openaiKey i"
| "typed_key Anthropic i = anthropicKey i"

fun typed_model :: "ai_provider \<Rightarrow> ai_inputs \<Rightarrow> string" where
  "typed_model Openai i = openaiModel i"
| "typed_model Anthropic i = anthropicModel i"

fun type_key :: "ai_provider \<Rightarrow> string \<Rightarrow> ai_inputs \<Rightarrow> ai_inputs" where
  "type_key Openai x i = i\<lparr>openaiKey := x\<rparr>"
| "type_key Anthropic x i = i\<lparr>anthropicKey := x\<rparr>"

fun type_model :: "ai_provider \<Rightarrow> string \<Rightarrow> ai_inputs \<Rightarrow> ai_inputs" where
  "type_model Openai x i = i\<lparr>openaiModel := x\<rparr>"
| "type_model Anthropic x i = i\<lparr>anthropicModel := x\<rparr>"

text \<open>
  The handlers that wait, each with the \<open>aiActiveProvider\<close> of its render. \<open>as_active\<close> is the field of
  the settings store.
\<close>

datatype ai_task = Status_read | Key_saved ai_provider "ai_provider option" | Key_cleared ai_provider "ai_provider option"

record ai_section =
  as_status :: "ai_settings_status option"
  as_error :: "string option"
  as_inputs :: ai_inputs
  as_saving :: "ai_provider option"
  as_active :: "ai_provider option"
  as_tasks :: "(nat \<times> ai_task) list"
  as_next :: nat
  as_calls :: "bridge_call list"

definition ai_begin :: "ai_task \<Rightarrow> ai_call \<Rightarrow> ai_section \<Rightarrow> ai_section" where
  "ai_begin t c s =
     s\<lparr>as_tasks := as_tasks s @ [(as_next s, t)], as_next := Suc (as_next s), as_calls := as_calls s @ [Ai_call c]\<rparr>"

definition ai_load :: "ai_section \<Rightarrow> ai_section" where
  "ai_load s = ai_begin Status_read AiSettingsStatus s"

definition ai_section_start :: "ai_provider option \<Rightarrow> ai_section" where
  "ai_section_start active =
     ai_load \<lparr>as_status = None, as_error = None,
       as_inputs = \<lparr>openaiKey = [], openaiModel = [], anthropicKey = [], anthropicModel = []\<rparr>,
       as_saving = None, as_active = active, as_tasks = [], as_next = 0, as_calls = []\<rparr>"

text \<open>\<open>handleSave\<close> and its button.\<close>

definition save_key :: "ai_provider \<Rightarrow> ai_section \<Rightarrow> ai_section" where
  "save_key p s =
     (let key = trim (typed_key p (as_inputs s))
      in if key = [] \<or> as_saving s = Some p then s
         else ai_begin (Key_saved p (as_active s)) (AiSettingsSet p key (or_null (trim (typed_model p (as_inputs s)))))
           (s\<lparr>as_saving := Some p, as_error := None\<rparr>))"

definition key_saved :: "ai_provider \<Rightarrow> ai_provider option \<Rightarrow> string option \<Rightarrow> ai_section \<Rightarrow> ai_section" where
  "key_saved p active failure s =
     (case failure of
        Some e \<Rightarrow> s\<lparr>as_error := Some e, as_saving := None\<rparr>
      | None \<Rightarrow>
          (ai_load (s\<lparr>as_inputs := type_model p [] (type_key p [] (as_inputs s)),
             as_active := (if active = None then Some p else as_active s)\<rparr>))\<lparr>as_saving := None\<rparr>)"

text \<open>\<open>handleClear\<close>; its button is there for a provider that is shown as configured.\<close>

definition clear_key :: "ai_provider \<Rightarrow> ai_section \<Rightarrow> ai_section" where
  "clear_key p s =
     (if (case as_status s of None \<Rightarrow> False | Some st \<Rightarrow> is_configured p st)
      then ai_begin (Key_cleared p (as_active s)) (AiSettingsClear p) (s\<lparr>as_error := None\<rparr>) else s)"

definition key_cleared :: "ai_provider \<Rightarrow> ai_provider option \<Rightarrow> string option \<Rightarrow> ai_section \<Rightarrow> ai_section" where
  "key_cleared p active failure s =
     (case failure of
        Some e \<Rightarrow> s\<lparr>as_error := Some e\<rparr>
      | None \<Rightarrow> ai_load (s\<lparr>as_active := (if active = Some p then None else as_active s)\<rparr>))"

definition status_read :: "string + ai_settings_status \<Rightarrow> ai_section \<Rightarrow> ai_section" where
  "status_read answer s = (case answer of Inl e \<Rightarrow> s\<lparr>as_error := Some e\<rparr> | Inr st \<Rightarrow> s\<lparr>as_status := Some st\<rparr>)"

text \<open>The choices of the default provider; the list is there when a provider is shown as configured.\<close>

definition default_options :: "ai_section \<Rightarrow> ai_provider option list" where
  "default_options s =
     (case as_status s of
        None \<Rightarrow> []
      | Some st \<Rightarrow>
          if openai_configured st \<or> anthropic_configured st
          then None # map Some (filter (\<lambda>p. is_configured p st) [Openai, Anthropic]) else [])"

datatype ai_section_event =
    Key_typed ai_provider string | Model_typed ai_provider string
  | Save_clicked ai_provider | Clear_clicked ai_provider | Default_chosen "ai_provider option"
  | Key_call_ended nat "string option" | Status_answered nat "string + ai_settings_status"

definition drop_task :: "nat \<Rightarrow> ai_section \<Rightarrow> ai_section" where
  "drop_task k s = s\<lparr>as_tasks := filter (\<lambda>(j, t). j \<noteq> k) (as_tasks s)\<rparr>"

fun ai_section_step :: "ai_section \<Rightarrow> ai_section_event \<Rightarrow> ai_section" where
  "ai_section_step s (Key_typed p x) = s\<lparr>as_inputs := type_key p x (as_inputs s)\<rparr>"
| "ai_section_step s (Model_typed p x) = s\<lparr>as_inputs := type_model p x (as_inputs s)\<rparr>"
| "ai_section_step s (Save_clicked p) = save_key p s"
| "ai_section_step s (Clear_clicked p) = clear_key p s"
| "ai_section_step s (Default_chosen v) = (if v \<in> set (default_options s) then s\<lparr>as_active := v\<rparr> else s)"
| "ai_section_step s (Key_call_ended k failure) =
     (case map_of (as_tasks s) k of
        Some (Key_saved p active) \<Rightarrow> key_saved p active failure (drop_task k s)
      | Some (Key_cleared p active) \<Rightarrow> key_cleared p active failure (drop_task k s)
      | _ \<Rightarrow> s)"
| "ai_section_step s (Status_answered k answer) =
     (case map_of (as_tasks s) k of
        Some Status_read \<Rightarrow> status_read answer (drop_task k s)
      | _ \<Rightarrow> s)"

section \<open>The controls of the panel\<close>

text \<open>
  Every other control calls one action of the settings store with its new value. An input of type
  \<open>number\<close> has a number as its value or the empty text, which \<open>Number\<close> reads as 0.
\<close>

datatype setting_control =
    Theme_select theme_mode | Font_family_input string | Font_size_slider real | Cursor_select cursor_style
  | Color_theme_select terminal_theme_key | Reconnect_switch | Copy_switch | Lock_switch | Minutes_input "real option"

fun control_action :: "setting_control \<Rightarrow> settings_action" where
  "control_action (Theme_select t) = Set_theme t"
| "control_action (Font_family_input f) = Set_terminal_font_family f"
| "control_action (Font_size_slider n) = Set_terminal_font_size (Num n)"
| "control_action (Cursor_select c) = Set_terminal_cursor_style c"
| "control_action (Color_theme_select k) = Set_terminal_theme_key k"
| "control_action Reconnect_switch = Toggle_auto_reconnect"
| "control_action Copy_switch = Toggle_auto_copy_on_select"
| "control_action Lock_switch = Toggle_vault_auto_lock"
| "control_action (Minutes_input x) = Set_vault_auto_lock_minutes (Num (case x of None \<Rightarrow> 0 | Some n \<Rightarrow> n))"

text \<open>The minutes are there only while the lock is on.\<close>

definition use_control :: "settings \<Rightarrow> setting_control \<Rightarrow> settings" where
  "use_control s c =
     (if (case c of Minutes_input x \<Rightarrow> \<not> vaultAutoLockEnabled s | _ \<Rightarrow> False) then s else settings_step s (control_action c))"

lemma controls_keep_bounds: "settings_ok s \<Longrightarrow> settings_ok (foldl use_control s cs)"
proof (induction cs arbitrary: s)
  case (Cons c cs)
  have "action_ok s (control_action c)" by (cases c) simp_all
  with Cons settings_step_ok show ?case by (simp add: use_control_def)
qed simp

lemma emptied_minutes_are_least:
  "vaultAutoLockEnabled s \<Longrightarrow>
    vaultAutoLockMinutes (use_control s (Minutes_input None)) = Num MIN_VAULT_AUTO_LOCK_MINUTES"
  by (simp add: use_control_def setVaultAutoLockMinutes_def settings_constants)

section \<open>The section and the backend\<close>

text \<open>The providers whose key the backend stores: a call that succeeded has stored or removed one.\<close>

fun backend_keys :: "ai_section \<Rightarrow> ai_provider set \<Rightarrow> ai_section_event \<Rightarrow> ai_provider set" where
  "backend_keys s stored (Key_call_ended k None) =
     (case map_of (as_tasks s) k of
        Some (Key_saved p active) \<Rightarrow> insert p stored
      | Some (Key_cleared p active) \<Rightarrow> stored - {p}
      | _ \<Rightarrow> stored)"
| "backend_keys s stored e = stored"

fun keys_step :: "ai_section \<times> ai_provider set \<Rightarrow> ai_section_event \<Rightarrow> ai_section \<times> ai_provider set" where
  "keys_step (s, stored) e = (ai_section_step s e, backend_keys s stored e)"

text \<open>
  A patient user saves, clears and chooses only when nothing is under way; a read of the status
  succeeds and tells what is stored.
\<close>

fun patient_event :: "ai_section \<times> ai_provider set \<Rightarrow> ai_section_event \<Rightarrow> bool" where
  "patient_event (s, stored) (Save_clicked p) = (as_tasks s = [])"
| "patient_event (s, stored) (Clear_clicked p) = (as_tasks s = [])"
| "patient_event (s, stored) (Default_chosen v) = (as_tasks s = [])"
| "patient_event (s, stored) (Status_answered k answer) =
     (case answer of Inl e \<Rightarrow> False | Inr st \<Rightarrow> \<forall>p. is_configured p st \<longleftrightarrow> p \<in> stored)"
| "patient_event (s, stored) e = True"

text \<open>What is shown of the keys is true.\<close>

definition status_true :: "ai_section \<Rightarrow> ai_provider set \<Rightarrow> bool" where
  "status_true s stored \<longleftrightarrow> (case as_status s of None \<Rightarrow> True | Some st \<Rightarrow> \<forall>p. is_configured p st \<longleftrightarrow> p \<in> stored)"

fun task_ok :: "ai_task \<Rightarrow> ai_section \<Rightarrow> ai_provider set \<Rightarrow> bool" where
  "task_ok Status_read s stored = True"
| "task_ok (Key_saved p active) s stored = (active = as_active s \<and> status_true s stored)"
| "task_ok (Key_cleared p active) s stored = (active = as_active s \<and> status_true s stored)"

fun keys_ok :: "ai_section \<times> ai_provider set \<Rightarrow> bool" where
  "keys_ok (s, stored) \<longleftrightarrow>
     (case as_active s of None \<Rightarrow> True | Some p \<Rightarrow> p \<in> stored)
     \<and> (case as_tasks s of
          [] \<Rightarrow> status_true s stored
        | (k, t) # ts \<Rightarrow> ts = [] \<and> task_ok t s stored)"

lemma section_fields [simp]:
  "as_active (ai_begin t c s) = as_active s" "as_status (ai_begin t c s) = as_status s"
  "as_tasks (ai_begin t c s) = as_tasks s @ [(as_next s, t)]" "as_inputs (ai_begin t c s) = as_inputs s"
  "as_active (ai_load s) = as_active s" "as_status (ai_load s) = as_status s" "as_inputs (ai_load s) = as_inputs s"
  "as_tasks (ai_load s) = as_tasks s @ [(as_next s, Status_read)]"
  "as_active (drop_task k s) = as_active s" "as_status (drop_task k s) = as_status s" "as_inputs (drop_task k s) = as_inputs s"
  by (simp_all add: ai_begin_def ai_load_def drop_task_def)

lemma status_true_cong: "as_status s = as_status s' \<Longrightarrow> status_true s stored = status_true s' stored"
  by (simp add: status_true_def)

lemma status_true_simps [simp]:
  "status_true (ai_begin t c s) stored = status_true s stored" "status_true (drop_task k s) stored = status_true s stored"
  "status_true (s\<lparr>as_active := a\<rparr>) stored = status_true s stored" "status_true (s\<lparr>as_error := e\<rparr>) stored = status_true s stored"
  "status_true (s\<lparr>as_saving := v\<rparr>) stored = status_true s stored" "status_true (s\<lparr>as_inputs := i\<rparr>) stored = status_true s stored"
  by (simp_all add: status_true_def)

lemma task_ok_inputs [simp]: "task_ok t (s\<lparr>as_inputs := i\<rparr>) stored = task_ok t s stored"
  by (cases t) simp_all

text \<open>The one task under way ends.\<close>

lemma keys_ok_task:
  assumes "keys_ok (s, stored)" and "map_of (as_tasks s) k = Some t"
  shows "as_tasks s = [(k, t)]" and "task_ok t s stored" and "as_tasks (drop_task k s) = []"
  using assms by (auto simp: drop_task_def split: list.splits if_splits)

lemma call_ended_ok:
  assumes "keys_ok (s, stored)"
  shows "keys_ok (keys_step (s, stored) (Key_call_ended k failure))"
proof (cases "map_of (as_tasks s) k")
  case None
  then show ?thesis using assms by (cases failure) simp_all
next
  case (Some t)
  note t = keys_ok_task[OF assms Some]
  show ?thesis
  proof (cases t)
    case Status_read
    with Some assms show ?thesis by (cases failure) simp_all
  next
    case (Key_saved p active)
    with Some assms t show ?thesis
      by (cases failure) (auto simp: key_saved_def split: option.splits)
  next
    case (Key_cleared p active)
    with Some assms t show ?thesis
      by (cases failure) (auto simp: key_cleared_def split: option.splits)
  qed
qed

lemma status_answered_ok:
  assumes "keys_ok (s, stored)" and "patient_event (s, stored) (Status_answered k answer)"
  shows "keys_ok (keys_step (s, stored) (Status_answered k answer))"
proof (cases "map_of (as_tasks s) k = Some Status_read")
  case True
  note t = keys_ok_task[OF assms(1) True]
  obtain st where "answer = Inr st" "\<forall>p. is_configured p st \<longleftrightarrow> p \<in> stored" using assms(2) by (cases answer) auto
  with True assms(1) t show ?thesis by (simp add: status_read_def status_true_def)
next
  case False
  then have "ai_section_step s (Status_answered k answer) = s" by (auto split: option.splits ai_task.splits)
  with assms(1) show ?thesis by simp
qed

lemma offered_stored:
  assumes "status_true s stored" and "Some p \<in> set (default_options s)"
  shows "p \<in> stored"
proof (cases "as_status s")
  case None
  with assms(2) show ?thesis by (simp add: default_options_def)
next
  case (Some st)
  with assms(2) have "is_configured p st"
    by (cases "openai_configured st \<or> anthropic_configured st")
      (auto simp: default_options_def image_iff split: if_splits)
  with assms(1) Some show ?thesis by (simp add: status_true_def)
qed

lemma patient_step_ok:
  assumes "keys_ok w" and "patient_event w e"
  shows "keys_ok (keys_step w e)"
proof -
  obtain s stored where w: "w = (s, stored)" by (cases w)
  show ?thesis
  proof (cases e)
    case (Key_call_ended k failure)
    with assms(1) call_ended_ok w show ?thesis by simp
  next
    case (Status_answered k answer)
    with assms status_answered_ok w show ?thesis by simp
  next
    case (Save_clicked p)
    with assms w show ?thesis by (simp add: save_key_def Let_def)
  next
    case (Clear_clicked p)
    with assms w show ?thesis by (simp add: clear_key_def)
  next
    case (Default_chosen v)
    with assms w offered_stored[of s stored] show ?thesis by (auto split: option.split)
  qed (use assms(1) w in \<open>auto split: list.splits\<close>)
qed

lemma section_start_ok:
  "(case active of None \<Rightarrow> True | Some p \<Rightarrow> p \<in> stored) \<Longrightarrow> keys_ok (ai_section_start active, stored)"
  by (simp add: ai_section_start_def ai_load_def ai_begin_def)

lemma first_section_ok: "keys_ok (ai_section_start None, {})"
  by (rule section_start_ok) simp

interpretation keys_machine: invariant_machine "(ai_section_start None, {})" keys_step patient_event keys_ok
  by unfold_locales (rule first_section_ok, rule patient_step_ok)

section \<open>Properties\<close>

text \<open>
  the default provider has a key. When saving, clearing and choosing wait for what is under way
  and reads of the status succeed, then after every sequence of events the default provider of
  new conversations is one whose key the backend stores, and so is every provider offered as the
  default while nothing is under way. Without the waiting this fails: between the answer of a
  clearing and the new status the cleared provider is still offered, and choosing it makes a
  provider without a key the default.
\<close>
theorem default_provider_has_key:
  assumes "run_ok keys_step patient_event (ai_section_start None, {}) es"
  defines "w \<equiv> foldl keys_step (ai_section_start None, {}) es"
  shows "(\<forall>p. as_active (fst w) = Some p \<longrightarrow> p \<in> snd w)
    \<and> (as_tasks (fst w) = [] \<longrightarrow> (\<forall>p. Some p \<in> set (default_options (fst w)) \<longrightarrow> p \<in> snd w))
    \<and> (as_tasks (fst w) = [] \<and> Some p \<in> set (default_options (fst w)) \<and> as_active (fst w) \<noteq> Some p \<longrightarrow>
        (let w' = foldl keys_step w [Clear_clicked p, Key_call_ended (as_next (fst w)) None, Default_chosen (Some p)]
         in as_active (fst w') = Some p \<and> p \<notin> snd w'))"
proof -
  obtain s stored where w: "w = (s, stored)" by (cases w)
  have ok: "keys_ok (s, stored)" using keys_machine.inv_run[OF assms(1)] w by (simp add: w_def)
  then have "\<forall>p. as_active s = Some p \<longrightarrow> p \<in> stored" by (auto split: option.splits)
  moreover have "\<forall>p. Some p \<in> set (default_options s) \<longrightarrow> p \<in> stored" if "as_tasks s = []"
    using ok that offered_stored by auto
  moreover have "let w' = foldl keys_step (s, stored) [Clear_clicked p, Key_call_ended (as_next s) None, Default_chosen (Some p)]
         in as_active (fst w') = Some p \<and> p \<notin> snd w'"
    if rest: "as_tasks s = []" "Some p \<in> set (default_options s)" "as_active s \<noteq> Some p"
  proof -
    obtain st where st: "as_status s = Some st" using rest(2) by (cases "as_status s") (auto simp: default_options_def)
    with rest(2) have conf: "is_configured p st" by (auto simp: default_options_def split: if_splits)
    define s1 where "s1 = clear_key p s"
    have s1: "as_tasks s1 = [(as_next s, Key_cleared p (as_active s))]" "as_status s1 = as_status s" "as_active s1 = as_active s"
      using st conf rest(1) by (simp_all add: s1_def clear_key_def ai_begin_def)
    define s2 where "s2 = key_cleared p (as_active s) None (drop_task (as_next s) s1)"
    have "as_status s2 = as_status s" using s1 by (simp add: s2_def key_cleared_def)
    then have "Some p \<in> set (default_options s2)" using rest(2) by (simp add: default_options_def)
    then show ?thesis using s1 by (simp add: s1_def[symmetric] s2_def[symmetric])
  qed
  ultimately show ?thesis unfolding w by simp
qed

theorem default_provider_has_key_witness:
  "let w = foldl keys_step (ai_section_start None, {})
     [Status_answered 0 (Inr \<lparr>openai_configured = False, anthropic_configured = False\<rparr>), Key_typed Openai ''sk '',
      Save_clicked Openai, Key_call_ended 1 None,
      Status_answered 2 (Inr \<lparr>openai_configured = True, anthropic_configured = False\<rparr>)]
   in as_active (fst w) = Some Openai \<and> Openai \<in> snd w"
proof -
  have all: "(\<forall>p. P p) \<longleftrightarrow> P Openai \<and> P Anthropic" for P by (metis ai_provider.exhaust)
  have "run_ok keys_step patient_event (ai_section_start None, {})
     [Status_answered 0 (Inr \<lparr>openai_configured = False, anthropic_configured = False\<rparr>), Key_typed Openai ''sk '',
      Save_clicked Openai, Key_call_ended 1 None,
      Status_answered 2 (Inr \<lparr>openai_configured = True, anthropic_configured = False\<rparr>)]"
    by (simp add: all ai_section_start_def ai_load_def ai_begin_def status_read_def drop_task_def save_key_def trim_def
        js_space_def key_saved_def Let_def)
  note stored = conjunct1[OF default_provider_has_key[OF this]]
  have "as_active (fst (foldl keys_step (ai_section_start None, {})
     [Status_answered 0 (Inr \<lparr>openai_configured = False, anthropic_configured = False\<rparr>), Key_typed Openai ''sk '',
      Save_clicked Openai, Key_call_ended 1 None,
      Status_answered 2 (Inr \<lparr>openai_configured = True, anthropic_configured = False\<rparr>)])) = Some Openai"
    by (simp add: ai_section_start_def ai_load_def ai_begin_def status_read_def drop_task_def save_key_def trim_def
        js_space_def key_saved_def Let_def)
  with stored show ?thesis unfolding Let_def by blast
qed

text \<open>
  A key that was saved is not kept by the section: its input is empty afterwards. What is sent is
  the key without surrounding blanks, never an empty one, and no empty model.
\<close>

lemma saved_key_forgotten:
  "typed_key p (as_inputs (key_saved p active None s)) = [] \<and> typed_model p (as_inputs (key_saved p active None s)) = []"
  by (cases p) (simp_all add: key_saved_def)

lemma sent_key_not_blank:
  assumes "as_calls (save_key p s) \<noteq> as_calls s"
  shows "\<exists>k m. as_calls (save_key p s) = as_calls s @ [Ai_call (AiSettingsSet p k m)] \<and> k \<noteq> [] \<and> trim k = k \<and> m \<noteq> Some []"
  using assms by (auto simp: save_key_def ai_begin_def or_null_def Let_def split: if_splits)

text \<open>Of two lists of known hosts that are under way, the one that arrives last is shown, also when it is the older one.\<close>

lemma older_known_hosts_win:
  "kh_loads s = 2 \<Longrightarrow> kh_hosts (foldl known_hosts_step s [Kh_listed (Inr newer), Kh_listed (Inr older)]) = older"
  by (simp add: kh_listed_def)

end
