(* ===== verification/Panels.thy ===== *)
theory Panels
  imports Dialogs
begin

text \<open>
  The panel of the saved workspaces and the backup to Google Drive:
  \<open>src/src/components/panels/WorkspacesPanel.tsx\<close>, with the prompt of
  \<open>src/src/components/common/usePrompt.tsx\<close>, and \<open>GoogleBackupSection.tsx\<close>.
\<close>

section \<open>The prompt\<close>

text \<open>The prompt that is shown, its text field, and the handler that waits for the answer.\<close>

record 'h prompt_dialog =
  pd_message :: string
  pd_handler :: 'h

record 'h prompts =
  pr_dialog :: "'h prompt_dialog option"
  pr_value :: string

definition ask_prompt :: "'h \<Rightarrow> string \<Rightarrow> string \<Rightarrow> 'h prompts \<Rightarrow> 'h prompts" where
  "ask_prompt h message defaultValue s = s\<lparr>pr_value := defaultValue, pr_dialog := Some \<lparr>pd_message = message, pd_handler = h\<rparr>\<rparr>"

text \<open>OK answers with the field, Cancel and closing with nothing.\<close>

definition prompt_respond :: "bool \<Rightarrow> 'h prompts \<Rightarrow> ('h \<times> string option) option \<times> 'h prompts" where
  "prompt_respond submitted s =
     (case pr_dialog s of
        None \<Rightarrow> (None, s)
      | Some d \<Rightarrow> (Some (pd_handler d, if submitted then Some (pr_value s) else None), s\<lparr>pr_dialog := None\<rparr>))"

section \<open>Workspaces\<close>

datatype workspace_question = Ask_save | Ask_rename workspace

datatype workspace_effect = Save_layout string | Open_workspace workspace | Rename_workspace string string

datatype workspace_task = Saving_layout | Opening_workspace | Renaming_workspace

definition workspace_deletion :: "workspace deletable" where
  "workspace_deletion =
     \<lparr>del_message = (\<lambda>w. ''Delete workspace \"'' @ workspace_label w @ ''\"?''),
      del_call = (\<lambda>w. workspaces_mutation_call (DeleteWorkspace (workspace_id w))), del_clears_first = False\<rparr>"

text \<open>The error of the panel is the one of \<open>wp_deletion\<close>.\<close>

record workspaces_panel =
  wp_prompts :: "workspace_question prompts"
  wp_deletion :: "workspace deletion"
  wp_opening :: "string option"
  wp_tasks :: "(nat \<times> workspace_task) list"
  wp_started :: nat
  wp_effects :: "workspace_effect list"

definition workspaces_panel_start :: workspaces_panel where
  "workspaces_panel_start =
     \<lparr>wp_prompts = \<lparr>pr_dialog = None, pr_value = []\<rparr>, wp_deletion = no_deletion, wp_opening = None, wp_tasks = [],
      wp_started = 0, wp_effects = []\<rparr>"

definition wp_error :: "string option \<Rightarrow> workspaces_panel \<Rightarrow> workspaces_panel" where
  "wp_error e s = s\<lparr>wp_deletion := (wp_deletion s)\<lparr>del_error := e\<rparr>\<rparr>"

definition wp_begin :: "workspace_task \<Rightarrow> workspace_effect \<Rightarrow> workspaces_panel \<Rightarrow> workspaces_panel" where
  "wp_begin t e s =
     (wp_error None s)\<lparr>wp_tasks := wp_tasks s @ [(wp_started s, t)], wp_started := Suc (wp_started s), wp_effects := wp_effects s @ [e]\<rparr>"

text \<open>\<open>handleSave\<close> and \<open>handleRename\<close> after the answer of their prompt.\<close>

fun workspace_answered :: "workspace_question \<Rightarrow> string option \<Rightarrow> workspaces_panel \<Rightarrow> workspaces_panel" where
  "workspace_answered Ask_save answer s =
     (case answer of None \<Rightarrow> s | Some l \<Rightarrow> if l = [] then s else wp_begin Saving_layout (Save_layout l) s)"
| "workspace_answered (Ask_rename w) answer s =
     (case answer of
        None \<Rightarrow> s
      | Some l \<Rightarrow>
          if l = [] \<or> l = workspace_label w then s
          else wp_begin Renaming_workspace (Rename_workspace (workspace_id w) l) s)"

datatype workspaces_event =
    Ws_save_clicked | Ws_rename_clicked workspace | Ws_typed string | Ws_prompt_answered bool
  | Ws_open_clicked workspace | Ws_ended nat "string option" | Ws_deletion "workspace deletion_event"

text \<open>
  \<open>hasOpenSessions\<close> is the property the shell passes: without a tab there is nothing to save. Opening
  a workspace marks it until the opening ends.
\<close>

fun workspaces_panel_step :: "bool \<Rightarrow> workspaces_panel \<Rightarrow> workspaces_event \<Rightarrow> workspaces_panel" where
  "workspaces_panel_step hasOpenSessions s Ws_save_clicked =
     (if hasOpenSessions
      then s\<lparr>wp_prompts := ask_prompt Ask_save ''Save current layout as:'' ''My workspace'' (wp_prompts s)\<rparr> else s)"
| "workspaces_panel_step hasOpenSessions s (Ws_rename_clicked w) =
     s\<lparr>wp_prompts := ask_prompt (Ask_rename w) ''Rename workspace:'' (workspace_label w) (wp_prompts s)\<rparr>"
| "workspaces_panel_step hasOpenSessions s (Ws_typed x) = s\<lparr>wp_prompts := (wp_prompts s)\<lparr>pr_value := x\<rparr>\<rparr>"
| "workspaces_panel_step hasOpenSessions s (Ws_prompt_answered submitted) =
     (let (answer, prompts) = prompt_respond submitted (wp_prompts s); s1 = s\<lparr>wp_prompts := prompts\<rparr>
      in case answer of None \<Rightarrow> s1 | Some (h, x) \<Rightarrow> workspace_answered h x s1)"
| "workspaces_panel_step hasOpenSessions s (Ws_open_clicked w) =
     (if wp_opening s = Some (workspace_id w) then s
      else (wp_begin Opening_workspace (Open_workspace w) s)\<lparr>wp_opening := Some (workspace_id w)\<rparr>)"
| "workspaces_panel_step hasOpenSessions s (Ws_ended k failure) =
     (case map_of (wp_tasks s) k of
        None \<Rightarrow> s
      | Some t \<Rightarrow>
          (let s1 = s\<lparr>wp_tasks := filter (\<lambda>(j, x). j \<noteq> k) (wp_tasks s)\<rparr>;
               s2 = (case failure of None \<Rightarrow> s1 | Some e \<Rightarrow> wp_error (Some e) s1)
           in if t = Opening_workspace then s2\<lparr>wp_opening := None\<rparr> else s2))"
| "workspaces_panel_step hasOpenSessions s (Ws_deletion e) =
     s\<lparr>wp_deletion := deletion_step workspace_deletion (wp_deletion s) e\<rparr>"

section \<open>Backup to Google Drive\<close>

datatype google_action = Google_idle | Signing_in | Backing_up | Restoring | Signing_out

record google_status =
  gs_connected :: bool
  gs_email :: "string option"

datatype google_task = Status_task | Login_task | Cancel_task | Logout_task | Backup_task | Restore_task

record google_section =
  gs_status :: "google_status option"
  gs_action :: google_action
  gs_message :: "string option"
  gs_error :: "string option"
  gs_asking :: bool
  gs_tasks :: "google_task list"
  gs_calls :: "bridge_call list"
  gs_reload :: bool

fun google_call :: "google_task \<Rightarrow> bridge_call" where
  "google_call Status_task = Backup_call GoogleStatus"
| "google_call Login_task = Backup_call GoogleLogin"
| "google_call Cancel_task = Backup_call GoogleLoginCancel"
| "google_call Logout_task = Backup_call GoogleLogout"
| "google_call Backup_task = Backup_call GoogleBackupNow"
| "google_call Restore_task = Backup_call GoogleRestore"

definition google_await :: "google_task \<Rightarrow> google_section \<Rightarrow> google_section" where
  "google_await t s = s\<lparr>gs_tasks := gs_tasks s @ [t], gs_calls := gs_calls s @ [google_call t]\<rparr>"

definition google_start :: google_section where
  "google_start =
     google_await Status_task
       \<lparr>gs_status = None, gs_action = Google_idle, gs_message = None, gs_error = None, gs_asking = False, gs_tasks = [],
        gs_calls = [], gs_reload = False\<rparr>"

text \<open>The first lines of \<open>handleSignIn\<close>, \<open>handleSignOut\<close>, \<open>handleBackup\<close> and \<open>handleRestore\<close>.\<close>

definition google_begin :: "google_action \<Rightarrow> google_task \<Rightarrow> google_section \<Rightarrow> google_section" where
  "google_begin a t s = google_await t (s\<lparr>gs_error := None, gs_message := None, gs_action := a\<rparr>)"

text \<open>
  After the await: what succeeds, the \<open>catch\<close> and the \<open>finally\<close> of each handler. The last message is
  without its ellipsis, which is not a character of the model.
\<close>

fun google_ended :: "google_task \<Rightarrow> string + google_status \<Rightarrow> google_section \<Rightarrow> google_section" where
  "google_ended Status_task (Inl e) s = s\<lparr>gs_error := Some e\<rparr>"
| "google_ended Status_task (Inr st) s = s\<lparr>gs_status := Some st\<rparr>"
| "google_ended Login_task (Inl e) s = s\<lparr>gs_error := Some e, gs_action := Google_idle\<rparr>"
| "google_ended Login_task (Inr st) s = s\<lparr>gs_status := Some st, gs_action := Google_idle\<rparr>"
| "google_ended Cancel_task (Inl e) s = s\<lparr>gs_error := Some e\<rparr>"
| "google_ended Cancel_task (Inr st) s = s"
| "google_ended Logout_task (Inl e) s = s\<lparr>gs_error := Some e, gs_action := Google_idle\<rparr>"
| "google_ended Logout_task (Inr st) s = s\<lparr>gs_status := Some \<lparr>gs_connected = False, gs_email = None\<rparr>, gs_action := Google_idle\<rparr>"
| "google_ended Backup_task (Inl e) s = s\<lparr>gs_error := Some e, gs_action := Google_idle\<rparr>"
| "google_ended Backup_task (Inr st) s = s\<lparr>gs_message := Some ''Backed up to Google Drive.'', gs_action := Google_idle\<rparr>"
| "google_ended Restore_task (Inl e) s = s\<lparr>gs_error := Some e, gs_action := Google_idle\<rparr>"
| "google_ended Restore_task (Inr st) s = s\<lparr>gs_message := Some ''Restored - reloading'', gs_reload := True\<rparr>"

datatype google_event =
    Sign_in_clicked | Cancel_clicked | Sign_out_clicked | Backup_clicked | Restore_clicked | Restore_answered bool
  | Google_answered google_task "string + google_status"

text \<open>The buttons that are there and not disabled.\<close>

definition google_shows :: "bool \<Rightarrow> google_action \<Rightarrow> google_section \<Rightarrow> bool" where
  "google_shows signed_in a s \<longleftrightarrow>
     (case gs_status s of None \<Rightarrow> False | Some st \<Rightarrow> gs_connected st = signed_in) \<and> gs_action s = a"

fun google_step :: "google_section \<Rightarrow> google_event \<Rightarrow> google_section" where
  "google_step s Sign_in_clicked = (if google_shows False Google_idle s then google_begin Signing_in Login_task s else s)"
| "google_step s Cancel_clicked = (if google_shows False Signing_in s then google_await Cancel_task s else s)"
| "google_step s Sign_out_clicked = (if google_shows True Google_idle s then google_begin Signing_out Logout_task s else s)"
| "google_step s Backup_clicked = (if google_shows True Google_idle s then google_begin Backing_up Backup_task s else s)"
| "google_step s Restore_clicked = (if google_shows True Google_idle s then s\<lparr>gs_asking := True\<rparr> else s)"
| "google_step s (Restore_answered yes) =
     (if \<not> gs_asking s then s
      else let s1 = s\<lparr>gs_asking := False\<rparr> in if yes then google_begin Restoring Restore_task s1 else s1)"
| "google_step s (Google_answered t answer) =
     (if t \<in> set (gs_tasks s) then google_ended t answer (s\<lparr>gs_tasks := remove1 t (gs_tasks s)\<rparr>) else s)"

datatype google_view = Google_loading | Google_signed_out "string option" "string option" | Google_signed_in "string option" "string option"

text \<open>What is rendered, with the message and the error below.\<close>

definition render_google :: "google_section \<Rightarrow> google_view" where
  "render_google s =
     (case gs_status s of
        None \<Rightarrow> Google_loading
      | Some st \<Rightarrow> if gs_connected st then Google_signed_in (gs_message s) (gs_error s) else Google_signed_out (gs_message s) (gs_error s))"

section \<open>Lemmas\<close>

text \<open>The work that \<open>gs_action\<close> stands for; a restore that succeeded leaves the buttons off until the page reloads.\<close>

definition main_tasks :: "google_section \<Rightarrow> google_task list" where
  "main_tasks s = filter (\<lambda>t. t \<noteq> Status_task \<and> t \<noteq> Cancel_task) (gs_tasks s)"

fun action_tasks :: "google_action \<Rightarrow> bool \<Rightarrow> google_task list" where
  "action_tasks Google_idle reload = []"
| "action_tasks Signing_in reload = [Login_task]"
| "action_tasks Backing_up reload = [Backup_task]"
| "action_tasks Restoring reload = (if reload then [] else [Restore_task])"
| "action_tasks Signing_out reload = [Logout_task]"

definition google_ok :: "google_section \<Rightarrow> bool" where
  "google_ok s \<longleftrightarrow> main_tasks s = action_tasks (gs_action s) (gs_reload s) \<and> (gs_reload s \<longrightarrow> gs_action s = Restoring)
     \<and> (gs_asking s \<longrightarrow> gs_action s = Google_idle)"

text \<open>The question covers the buttons.\<close>

fun google_event_ok :: "google_section \<Rightarrow> google_event \<Rightarrow> bool" where
  "google_event_ok s (Restore_answered yes) = True"
| "google_event_ok s (Google_answered t answer) = True"
| "google_event_ok s e = (\<not> gs_asking s)"

lemma google_ok_start: "google_ok google_start"
  by (simp add: google_ok_def google_start_def google_await_def main_tasks_def)

lemma main_tasks_await [simp]:
  "main_tasks (google_await t s) = main_tasks s @ (if t = Status_task \<or> t = Cancel_task then [] else [t])"
  by (simp add: main_tasks_def google_await_def)

lemma google_await_fields [simp]:
  "gs_action (google_await t s) = gs_action s" "gs_reload (google_await t s) = gs_reload s" "gs_asking (google_await t s) = gs_asking s"
  by (simp_all add: google_await_def)

lemma main_tasks_update [simp]:
  "main_tasks (s\<lparr>gs_error := e\<rparr>) = main_tasks s" "main_tasks (s\<lparr>gs_message := m\<rparr>) = main_tasks s"
  "main_tasks (s\<lparr>gs_action := a\<rparr>) = main_tasks s" "main_tasks (s\<lparr>gs_asking := b\<rparr>) = main_tasks s"
  "main_tasks (s\<lparr>gs_status := st\<rparr>) = main_tasks s" "main_tasks (s\<lparr>gs_reload := b\<rparr>) = main_tasks s"
  "main_tasks (s\<lparr>gs_tasks := remove1 t (gs_tasks s)\<rparr>)
     = (if t = Status_task \<or> t = Cancel_task then main_tasks s else remove1 t (main_tasks s))"
  by (auto simp: main_tasks_def filter_remove1)

lemma main_task_mem: "t \<in> set (gs_tasks s) \<Longrightarrow> t \<noteq> Status_task \<Longrightarrow> t \<noteq> Cancel_task \<Longrightarrow> t \<in> set (main_tasks s)"
  by (simp add: main_tasks_def)

lemma google_ended_ok:
  assumes "google_ok s" and "t \<in> set (gs_tasks s)"
  shows "google_ok (google_ended t answer (s\<lparr>gs_tasks := remove1 t (gs_tasks s)\<rparr>))"
  using assms main_task_mem[OF assms(2)]
  by (cases t; cases answer; cases "gs_action s") (auto simp: google_ok_def split: if_splits)

lemma google_step_ok:
  assumes "google_ok s" and "google_event_ok s e"
  shows "google_ok (google_step s e)"
proof (cases e)
  case (Google_answered t answer)
  with google_ended_ok[OF assms(1)] assms(1) show ?thesis by simp
next
  case (Restore_answered yes)
  with assms(1) show ?thesis by (auto simp: google_ok_def google_begin_def Let_def)
qed (use assms in \<open>auto simp: google_ok_def google_begin_def google_shows_def\<close>)

interpretation google_machine: invariant_machine google_start google_step google_event_ok google_ok
  by unfold_locales (rule google_ok_start, rule google_step_ok)

text \<open>Every restore was asked for and confirmed.\<close>

lemma restores_confirmed:
  "length (filter (\<lambda>c. c = google_call Restore_task) (gs_calls (foldl google_step s es)))
     \<le> length (filter (\<lambda>c. c = google_call Restore_task) (gs_calls s)) + length (filter (\<lambda>e. e = Restore_answered True) es)"
proof (induction es arbitrary: s)
  case (Cons e es)
  have calls: "gs_calls (google_ended t a s) = gs_calls s" for t a s
    by (cases t; cases a) simp_all
  have "length (filter (\<lambda>c. c = google_call Restore_task) (gs_calls (google_step s e)))
      \<le> length (filter (\<lambda>c. c = google_call Restore_task) (gs_calls s)) + (if e = Restore_answered True then 1 else 0)"
    by (cases e) (auto simp: google_begin_def google_await_def calls Let_def)
  with Cons.IH[of "google_step s e"] show ?case by (auto split: if_splits)
qed simp

text \<open>Without a status nothing can be pressed.\<close>

lemma no_status_stuck:
  "gs_status s = None \<Longrightarrow> gs_tasks s = [] \<Longrightarrow> \<not> gs_asking s \<Longrightarrow> foldl google_step s es = s"
proof (induction es)
  case (Cons e es)
  then have "google_step s e = s" by (cases e) (simp_all add: google_shows_def)
  with Cons show ?case by simp
qed simp

section \<open>Properties\<close>

text \<open>
  one action of the backup at a time. In every run in which nothing behind the question of a
  restore is pressed, at most one of signing in, signing out, backing up and restoring is under
  way; while one is, none of the four can be started; and there are at most as many restores as
  confirmed questions.
\<close>
theorem one_google_action:
  assumes "run_ok google_step google_event_ok google_start es"
  defines "s \<equiv> foldl google_step google_start es"
  shows "length (main_tasks s) \<le> 1
    \<and> (main_tasks s \<noteq> [] \<longrightarrow> google_step s Sign_in_clicked = s \<and> google_step s Sign_out_clicked = s
        \<and> google_step s Backup_clicked = s \<and> google_step s Restore_clicked = s \<and> \<not> gs_asking s)
    \<and> length (filter (\<lambda>c. c = google_call Restore_task) (gs_calls s)) \<le> length (filter (\<lambda>e. e = Restore_answered True) es)"
proof -
  have ok: "google_ok s" using google_machine.inv_run[OF assms(1)] by (simp add: s_def)
  then have "length (main_tasks s) \<le> 1" by (cases "gs_action s") (simp_all add: google_ok_def)
  moreover have "gs_action s \<noteq> Google_idle" if "main_tasks s \<noteq> []" using ok that by (auto simp: google_ok_def)
  moreover have "length (filter (\<lambda>c. c = google_call Restore_task) (gs_calls google_start)) = 0"
    by (simp add: google_start_def google_await_def)
  ultimately show ?thesis
    using ok restores_confirmed[of google_start es] by (auto simp: google_shows_def google_ok_def s_def)
qed

theorem one_google_action_witness:
  "length (main_tasks (foldl google_step google_start
     [Google_answered Status_task (Inr \<lparr>gs_connected = True, gs_email = None\<rparr>), Restore_clicked, Restore_answered True])) \<le> 1"
  by (rule conjunct1[OF one_google_action])
    (simp add: google_start_def google_await_def google_shows_def)

text \<open>
  a status that cannot be read is never reported. When the read at the start fails, the panel
  shows "Loading" whatever is done afterwards, and the error is not shown, although it is kept.
\<close>
theorem google_failure_unreported:
  "let s = foldl google_step google_start (Google_answered Status_task (Inl e) # es)
   in render_google s = Google_loading \<and> gs_error s = Some e \<and> gs_calls s = [google_call Status_task]"
proof -
  let ?s = "google_step google_start (Google_answered Status_task (Inl e))"
  have "?s = google_start\<lparr>gs_tasks := [], gs_error := Some e\<rparr>" by (simp add: google_start_def google_await_def)
  moreover from this have "foldl google_step ?s es = ?s"
    by (intro no_status_stuck) (simp_all add: google_start_def google_await_def)
  ultimately show ?thesis by (simp add: render_google_def google_start_def google_await_def)
qed

text \<open>
  One field marks the workspace that is being opened: opening a second one and the end of the first
  release the button of the second, which can then be opened twice.
\<close>

lemma opening_flag_is_shared:
  fixes b :: bool
  assumes "wp_opening s = None" and "workspace_id w \<noteq> workspace_id v" and "\<forall>(k, t)\<in>set (wp_tasks s). k < wp_started s"
  defines "s' \<equiv> foldl (workspaces_panel_step b) s [Ws_open_clicked w, Ws_open_clicked v, Ws_ended (wp_started s) None]"
  shows "wp_opening s' = None"
    and "wp_effects (workspaces_panel_step b s' (Ws_open_clicked v)) = wp_effects s @ [Open_workspace w, Open_workspace v, Open_workspace v]"
proof -
  have "map_of (wp_tasks s) (wp_started s) = None" using assms(3) by (fastforce simp: map_of_eq_None_iff)
  then show "wp_opening s' = None"
    "wp_effects (workspaces_panel_step b s' (Ws_open_clicked v)) = wp_effects s @ [Open_workspace w, Open_workspace v, Open_workspace v]"
    using assms(1,2) by (simp_all add: s'_def wp_begin_def wp_error_def map_add_def)
qed

text \<open>No layout is saved and no workspace renamed without a name.\<close>

fun effect_named :: "workspace_effect \<Rightarrow> bool" where
  "effect_named (Save_layout l) = (l \<noteq> [])"
| "effect_named (Rename_workspace i l) = (l \<noteq> [])"
| "effect_named (Open_workspace w) = True"

lemma workspaces_named:
  "list_all effect_named (wp_effects s) \<Longrightarrow> list_all effect_named (wp_effects (foldl (workspaces_panel_step b) s es))"
proof (induction es arbitrary: s)
  case (Cons e es)
  have "list_all effect_named (wp_effects (workspaces_panel_step b s e))"
  proof (cases e)
    case (Ws_prompt_answered submitted)
    have answered: "list_all effect_named (wp_effects (workspace_answered h x t))" if "wp_effects t = wp_effects s" for h x t
      using Cons.prems that by (cases h) (auto simp: wp_begin_def wp_error_def split: option.split)
    obtain answer ps where p: "prompt_respond submitted (wp_prompts s) = (answer, ps)" by (cases "prompt_respond submitted (wp_prompts s)")
    show ?thesis using Ws_prompt_answered p Cons.prems answered by (auto simp: Let_def split: option.split)
  qed (use Cons.prems in \<open>auto simp: wp_begin_def wp_error_def Let_def split: option.split\<close>)
  with Cons.IH show ?case by simp
qed simp

end
