(* ===== verification/Pane_Split_View.thy ===== *)
theory Pane_Split_View
  imports Pane_Layout Settings_Store
begin

text \<open>
  The panes of a tab on the screen, \<open>src/src/components/terminal/PaneSplitView.tsx\<close>: the split tree drawn
  as a flat list of panes and dividers, each with its identifier as its key, and the dividers
  (\<open>PaneResizeDivider.tsx\<close>, in Settings_Store) wired to the tree. What React does with keys is modelled
  as \<open>reconcile\<close>: a child whose key was there before is the same component, any other is a new one.
\<close>

section \<open>The view\<close>

text \<open>
  \<open>sv_instances\<close> are the mounted terminals: a pane's identifier and the number of its component.
  \<open>sv_drag\<close> is the divider that is dragged, with its snapshot.
\<close>

record split_view =
  sv_node :: pane_node
  sv_width :: real
  sv_height :: real
  sv_instances :: "(string \<times> nat) list"
  sv_mounted :: nat
  sv_drag :: "(string \<times> divider_drag) option"

definition view_layout :: "split_view \<Rightarrow> pane_layout" where
  "view_layout v = computeLayout (sv_node v) \<lparr>left = 0, top = 0, width = sv_width v, height = sv_height v\<rparr>"

fun reconcile :: "string list \<Rightarrow> (string \<times> nat) list \<Rightarrow> nat \<Rightarrow> (string \<times> nat) list \<times> nat" where
  "reconcile [] old n = ([], n)"
| "reconcile (k # ks) old n =
     (case map_of old k of
        Some i \<Rightarrow> (let (new, m) = reconcile ks old n in ((k, i) # new, m))
      | None \<Rightarrow> (let (new, m) = reconcile ks old (Suc n) in ((k, n) # new, m)))"

text \<open>A render: the keys are those of the flat list.\<close>

definition view_render :: "split_view \<Rightarrow> split_view" where
  "view_render v =
     (let (new, m) = reconcile (map ll_paneId (leaves (view_layout v))) (sv_instances v) (sv_mounted v)
      in v\<lparr>sv_instances := new, sv_mounted := m\<rparr>)"

definition view_start :: "pane_node \<Rightarrow> split_view" where
  "view_start t =
     view_render \<lparr>sv_node = t, sv_width = 0, sv_height = 0, sv_instances = [], sv_mounted = 0, sv_drag = None\<rparr>"

text \<open>
  What the store does to the tree (\<open>View_split\<close>, \<open>View_closed\<close>), what the observer of the container
  reports, and the mouse. Closing the last pane closes the tab, and with it the view.
\<close>

datatype view_event =
    View_split uuids nat string direction string host | View_closed string
  | Container_measured real real
  | Divider_down string real | Pointer_move real | Pointer_up | Divider_reset string

definition divider_down :: "string \<Rightarrow> real \<Rightarrow> split_view \<Rightarrow> split_view" where
  "divider_down sid x v =
     (case filter (\<lambda>d. dl_splitId d = sid) (dividers (view_layout v)) of
        [] \<Rightarrow> v
      | d # ds \<Rightarrow>
          v\<lparr>sv_drag := map_option (Pair sid) (fst (pane_resize_divider (dl_ratio d) (dl_availablePx d) None (Mouse_down x)))\<rparr>)"

definition pointer_move :: "real \<Rightarrow> split_view \<Rightarrow> split_view" where
  "pointer_move x v =
     (case sv_drag v of
        None \<Rightarrow> v
      | Some (sid, d) \<Rightarrow>
          (case snd (pane_resize_divider 0 0 (Some d) (Mouse_move x)) of
             None \<Rightarrow> v
           | Some ratio \<Rightarrow> v\<lparr>sv_node := resizeSplit (sv_node v) sid ratio\<rparr>))"

fun view_change :: "split_view \<Rightarrow> view_event \<Rightarrow> split_view" where
  "view_change v (View_split u n p d newPaneId newHost) =
     v\<lparr>sv_node := fst (splitLeaf u n (sv_node v) p d newPaneId newHost)\<rparr>"
| "view_change v (View_closed p) = (case removeLeaf (sv_node v) p of None \<Rightarrow> v | Some t \<Rightarrow> v\<lparr>sv_node := t\<rparr>)"
| "view_change v (Container_measured w h) = v\<lparr>sv_width := w, sv_height := h\<rparr>"
| "view_change v (Divider_down sid x) = divider_down sid x v"
| "view_change v (Pointer_move x) = pointer_move x v"
| "view_change v Pointer_up = v\<lparr>sv_drag := None\<rparr>"
| "view_change v (Divider_reset sid) = v\<lparr>sv_node := resizeSplit (sv_node v) sid (1 / 2)\<rparr>"

definition view_step :: "split_view \<Rightarrow> view_event \<Rightarrow> split_view" where
  "view_step v e = view_render (view_change v e)"

section \<open>Lemmas\<close>

lemma reconcile_keys: "map fst (fst (reconcile ks old n)) = ks"
  by (induction ks arbitrary: n) (auto simp: case_prod_beta Let_def split: option.split)

lemma reconcile_keeps:
  "distinct ks \<Longrightarrow> k \<in> set ks \<Longrightarrow> map_of old k = Some i \<Longrightarrow> map_of (fst (reconcile ks old n)) k = Some i"
  by (induction ks arbitrary: n) (auto simp: case_prod_beta Let_def split: option.split)

lemma reconcile_grows: "n \<le> snd (reconcile ks old n)"
proof (induction ks arbitrary: n)
  case (Cons k ks)
  show ?case using Cons[of n] Cons[of "Suc n"] by (auto simp: case_prod_beta Let_def split: option.split)
qed simp

text \<open>A key that is new gets a component that was never there.\<close>

lemma reconcile_fresh:
  "distinct ks \<Longrightarrow> k \<in> set ks \<Longrightarrow> map_of old k = None \<Longrightarrow>
     \<exists>i\<ge>n. map_of (fst (reconcile ks old n)) k = Some i \<and> i < snd (reconcile ks old n)"
proof (induction ks arbitrary: n)
  case (Cons x ks)
  show ?case
  proof (cases "x = k")
    case True
    with Cons.prems reconcile_grows[of "Suc n" ks old] show ?thesis by (auto simp: case_prod_beta Let_def)
  next
    case False
    with Cons.prems Cons.IH[of n] Cons.IH[of "Suc n"] show ?thesis
      by (cases "map_of old x") (auto simp: case_prod_beta Let_def intro: Suc_leD)
  qed
qed simp

lemma render_fields [simp]:
  "sv_node (view_render v) = sv_node v" "sv_width (view_render v) = sv_width v" "sv_height (view_render v) = sv_height v"
  "sv_drag (view_render v) = sv_drag v"
  by (simp_all add: view_render_def case_prod_beta Let_def)

lemma render_instances:
  "sv_instances (view_render v) = fst (reconcile (pane_ids (sv_node v)) (sv_instances v) (sv_mounted v))"
  "sv_mounted (view_render v) = snd (reconcile (pane_ids (sv_node v)) (sv_instances v) (sv_mounted v))"
  by (simp_all add: view_render_def view_layout_def layout_pane_ids case_prod_beta Let_def)

lemma change_fields [simp]:
  "sv_instances (view_change v e) = sv_instances v" "sv_mounted (view_change v e) = sv_mounted v"
  by (cases e; auto simp: divider_down_def pointer_move_def split: option.split list.split prod.split)+

lemma layout_after_render [simp]: "view_layout (view_render v) = view_layout v"
  by (simp add: view_layout_def)

text \<open>Along an axis a divider stands at the start of its split plus its share of the pixels.\<close>

definition divider_pos :: "divider_layout \<Rightarrow> real" where
  "divider_pos d = (if dl_direction d = Row then left (dl_rect d) else top (dl_rect d))"

definition clamp_ratio :: "real \<Rightarrow> real" where
  "clamp_ratio q = max MIN_RATIO (min MAX_RATIO q)"

definition moved_divider :: "divider_layout \<Rightarrow> real \<Rightarrow> divider_layout \<Rightarrow> bool" where
  "moved_divider d q d' \<longleftrightarrow> dl_splitId d' = dl_splitId d \<and> dl_direction d' = dl_direction d
     \<and> dl_availablePx d' = dl_availablePx d \<and> dl_ratio d' = q
     \<and> divider_pos d' = divider_pos d + dl_availablePx d * (q - dl_ratio d)"

lemma divider_moves:
  assumes "distinct (split_ids t)" and "d \<in> set (dividers (computeLayout t rc))"
  shows "\<exists>d'\<in>set (dividers (computeLayout (resizeSplit t (dl_splitId d) q) rc)). moved_divider d (clamp_ratio q) d'"
  using assms
proof (induction t arbitrary: rc)
  case (Split s dir r a b)
  have ids: "dl_splitId x \<in> set (split_ids t)" if "x \<in> set (dividers (computeLayout t rc))" for x t rc
    using that layout_divider_ids[of t rc] by (metis imageI list.set_map)
  from Split.prems(2) consider (here) "d = \<lparr>dl_splitId = s, dl_direction = dir, dl_ratio = r,
        dl_availablePx = avail dir rc, dl_rect = divider_rect dir r rc\<rparr>"
    | (a) "d \<in> set (dividers (computeLayout a (a_rect dir r rc)))"
    | (b) "d \<in> set (dividers (computeLayout b (b_rect dir r rc)))" by auto
  then show ?case
  proof cases
    case here
    then show ?thesis
      by (auto simp: moved_divider_def divider_pos_def divider_rect_def clamp_ratio_def algebra_simps)
  next
    case a
    with Split.prems(1) ids[OF a] have "dl_splitId d \<noteq> s" by auto
    with Split.IH(1)[OF _ a] Split.prems(1) show ?thesis by auto
  next
    case b
    with Split.prems(1) ids[OF b] have "dl_splitId d \<noteq> s" by auto
    with Split.IH(2)[OF _ b] Split.prems(1) show ?thesis by auto
  qed
qed simp

lemma resize_again: "resizeSplit (resizeSplit t sid q) sid q' = resizeSplit t sid q'"
  by (induction t) auto

lemma pointer_moves:
  "sv_drag v = Some (sid, d) \<Longrightarrow> xs \<noteq> [] \<Longrightarrow>
     sv_node (foldl view_step v (map Pointer_move xs))
       = resizeSplit (sv_node v) sid (startRatio d + (last xs - startPos d) / drag_availablePx d)
     \<and> sv_width (foldl view_step v (map Pointer_move xs)) = sv_width v
     \<and> sv_height (foldl view_step v (map Pointer_move xs)) = sv_height v
     \<and> sv_drag (foldl view_step v (map Pointer_move xs)) = Some (sid, d)"
proof (induction xs rule: rev_induct)
  case (snoc x xs)
  then show ?case
    by (cases "xs = []") (simp_all add: view_step_def pointer_move_def Let_def resize_again)
qed simp

lemma reconcile_count: "snd (reconcile ks old n) = n + length (filter (\<lambda>k. map_of old k = None) ks)"
  by (induction ks arbitrary: n) (auto simp: case_prod_beta Let_def split: option.split)

text \<open>A view shows its tree: the mounted terminals are the panes of the tree.\<close>

definition view_ok :: "split_view \<Rightarrow> bool" where
  "view_ok v \<longleftrightarrow> tree_ok (sv_node v) \<and> map fst (sv_instances v) = pane_ids (sv_node v)"

text \<open>New identifiers are new.\<close>

fun fresh_event :: "split_view \<Rightarrow> view_event \<Rightarrow> bool" where
  "fresh_event v (View_split u n p d newPaneId newHost) \<longleftrightarrow>
     newPaneId \<notin> set (pane_ids (sv_node v)) \<and> u n \<notin> set (split_ids (sv_node v))"
| "fresh_event v e \<longleftrightarrow> True"

fun splits :: "view_event \<Rightarrow> bool" where
  "splits (View_split u n p d newPaneId newHost) = True"
| "splits e = False"

lemma view_start_ok: "tree_ok t \<Longrightarrow> view_ok (view_start t)"
  by (simp add: view_ok_def view_start_def render_instances reconcile_keys)

lemma pointer_node: "\<exists>sid q. sv_node (pointer_move x v) = resizeSplit (sv_node v) sid q \<or> sv_node (pointer_move x v) = sv_node v"
  by (auto simp: pointer_move_def split: option.split prod.split)

lemma change_tree:
  assumes "tree_ok (sv_node v)" and "fresh_event v e"
  shows "tree_ok (sv_node (view_change v e))"
    and "k \<in> set (pane_ids (sv_node v)) \<Longrightarrow> e \<noteq> View_closed k \<Longrightarrow> k \<in> set (pane_ids (sv_node (view_change v e)))"
    and "length (filter (\<lambda>k. k \<notin> set (pane_ids (sv_node v))) (pane_ids (sv_node (view_change v e)))) \<le> (if splits e then 1 else 0)"
proof -
  have d: "distinct (pane_ids (sv_node v))" using assms(1) by (simp add: tree_ok_def)
  have all: "tree_ok (sv_node (view_change v e))
    \<and> (\<forall>k. k \<in> set (pane_ids (sv_node v)) \<and> e \<noteq> View_closed k \<longrightarrow> k \<in> set (pane_ids (sv_node (view_change v e))))
    \<and> length (filter (\<lambda>k. k \<notin> set (pane_ids (sv_node v))) (pane_ids (sv_node (view_change v e)))) \<le> (if splits e then 1 else 0)"
  proof (cases e)
    case (View_split u n p dir np h)
    show ?thesis
    proof (cases "p \<in> set (pane_ids (sv_node v))")
      case True
      have fresh: "np \<notin> set (pane_ids (sv_node v))" "u n \<notin> set (split_ids (sv_node v))" using assms(2) View_split by simp_all
      note f = splitLeaf_facts[of _ p np u n _ dir h, OF assms(1) True fresh refl]
      have "mset (pane_ids (fst (splitLeaf u n (sv_node v) p dir np h))) = add_mset np (mset (pane_ids (sv_node v)))"
        by (rule mset_pane_ids_splitLeaf[OF d True])
      then have "mset (filter (\<lambda>k. k \<notin> set (pane_ids (sv_node v))) (pane_ids (fst (splitLeaf u n (sv_node v) p dir np h)))) = {#np#}"
        using fresh(1) by (simp add: mset_filter filter_mset_eq_conv)
      then have "length (filter (\<lambda>k. k \<notin> set (pane_ids (sv_node v))) (pane_ids (fst (splitLeaf u n (sv_node v) p dir np h)))) = 1"
        by (metis size_mset size_single)
      with f(1,3) View_split show ?thesis by simp
    next
      case False
      with assms(1) View_split show ?thesis by simp
    qed
  next
    case (View_closed p)
    show ?thesis
    proof (cases "removeLeaf (sv_node v) p")
      case None
      with assms(1) View_closed show ?thesis by simp
    next
      case (Some t)
      with View_closed tree_ok_removeLeaf[OF assms(1) Some] pane_ids_removeLeaf[OF d Some] show ?thesis by auto
    qed
  next
    case (Pointer_move x)
    with pointer_node[of x v] assms(1) show ?thesis by (auto simp: tree_ok_resizeSplit)
  qed (use assms(1) in \<open>auto simp: tree_ok_resizeSplit divider_down_def split: list.split\<close>)
  then show "tree_ok (sv_node (view_change v e))"
    and "k \<in> set (pane_ids (sv_node v)) \<Longrightarrow> e \<noteq> View_closed k \<Longrightarrow> k \<in> set (pane_ids (sv_node (view_change v e)))"
    and "length (filter (\<lambda>k. k \<notin> set (pane_ids (sv_node v))) (pane_ids (sv_node (view_change v e)))) \<le> (if splits e then 1 else 0)"
    by auto
qed

lemma view_step_ok: "view_ok v \<Longrightarrow> fresh_event v e \<Longrightarrow> view_ok (view_step v e)"
  by (simp add: view_ok_def view_step_def render_instances reconcile_keys change_tree(1))

lemma instance_kept:
  assumes "view_ok v" and "fresh_event v e" and "map_of (sv_instances v) k = Some i" and "e \<noteq> View_closed k"
  shows "map_of (sv_instances (view_step v e)) k = Some i"
proof -
  have "k \<in> set (pane_ids (sv_node v))" using assms(1,3) by (metis map_of_SomeD view_ok_def image_eqI fst_conv list.set_map)
  with change_tree(1,2)[OF _ assms(2)] assms(1,3,4) show ?thesis
    by (simp add: view_step_def render_instances view_ok_def reconcile_keeps tree_ok_def)
qed

lemma mounted_count:
  assumes "view_ok v" and "fresh_event v e"
  shows "sv_mounted (view_step v e) \<le> sv_mounted v + (if splits e then 1 else 0)"
proof -
  have "map_of (sv_instances v) k = None \<longleftrightarrow> k \<notin> set (pane_ids (sv_node v))" for k
    using assms(1) by (metis map_of_eq_None_iff view_ok_def list.set_map)
  with change_tree(3)[OF _ assms(2)] assms(1) show ?thesis
    by (simp add: view_step_def render_instances reconcile_count view_ok_def)
qed

lemma run_keeps:
  "view_ok v \<Longrightarrow> run_ok view_step fresh_event v es \<Longrightarrow>
     sv_mounted (foldl view_step v es) \<le> sv_mounted v + length (filter splits es)
     \<and> (\<forall>k i. map_of (sv_instances v) k = Some i \<and> View_closed k \<notin> set es \<longrightarrow> map_of (sv_instances (foldl view_step v es)) k = Some i)"
proof (induction es arbitrary: v)
  case (Cons e es)
  then have ok: "view_ok v" "fresh_event v e" by simp_all
  from Cons.IH[OF view_step_ok[OF ok]] Cons.prems(2) mounted_count[OF ok] instance_kept[OF ok] show ?case
    by (auto split: if_splits)
qed simp

section \<open>Properties\<close>

text \<open>
  C8: editing the split layout remounts no pane. However a tab is split, closed, resized and measured,
  a pane keeps the terminal it had (and with it its session and its scrollback) until it is
  itself closed, and a terminal is mounted only for the panes of the start and one for each
  split.
\<close>
theorem panes_never_remounted:
  assumes "tree_ok t" and "run_ok view_step fresh_event (view_start t) (es @ es')"
  defines "v \<equiv> foldl view_step (view_start t) es"
  shows "map fst (sv_instances v) = pane_ids (sv_node v)
    \<and> (\<forall>k i. map_of (sv_instances v) k = Some i \<and> View_closed k \<notin> set es' \<longrightarrow>
        map_of (sv_instances (foldl view_step v es')) k = Some i)
    \<and> sv_mounted v \<le> countLeaves t + length (filter splits es)"
proof -
  have split: "run_ok step ok s (xs @ ys) \<longleftrightarrow> run_ok step ok s xs \<and> run_ok step ok (foldl step s xs) ys"
    for step :: "split_view \<Rightarrow> view_event \<Rightarrow> split_view" and ok s xs ys by (induction xs arbitrary: s) auto
  have run: "run_ok view_step fresh_event (view_start t) es" "run_ok view_step fresh_event v es'"
    using assms(2) unfolding split v_def by simp_all
  have ok: "view_ok w \<Longrightarrow> run_ok view_step fresh_event w xs \<Longrightarrow> view_ok (foldl view_step w xs)" for w xs
    by (induction xs arbitrary: w) (auto intro: view_step_ok)
  have v: "view_ok v" using ok[OF view_start_ok[OF assms(1)] run(1)] by (simp add: v_def)
  have "sv_mounted (view_start t) = countLeaves t"
    by (simp add: view_start_def render_instances reconcile_count length_pane_ids)
  with run_keeps[OF view_start_ok[OF assms(1)] run(1)] run_keeps[OF v run(2)] v show ?thesis
    unfolding v_def[symmetric] by (simp add: view_ok_def)
qed

text \<open>
  C38: a divider follows the pointer. In a well formed tree with at least a pixel to share, pressing
  the divider at \<open>x0\<close> and moving over any positions moves it along its axis by the distance of
  the last position, however the moves in between went, unless the ratio would leave 0.15 to
  0.85, where it stops; every other divider keeps its ratio.
\<close>
theorem divider_follows_pointer:
  fixes x0 :: real
  assumes "tree_ok (sv_node v)" and "d \<in> set (dividers (view_layout v))" and "1 \<le> dl_availablePx d" and "xs \<noteq> []"
  defines "v' \<equiv> foldl view_step v (Divider_down (dl_splitId d) x0 # map Pointer_move xs)"
    and "q \<equiv> dl_ratio d + (last xs - x0) / dl_availablePx d"
  shows "\<exists>d'\<in>set (dividers (view_layout v')). moved_divider d (clamp_ratio q) d'
      \<and> (MIN_RATIO \<le> q \<and> q \<le> MAX_RATIO \<longrightarrow> divider_pos d' = divider_pos d + (last xs - x0))
      \<and> (\<forall>sid. sid \<noteq> dl_splitId d \<longrightarrow> ratio_of (sv_node v') sid = ratio_of (sv_node v) sid)"
proof -
  let ?rc = "\<lparr>left = 0, top = 0, width = sv_width v, height = sv_height v\<rparr>"
  let ?v1 = "view_step v (Divider_down (dl_splitId d) x0)"
  let ?drag = "\<lparr>startPos = x0, startRatio = dl_ratio d, drag_availablePx = dl_availablePx d\<rparr>"
  have ids: "distinct (split_ids (sv_node v))" using assms(1) by (simp add: tree_ok_def)
  have "distinct (map dl_splitId (dividers (view_layout v)))" using ids by (simp add: view_layout_def layout_divider_ids)
  then have only: "d' = d" if "d' \<in> set (dividers (view_layout v))" "dl_splitId d' = dl_splitId d" for d'
    using that assms(2) by (auto simp: distinct_map inj_on_def)
  obtain d1 ds where f: "filter (\<lambda>x. dl_splitId x = dl_splitId d) (dividers (view_layout v)) = d1 # ds"
    using assms(2) by (cases "filter (\<lambda>x. dl_splitId x = dl_splitId d) (dividers (view_layout v))") (auto simp: filter_empty_conv)
  then have "d1 \<in> set (filter (\<lambda>x. dl_splitId x = dl_splitId d) (dividers (view_layout v)))" by simp
  then have "d1 = d" using only[of d1] by simp
  with f assms(3) have v1: "sv_drag ?v1 = Some (dl_splitId d, ?drag)" "sv_node ?v1 = sv_node v"
    "sv_width ?v1 = sv_width v" "sv_height ?v1 = sv_height v"
    by (simp_all add: view_step_def divider_down_def max_def)
  have "startRatio ?drag + (last xs - startPos ?drag) / drag_availablePx ?drag = q" by (simp add: q_def)
  with pointer_moves[OF v1(1) assms(4)] v1(2-4)
  have v': "sv_node v' = resizeSplit (sv_node v) (dl_splitId d) q" "sv_width v' = sv_width v" "sv_height v' = sv_height v"
    by (simp_all add: v'_def)
  obtain d' where d': "d' \<in> set (dividers (view_layout v'))" "moved_divider d (clamp_ratio q) d'"
    using divider_moves[OF ids, of d ?rc q] assms(2) unfolding view_layout_def v' by blast
  have "divider_pos d' = divider_pos d + (last xs - x0)" if "MIN_RATIO \<le> q" "q \<le> MAX_RATIO"
    using d'(2) that assms(3) by (simp add: moved_divider_def clamp_ratio_def q_def)
  moreover have "ratio_of (sv_node v') sid = ratio_of (sv_node v) sid" if "sid \<noteq> dl_splitId d" for sid
    using that ids unfolding v' by (subst ratio_of_resizeSplit) auto
  ultimately show ?thesis using d' by blast
qed

theorem panes_never_remounted_witness:
  "map_of (sv_instances (foldl view_step (foldl view_step (view_start sample_tree) [Container_measured 800 600])
     [View_split sample_uuids 0 ''q'' Row ''new'' (sample_host ''h'' None), View_closed ''q''])) ''p'' = Some 0"
proof -
  have "run_ok view_step fresh_event (view_start sample_tree)
      ([Container_measured 800 600] @ [View_split sample_uuids 0 ''q'' Row ''new'' (sample_host ''h'' None), View_closed ''q''])"
    by (simp add: view_step_def view_start_def sample_uuids_def)
  note kept = panes_never_remounted[OF sample_tree_ok this]
  have "map_of (sv_instances (foldl view_step (view_start sample_tree) [Container_measured 800 600])) ''p'' = Some 0"
    by (simp add: view_step_def view_start_def render_instances)
  with kept show ?thesis by simp
qed

theorem divider_follows_pointer_witness:
  "\<exists>d'\<in>set (dividers (view_layout (foldl view_step
      \<lparr>sv_node = sample_tree, sv_width = 406, sv_height = 300, sv_instances = [], sv_mounted = 0, sv_drag = None\<rparr>
      (Divider_down ''s'' 200 # map Pointer_move [900, 240])))). divider_pos d' = 240"
proof -
  let ?v = "\<lparr>sv_node = sample_tree, sv_width = 406, sv_height = 300, sv_instances = [], sv_mounted = 0, sv_drag = None\<rparr>"
  let ?d = "\<lparr>dl_splitId = ''s'', dl_direction = Row, dl_ratio = 1 / 2, dl_availablePx = 400,
      dl_rect = divider_rect Row (1 / 2) \<lparr>left = 0, top = 0, width = 406, height = 300\<rparr>\<rparr>"
  have d: "?d \<in> set (dividers (view_layout ?v))" "divider_pos ?d = 200"
    by (simp_all add: view_layout_def sample_tree_def avail_def DIVIDER_THICKNESS_PX_def divider_pos_def divider_rect_def)
  have ok: "tree_ok (sv_node ?v)" "1 \<le> dl_availablePx ?d" "[900, 240] \<noteq> ([] :: real list)" by simp_all
  show ?thesis
    using divider_follows_pointer[OF ok(1) d(1) ok(2,3), of 200] d(2) by (auto simp: MIN_RATIO_def MAX_RATIO_def)
qed

end
