(* ===== verification/Inline_Forms.thy ===== *)
theory Inline_Forms
  imports Store_Forms App_Shell
begin

text \<open>
  The forms in the right panel, \<open>src/src/components/panels/InlineFormPanel.tsx\<close>, composed with the forms
  themselves and with the shell that opens and closes them (\<open>openModal\<close>, \<open>closeInlineForm\<close> of
  \<open>AppShell.tsx\<close>). The panel is not modal: while a form is open the lists and trees beside it can
  open another one. React keeps a component while its place in the tree has the same type, so
  opening a second item of the same kind gives the mounted form a new item but leaves its state.
\<close>

section \<open>The mounted form\<close>

datatype mounted_form =
    M_group "group_form store_form"
  | M_host form_state
  | M_identity "identity_form store_form"
  | M_key "key_form store_form"
  | M_vpn "profile_form store_form"

datatype form_kind = Kind_group | Kind_host | Kind_identity | Kind_key | Kind_vpn

fun modal_kind :: "modal_state \<Rightarrow> form_kind option" where
  "modal_kind (Group_modal g parent) = Some Kind_group"
| "modal_kind (Host_modal h g) = Some Kind_host"
| "modal_kind (Identity_modal i) = Some Kind_identity"
| "modal_kind Key_modal = Some Kind_key"
| "modal_kind (Vpn_profile_modal p) = Some Kind_vpn"
| "modal_kind (Snippet_modal s) = None"
| "modal_kind (Run_snippet_modal s) = None"

fun form_kind_of :: "mounted_form \<Rightarrow> form_kind" where
  "form_kind_of (M_group f) = Kind_group"
| "form_kind_of (M_host s) = Kind_host"
| "form_kind_of (M_identity f) = Kind_identity"
| "form_kind_of (M_key f) = Kind_key"
| "form_kind_of (M_vpn f) = Kind_vpn"

text \<open>\<open>titleFor\<close>\<close>

fun titleFor :: "modal_state \<Rightarrow> string" where
  "titleFor (Group_modal g parent) = (if g = None then ''New group'' else ''Edit group'')"
| "titleFor (Host_modal h g) = (if h = None then ''Add server'' else ''Edit server'')"
| "titleFor (Identity_modal i) = (if i = None then ''New identity'' else ''Edit identity'')"
| "titleFor Key_modal = ''New SSH key''"
| "titleFor (Vpn_profile_modal p) = (if p = None then ''New VPN profile'' else ''Edit VPN profile'')"
| "titleFor m = []"

fun saved_label :: "form_kind \<Rightarrow> string" where
  "saved_label Kind_group = ''Group saved.''"
| "saved_label Kind_host = ''Server saved.''"
| "saved_label Kind_identity = ''Identity saved.''"
| "saved_label Kind_key = ''SSH key saved.''"
| "saved_label Kind_vpn = ''VPN profile saved.''"

text \<open>A new component starts from its properties.\<close>

fun mount_form :: "ssh_key list \<Rightarrow> modal_state \<Rightarrow> mounted_form option" where
  "mount_form ks (Group_modal g parent) = Some (M_group (store_form_start (group_form_of g parent)))"
| "mount_form ks (Host_modal h g) = Some (M_host (form_start h g ks))"
| "mount_form ks (Identity_modal i) = Some (M_identity (store_form_start (identity_form_of i)))"
| "mount_form ks Key_modal = Some (M_key (store_form_start key_form_start))"
| "mount_form ks (Vpn_profile_modal p) = Some (M_vpn (store_form_start (profile_form_of p)))"
| "mount_form ks m = None"

text \<open>A component that stays has its new property; the other forms read theirs from the modal.\<close>

fun set_item :: "modal_state \<Rightarrow> mounted_form \<Rightarrow> mounted_form" where
  "set_item (Host_modal h g) (M_host s) = M_host (s\<lparr>form_host := h\<rparr>)"
| "set_item m f = f"

section \<open>The panel\<close>

text \<open>
  \<open>ip_form\<close>: the mounted form with the number of its component. \<open>ip_saves\<close>: the handlers that wait for
  a store, with the component they belong to; they go on when it is gone. \<open>ip_connects\<close>: the hosts
  that \<open>Save & Connect\<close> handed to the shell.
\<close>

datatype inline_call = Store_call bridge_call | Host_form_call form_call

datatype inline_save = Store_save form_kind | Host_save "host option" host_form bool

record inline_panel =
  ip_modal :: "modal_state option"
  ip_form :: "(nat \<times> mounted_form) option"
  ip_mounts :: nat
  ip_saves :: "(nat \<times> nat \<times> inline_save) list"
  ip_started :: nat
  ip_calls :: "inline_call list"
  ip_notices :: "string list"
  ip_connects :: "host list"

definition inline_start :: inline_panel where
  "inline_start = \<lparr>ip_modal = None, ip_form = None, ip_mounts = 0, ip_saves = [], ip_started = 0, ip_calls = [],
     ip_notices = [], ip_connects = []\<rparr>"

definition mount_new :: "ssh_key list \<Rightarrow> modal_state \<Rightarrow> inline_panel \<Rightarrow> inline_panel" where
  "mount_new ks m p = p\<lparr>ip_form := map_option (Pair (ip_mounts p)) (mount_form ks m), ip_mounts := Suc (ip_mounts p)\<rparr>"

text \<open>The render after \<open>setModal\<close>.\<close>

definition show_modal :: "ssh_key list \<Rightarrow> modal_state option \<Rightarrow> inline_panel \<Rightarrow> inline_panel" where
  "show_modal ks m p =
     (let p1 = p\<lparr>ip_modal := m\<rparr>
      in case m of
           None \<Rightarrow> p1\<lparr>ip_form := None\<rparr>
         | Some x \<Rightarrow>
             (case ip_form p of
                None \<Rightarrow> mount_new ks x p1
              | Some (i, f) \<Rightarrow>
                  if modal_kind x = Some (form_kind_of f) then p1\<lparr>ip_form := Some (i, set_item x f)\<rparr> else mount_new ks x p1))"

definition add_save :: "nat \<Rightarrow> inline_save \<Rightarrow> inline_panel \<Rightarrow> inline_panel" where
  "add_save i v p = p\<lparr>ip_saves := ip_saves p @ [(ip_started p, i, v)], ip_started := Suc (ip_started p)\<rparr>"

text \<open>An event of one of the store forms, with the check and the call of the render it happens in.\<close>

definition store_form_input ::
  "('f store_form \<Rightarrow> mounted_form) \<Rightarrow> form_kind \<Rightarrow> ('f \<Rightarrow> field_errors) \<Rightarrow> ('f \<Rightarrow> bridge_call) \<Rightarrow>
     nat \<Rightarrow> 'f store_form \<Rightarrow> 'f store_form_event \<Rightarrow> inline_panel \<Rightarrow> inline_panel" where
  "store_form_input wrap fk check call i f e p =
     (case e of
        Sf_answered x \<Rightarrow> p
      | _ \<Rightarrow>
          (let f' = store_form_step check call f e; p1 = p\<lparr>ip_form := Some (i, wrap f')\<rparr>
           in if sf_submitting f' \<and> \<not> sf_submitting f
              then add_save i (Store_save fk) (p1\<lparr>ip_calls := ip_calls p @ [Store_call (call (sf_fields f))]\<rparr>)
              else p1))"

definition host_form_input :: "nat \<Rightarrow> form_state \<Rightarrow> form_event \<Rightarrow> inline_panel \<Rightarrow> inline_panel" where
  "host_form_input i s e p =
     (case e of
        Submit_ended st b \<Rightarrow> p
      | _ \<Rightarrow>
          (let s' = form_step s e; p1 = p\<lparr>ip_form := Some (i, M_host s')\<rparr>
           in case submission s' of
                Some (h, f, c) \<Rightarrow> if submission s = None then add_save i (Host_save h f c) p1 else p1
              | None \<Rightarrow> p1))"

text \<open>The answer of a store in the component that asked, if it is still mounted.\<close>

definition store_answered :: "string option \<Rightarrow> 'f store_form \<Rightarrow> 'f store_form" where
  "store_answered failure f =
     (case failure of
        None \<Rightarrow> f\<lparr>sf_submitting := False, sf_done := True\<rparr>
      | Some e \<Rightarrow> f\<lparr>sf_submitting := False, sf_error := Some e\<rparr>)"

fun form_answered :: "string option \<Rightarrow> mounted_form \<Rightarrow> mounted_form" where
  "form_answered failure (M_group f) = M_group (store_answered failure f)"
| "form_answered failure (M_identity f) = M_identity (store_answered failure f)"
| "form_answered failure (M_key f) = M_key (store_answered failure f)"
| "form_answered failure (M_vpn f) = M_vpn (store_answered failure f)"
| "form_answered failure (M_host s) = M_host s"

fun host_form_answered :: "form_stores \<Rightarrow> bool \<Rightarrow> mounted_form \<Rightarrow> mounted_form" where
  "host_form_answered st b (M_host s) = M_host (submit_ended st b s)"
| "host_form_answered st b f = f"

definition at_instance :: "nat \<Rightarrow> (mounted_form \<Rightarrow> mounted_form) \<Rightarrow> inline_panel \<Rightarrow> inline_panel" where
  "at_instance i g p = p\<lparr>ip_form := map_option (\<lambda>(j, f). (j, if j = i then g f else f)) (ip_form p)\<rparr>"

text \<open>\<open>handleSaved\<close>, and the handler the shell passes for \<open>Save & Connect\<close>: both close whatever is open.\<close>

definition handleSaved :: "form_kind \<Rightarrow> inline_panel \<Rightarrow> inline_panel" where
  "handleSaved fk p = p\<lparr>ip_notices := ip_notices p @ [saved_label fk], ip_modal := None, ip_form := None\<rparr>"

definition saveAndConnect :: "host \<Rightarrow> inline_panel \<Rightarrow> inline_panel" where
  "saveAndConnect h p =
     p\<lparr>ip_modal := None, ip_form := None, ip_notices := ip_notices p @ [''Server saved. Opening a terminal''],
       ip_connects := ip_connects p @ [h]\<rparr>"

definition drop_save :: "nat \<Rightarrow> inline_panel \<Rightarrow> inline_panel" where
  "drop_save k p = p\<lparr>ip_saves := filter (\<lambda>(j, x). j \<noteq> k) (ip_saves p)\<rparr>"

definition save_ended :: "nat \<Rightarrow> string option \<Rightarrow> inline_panel \<Rightarrow> inline_panel" where
  "save_ended k failure p =
     (case map_of (ip_saves p) k of
        Some (i, Store_save fk) \<Rightarrow>
          (let p1 = at_instance i (form_answered failure) (drop_save k p)
           in if failure = None then handleSaved fk p1 else p1)
      | _ \<Rightarrow> p)"

definition host_save_ended :: "nat \<Rightarrow> form_stores \<Rightarrow> inline_panel \<Rightarrow> inline_panel" where
  "host_save_ended k st p =
     (case map_of (ip_saves p) k of
        Some (i, Host_save h f c) \<Rightarrow>
          (let r = submit st h f; p1 = at_instance i (host_form_answered st True) (drop_save k p);
               p2 = p1\<lparr>ip_calls := ip_calls p1 @ map Host_form_call (fst r)\<rparr>
           in case snd r of
                Inl e \<Rightarrow> p2
              | Inr saved \<Rightarrow> if c then saveAndConnect saved p2 else handleSaved Kind_host p2)
      | _ \<Rightarrow> p)"

datatype inline_event =
    Show "modal_state option"
  | Group_input "group_form store_form_event"
  | Host_input form_event
  | Identity_input "identity_form store_form_event"
  | Key_input "key_form store_form_event"
  | Vpn_input "profile_form store_form_event"
  | Save_ended nat "string option"
  | Host_save_ended nat form_stores

fun inline_step :: "ssh_key list \<Rightarrow> inline_panel \<Rightarrow> inline_event \<Rightarrow> inline_panel" where
  "inline_step ks p (Show m) = show_modal ks m p"
| "inline_step ks p (Group_input e) =
     (case (ip_modal p, ip_form p) of
        (Some (Group_modal g parent), Some (i, M_group f)) \<Rightarrow> store_form_input M_group Kind_group group_check (group_save g) i f e p
      | _ \<Rightarrow> p)"
| "inline_step ks p (Host_input e) =
     (case ip_form p of Some (i, M_host s) \<Rightarrow> host_form_input i s e p | _ \<Rightarrow> p)"
| "inline_step ks p (Identity_input e) =
     (case (ip_modal p, ip_form p) of
        (Some (Identity_modal d), Some (i, M_identity f)) \<Rightarrow>
          store_form_input M_identity Kind_identity identity_check (identity_save d) i f e p
      | _ \<Rightarrow> p)"
| "inline_step ks p (Key_input e) =
     (case ip_form p of Some (i, M_key f) \<Rightarrow> store_form_input M_key Kind_key key_check key_save i f e p | _ \<Rightarrow> p)"
| "inline_step ks p (Vpn_input e) =
     (case (ip_modal p, ip_form p) of
        (Some (Vpn_profile_modal v), Some (i, M_vpn f)) \<Rightarrow>
          store_form_input M_vpn Kind_vpn profile_check (profile_save v) i f e p
      | _ \<Rightarrow> p)"
| "inline_step ks p (Save_ended k failure) = save_ended k failure p"
| "inline_step ks p (Host_save_ended k st) = host_save_ended k st p"

section \<open>Lemmas\<close>

text \<open>The button of the mounted form is off.\<close>

fun form_busy :: "mounted_form \<Rightarrow> bool" where
  "form_busy (M_group f) = sf_submitting f"
| "form_busy (M_host s) = (submission s \<noteq> None)"
| "form_busy (M_identity f) = sf_submitting f"
| "form_busy (M_key f) = sf_submitting f"
| "form_busy (M_vpn f) = sf_submitting f"

fun save_kind :: "inline_save \<Rightarrow> form_kind" where
  "save_kind (Store_save fk) = fk"
| "save_kind (Host_save h f c) = Kind_host"

definition save_of :: "nat \<Rightarrow> inline_panel \<Rightarrow> (nat \<times> nat \<times> inline_save) list" where
  "save_of i p = filter (\<lambda>(k, j, v). j = i) (ip_saves p)"

text \<open>
  The form that is mounted is the one of the modal; saves have distinct numbers, and each component
  has at most one, of its own kind, exactly while its button is off.
\<close>

definition inline_ok :: "inline_panel \<Rightarrow> bool" where
  "inline_ok p \<longleftrightarrow>
     (case ip_form p of
        None \<Rightarrow> Option.bind (ip_modal p) modal_kind = None
      | Some (i, f) \<Rightarrow> Option.bind (ip_modal p) modal_kind = Some (form_kind_of f) \<and> i < ip_mounts p
          \<and> (form_busy f \<longleftrightarrow> save_of i p \<noteq> []) \<and> (\<forall>x\<in>set (save_of i p). save_kind (snd (snd x)) = form_kind_of f))
     \<and> distinct (map fst (ip_saves p)) \<and> distinct (map (fst \<circ> snd) (ip_saves p))
     \<and> (\<forall>(k, i, v)\<in>set (ip_saves p). k < ip_started p \<and> i < ip_mounts p \<and> v \<noteq> Store_save Kind_host)"

lemma save_of_form [simp]: "save_of i (p\<lparr>ip_form := x\<rparr>) = save_of i p" "save_of i (p\<lparr>ip_calls := cs\<rparr>) = save_of i p"
  by (simp_all add: save_of_def)

lemma inline_start_ok: "inline_ok inline_start"
  by (simp add: inline_ok_def inline_start_def)

lemma mount_form_kind: "map_option form_kind_of (mount_form ks m) = modal_kind m"
  by (cases m) simp_all

lemma mount_form_idle: "mount_form ks m = Some f \<Longrightarrow> \<not> form_busy f"
  by (cases m) (auto simp: store_form_start_def form_start_def)

lemma set_item_kind [simp]: "form_kind_of (set_item m f) = form_kind_of f" "form_busy (set_item m f) = form_busy f"
  by (cases "(m, f)" rule: set_item.cases; simp)+

lemma store_step_busy: "sf_submitting f \<Longrightarrow> \<forall>x. e \<noteq> Sf_answered x \<Longrightarrow> sf_submitting (store_form_step check call f e)"
  by (cases e) simp_all

lemma form_step_busy: "submission s = Some v \<Longrightarrow> \<forall>st b. e \<noteq> Submit_ended st b \<Longrightarrow> submission (form_step s e) = Some v"
  by (cases e) (auto simp: handleBrowse_def browse_answered_def submitting_def Let_def split: option.split browse_answer.split)

text \<open>An event of the mounted form keeps the invariant: it may start one save when there was none.\<close>

lemma form_changes_ok:
  assumes "inline_ok p" and "ip_form p = Some (i, f)" and "form_kind_of f' = form_kind_of f" and "form_busy f' = form_busy f"
  shows "inline_ok (p\<lparr>ip_form := Some (i, f')\<rparr>)"
  using assms by (simp add: inline_ok_def save_of_def)

lemma save_starts_ok:
  assumes "inline_ok p" and "ip_form p = Some (i, f)" and "form_kind_of f' = form_kind_of f" and "\<not> form_busy f" and "form_busy f'"
    and kind: "save_kind v = form_kind_of f" "v \<noteq> Store_save Kind_host"
  shows "inline_ok (add_save i v (p\<lparr>ip_form := Some (i, f'), ip_calls := cs\<rparr>))"
proof -
  have none: "save_of i p = []" and lt: "i < ip_mounts p" using assms(1,2,4) by (simp_all add: inline_ok_def)
  then have "i \<notin> (fst \<circ> snd) ` set (ip_saves p)" by (force simp: save_of_def filter_empty_conv)
  moreover have "ip_started p \<notin> fst ` set (ip_saves p)" using assms(1) by (force simp: inline_ok_def)
  ultimately show ?thesis
    using assms lt by (auto simp: inline_ok_def add_save_def save_of_def)
qed

lemma store_input_ok:
  assumes "inline_ok p" and "ip_form p = Some (i, wrap f)"
    and "\<And>g. form_kind_of (wrap g) = form_kind_of (wrap f)" and "\<And>g. form_busy (wrap g) = sf_submitting g"
    and "form_kind_of (wrap f) = fk" "fk \<noteq> Kind_host"
  shows "inline_ok (store_form_input wrap fk check call i f e p)"
proof (cases "\<exists>x. e = Sf_answered x")
  case True
  then show ?thesis using assms(1) by (auto simp: store_form_input_def)
next
  case False
  let ?f = "store_form_step check call f e"
  have unfold: "store_form_input wrap fk check call i f e p =
     (let p1 = p\<lparr>ip_form := Some (i, wrap ?f)\<rparr>
      in if sf_submitting ?f \<and> \<not> sf_submitting f
         then add_save i (Store_save fk) (p1\<lparr>ip_calls := ip_calls p @ [Store_call (call (sf_fields f))]\<rparr>) else p1)"
    using False by (cases e) (simp_all add: store_form_input_def Let_def del: store_form_step.simps)
  show ?thesis
  proof (cases "sf_submitting ?f \<and> \<not> sf_submitting f")
    case True
    with save_starts_ok[OF assms(1,2) assms(3)[of ?f]] show ?thesis unfolding unfold by (simp add: assms(4,5,6))
  next
    case idle: False
    with store_step_busy[of f e] False have "sf_submitting ?f = sf_submitting f" by blast
    with form_changes_ok[OF assms(1,2) assms(3)[of ?f]] idle show ?thesis unfolding unfold by (simp add: assms(4))
  qed
qed

lemma host_input_ok:
  assumes "inline_ok p" and "ip_form p = Some (i, M_host s)"
  shows "inline_ok (host_form_input i s e p)"
proof (cases "\<exists>st b. e = Submit_ended st b")
  case True
  then show ?thesis using assms(1) by (auto simp: host_form_input_def)
next
  case False
  let ?s = "form_step s e"
  have unfold: "host_form_input i s e p =
     (case submission ?s of
        Some (h, f, c) \<Rightarrow>
          if submission s = None then add_save i (Host_save h f c) (p\<lparr>ip_form := Some (i, M_host ?s)\<rparr>)
          else p\<lparr>ip_form := Some (i, M_host ?s)\<rparr>
      | None \<Rightarrow> p\<lparr>ip_form := Some (i, M_host ?s)\<rparr>)"
    using False by (cases e) (auto simp: host_form_input_def Let_def split: option.split)
  show ?thesis
  proof (cases "submission ?s")
    case None
    then have "submission s = None" using form_step_busy[of s _ e] False by (cases "submission s") auto
    with None form_changes_ok[OF assms, of "M_host ?s"] show ?thesis unfolding unfold by simp
  next
    case (Some v)
    obtain h f c where v: "v = (h, f, c)" by (cases v)
    show ?thesis
    proof (cases "submission s")
      case None
      with Some v save_starts_ok[OF assms, of "M_host ?s" "Host_save h f c" "ip_calls p"] show ?thesis unfolding unfold by simp
    next
      case (Some w)
      with \<open>submission ?s = Some v\<close> v form_changes_ok[OF assms, of "M_host ?s"] show ?thesis unfolding unfold by simp
    qed
  qed
qed

lemma show_modal_ok:
  assumes "inline_ok p"
  shows "inline_ok (show_modal ks m p)"
proof -
  have fresh: "save_of (ip_mounts p) p = []"
    using assms by (force simp: inline_ok_def save_of_def filter_empty_conv)
  have new: "inline_ok (mount_new ks x (p\<lparr>ip_modal := Some x\<rparr>))" for x
    using assms fresh mount_form_kind[of ks x] mount_form_idle[of ks x]
    by (cases "mount_form ks x") (auto simp: inline_ok_def mount_new_def save_of_def less_Suc_eq split: option.splits)
  have stays: "inline_ok (p\<lparr>ip_modal := Some x, ip_form := Some (i, set_item x f)\<rparr>)"
    if "ip_form p = Some (i, f)" "modal_kind x = Some (form_kind_of f)" for x i f
    using assms that by (simp add: inline_ok_def save_of_def)
  have closed: "inline_ok (p\<lparr>ip_modal := None, ip_form := None\<rparr>)"
    using assms by (simp add: inline_ok_def)
  show ?thesis
  proof (cases m)
    case None
    with closed show ?thesis by (simp add: show_modal_def)
  next
    case (Some x)
    then show ?thesis
      using new[of x] stays[of _ _ x] by (cases "ip_form p") (auto simp: show_modal_def Let_def)
  qed
qed

text \<open>A save ends: its component, if it is there, is free again.\<close>

lemma drop_save_saves:
  assumes "inline_ok p" and "map_of (ip_saves p) k = Some (i, v)"
  shows "save_of i (drop_save k p) = []" and "j \<noteq> i \<Longrightarrow> save_of j (drop_save k p) = save_of j p"
    and "set (ip_saves (drop_save k p)) \<subseteq> set (ip_saves p)"
    and "distinct (map fst (ip_saves (drop_save k p)))" and "distinct (map (fst \<circ> snd) (ip_saves (drop_save k p)))"
proof -
  have mem: "(k, i, v) \<in> set (ip_saves p)" using assms(2) by (rule map_of_SomeD)
  have d: "distinct (map fst (ip_saves p))" "distinct (map (fst \<circ> snd) (ip_saves p))" using assms(1) by (simp_all add: inline_ok_def)
  have "inj_on (fst \<circ> snd) (set (ip_saves p))" using d(2) by (simp add: distinct_map)
  then have one: "k' = k" if "(k', i, v') \<in> set (ip_saves p)" for k' v'
    using inj_onD[of "fst \<circ> snd" "set (ip_saves p)" "(k', i, v')" "(k, i, v)"] that mem by simp
  show "save_of i (drop_save k p) = []" using one by (auto simp: save_of_def drop_save_def filter_empty_conv)
  have same: "j' = i" if "(k, j', v') \<in> set (ip_saves p)" for j' v'
    using eq_key_imp_eq_value[OF d(1) that mem] by simp
  show "save_of j (drop_save k p) = save_of j p" if "j \<noteq> i"
    using same that by (auto simp: save_of_def drop_save_def intro!: filter_cong)
  show "set (ip_saves (drop_save k p)) \<subseteq> set (ip_saves p)" by (auto simp: drop_save_def)
  show "distinct (map fst (ip_saves (drop_save k p)))" "distinct (map (fst \<circ> snd) (ip_saves (drop_save k p)))"
    using d by (simp_all add: drop_save_def distinct_map_filter)
qed

lemma save_done_ok:
  assumes "inline_ok p" and "map_of (ip_saves p) k = Some (i, v)"
    and g: "\<And>f. ip_form p = Some (i, f) \<Longrightarrow> form_kind_of (g f) = form_kind_of f \<and> \<not> form_busy (g f)"
  shows "inline_ok (at_instance i g (drop_save k p))"
proof -
  note dropped = drop_save_saves[OF assms(1,2)]
  have fields: "ip_form (drop_save k p) = ip_form p" "ip_modal (drop_save k p) = ip_modal p" "ip_mounts (drop_save k p) = ip_mounts p"
    "ip_started (drop_save k p) = ip_started p" by (simp_all add: drop_save_def)
  have bounds: "\<forall>(k, i, v)\<in>set (ip_saves (drop_save k p)). k < ip_started p \<and> i < ip_mounts p \<and> v \<noteq> Store_save Kind_host"
    using assms(1) dropped(3) by (auto simp: inline_ok_def)
  have save: "save_of j (at_instance i g q) = save_of j q" for j q by (simp add: save_of_def at_instance_def)
  show ?thesis
  proof (cases "ip_form p")
    case None
    with assms(1) dropped(4,5) bounds fields show ?thesis by (simp add: inline_ok_def at_instance_def)
  next
    case (Some jf)
    obtain j f where jf: "jf = (j, f)" by (cases jf)
    show ?thesis
    proof (cases "j = i")
      case True
      with assms(1) Some jf dropped(1,4,5) bounds fields g[of f] save show ?thesis
        by (simp add: inline_ok_def) (simp add: at_instance_def fields)
    next
      case False
      with assms(1) Some jf dropped(2)[OF False] dropped(4,5) bounds fields save show ?thesis
        by (simp add: inline_ok_def) (simp add: at_instance_def fields)
    qed
  qed
qed

lemma closed_ok: "inline_ok p \<Longrightarrow> inline_ok (handleSaved fk p)" "inline_ok p \<Longrightarrow> inline_ok (saveAndConnect h p)"
  by (simp_all add: inline_ok_def handleSaved_def saveAndConnect_def)

lemma save_at_instance:
  assumes "inline_ok p" and "map_of (ip_saves p) k = Some (i, v)" and "ip_form p = Some (i, f)"
  shows "form_kind_of f = save_kind v"
proof -
  have "(k, i, v) \<in> set (save_of i p)" using map_of_SomeD[OF assms(2)] by (simp add: save_of_def)
  with assms(1,3) show ?thesis by (force simp: inline_ok_def)
qed

lemma form_answered_free:
  "form_kind_of f \<noteq> Kind_host \<Longrightarrow> form_kind_of (form_answered failure f) = form_kind_of f \<and> \<not> form_busy (form_answered failure f)"
  by (cases f) (auto simp: store_answered_def split: option.split)

lemma host_form_answered_free:
  "form_kind_of f = Kind_host \<Longrightarrow>
     form_kind_of (host_form_answered st b f) = form_kind_of f \<and> \<not> form_busy (host_form_answered st b f)"
  by (cases f) (auto simp: submit_ended_def Let_def split: option.split sum.split)

lemma store_save_is_no_host:
  assumes "inline_ok p" and "(k, i, Store_save fk) \<in> set (ip_saves p)"
  shows "fk \<noteq> Kind_host"
  using assms by (force simp: inline_ok_def)

lemma save_ended_ok:
  assumes ok: "inline_ok p"
  shows "inline_ok (save_ended k failure p)"
proof (cases "\<exists>i fk. map_of (ip_saves p) k = Some (i, Store_save fk)")
  case True
  then obtain i fk where s: "map_of (ip_saves p) k = Some (i, Store_save fk)" by blast
  have "fk \<noteq> Kind_host" using store_save_is_no_host[OF ok map_of_SomeD[OF s]] .
  then have "inline_ok (at_instance i (form_answered failure) (drop_save k p))"
    using save_done_ok[OF ok s, of "form_answered failure"] save_at_instance[OF ok s] form_answered_free by simp
  then show ?thesis using s closed_ok by (cases failure) (simp_all add: save_ended_def Let_def)
next
  case False
  then show ?thesis using ok by (auto simp: save_ended_def split: option.split inline_save.split)
qed

lemma host_save_ended_ok:
  assumes ok: "inline_ok p"
  shows "inline_ok (host_save_ended k st p)"
proof (cases "\<exists>i h f c. map_of (ip_saves p) k = Some (i, Host_save h f c)")
  case True
  then obtain i h f c where s: "map_of (ip_saves p) k = Some (i, Host_save h f c)" by blast
  have free: "inline_ok (at_instance i (host_form_answered st True) (drop_save k p))"
    using save_done_ok[OF ok s, of "host_form_answered st True"] save_at_instance[OF ok s] host_form_answered_free by simp
  have called: "inline_ok (q\<lparr>ip_calls := cs\<rparr>) = inline_ok q" for q cs by (simp add: inline_ok_def split: option.split)
  show ?thesis using s free closed_ok by (simp add: host_save_ended_def Let_def called split: sum.split)
next
  case False
  then show ?thesis using ok by (auto simp: host_save_ended_def split: option.split inline_save.split)
qed

lemma inline_step_ok:
  assumes ok: "inline_ok p"
  shows "inline_ok (inline_step ks p e)"
proof (cases e)
  case (Show m)
  then show ?thesis using show_modal_ok[OF ok] by simp
next
  case (Save_ended k failure)
  then show ?thesis using save_ended_ok[OF ok] by simp
next
  case (Host_save_ended k st)
  then show ?thesis using host_save_ended_ok[OF ok] by simp
qed (use ok in \<open>auto split: option.split modal_state.split mounted_form.split intro: store_input_ok host_input_ok\<close>)

interpretation inline_machine: invariant_machine inline_start "inline_step ks" "\<lambda>_ _. True" inline_ok for ks
  by unfold_locales (rule inline_start_ok, rule inline_step_ok)

text \<open>A save stays on its way until its own answer.\<close>

fun ends_save :: "nat \<Rightarrow> inline_event \<Rightarrow> bool" where
  "ends_save k (Save_ended j x) = (j = k)"
| "ends_save k (Host_save_ended j st) = (j = k)"
| "ends_save k e = False"

lemma map_of_filter_other: "j \<noteq> k \<Longrightarrow> map_of (filter (\<lambda>(j', x). j' \<noteq> j) xs) k = map_of xs k"
  by (induction xs) auto

lemma add_save_keeps: "map_of (ip_saves p) k = Some v \<Longrightarrow> map_of (ip_saves (add_save i w p)) k = Some v"
  by (simp add: add_save_def map_add_Some_iff)

lemma saves_closed [simp]:
  "ip_saves (at_instance i g p) = ip_saves p" "ip_saves (handleSaved fk p) = ip_saves p" "ip_saves (saveAndConnect h p) = ip_saves p"
  by (simp_all add: at_instance_def handleSaved_def saveAndConnect_def)

lemma store_input_keeps: "map_of (ip_saves p) k = Some v \<Longrightarrow> map_of (ip_saves (store_form_input w fk ch ca i f e p)) k = Some v"
  using add_save_keeps[of _ k v] by (simp add: store_form_input_def Let_def split: store_form_event.split)

lemma host_input_keeps: "map_of (ip_saves p) k = Some v \<Longrightarrow> map_of (ip_saves (host_form_input i s e p)) k = Some v"
  using add_save_keeps[of _ k v] by (simp add: host_form_input_def Let_def split: form_event.split option.split)

lemma answer_keeps:
  assumes "map_of (ip_saves p) k = Some v" and "j \<noteq> k"
  shows "map_of (ip_saves (save_ended j x p)) k = Some v" and "map_of (ip_saves (host_save_ended j st p)) k = Some v"
  using assms map_of_filter_other[OF assms(2), of "ip_saves p"]
  by (auto simp: save_ended_def host_save_ended_def drop_save_def Let_def split: option.split inline_save.split sum.split)

lemma show_keeps: "ip_saves (show_modal ks m p) = ip_saves p"
  by (auto simp: show_modal_def mount_new_def Let_def split: option.split)

lemma step_keeps_save:
  assumes "map_of (ip_saves p) k = Some v" and "\<not> ends_save k e"
  shows "map_of (ip_saves (inline_step ks p e)) k = Some v"
proof (cases e)
  case (Save_ended j x)
  with assms answer_keeps(1)[OF assms(1)] show ?thesis by simp
next
  case (Host_save_ended j st)
  with assms answer_keeps(2)[OF assms(1)] show ?thesis by simp
qed (use assms in \<open>auto simp: show_keeps split: option.split modal_state.split mounted_form.split intro: store_input_keeps host_input_keeps\<close>)

lemma steps_keep_save:
  "map_of (ip_saves p) k = Some v \<Longrightarrow> \<forall>e\<in>set es. \<not> ends_save k e \<Longrightarrow>
     map_of (ip_saves (foldl (inline_step ks) p es)) k = Some v"
  by (induction es arbitrary: p) (auto intro: step_keeps_save)

text \<open>Typing in the mounted host form.\<close>

lemma host_typing:
  "ip_form p = Some (i, M_host s) \<Longrightarrow>
     foldl (inline_step ks) p (map (Host_input \<circ> Edit) es) =
       p\<lparr>ip_form := Some (i, M_host (s\<lparr>form_fields := foldl (\<lambda>f x. edit x f) (form_fields s) es\<rparr>))\<rparr>"
  if "submission s = None"
  using that by (induction es arbitrary: p s) (simp_all add: host_form_input_def)

text \<open>What a submission without a new identity and without a new VPN profile sends.\<close>

lemma submit_update:
  assumes "identityMode f = New_one \<longrightarrow> form_username f = []" and "vpnMode f \<noteq> Vpn_new"
  shows "\<exists>i v. fst (submit st (Some y) f) = [Form_update_host (host_id y) (host_input_of (Some y) f i v)]"
proof -
  have "\<exists>i. resolve_identity st f = returning i" using assms(1) by (auto simp: resolve_identity_def)
  moreover have "\<exists>v. resolve_vpn st f = returning v" using assms(2) by (auto simp: resolve_vpn_def)
  ultimately obtain i v where "resolve_identity st f = returning i" "resolve_vpn st f = returning v" by blast
  then have "submit st (Some y) f = save_host st (Some y) (host_input_of (Some y) f i v)"
    by (simp add: submit_def then_do_def returning_def split: prod.split)
  then show ?thesis by (auto simp: save_host_def)
qed

lemma distinct_filter_length: "distinct (map (fst \<circ> snd) xs) \<Longrightarrow> length (filter (\<lambda>(k, j, v). j = i) xs) \<le> 1"
  by (induction xs) (auto simp: filter_empty_conv image_iff)

section \<open>Properties\<close>

text \<open>
  C5: a host form that is open while another host's \<open>Edit\<close> is pressed is saved into that other
  host: the update that \<open>Save\<close> sends names the second host and carries the label, the address, the
  port, the tags and the notes of the first one with whatever was typed into them.
\<close>
theorem edit_saves_into_other_host:
  assumes "f = foldl (\<lambda>f x. edit x f) (initial_form (Some x) g ks) es"
    and "validate f = []" and "identityMode f = New_one \<longrightarrow> form_username f = []" and "vpnMode f \<noteq> Vpn_new"
  shows "\<exists>i v. ip_calls (foldl (inline_step ks) inline_start
      (Show (Some (Host_modal (Some x) g)) # map (Host_input \<circ> Edit) es @
       [Show (Some (Host_modal (Some y) g')), Host_input (Press_save c), Host_save_ended 0 st]))
    = [Host_form_call (Form_update_host (host_id y)
        \<lparr>fh_group_id = or_null (form_groupId f), fh_label = form_label f, fh_hostname = form_hostname f,
         fh_port = form_port f, fh_identity_id = i, fh_vpn_profile_id = v,
         fh_color = form_color f, fh_icon = form_icon f, fh_notes = or_null (form_notes f),
         fh_sort_order = host_sort_order y, fh_tag_ids = form_tagIds f\<rparr>)]"
proof -
  let ?s = "form_start (Some x) g ks"
  let ?shown = "inline_step ks inline_start (Show (Some (Host_modal (Some x) g)))"
  let ?p = "foldl (inline_step ks) ?shown (map (Host_input \<circ> Edit) es)"
  have p0: "ip_form ?shown = Some (0, M_host ?s)" "ip_calls ?shown = []" "ip_saves ?shown = []" "ip_started ?shown = 0"
    by (simp_all add: show_modal_def inline_start_def mount_new_def)
  have p: "?p = ?shown\<lparr>ip_form := Some (0, M_host (?s\<lparr>form_fields := f\<rparr>))\<rparr>"
    using host_typing[OF _ p0(1), of ks es] assms(1) by (simp add: form_start_def)
  let ?q = "foldl (inline_step ks) ?p [Show (Some (Host_modal (Some y) g')), Host_input (Press_save c)]"
  have q: "ip_saves ?q = [(0, 0, Host_save (Some y) f c)]" "ip_calls ?q = []"
    unfolding p using p0 assms(2)
    by (simp_all add: show_modal_def host_form_input_def submitting_def handleSubmit_def form_start_def add_save_def)
  have "ip_calls (host_save_ended 0 st ?q) = map Host_form_call (fst (submit st (Some y) f))"
    using q by (auto simp: host_save_ended_def drop_save_def at_instance_def handleSaved_def saveAndConnect_def Let_def split: sum.split)
  moreover obtain i v where "fst (submit st (Some y) f) = [Form_update_host (host_id y) (host_input_of (Some y) f i v)]"
    using submit_update[OF assms(3,4)] by blast
  ultimately show ?thesis by (auto simp: host_input_of_def)
qed

theorem edit_saves_into_other_host_witness:
  "\<exists>i v inp. ip_calls (foldl (inline_step []) inline_start
      (Show (Some (Host_modal (Some (sample_host ''web1'' None)) None)) # map (Host_input \<circ> Edit) [Edit_notes ''old''] @
       [Show (Some (Host_modal (Some (sample_host ''db2'' None)) None)), Host_input (Press_save False), Host_save_ended 0 sample_stores]))
    = [Host_form_call (Form_update_host ''db2'' inp)] \<and> fh_hostname inp = ''web1'' \<and> fh_notes inp = Some ''old''
      \<and> fh_identity_id inp = i \<and> fh_vpn_profile_id inp = v"
proof -
  define f where "f = foldl (\<lambda>f x. edit x f) (initial_form (Some (sample_host ''web1'' None)) None []) [Edit_notes ''old'']"
  have fields: "form_label f = ''web1''" "form_hostname f = ''web1''" "form_port f = Num 22" "form_notes f = ''old''"
    "identityMode f = New_one" "form_username f = []" "vpnMode f = Vpn_none" "form_auth f = Password" "form_password f = []"
    by (simp_all add: f_def initial_form_def sample_host_def Let_def truthy_def)
  then have "validate f = []"
    by (simp add: validate_Nil trim_def js_space_def bad_port_def hasCredentialData_def)
  with edit_saves_into_other_host[OF f_def, of "sample_host ''db2'' None" None False sample_stores] fields
  show ?thesis by (fastforce simp: or_null_def)
qed

text \<open>
  The same for identities, groups and VPN profiles: the untouched fields of the first item are
  sent under the identifier of the second one, and after \<open>New\<close> they are sent as a new item.
\<close>
theorem edit_saves_into_other_item:
  assumes "identity_check (identity_form_of (Some d)) = []" and "group_check (group_form_of (Some g) None) = []"
    and "profile_check (profile_form_of (Some p)) = []"
  shows "ip_calls (foldl (inline_step ks) inline_start
      [Show (Some (Identity_modal (Some d))), Show (Some (Identity_modal d')), Identity_input Sf_submit])
      = [Store_call (identity_save d' (identity_form_of (Some d)))]
    \<and> ip_calls (foldl (inline_step ks) inline_start
      [Show (Some (Group_modal (Some g) None)), Show (Some (Group_modal g' parent)), Group_input Sf_submit])
      = [Store_call (group_save g' (group_form_of (Some g) None))]
    \<and> ip_calls (foldl (inline_step ks) inline_start
      [Show (Some (Vpn_profile_modal (Some p))), Show (Some (Vpn_profile_modal p')), Vpn_input Sf_submit])
      = [Store_call (profile_save p' (profile_form_of (Some p)))]"
  using assms
  by (simp_all add: inline_start_def show_modal_def mount_new_def store_form_input_def store_form_start_def add_save_def)

theorem edit_saves_into_other_item_witness:
  "ip_calls (foldl (inline_step []) inline_start
      [Show (Some (Identity_modal (Some sample_identity))),
       Show (Some (Identity_modal (Some (sample_identity\<lparr>identity_id := ''i2'', identity_username := ''admin''\<rparr>)))),
       Identity_input Sf_submit])
    = [Store_call (Identity_call (IdentityUpdate ''i2''
        \<lparr>ii_label = ''root@db'', ii_username = ''root'', ii_auth_method = Password, ii_ssh_key_id = None, ii_password = None\<rparr>))]"
proof -
  have "identity_check (identity_form_of (Some sample_identity)) = []"
    "group_check (group_form_of (Some (sample_group ''g'' None)) None) = []"
    "profile_check (profile_form_of (Some (sample_profile ''p''))) = []"
    by code_simp+
  from edit_saves_into_other_item[where ks = "[]" and d' = "Some (sample_identity\<lparr>identity_id := ''i2'', identity_username := ''admin''\<rparr>)", OF this]
  show ?thesis
    by (simp add: identity_save_def identity_form_of_def sample_identity_def password_input_def Let_def)
qed

text \<open>
  C30: at any moment the mounted form is of the kind the modal asks for, its button is off exactly
  while a save of its own is on the way, and it has at most one.
\<close>
theorem one_save_per_form:
  "case ip_form (foldl (inline_step ks) inline_start es) of
     None \<Rightarrow> Option.bind (ip_modal (foldl (inline_step ks) inline_start es)) modal_kind = None
   | Some (i, f) \<Rightarrow>
       Option.bind (ip_modal (foldl (inline_step ks) inline_start es)) modal_kind = Some (form_kind_of f)
       \<and> length (save_of i (foldl (inline_step ks) inline_start es)) = (if form_busy f then 1 else 0)"
proof -
  let ?p = "foldl (inline_step ks) inline_start es"
  have ok: "inline_ok ?p" using inline_machine.inv_run[of ks es] by (simp add: run_ok_all)
  have "length (save_of i ?p) \<le> 1" for i
    using ok unfolding save_of_def inline_ok_def by (intro distinct_filter_length) simp
  then have "save_of i ?p \<noteq> [] \<longleftrightarrow> length (save_of i ?p) = 1" for i
    by (metis le_antisym length_0_conv less_one not_le zero_neq_one)
  then show ?thesis
    using ok unfolding inline_ok_def by (auto split: option.splits)
qed

text \<open>
  How the save with a number ends, and the calls that its end adds: a submission of the host form makes all
  of its calls with the values it was started with.
\<close>

fun succeeds :: "nat \<Rightarrow> inline_save \<Rightarrow> inline_event \<Rightarrow> bool" where
  "succeeds k (Store_save fk) (Save_ended k' failure) \<longleftrightarrow> k' = k \<and> failure = None"
| "succeeds k (Host_save h f c) (Host_save_ended k' st) \<longleftrightarrow> k' = k \<and> \<not> isl (snd (submit st h f))"
| "succeeds k v e \<longleftrightarrow> False"

fun fails :: "nat \<Rightarrow> inline_save \<Rightarrow> inline_event \<Rightarrow> bool" where
  "fails k (Store_save fk) (Save_ended k' failure) \<longleftrightarrow> k' = k \<and> failure \<noteq> None"
| "fails k (Host_save h f c) (Host_save_ended k' st) \<longleftrightarrow> k' = k \<and> isl (snd (submit st h f))"
| "fails k v e \<longleftrightarrow> False"

fun calls_at_end :: "inline_save \<Rightarrow> inline_event \<Rightarrow> inline_call list" where
  "calls_at_end (Host_save h f c) (Host_save_ended k st) = map Host_form_call (fst (submit st h f))"
| "calls_at_end v e = []"

lemma success_closes:
  assumes "map_of (ip_saves q) k = Some (i, v)" and "succeeds k v e"
  shows "ip_form (inline_step ks q e) = None" and "ip_modal (inline_step ks q e) = None"
    and "ip_calls (inline_step ks q e) = ip_calls q @ calls_at_end v e"
    and "ip_mounts (inline_step ks q e) = ip_mounts q"
  using assms
  by (cases "(k, v, e)" rule: succeeds.cases;
      auto simp: save_ended_def host_save_ended_def handleSaved_def saveAndConnect_def at_instance_def drop_save_def Let_def
        split: sum.splits)+

lemma failure_spares_others:
  assumes "map_of (ip_saves q) k = Some (i, v)" and "fails k v e" and "ip_form q = Some (j, g)" and "j \<noteq> i"
  shows "ip_form (inline_step ks q e) = Some (j, g) \<and> ip_modal (inline_step ks q e) = ip_modal q"
  using assms
  by (cases "(k, v, e)" rule: fails.cases)
    (auto simp: save_ended_def host_save_ended_def at_instance_def drop_save_def Let_def split: sum.splits)

text \<open>
  C34: a save that succeeds, of whichever form, through \<open>Save\<close> or \<open>Save & Connect\<close>, closes whatever form is
  open by then. What was typed into a form that was opened while the save was on its way is gone:
  the only calls are those of the save itself, with the values it was started with, and any form
  opened next starts anew from its item. A save that fails leaves another form open as it is.
\<close>
theorem slow_save_closes_other_form:
  assumes "map_of (ip_saves p) k = Some (i, v)" and "list_all (\<lambda>e. \<not> ends_save k e) es"
    and "q = foldl (inline_step ks) p es"
  shows "(succeeds k v e \<longrightarrow>
        ip_form (inline_step ks q e) = None \<and> ip_modal (inline_step ks q e) = None
        \<and> ip_calls (inline_step ks q e) = ip_calls q @ calls_at_end v e
        \<and> (\<forall>m. ip_form (inline_step ks (inline_step ks q e) (Show (Some m))) = map_option (Pair (ip_mounts q)) (mount_form ks m)))
    \<and> (fails k v e \<longrightarrow> (\<forall>j g. ip_form q = Some (j, g) \<and> j \<noteq> i \<longrightarrow>
        ip_form (inline_step ks q e) = Some (j, g) \<and> ip_modal (inline_step ks q e) = ip_modal q))"
proof -
  have save: "map_of (ip_saves q) k = Some (i, v)"
    using steps_keep_save[OF assms(1), of es ks] assms(2,3) by (simp add: list_all_iff)
  have "ip_form (inline_step ks (inline_step ks q e) (Show (Some m))) = map_option (Pair (ip_mounts q)) (mount_form ks m)"
    if "succeeds k v e" for m
    using success_closes[OF save that, of ks] by (simp add: show_modal_def mount_new_def)
  with success_closes[OF save, of e ks] failure_spares_others[OF save, of e _ _ ks] show ?thesis by blast
qed

text \<open>
  \<open>Save & Connect\<close> of a new server is on its way when the form for an identity is opened and a
  username typed. If the save succeeds, this form is closed; if it fails, the form stays.
\<close>

definition slow_start :: inline_panel where
  "slow_start = inline_start\<lparr>ip_modal := Some (Host_modal None None),
     ip_form := Some (0, M_host (handleSubmit True (sample_form (Num 22)))), ip_mounts := 1,
     ip_saves := [(0, 0, Host_save None (form_fields (sample_form (Num 22))) True)], ip_started := 1\<rparr>"

lemma slow_start_reached:
  "slow_start = foldl (inline_step []) inline_start
     (Show (Some (Host_modal None None)) # map Host_input (sample_edits (Num 22)) @ [Host_input (Press_save True)])"
proof -
  have "foldl (inline_step []) inline_start (Show (Some (Host_modal None None)) # map Host_input (sample_edits (Num 22)))
      = inline_start\<lparr>ip_modal := Some (Host_modal None None), ip_form := Some (0, M_host (sample_form (Num 22))), ip_mounts := 1\<rparr>"
    by (simp add: inline_start_def show_modal_def mount_new_def sample_edits_def sample_form_def host_form_input_def form_start_def)
  note typed = this
  have "validate (form_fields (sample_form (Num 22))) = []" by (simp add: bad_port_def)
  then show ?thesis
    unfolding append_Cons[symmetric] foldl_append typed
    by (simp add: slow_start_def host_form_input_def submitting_def handleSubmit_def add_save_def inline_start_def)
qed

definition slow_identity :: identity_form where
  "slow_identity = (identity_form_of None)\<lparr>if_username := ''root''\<rparr>"

definition slow_events :: "inline_event list" where
  "slow_events = [Show (Some (Identity_modal None)), Identity_input (Sf_typed slow_identity)]"

theorem slow_save_closes_other_form_witness:
  "let q = foldl (inline_step []) slow_start slow_events
   in ip_form q = Some (1, M_identity ((store_form_start (identity_form_of None))\<lparr>sf_fields := slow_identity\<rparr>))
      \<and> ip_form (inline_step [] q (Host_save_ended 0 sample_stores)) = None
      \<and> ip_form (inline_step [] q (Host_save_ended 0 (sample_stores\<lparr>do_createIdentity := (\<lambda>i. Inl ''locked'')\<rparr>))) = ip_form q"
proof -
  let ?f = "form_fields (sample_form (Num 22))"
  have save: "map_of (ip_saves slow_start) 0 = Some (0, Host_save None ?f True)" by (simp add: slow_start_def)
  have es: "list_all (\<lambda>e. \<not> ends_save 0 e) slow_events" by (simp add: slow_events_def)
  have q: "ip_form (foldl (inline_step []) slow_start slow_events) =
      Some (1, M_identity ((store_form_start (identity_form_of None))\<lparr>sf_fields := slow_identity\<rparr>))"
    by (simp add: slow_start_def slow_events_def inline_start_def show_modal_def mount_new_def store_form_input_def store_form_start_def)
  have "succeeds 0 (Host_save None ?f True) (Host_save_ended 0 sample_stores)"
    by (simp add: submit_value resolve_identity_def resolve_key_def resolve_vpn_def returning_def then_do_value save_host_def
        host_input_of_def sample_stores_def rust_u16_def)
  moreover have "fails 0 (Host_save None ?f True) (Host_save_ended 0 (sample_stores\<lparr>do_createIdentity := (\<lambda>i. Inl ''locked'')\<rparr>))"
    by (simp add: submit_value resolve_identity_def resolve_key_def resolve_vpn_def returning_def then_do_value save_host_def
        host_input_of_def sample_stores_def rust_u16_def)
  ultimately show ?thesis
    using slow_save_closes_other_form[OF save es refl, where ks = "[]"] q unfolding Let_def by (metis zero_neq_one)
qed

end
