(* ===== verification/Chat_Panel.thy ===== *)
theory Chat_Panel
  imports Ai_Store Code_Blocks
begin

text \<open>
  The view of the assistant, over the conversations of theory \<open>Ai_Store\<close>: what a message shows
  (\<open>AiMessageBubble.tsx\<close>, \<open>AiMessageList.tsx\<close>), a code block with its copy button
  (\<open>AiCodeBlock.tsx\<close>), the input box with its question before the autonomous mode
  (\<open>AiInputBox.tsx\<close>), and the drawer around them (\<open>AiChatPanel.tsx\<close>, \<open>AiAssistantDrawer.tsx\<close>), which shows
  the host of the shell's context. The panel has no key: it stays mounted when the host changes.
\<close>

section \<open>Messages\<close>

text \<open>What a tool result shows under its command.\<close>

datatype result_view =
    Sent_to_terminal
  | Not_run
  | Exec_shown "string option" "string option" "int option" bool

datatype message_view =
    User_bubble "string option"
  | Result_bubble "string option" result_view
  | Answer_bubble "message_segment list" "(tool_call \<times> string option \<times> proposal_button list) option"

text \<open>\<open>x?.f && ...\<close>: an empty text is not shown.\<close>

definition shown_text :: "string \<Rightarrow> string option" where
  "shown_text x = (if x = [] then None else Some x)"

definition result_view_of :: "ai_message \<Rightarrow> result_view" where
  "result_view_of m =
     (if ranInTerminal m then Sent_to_terminal
      else if skipped m then Not_run
      else (case execOutput m of
              None \<Rightarrow> Exec_shown None None None False
            | Some out \<Rightarrow> Exec_shown (shown_text (stdout out)) (shown_text (stderr out)) (exit_status out) (truncated out)))"

text \<open>Segments of nothing but white space are not shown.\<close>

fun segment_shown :: "message_segment \<Rightarrow> bool" where
  "segment_shown (Code_segment l c) = True"
| "segment_shown (Text_segment t) = (trim t \<noteq> [])"

definition answer_segments :: "ai_message \<Rightarrow> message_segment list" where
  "answer_segments m = (if truthy (ai_text m) then filter segment_shown (parseCodeBlocks (the (ai_text m))) else [])"

definition message_view_of :: "bool \<Rightarrow> bool \<Rightarrow> ai_message \<Rightarrow> message_view" where
  "message_view_of is_running is_resolved m =
     (case ai_role m of
        User_role \<Rightarrow> User_bubble (ai_text m)
      | Tool_result_role \<Rightarrow> Result_bubble (map_option tc_command (ai_toolCall m)) (result_view_of m)
      | Assistant_role \<Rightarrow>
          Answer_bubble (answer_segments m)
            (map_option (\<lambda>tc. (tc, if is_resolved then None else needsConfirmation m, proposal_buttons m is_running is_resolved))
              (ai_toolCall m)))"

text \<open>\<open>AiMessageList\<close>\<close>

definition message_list :: "ai_conversation \<Rightarrow> message_view list" where
  "message_list c =
     map (\<lambda>i. message_view_of (running c) (resolved (messages c) i) (messages c ! i)) [0..<length (messages c)]"

text \<open>The code blocks of the list, each with a \<open>Run\<close> button that is off while something runs.\<close>

fun view_blocks :: "message_view \<Rightarrow> string list" where
  "view_blocks (Answer_bubble ss p) = List.map_filter (\<lambda>s. case s of Code_segment l c \<Rightarrow> Some c | Text_segment t \<Rightarrow> None) ss"
| "view_blocks v = []"

definition code_blocks_shown :: "ai_conversation \<Rightarrow> string list" where
  "code_blocks_shown c = concat (map view_blocks (message_list c))"

section \<open>The copy button\<close>

text \<open>
  \<open>copied\<close> and the times at which the timers of \<open>setTimeout\<close> reset it; no timer cancels another one.
\<close>

record copy_button =
  copied :: bool
  copy_timers :: "nat list"

definition COPIED_MS :: nat where "COPIED_MS = 1500"

definition handleCopy :: "nat \<Rightarrow> copy_button \<Rightarrow> copy_button" where
  "handleCopy now b = b\<lparr>copied := True, copy_timers := copy_timers b @ [now + COPIED_MS]\<rparr>"

definition copy_clock :: "nat \<Rightarrow> copy_button \<Rightarrow> copy_button" where
  "copy_clock now b =
     (if list_ex (\<lambda>t. t \<le> now) (copy_timers b)
      then b\<lparr>copied := False, copy_timers := filter (\<lambda>t. now < t) (copy_timers b)\<rparr> else b)"

section \<open>The panel\<close>

text \<open>
  \<open>cv_host\<close>, \<open>cv_provider\<close> and \<open>cv_open\<close> are what the shell and the settings give; \<open>cv_draft\<close> is the text of the
  input, \<open>cv_question\<close> the question that is shown, with the host its handler will switch. \<open>cv_world\<close> is
  the store with its tasks.
\<close>

record chat_view =
  cv_host :: "host option"
  cv_provider :: "ai_provider option"
  cv_open :: bool
  cv_draft :: string
  cv_question :: "string option"
  cv_world :: ai_world
  cv_calls :: "bridge_call list"

definition chat_start :: chat_view where
  "chat_start = \<lparr>cv_host = None, cv_provider = None, cv_open = False, cv_draft = [], cv_question = None,
     cv_world = initial_ai_world, cv_calls = []\<rparr>"

text \<open>The host and the provider of the panel, when it is mounted.\<close>

definition chat_shown :: "chat_view \<Rightarrow> (host \<times> ai_provider) option" where
  "chat_shown v =
     (if \<not> cv_open v then None
      else (case (cv_host v, cv_provider v) of (Some h, Some p) \<Rightarrow> Some (h, p) | _ \<Rightarrow> None))"

text \<open>The render after a change of what is given: a panel that is gone leaves nothing behind.\<close>

definition chat_render :: "chat_view \<Rightarrow> chat_view" where
  "chat_render v = (if chat_shown v = None then v\<lparr>cv_draft := [], cv_question := None\<rparr> else v)"

definition convo_of :: "chat_view \<Rightarrow> host \<Rightarrow> ai_conversation" where
  "convo_of v h = getConversation (ai (cv_world v)) (host_id h)"

definition on_world :: "uuids \<Rightarrow> ai_event \<Rightarrow> chat_view \<Rightarrow> chat_view" where
  "on_world u e v = v\<lparr>cv_world := ai_step u (cv_world v) e\<rparr>"

text \<open>\<open>submit\<close> of the input box\<close>

definition chat_submit :: "uuids \<Rightarrow> host \<Rightarrow> ai_provider \<Rightarrow> chat_view \<Rightarrow> chat_view" where
  "chat_submit u h p v =
     (let c = convo_of v h
      in case submit_text (input_disabled (running c) (hasPendingToolCall (messages c))) (cv_draft v) of
           None \<Rightarrow> v
         | Some t \<Rightarrow> (on_world u (Send h p t) v)\<lparr>cv_draft := []\<rparr>)"

text \<open>\<open>handleModeToggle\<close> up to the question, and behind it\<close>

definition handleModeToggle :: "uuids \<Rightarrow> host \<Rightarrow> chat_view \<Rightarrow> chat_view" where
  "handleModeToggle u h v =
     (if mode (convo_of v h) = Ask then v\<lparr>cv_question := Some (host_id h)\<rparr>
      else on_world u (Set_mode (host_id h) Ask) v)"

definition mode_answered :: "uuids \<Rightarrow> bool \<Rightarrow> chat_view \<Rightarrow> chat_view" where
  "mode_answered u confirmed v =
     (case cv_question v of
        None \<Rightarrow> v
      | Some hid \<Rightarrow>
          (let v1 = v\<lparr>cv_question := None\<rparr>
           in if confirmed then on_world u (Set_mode hid Autonomous) v1 else v1))"

datatype chat_event =
    Context_host "host option"
  | Context_provider "ai_provider option"
  | Drawer_toggled
  | Typed string
  | Key_enter bool
  | Send_pressed
  | Mode_pressed
  | Mode_answered bool
  | Stop_pressed
  | Clear_pressed
  | Proposal_pressed proposal_button string
  | Block_run string
  | Block_paste string
  | Store_resumed nat ai_answer

text \<open>
  An event of the panel. \<open>ss\<close> is the tab store; a button that is off or not shown does nothing, and
  the text cannot be changed while the input is off.
\<close>

definition chat_input :: "uuids \<Rightarrow> sessions_state \<Rightarrow> host \<Rightarrow> ai_provider \<Rightarrow> chat_event \<Rightarrow> chat_view \<Rightarrow> chat_view" where
  "chat_input u ss h p e v =
     (let c = convo_of v h
      in case e of
           Typed t \<Rightarrow> if input_disabled (running c) (hasPendingToolCall (messages c)) then v else v\<lparr>cv_draft := t\<rparr>
         | Key_enter shift \<Rightarrow> if shift then v else chat_submit u h p v
         | Send_pressed \<Rightarrow> chat_submit u h p v
         | Mode_pressed \<Rightarrow> handleModeToggle u h v
         | Mode_answered b \<Rightarrow> mode_answered u b v
         | Stop_pressed \<Rightarrow> if running c then on_world u (Stop (host_id h)) v else v
         | Proposal_pressed b i \<Rightarrow>
             if \<not> offers c i b then v
             else on_world u (case b of Skip_button \<Rightarrow> Skip (host_id h) i | Run_button \<Rightarrow> Run ss h i False
                                | Run_anyway_button \<Rightarrow> Run ss h i True) v
         | Block_run content \<Rightarrow>
             if running c \<or> content \<notin> set (code_blocks_shown c) then v
             else on_world u (Propose ss h content ''Extracted from the AI's answer'') v
         | Block_paste content \<Rightarrow>
             v\<lparr>cv_calls := cv_calls v @ paste_clicked (findLiveSessionId (openSessions ss) (sessionIds ss) (host_id h)) content\<rparr>
         | _ \<Rightarrow> v)"

text \<open>\<open>Clear\<close> is a button of the drawer, shown for a host with messages, whether there is a provider or not.\<close>

fun chat_step :: "uuids \<Rightarrow> sessions_state \<Rightarrow> chat_view \<Rightarrow> chat_event \<Rightarrow> chat_view" where
  "chat_step u ss v (Context_host h) = chat_render (v\<lparr>cv_host := h\<rparr>)"
| "chat_step u ss v (Context_provider p) = chat_render (v\<lparr>cv_provider := p\<rparr>)"
| "chat_step u ss v Drawer_toggled = chat_render (v\<lparr>cv_open := \<not> cv_open v\<rparr>)"
| "chat_step u ss v Clear_pressed =
     (case cv_host v of
        Some h \<Rightarrow> if cv_open v \<and> messages (convo_of v h) \<noteq> [] then on_world u (Clear (host_id h)) v else v
      | None \<Rightarrow> v)"
| "chat_step u ss v (Store_resumed k a) = on_world u (Resume k ss a) v"
| "chat_step u ss v e = (case chat_shown v of None \<Rightarrow> v | Some (h, p) \<Rightarrow> chat_input u ss h p e v)"

section \<open>Lemmas\<close>

text \<open>No operation but \<open>setMode\<close> makes a conversation autonomous.\<close>

definition modes_from :: "ai_state \<Rightarrow> ai_state \<Rightarrow> bool" where
  "modes_from s s' \<longleftrightarrow> (\<forall>hid. mode (getConversation s' hid) = Autonomous \<longrightarrow> mode (getConversation s hid) = Autonomous)"

lemma modes_from_refl [intro!, simp]: "modes_from s s"
  by (simp add: modes_from_def)

lemma modes_from_trans: "modes_from a b \<Longrightarrow> modes_from b c \<Longrightarrow> modes_from a c"
  by (simp add: modes_from_def)

lemma modes_from_drawn [simp]: "modes_from s (s'\<lparr>ai_drawn := n\<rparr>) = modes_from s s'"
  "modes_from (s\<lparr>ai_drawn := n\<rparr>) s' = modes_from s s'"
  by (simp_all add: modes_from_def)

lemma modes_from_update:
  "(\<And>c. mode (f c) = mode c) \<Longrightarrow> modes_from s (update_conv h f s)"
  by (auto simp: modes_from_def update_conv_def getConversation_def split: option.splits)

lemma modes_from_append: "modes_from s (append_message h m s)"
  using modes_from_update[of "\<lambda>c. c\<lparr>messages := messages c @ [m]\<rparr>" "s\<lparr>ai_drawn := Suc (ai_drawn s)\<rparr>" h]
  by (simp add: append_message_def)

lemma modes_from_simple:
  "modes_from s (stop_running h s)" "modes_from s (fst (finish_with_error h e s))" "modes_from s (fst (ask_confirmation h i pat s))"
  "modes_from s (fst (request_turn h' p s))"
  by (simp_all add: stop_running_def finish_with_error_def ask_confirmation_def request_turn_def modes_from_update)

lemma modes_from_run: "modes_from s (fst (runCommand ss h i ov s))"
  by (simp add: runCommand_def Let_def modes_from_update split: option.split)

lemmas modes_from_ops = modes_from_simple modes_from_run modes_from_append
  modes_from_trans[OF modes_from_append modes_from_simple(1)] modes_from_trans[OF modes_from_append modes_from_run]

lemma modes_from_turn: "modes_from s (fst (resume_turn u ss h r s))"
  using modes_from_ops by (simp add: resume_turn_def Let_def split: sum.split ai_turn_result.split)

lemma modes_from_exec: "modes_from s (fst (resume_exec u h i tc p r s))"
proof -
  have "modes_from s (fst (request_turn h p (update_conv hid (\<lambda>c. c\<lparr>iterationCount := iterationCount c + 1\<rparr>) (append_message hid m s))))"
    for hid m
    using modes_from_trans[OF modes_from_append modes_from_trans[OF modes_from_update modes_from_simple(4)]] by simp
  then show ?thesis
    using modes_from_ops by (simp add: resume_exec_def Let_def split: sum.split ai_command_exec_result.split)
qed

lemma modes_from_task: "resume_task u ss t a s = Some r \<Longrightarrow> modes_from s (fst r)"
  using modes_from_turn modes_from_exec modes_from_ops
  by (cases "(u, ss, t, a, s)" rule: resume_task.cases)
    (auto simp: resume_check_def resume_write_def resume_gate_def split: sum.split option.split)

lemma with_task_ai [simp]: "ai (with_task ts r) = fst r"
  by (simp add: with_task_def split: prod.split option.split)

lemma modes_from_step:
  assumes "\<forall>hid. e \<noteq> Set_mode hid Autonomous"
  shows "modes_from (ai w) (ai (ai_step u w e))"
proof (cases e)
  case (Set_mode hid md)
  with assms have "md = Ask" by (cases md) auto
  with Set_mode show ?thesis by (simp add: modes_from_def setMode_def)
next
  case (Clear hid)
  then show ?thesis by (simp add: modes_from_def clearConversation_def getConversation_def emptyConversation_def)
next
  case (Resume k ss a)
  then show ?thesis using modes_from_task by (auto split: option.split)
next
  case (Propose ss h c pu)
  then show ?thesis using modes_from_ops by (simp add: proposeAndRun_def Let_def)
next
  case (Skip hid i)
  then show ?thesis by (simp add: skipCommand_def modes_from_def Let_def split: option.split)
next
  case (Send h p t)
  then show ?thesis by (simp add: sendUserMessage_def request_turn_def modes_from_def Let_def)
next
  case (Stop hid)
  then show ?thesis by (simp add: stop_def modes_from_update)
next
  case (Run ss h i ov)
  then show ?thesis using modes_from_run by simp
qed

text \<open>What a step does to the question and to the modes.\<close>

lemma chat_render_fields [simp]: "cv_world (chat_render v) = cv_world v" "cv_host (chat_render v) = cv_host v"
  by (simp_all add: chat_render_def)

lemma chat_render_question: "cv_question (chat_render v) = Some hid \<Longrightarrow> cv_question v = Some hid"
  by (simp add: chat_render_def split: if_splits)

lemma on_world_fields [simp]:
  "cv_question (on_world u e v) = cv_question v" "cv_draft (on_world u e v) = cv_draft v" "cv_host (on_world u e v) = cv_host v"
  "cv_provider (on_world u e v) = cv_provider v" "cv_open (on_world u e v) = cv_open v" "cv_calls (on_world u e v) = cv_calls v"
  "cv_world (on_world u e v) = ai_step u (cv_world v) e"
  by (simp_all add: on_world_def)

lemma chat_submit_fields [simp]: "cv_question (chat_submit u h p v) = cv_question v"
  by (simp add: chat_submit_def Let_def split: option.split)

lemma chat_shown_host: "chat_shown v = Some (h, p) \<Longrightarrow> cv_host v = Some h"
  by (auto simp: chat_shown_def split: if_splits option.splits)

text \<open>A question is only shown with the panel.\<close>

definition question_ok :: "chat_view \<Rightarrow> bool" where
  "question_ok v \<longleftrightarrow> (cv_question v \<noteq> None \<longrightarrow> chat_shown v \<noteq> None)"

lemma chat_shown_same: "cv_open v' = cv_open v \<Longrightarrow> cv_host v' = cv_host v \<Longrightarrow> cv_provider v' = cv_provider v \<Longrightarrow> chat_shown v' = chat_shown v"
  by (simp add: chat_shown_def)

lemma chat_submit_shown: "chat_shown (chat_submit u h p v) = chat_shown v"
  by (rule chat_shown_same) (simp_all add: chat_submit_def Let_def split: option.split)

lemma chat_shown_on_world [simp]: "chat_shown (on_world u e v) = chat_shown v"
  by (simp add: chat_shown_def)

lemma question_ok_render: "question_ok (chat_render v)"
  by (simp add: question_ok_def chat_render_def)

lemma question_ok_world: "question_ok (on_world u e v) = question_ok v"
  by (simp add: question_ok_def)

lemma question_ok_input:
  assumes "chat_shown v = Some (h, p)"
  shows "question_ok (chat_input u ss h p e v)"
proof -
  have same: "chat_shown (v\<lparr>cv_draft := t\<rparr>) = chat_shown v" "chat_shown (v\<lparr>cv_question := q\<rparr>) = chat_shown v"
    "chat_shown (v\<lparr>cv_calls := cs\<rparr>) = chat_shown v" for t q cs by (simp_all add: chat_shown_def)
  show ?thesis
    using assms by (cases e)
      (auto simp: question_ok_def chat_input_def handleModeToggle_def mode_answered_def Let_def same chat_submit_shown
        split: option.split)
qed

lemma question_ok_step: "question_ok v \<Longrightarrow> question_ok (chat_step u ss v e)"
  using question_ok_input question_ok_world by (cases e) (auto simp: question_ok_render split: option.split)

lemma question_ok_start: "question_ok chat_start"
  by (simp add: question_ok_def chat_start_def)

interpretation chat_machine: invariant_machine chat_start "chat_step u ss" "\<lambda>_ _. True" question_ok for u ss
  by unfold_locales (rule question_ok_start, rule question_ok_step)

lemma question_step:
  assumes "question_ok v" and "cv_question (chat_step u ss v e) = Some hid"
  shows "(cv_question v = Some hid \<and> (\<forall>b. e \<noteq> Mode_answered b)) \<or> (e = Mode_pressed \<and> (\<exists>h. cv_host v = Some h \<and> host_id h = hid))"
proof (cases e)
  case Mode_pressed
  then show ?thesis
    using assms by (auto simp: chat_input_def handleModeToggle_def dest: chat_shown_host split: option.splits if_splits)
next
  case (Mode_answered b)
  then show ?thesis
    using assms by (auto simp: question_ok_def chat_input_def mode_answered_def Let_def split: option.splits if_splits)
qed (use assms in \<open>auto simp: chat_input_def Let_def dest: chat_render_question split: option.splits if_splits\<close>)

lemma modes_submit: "modes_from (ai (cv_world v)) (ai (cv_world (chat_submit u h p v)))"
  using modes_from_step[of "Send h p t" for t] by (simp add: chat_submit_def Let_def del: ai_step.simps split: option.split)

lemma modes_step:
  assumes "e \<noteq> Mode_answered True"
  shows "modes_from (ai (cv_world v)) (ai (cv_world (chat_step u ss v e)))"
proof -
  have asked: "modes_from (ai w) (ai (ai_step u w (Set_mode hid Ask)))" for w hid by (rule modes_from_step) simp
  have other: "modes_from (ai w) (ai (ai_step u w x))" if "\<forall>hid md. x \<noteq> Set_mode hid md" for w x
    using that by (intro modes_from_step) simp
  show ?thesis
    using assms
    by (cases e) (auto simp: chat_input_def handleModeToggle_def mode_answered_def Let_def asked other modes_submit
        simp del: ai_step.simps split: option.split proposal_button.split)
qed

lemma mode_confirmed:
  assumes "mode (getConversation (ai (cv_world (chat_step u ss v (Mode_answered True)))) hid) = Autonomous"
  shows "mode (getConversation (ai (cv_world v)) hid) = Autonomous \<or> cv_question v = Some hid"
  using assms by (auto simp: chat_input_def mode_answered_def setMode_def Let_def split: option.splits if_splits)

section \<open>Properties\<close>

lemma question_was_asked:
  assumes "cv_question (foldl (chat_step u ss) chat_start es) = Some hid"
  shows "\<exists>pre mid h. es = pre @ Mode_pressed # mid \<and> (\<forall>b. Mode_answered b \<notin> set mid)
    \<and> cv_host (foldl (chat_step u ss) chat_start pre) = Some h \<and> host_id h = hid"
  using assms
proof (induction es rule: rev_induct)
  case Nil
  then show ?case by (simp add: chat_start_def)
next
  case (snoc e es)
  from question_step[of "foldl (chat_step u ss) chat_start es" u ss e hid] chat_machine.inv_run[of u ss es] snoc.prems
  consider (kept) "cv_question (foldl (chat_step u ss) chat_start es) = Some hid" "\<forall>b. e \<noteq> Mode_answered b"
    | (asked) h where "e = Mode_pressed" "cv_host (foldl (chat_step u ss) chat_start es) = Some h" "host_id h = hid"
    by (auto simp: run_ok_all)
  then show ?case
  proof cases
    case kept
    from snoc.IH[OF kept(1)] obtain pre mid h where w: "es = pre @ Mode_pressed # mid" "\<forall>b. Mode_answered b \<notin> set mid"
      "cv_host (foldl (chat_step u ss) chat_start pre) = Some h" "host_id h = hid" by blast
    with kept(2) have "es @ [e] = pre @ Mode_pressed # (mid @ [e])" "\<forall>b. Mode_answered b \<notin> set (mid @ [e])" by auto
    with w(3,4) show ?thesis by blast
  next
    case asked
    have "es @ [e] = es @ Mode_pressed # []" using asked(1) by simp
    with asked(2,3) show ?thesis by force
  qed
qed

text \<open>
  C6: a conversation is autonomous only when the user pressed the mode button while that very host was
  shown and the next answer to a question was yes, whatever happened in between: the host may have
  changed since, requests may have ended, other conversations may have been cleared.
\<close>
theorem autonomous_only_confirmed:
  assumes "mode (getConversation (ai (cv_world (foldl (chat_step u ss) chat_start es))) hid) = Autonomous"
  shows "\<exists>pre mid post h. es = pre @ Mode_pressed # mid @ Mode_answered True # post \<and> (\<forall>b. Mode_answered b \<notin> set mid)
    \<and> cv_host (foldl (chat_step u ss) chat_start pre) = Some h \<and> host_id h = hid"
  using assms
proof (induction es rule: rev_induct)
  case Nil
  then show ?case by (simp add: chat_start_def initial_ai_world_def initial_ai_def getConversation_def emptyConversation_def)
next
  case (snoc e es)
  let ?v = "foldl (chat_step u ss) chat_start es"
  consider (before) "mode (getConversation (ai (cv_world ?v)) hid) = Autonomous"
    | (now) "e = Mode_answered True" "cv_question ?v = Some hid"
    using snoc.prems modes_step[of e ?v u ss] mode_confirmed[of u ss ?v hid]
    by (cases "e = Mode_answered True") (auto simp: modes_from_def simp del: chat_step.simps)
  then show ?case
  proof cases
    case before
    from snoc.IH[OF before] obtain pre mid post h where "es = pre @ Mode_pressed # mid @ Mode_answered True # post"
      "\<forall>b. Mode_answered b \<notin> set mid" "cv_host (foldl (chat_step u ss) chat_start pre) = Some h" "host_id h = hid" by blast
    moreover from this(1) have "es @ [e] = pre @ Mode_pressed # mid @ Mode_answered True # (post @ [e])" by simp
    ultimately show ?thesis by blast
  next
    case now
    from question_was_asked[OF now(2)] obtain pre mid h where "es = pre @ Mode_pressed # mid" "\<forall>b. Mode_answered b \<notin> set mid"
      "cv_host (foldl (chat_step u ss) chat_start pre) = Some h" "host_id h = hid" by blast
    moreover from this(1) now(1) have "es @ [e] = pre @ Mode_pressed # mid @ Mode_answered True # []" by simp
    ultimately show ?thesis by blast
  qed
qed

theorem autonomous_only_confirmed_witness:
  "\<exists>pre mid post h. [Context_provider (Some Openai), Context_host (Some (sample_host ''a'' None)), Drawer_toggled, Mode_pressed,
        Context_host (Some (sample_host ''b'' None)), Mode_answered True]
      = pre @ Mode_pressed # mid @ Mode_answered True # post
    \<and> cv_host (foldl (chat_step sample_uuids initial_sessions) chat_start pre) = Some h \<and> host_id h = ''a''"
proof -
  let ?es = "[Context_provider (Some Openai), Context_host (Some (sample_host ''a'' None)), Drawer_toggled, Mode_pressed,
        Context_host (Some (sample_host ''b'' None)), Mode_answered True]"
  have "mode (getConversation (ai (cv_world (foldl (chat_step sample_uuids initial_sessions) chat_start ?es))) ''a'') = Autonomous"
    by (simp add: chat_start_def chat_render_def chat_shown_def chat_input_def handleModeToggle_def mode_answered_def convo_of_def
        on_world_def setMode_def initial_ai_world_def initial_ai_def getConversation_def emptyConversation_def update_conv_def Let_def)
  from autonomous_only_confirmed[OF this] show ?thesis by blast
qed

text \<open>
  C32: the text typed for one server is sent to another one: the draft stays when the shown host
  changes, and \<open>Enter\<close> sends it to the host shown then, unless that conversation is busy.
\<close>
theorem draft_goes_to_shown_host:
  fixes u :: uuids and ss :: sessions_state and v :: chat_view and t :: string and a b :: host and p :: ai_provider
  assumes "chat_shown v = Some (a, p)" and "\<not> input_disabled (running (convo_of v a)) (hasPendingToolCall (messages (convo_of v a)))"
    and "\<not> input_disabled (running (convo_of v b)) (hasPendingToolCall (messages (convo_of v b)))" and "trim t \<noteq> []"
  defines "v' \<equiv> foldl (chat_step u ss) v [Typed t, Context_host (Some b), Key_enter False]"
  shows "messages (convo_of v' b) = messages (convo_of v b) @ [(blank_message (u (ai_drawn (ai (cv_world v)))) User_role)\<lparr>ai_text := Some (trim t)\<rparr>]
    \<and> running (convo_of v' b) \<and> cv_draft v' = []
    \<and> (host_id a \<noteq> host_id b \<longrightarrow> convo_of v' a = convo_of v a)"
proof -
  let ?v = "v\<lparr>cv_draft := t, cv_host := Some b\<rparr>"
  have shown: "chat_shown ?v = Some (b, p)" using assms(1) by (auto simp: chat_shown_def split: if_splits option.splits)
  have convo: "convo_of ?v h = convo_of v h" for h by (simp add: convo_of_def)
  have "foldl (chat_step u ss) v [Typed t, Context_host (Some b)] = ?v"
    using assms(1,2) shown by (simp add: chat_input_def chat_render_def Let_def)
  then have "v' = chat_submit u b p ?v"
    unfolding v'_def using shown by (simp add: chat_input_def Let_def)
  then have "v' = (on_world u (Send b p (trim t)) ?v)\<lparr>cv_draft := []\<rparr>"
    using assms(3,4) by (simp add: chat_submit_def submit_text_def convo Let_def)
  then show ?thesis
    using assms(3) by (simp add: convo_of_def sendUserMessage_def request_turn_def input_disabled_def Let_def)
qed

theorem draft_goes_to_shown_host_witness:
  "messages (convo_of (foldl (chat_step sample_uuids initial_sessions)
      (chat_start\<lparr>cv_host := Some (sample_host ''a'' None), cv_provider := Some Openai, cv_open := True\<rparr>)
      [Typed ''wipe the disk'', Context_host (Some (sample_host ''b'' None)), Key_enter False]) (sample_host ''b'' None)) \<noteq> []"
proof -
  let ?v = "chat_start\<lparr>cv_host := Some (sample_host ''a'' None), cv_provider := Some Openai, cv_open := True\<rparr>"
  have idle: "\<not> input_disabled (running (convo_of ?v h)) (hasPendingToolCall (messages (convo_of ?v h)))" for h
    by (simp add: convo_of_def chat_start_def initial_ai_world_def initial_ai_def getConversation_def emptyConversation_def input_disabled_def)
  have shown: "chat_shown ?v = Some (sample_host ''a'' None, Openai)" by (simp add: chat_shown_def)
  have typed: "trim ''wipe the disk'' \<noteq> []" by code_simp
  from draft_goes_to_shown_host[OF shown idle idle[of "sample_host ''b'' None"] typed, of sample_uuids initial_sessions] show ?thesis by simp
qed

text \<open>
  While a proposal waits for an answer and nothing runs, the \<open>Run\<close> button of every code block is on,
  and pressing it does nothing.
\<close>
lemma block_run_ignored:
  assumes "hasPendingToolCall (messages (convo_of v h))"
  shows "chat_input u ss h p (Block_run content) v = v"
  using assms by (simp add: chat_input_def on_world_def proposeAndRun_def convo_of_def with_task_def Let_def)

text \<open>The label of the copy button goes back with the first timer, however recent the last copy is.\<close>

lemma copied_label:
  "copied (copy_clock (now + COPIED_MS) (handleCopy later (handleCopy now b))) = False"
  by (simp add: copy_clock_def handleCopy_def)

text \<open>What is shown of an answer is its segments, in order, less the blank texts; no code block is left out.\<close>

lemma blocks_of_answer:
  assumes "ai_role m = Assistant_role" and "truthy (ai_text m)"
  shows "view_blocks (message_view_of r d m) =
    List.map_filter (\<lambda>s. case s of Code_segment l c \<Rightarrow> Some c | Text_segment t \<Rightarrow> None) (parseCodeBlocks (the (ai_text m)))"
  using assms
  by (simp add: message_view_of_def answer_segments_def List.map_filter_def filter_filter)
    (rule arg_cong[where f = "map _"], rule filter_cong, auto split: message_segment.split)

end
