(* ===== verification/Shell_Views.thy ===== *)
theory Shell_Views
  imports App_Shell Hosts_Grid Settings_Panel Terminal_View
begin

text \<open>
  What the shell shows and the small components that start its operations: the first screen, the
  parts of the main area and of the right panel, the menu of all tabs and the result of an import
  (\<open>AppShell.tsx\<close>), the card of a host (\<open>HostCard.tsx\<close>), a row of the tree (\<open>HostTree.tsx\<close>), the activity
  bar (\<open>ActivityBar.tsx\<close>) and the context menu of a terminal (\<open>useTerminalContextMenu.tsx\<close>).
\<close>

section \<open>The first screen\<close>

text \<open>
  The four lists are loaded together. \<open>Promise.all\<close> rejects with the first error; the other answers
  still reach their stores. Nothing clears the error.
\<close>

datatype start_list = Hosts_list | Vpn_list | Tags_list | Workspaces_list

datatype first_screen = Error_screen string | Loading_screen | Shell_screen

record shell_load =
  loadError :: "string option"
  load_rejected :: bool
  load_loaded :: bool

definition shell_load_start :: shell_load where
  "shell_load_start = \<lparr>loadError = None, load_rejected = False, load_loaded = False\<rparr>"

definition list_answered :: "shell_load \<Rightarrow> start_list \<times> string option \<Rightarrow> shell_load" where
  "list_answered s answer =
     (case answer of
        (l, None) \<Rightarrow> if l = Hosts_list then s\<lparr>load_loaded := True\<rparr> else s
      | (l, Some e) \<Rightarrow> if load_rejected s then s else s\<lparr>load_rejected := True, loadError := Some e\<rparr>)"

text \<open>\<open>if (loadError)\<close>: an empty text counts as none.\<close>

definition first_screen_of :: "shell_load \<Rightarrow> first_screen" where
  "first_screen_of s =
     (if truthy (loadError s) then Error_screen (the (loadError s))
      else if \<not> load_loaded s then Loading_screen else Shell_screen)"

section \<open>The main area and the right panel\<close>

text \<open>The containers that are not \<open>invisible\<close>: the page, and the tabs, all of which stay mounted.\<close>

datatype area_part = Page_part manage_tab | Tab_part string

definition visible_parts :: "shell \<Rightarrow> area_part list" where
  "visible_parts sh =
     (case mainView sh of Manage m \<Rightarrow> [Page_part m] | Session_view t \<Rightarrow> []) @
     map (\<lambda>s. Tab_part (tabId s)) (filter (\<lambda>s. mainView sh = Session_view (tabId s)) (openSessions (tabs sh)))"

datatype tab_content = Split_content pane_node | Browser_content host

definition tab_content_of :: "open_session \<Rightarrow> tab_content" where
  "tab_content_of s =
     (case layout s of
        Some t \<Rightarrow> if kind s = Terminal then Split_content t else Browser_content (session_host s)
      | None \<Rightarrow> Browser_content (session_host s))"

datatype right_content = Form_content modal_state | Snippets_content | Details_content host bool bool "string option" | No_content

definition right_content_of :: "shell \<Rightarrow> right_content" where
  "right_content_of sh =
     (if isInlineFormModal (modal sh) then Form_content (the (modal sh))
      else if snippetsDrawerOpen (shell_prefs sh) then Snippets_content
      else (case contextHost sh of
              None \<Rightarrow> No_content
            | Some h \<Rightarrow> Details_content h (contextHostSessionOpen sh) (vpnGateHostId sh = Some (host_id h))
                (case vpnGateError sh of Some (i, m) \<Rightarrow> if i = host_id h then Some m else None | None \<Rightarrow> None)))"

text \<open>The dark layer behind an overlay, which closes it.\<close>

definition backdrop_shown :: "shell \<Rightarrow> bool" where
  "backdrop_shown sh \<longleftrightarrow> activeOverlay sh \<noteq> None \<and> (leftPanelOpen sh \<or> rightPanelOpen sh)"

section \<open>The menu of all tabs\<close>

record tab_menu =
  tabBarOverflowing :: bool
  tabOverflowMenuOpen :: bool

datatype tab_menu_event =
    Bar_measured real real
  | Bar_gone
  | Menu_button
  | Window_clicked
  | Menu_item string

text \<open>
  Opening and choosing are clicks inside, which do not reach the window; the bar is gone when no tab is open.
\<close>

definition tab_menu_step :: "tab_menu \<times> shell \<Rightarrow> tab_menu_event \<Rightarrow> tab_menu \<times> shell" where
  "tab_menu_step s e =
     (let (m, sh) = s
      in case e of
           Bar_measured scrollWidth clientWidth \<Rightarrow> (m\<lparr>tabBarOverflowing := clientWidth + 1 < scrollWidth\<rparr>, sh)
         | Bar_gone \<Rightarrow> (m\<lparr>tabBarOverflowing := False\<rparr>, sh)
         | Menu_button \<Rightarrow>
             if tabBarOverflowing m then (m\<lparr>tabOverflowMenuOpen := \<not> tabOverflowMenuOpen m\<rparr>, sh) else (m, sh)
         | Window_clicked \<Rightarrow> (m\<lparr>tabOverflowMenuOpen := False\<rparr>, sh)
         | Menu_item t \<Rightarrow>
             if tabBarOverflowing m \<and> tabOverflowMenuOpen m \<and> t \<in> tabId ` set (openSessions (tabs sh))
             then (m\<lparr>tabOverflowMenuOpen := False\<rparr>, sh\<lparr>mainView := Session_view t\<rparr>) else (m, sh))"

section \<open>The result of an import\<close>

definition plural :: "int \<Rightarrow> string" where
  "plural n = (if n = 1 then [] else ''s'')"

definition import_text :: "import_summary \<Rightarrow> string" where
  "import_text r =
     (if 0 < is_imported r then ''Imported '' @ decimal (nat (is_imported r)) @ '' new host'' @ plural (is_imported r) @ ''.'' else [])
     @ (if 0 < is_imported r \<and> 0 < is_updated r then '' '' else [])
     @ (if 0 < is_updated r then ''Updated '' @ decimal (nat (is_updated r)) @ '' existing host'' @ plural (is_updated r) @ ''.'' else [])
     @ (if is_imported r = 0 \<and> is_updated r = 0 then ''No hosts to import.'' else [])"

section \<open>The card of a host\<close>

definition card_address :: "server_card \<Rightarrow> string" where
  "card_address c =
     (case card_identity c of
        Some i \<Rightarrow> if identity_username i \<noteq> [] then identity_username i @ ''@'' else []
      | None \<Rightarrow> [])
     @ host_hostname (card_host c) @ '':'' @ decimal (nat (host_port (card_host c)))"

text \<open>Two tags, then how many more there are, with the others in the title.\<close>

definition card_tags :: "host \<Rightarrow> string list" where
  "card_tags h = map tag_label (take 2 (host_tags h))"

definition card_more :: "host \<Rightarrow> (string \<times> string list) option" where
  "card_more h =
     (if 2 < length (host_tags h)
      then Some (''+'' @ decimal (length (host_tags h) - 2), map tag_label (drop 2 (host_tags h))) else None)"

text \<open>
  A double click: two clicks and the handler of \<open>onDoubleClick\<close>. \<open>onSelect\<close> and \<open>onConnect\<close> are those of
  the grid.
\<close>

definition card_select :: "host \<Rightarrow> shell \<Rightarrow> shell" where
  "card_select h sh = sh\<lparr>selectedHostId := Some (host_id h)\<rparr>"

definition card_double_click :: "host \<Rightarrow> shell \<Rightarrow> shell" where
  "card_double_click h sh =
     (let sh1 = card_select h (card_select h (card_select h sh))
      in if truthy (host_identity_id h) then handleConnect h sh1 else sh1)"

section \<open>A row of the tree\<close>

datatype row_button = Edit_host_button host | New_host_in string | New_subgroup_of string | Edit_group_button group

datatype row_event = Row_click host | Row_double_click host | Row_button row_button

text \<open>The form a button of a row asks for.\<close>

fun button_form :: "row_button \<Rightarrow> modal_state" where
  "button_form (Edit_host_button h) = Host_modal (Some h) None"
| "button_form (New_host_in g) = Host_modal None (Some g)"
| "button_form (New_subgroup_of g) = Group_modal None (Some g)"
| "button_form (Edit_group_button g) = Group_modal (Some g) None"

text \<open>The handlers of the shell: editing a host selects it as well.\<close>

fun row_events :: "row_event \<Rightarrow> shell_event list" where
  "row_events (Row_click h) = [Pick_host h]"
| "row_events (Row_double_click h) =
     [Pick_host h, Pick_host h] @ (if truthy (host_identity_id h) then [Connect_host h] else [])"
| "row_events (Row_button b) = [Open_form (Some (button_form b))]"

definition tree_event :: "uuids \<Rightarrow> row_event \<Rightarrow> shell \<Rightarrow> shell" where
  "tree_event u e sh =
     (let sh1 = (case e of Row_button (Edit_host_button h) \<Rightarrow> sh\<lparr>selectedHostId := Some (host_id h)\<rparr> | _ \<Rightarrow> sh)
      in shell_run u sh1 (row_events e))"

section \<open>The activity bar\<close>

definition activity_items :: "(manage_tab \<times> string) list" where
  "activity_items = [(Hosts_tab, ''Hosts''), (Identities_tab, ''Identities''), (Keys_tab, ''Keys''), (Vpn_tab, ''VPN''),
     (Workspaces_tab, ''Workspaces'')]"

definition bottom_items :: "(manage_tab \<times> string) list" where
  "bottom_items = [(Backup_tab, ''Google Backup''), (Settings_tab, ''Settings'')]"

definition activity_marks :: "shell \<Rightarrow> (manage_tab \<times> bool) list" where
  "activity_marks sh = map (\<lambda>(t, l). (t, mainView sh = Manage t)) (activity_items @ bottom_items)"

section \<open>The context menu of a terminal\<close>

record terminal_menu =
  tm_x :: real
  tm_y :: real
  tm_hasSelection :: bool

datatype terminal_menu_event =
    Context_menu real real
  | Copy_clicked
  | Paste_clicked
  | Menu_clicked
  | Outside_click
  | Outside_context_menu
  | Window_key string

text \<open>
  With the state of the pane. A click into the menu stops there; a disabled button does nothing;
  pasting first reads the clipboard.
\<close>

definition terminal_menu_step ::
  "terminal_menu option \<times> terminal_view \<Rightarrow> terminal_menu_event \<Rightarrow> terminal_menu option \<times> terminal_view" where
  "terminal_menu_step s e =
     (let (m, v) = s
      in case e of
           Context_menu x y \<Rightarrow> (Some \<lparr>tm_x = x, tm_y = y, tm_hasSelection = (selection v \<noteq> None)\<rparr>, v)
         | Copy_clicked \<Rightarrow>
             (case m of
                Some k \<Rightarrow> if tm_hasSelection k then (None, copySelectionToClipboard v) else (m, v)
              | None \<Rightarrow> (m, v))
         | Paste_clicked \<Rightarrow> (case m of Some k \<Rightarrow> (None, emit [Clipboard_read] v) | None \<Rightarrow> (m, v))
         | Menu_clicked \<Rightarrow> (m, v)
         | Window_key k \<Rightarrow> (if k = ''Escape'' then None else m, v)
         | _ \<Rightarrow> (None, v))"

section \<open>Lemmas\<close>

lemma filter_one:
  "distinct (map f xs) \<Longrightarrow> x \<in> set xs \<Longrightarrow> filter (\<lambda>y. f y = f x) xs = [x]"
  by (induction xs) (auto simp: filter_empty_conv image_iff)

lemma shell_ok_reachable: "inj u \<Longrightarrow> shell_ok u (shell_run u (initial_shell st w) es)"
  using shell.inv_run[of u st w es] by simp

lemma one_part:
  assumes "shell_ok u sh"
  shows "\<exists>x. visible_parts sh = [x]"
proof (cases "mainView sh")
  case (Manage m)
  then show ?thesis by (simp add: visible_parts_def)
next
  case (Session_view t)
  then obtain s where s: "s \<in> set (openSessions (tabs sh))" "tabId s = t"
    using assms by (auto simp: shell_ok_def view_open_def open_ids_def)
  have "distinct (map tabId (openSessions (tabs sh)))" using assms by (simp add: shell_ok_def sessions_ok_def)
  from filter_one[OF this s(1)] s(2) Session_view show ?thesis by (simp add: visible_parts_def eq_commute[of t])
qed

lemma decimal_not_empty: "decimal n \<noteq> []"
  by (subst decimal.simps) simp

lemma import_text_says_something:
  assumes "0 \<le> is_imported r" and "0 \<le> is_updated r"
  shows "import_text r \<noteq> []"
  using assms by (auto simp: import_text_def)

lemma import_text_examples:
  "import_text \<lparr>is_imported = 1, is_updated = 12, is_warnings = []\<rparr> = ''Imported 1 new host. Updated 12 existing hosts.''"
  "import_text \<lparr>is_imported = 0, is_updated = 0, is_warnings = []\<rparr> = ''No hosts to import.''"
  by (simp_all add: import_text_def plural_def decimal.simps) code_simp

text \<open>The right panel is never open and empty.\<close>

lemma right_panel_has_content: "rightPanelOpen sh \<Longrightarrow> right_content_of sh \<noteq> No_content"
  by (auto simp: rightPanelOpen_def dockedPanelVisible_def right_content_of_def split: option.split)

text \<open>The activity bar offers every page once, and marks the one that is shown.\<close>

lemma activity_bar_complete:
  "distinct (map fst (activity_items @ bottom_items))" "set (map fst (activity_items @ bottom_items)) = UNIV"
proof -
  show "distinct (map fst (activity_items @ bottom_items))" by (simp add: activity_items_def bottom_items_def)
  have "t \<in> set (map fst (activity_items @ bottom_items))" for t by (cases t) (simp_all add: activity_items_def bottom_items_def)
  then show "set (map fst (activity_items @ bottom_items)) = UNIV" by blast
qed

lemma activity_marks_shown: "(t, True) \<in> set (activity_marks sh) \<longleftrightarrow> mainView sh = Manage t"
  by (cases t) (auto simp: activity_marks_def activity_items_def bottom_items_def)

text \<open>The tags of a card and those in the title of its \<open>+n\<close> are all tags of the host.\<close>

lemma card_tags_complete:
  "card_tags h @ (case card_more h of Some (l, ts) \<Rightarrow> ts | None \<Rightarrow> []) = map tag_label (host_tags h)"
  by (auto simp: card_tags_def card_more_def simp flip: map_append)

text \<open>On the page of the hosts, a click on a card is a click on the host's row in the tree.\<close>

lemma card_select_is_row_click:
  "mainView sh = Manage Hosts_tab \<Longrightarrow> card_select h sh = shell_update u sh (Pick_host h)"
  by (simp add: card_select_def)

lemma card_select_keeps [simp]:
  "tabs (card_select h sh) = tabs sh" "card_select h (card_select h sh) = card_select h sh"
  by (simp_all add: card_select_def)

text \<open>A double click shows the terminal tab the host has, and a host without an identity is only selected.\<close>

lemma double_click_shows_terminal:
  assumes "truthy (host_identity_id h)" and "terminal_tab_of (openSessions (tabs sh)) (host_id h) = Some s"
  shows "mainView (card_double_click h sh) = Session_view (tabId s)" and "selectedHostId (card_double_click h sh) = Some (host_id h)"
    and "tabs (card_double_click h sh) = tabs sh"
  using assms by (simp_all add: card_double_click_def handleConnect_def show_session_def show_overlay_def prefs_do_def card_select_def Let_def)

lemma double_click_without_identity:
  "\<not> truthy (host_identity_id h) \<Longrightarrow> card_double_click h sh = sh\<lparr>selectedHostId := Some (host_id h)\<rparr>"
  by (simp add: card_double_click_def card_select_def)

text \<open>In the tree a double click does the same from any page, as the first click goes to the hosts.\<close>

lemma row_double_click_shows_terminal:
  assumes "truthy (host_identity_id h)" and "terminal_tab_of (openSessions (tabs sh)) (host_id h) = Some s"
  shows "mainView (tree_event u (Row_double_click h) sh) = Session_view (tabId s)"
    and "selectedHostId (tree_event u (Row_double_click h) sh) = Some (host_id h)"
  using assms
  by (simp_all add: tree_event_def shell_step_def overlay_effect_def handleConnect_def show_session_def show_overlay_def prefs_do_def)

text \<open>The menu of all tabs: choosing shows that tab; a menu that is open when the bar fits again comes back open.\<close>

lemma menu_item_shows:
  assumes "tabBarOverflowing m" and "tabOverflowMenuOpen m" and "s \<in> set (openSessions (tabs sh))"
  shows "tab_menu_step (m, sh) (Menu_item (tabId s)) = (m\<lparr>tabOverflowMenuOpen := False\<rparr>, sh\<lparr>mainView := Session_view (tabId s)\<rparr>)"
  using assms by (simp add: tab_menu_step_def)

lemma menu_comes_back:
  "tabOverflowMenuOpen m \<Longrightarrow>
     fst (foldl tab_menu_step (m, sh) [Bar_measured a a, Bar_measured (b + 2) b]) = m\<lparr>tabBarOverflowing := True\<rparr>"
  by (simp add: tab_menu_step_def)

text \<open>The context menu copies the selection there is when \<open>Copy\<close> is clicked, and never an empty text.\<close>

lemma menu_copies_selection:
  "snd (terminal_menu_step (m, v) Copy_clicked) = v \<or>
   (\<exists>t. t \<noteq> [] \<and> selection v = Some t \<and> snd (terminal_menu_step (m, v) Copy_clicked) = emit [Clipboard_write t] v)"
  by (auto simp: terminal_menu_step_def copySelectionToClipboard_def split: option.split)

lemma menu_closes:
  "e \<in> {Outside_click, Outside_context_menu, Paste_clicked, Window_key ''Escape''} \<Longrightarrow> fst (terminal_menu_step (m, v) e) = None"
  by (auto simp: terminal_menu_step_def split: option.split)

lemma rejected_stays: "load_rejected s \<Longrightarrow> loadError (foldl list_answered s as) = loadError s"
proof (induction as arbitrary: s)
  case (Cons a as)
  have "load_rejected (list_answered s a) \<and> loadError (list_answered s a) = loadError s"
    using Cons.prems by (cases a) (auto simp: list_answered_def split: option.split)
  with Cons.IH show ?case by simp
qed simp

lemma load_error_from:
  "\<not> load_rejected s \<Longrightarrow> loadError s = None \<Longrightarrow>
     loadError (foldl list_answered s as) = (case List.find (\<lambda>a. snd a \<noteq> None) as of None \<Rightarrow> None | Some a \<Rightarrow> snd a)"
proof (induction as arbitrary: s)
  case (Cons a as)
  obtain l r where a: "a = (l, r)" by (cases a)
  show ?case
  proof (cases r)
    case None
    with Cons a show ?thesis by (simp add: list_answered_def)
  next
    case (Some e)
    with Cons.prems a have "load_rejected (list_answered s a)" "loadError (list_answered s a) = Some e"
      by (simp_all add: list_answered_def)
    with Some a rejected_stays[of "list_answered s a" as] show ?thesis by simp
  qed
qed simp

lemma loaded_from: "load_loaded (foldl list_answered s as) = (load_loaded s \<or> (Hosts_list, None) \<in> set as)"
proof (induction as arbitrary: s)
  case (Cons a as)
  obtain l r where a: "a = (l, r)" by (cases a)
  have "load_loaded (list_answered s a) = (load_loaded s \<or> a = (Hosts_list, None))"
    by (simp add: a list_answered_def split: option.split)
  with Cons.IH[of "list_answered s a"] show ?case by auto
qed simp

section \<open>Properties\<close>

text \<open>
  Whatever arrives and in whatever order, the first screen shows the first error of the four lists;
  without one, the shell is shown as soon as the hosts are there. So an error of the tags or the
  workspaces alone keeps the user out of a shell whose hosts are loaded.
\<close>
lemma first_screen_reference:
  assumes "\<forall>a\<in>set as. snd a \<noteq> Some []"
  shows "first_screen_of (foldl list_answered shell_load_start as) =
    (case List.find (\<lambda>a. snd a \<noteq> None) as of
       Some a \<Rightarrow> Error_screen (the (snd a))
     | None \<Rightarrow> if (Hosts_list, None) \<in> set as then Shell_screen else Loading_screen)"
proof (cases "List.find (\<lambda>a. snd a \<noteq> None) as")
  case None
  then show ?thesis
    using load_error_from[of shell_load_start as] loaded_from[of shell_load_start as]
    by (auto simp: first_screen_of_def shell_load_start_def truthy_def)
next
  case (Some a)
  then have "a \<in> set as" "snd a \<noteq> None" by (auto simp: find_Some_iff)
  with assms Some load_error_from[of shell_load_start as] show ?thesis
    by (auto simp: first_screen_of_def shell_load_start_def truthy_def)
qed

text \<open>
  C29: at any moment the main area shows exactly one thing: the page, or one open tab with the rest
  hidden but mounted; and each tab has the content of its kind, a terminal its panes, the other a
  file browser.
\<close>
theorem main_area_shows_one:
  assumes "inj u" and "sh = shell_run u (initial_shell st w) es"
  shows "(\<exists>x. visible_parts sh = [x])
    \<and> list_all (\<lambda>s. tab_content_of s =
        (case kind s of Terminal \<Rightarrow> Split_content (the (layout s)) | Sftp \<Rightarrow> Browser_content (session_host s))) (openSessions (tabs sh))"
proof
  have ok: "shell_ok u sh" unfolding assms(2) by (rule shell_ok_reachable[OF assms(1)])
  then show "\<exists>x. visible_parts sh = [x]" by (rule one_part)
  have "\<forall>s\<in>set (openSessions (tabs sh)). tab_ok s" using ok by (simp add: shell_ok_def sessions_ok_def)
  then show "list_all (\<lambda>s. tab_content_of s =
      (case kind s of Terminal \<Rightarrow> Split_content (the (layout s)) | Sftp \<Rightarrow> Browser_content (session_host s))) (openSessions (tabs sh))"
    by (auto simp: list_all_iff tab_ok_def tab_content_of_def split: option.splits)
qed

theorem main_area_shows_one_witness:
  "\<exists>x. visible_parts (shell_run sample_uuids (initial_shell initial_settings 1400)
     [Connect_host (sample_host ''h'' None), Gate_answer 0 gate_open, Close_tab_click ''x'']) = [x]"
  using main_area_shows_one[OF inj_sample_uuids refl] by blast

end
