(* ===== verification/Host_Icons.thy ===== *)
theory Host_Icons
  imports Host_Form
begin

text \<open>
  The icons a host can have, \<open>src/src/components/common/hostIcons.tsx\<close>, with their keys and labels but
  without the drawings, the picker of the host form (\<open>HostForm.tsx\<close>), what the card of a host shows in
  its place (\<open>HostCard.tsx\<close>), and the arrows of the sidebar toggles (\<open>navIcons.tsx\<close>).
\<close>

section \<open>Definitions\<close>

record icon_def =
  icon_key :: string
  icon_label :: string

definition icon :: "string \<Rightarrow> string \<Rightarrow> icon_def" where
  "icon k l = \<lparr>icon_key = k, icon_label = l\<rparr>"

definition HOST_ICONS :: "icon_def list" where
  "HOST_ICONS = [icon ''server'' ''Server'', icon ''database'' ''Database'', icon ''cloud'' ''Cloud'',
     icon ''container'' ''Container'', icon ''network'' ''Network'', icon ''lock'' ''Security'', icon ''globe'' ''Public'',
     icon ''home'' ''Local'']"

definition CLOUD_ICONS :: "icon_def list" where
  "CLOUD_ICONS = [icon ''aws'' ''AWS'', icon ''azure'' ''Azure'', icon ''gcp'' ''Google Cloud'', icon ''huawei'' ''Huawei Cloud'',
     icon ''alibaba'' ''Alibaba Cloud'', icon ''oracle'' ''Oracle Cloud'', icon ''ibm'' ''IBM Cloud'',
     icon ''digitalocean'' ''DigitalOcean'']"

definition LETTER_PALETTE :: "string list" where
  "LETTER_PALETTE = [''#f43f5e'', ''#f97316'', ''#eab308'', ''#22c55e'', ''#14b8a6'', ''#3b82f6'', ''#a855f7'', ''#ec4899'']"

text \<open>A letter icon with its colour.\<close>

definition letter_icon :: "nat \<Rightarrow> icon_def \<times> string" where
  "letter_icon i =
     (let letter = [char_of (65 + i) :: char]
      in (icon (''letter_'' @ letter) letter, LETTER_PALETTE ! (i mod length LETTER_PALETTE)))"

definition LETTER_ICONS :: "icon_def list" where
  "LETTER_ICONS = map (fst \<circ> letter_icon) [0..<26]"

definition all_icons :: "icon_def list" where
  "all_icons = HOST_ICONS @ CLOUD_ICONS @ LETTER_ICONS"

text \<open>\<open>new Map\<close> of a list of pairs: a later pair of the same key wins.\<close>

definition HOST_ICON_MAP :: "string \<rightharpoonup> icon_def" where
  "HOST_ICON_MAP = map_of (rev (map (\<lambda>i. (icon_key i, i)) all_icons))"

text \<open>\<open>HostIcon\<close>: nothing is drawn for no icon and for an unknown one.\<close>

definition HostIcon :: "string option \<Rightarrow> icon_def option" where
  "HostIcon i = (if truthy i then HOST_ICON_MAP (the i) else None)"

text \<open>What the card shows on the colour of the host: an icon, the initial of its label, or nothing.\<close>

datatype card_mark = Icon_mark icon_def | Initial_mark string | Blank_mark

definition card_mark_of :: "(char \<Rightarrow> string) \<Rightarrow> host \<Rightarrow> card_mark" where
  "card_mark_of toUpperCase h =
     (if truthy (host_icon h)
      then (case HostIcon (host_icon h) of Some i \<Rightarrow> Icon_mark i | None \<Rightarrow> Blank_mark)
      else (case trim (host_label h) of
              [] \<Rightarrow> Initial_mark ''?''
            | c # cs \<Rightarrow> Initial_mark (if toUpperCase c = [] then ''?'' else toUpperCase c)))"

text \<open>
  The buttons of the picker, the first for no icon, each with whether it is marked; the letters are
  shown after \<open>More\<close>, which a form starts without.
\<close>

definition icon_picker :: "bool \<Rightarrow> host_form \<Rightarrow> (string option \<times> bool) list" where
  "icon_picker showLetterIcons f =
     (None, form_icon f = None) #
     map (\<lambda>i. (Some (icon_key i), form_icon f = Some (icon_key i)))
       (HOST_ICONS @ CLOUD_ICONS @ (if showLetterIcons then LETTER_ICONS else []))"

datatype toggle_side = Left_side | Right_side

datatype chevron = ChevronLeft | ChevronRight

definition sidebarToggleIcon :: "toggle_side \<Rightarrow> bool \<Rightarrow> chevron" where
  "sidebarToggleIcon side visible =
     (let pointsLeft = (if side = Left_side then visible else \<not> visible) in if pointsLeft then ChevronLeft else ChevronRight)"

section \<open>Properties\<close>

lemma icon_keys_distinct: "distinct (map icon_key all_icons)"
  by code_simp

text \<open>No icon hides another one: each key leads to its own icon.\<close>

lemma icon_lookup:
  assumes "i \<in> set all_icons"
  shows "HostIcon (Some (icon_key i)) = Some i"
proof -
  have "icon_key i \<noteq> []" using assms
    by (auto simp: all_icons_def HOST_ICONS_def CLOUD_ICONS_def LETTER_ICONS_def letter_icon_def icon_def Let_def)
  moreover have "map_of (rev (map (\<lambda>i. (icon_key i, i)) all_icons)) (icon_key i) = Some i"
    using assms icon_keys_distinct by (intro map_of_is_SomeI) (auto simp: rev_map[symmetric] comp_def)
  ultimately show ?thesis by (simp add: HostIcon_def HOST_ICON_MAP_def truthy_def)
qed

text \<open>What the picker offers can be drawn, and one button is marked when the icon is among those shown.\<close>

lemma picked_icon_is_drawn:
  assumes "(Some k, b) \<in> set (icon_picker shown f)"
  shows "HostIcon (form_icon (edit (Pick_icon (Some k)) f)) \<noteq> None"
proof -
  obtain i where "i \<in> set all_icons" "icon_key i = k"
    using assms by (auto simp: icon_picker_def all_icons_def split: if_splits)
  with icon_lookup[of i] show ?thesis by simp
qed

lemma picker_marks_icon:
  "(x, b) \<in> set (icon_picker shown f) \<Longrightarrow> b = (form_icon f = x)"
  by (auto simp: icon_picker_def split: if_splits)

text \<open>A form that opens on a host with a letter marks no button: not the letter, which is not shown, nor any other.\<close>

lemma letter_icon_unmarked:
  assumes "i \<in> set LETTER_ICONS" and "form_icon f = Some (icon_key i)"
  shows "list_all (\<lambda>(x, b). \<not> b) (icon_picker False f)"
proof -
  have "icon_key i \<notin> icon_key ` (set HOST_ICONS \<union> set CLOUD_ICONS)"
    using icon_keys_distinct assms(1) by (auto simp: all_icons_def)
  with assms(2) show ?thesis by (auto simp: icon_picker_def list_all_iff)
qed

text \<open>An icon this version does not know leaves the card without a mark, not even the initial.\<close>

lemma unknown_icon_is_blank:
  assumes "host_icon h = Some k" and "k \<noteq> []" and "k \<notin> icon_key ` set all_icons"
  shows "card_mark_of up h = Blank_mark"
proof -
  have "HOST_ICON_MAP k = None"
    unfolding HOST_ICON_MAP_def map_of_eq_None_iff using assms(3) by auto
  then show ?thesis using assms(1,2) by (simp add: card_mark_of_def HostIcon_def truthy_def)
qed

text \<open>The two toggles point away from each other, and each turns round with its panel.\<close>

lemma toggles_mirrored:
  "sidebarToggleIcon Left_side v \<noteq> sidebarToggleIcon Right_side v"
  "sidebarToggleIcon s v \<noteq> sidebarToggleIcon s (\<not> v)"
  by (auto simp: sidebarToggleIcon_def)

end
