(* ===== verification/Spec2Isabelle.thy ===== *)
theory Spec2Isabelle
  imports Bridge Terminal_Safety App_Workspace Hosts_Grid Ai_Store Sftp_Browser Host_Panel Host_Form Vault_Lock Vpn_Panel
    Code_Blocks Store_Forms Updates Settings_Panel Panels Pane_Split_View Inline_Forms Chat_Panel Shell_Views Host_Icons
begin

text \<open>
  ConnectHub is a desktop SSH client: a Rust backend behind the Tauri bridge, and a React
  frontend written in TypeScript under \<open>src/src\<close>. This development models the frontend:
  its stores, its pure libraries and the logic of its components, as functions and state
  machines over explicit states.

  How the program is put together. The stores of \<open>src/src/state\<close> hold the state the
  components share. A component reads stores, keeps some state of its own and calls the
  backend through \<open>src/src/lib/tauri-bridge\<close>. The shell \<open>pages/AppShell.tsx\<close> decides what is
  shown; each tab is a tree of terminal panes or a file browser; the VPN store is asked before
  every connection.

  Theories, in the order of their dependencies:

  \<^item> \<open>Prelude\<close>: identifiers drawn from a stream, strings, numbers with NaN, lists updated by a
    key, the stable sort of JavaScript and its contract (locale \<open>comparator\<close>), runs of a state
    machine and their invariants (locale \<open>invariant_machine\<close>, which every component with an
    invariant interprets on its own step function).
  \<^item> \<open>Bridge_Types\<close>, \<open>Bridge\<close>: the interfaces of \<open>lib/tauri-bridge\<close> as records and every call
    as a message; each message fits a command that \<open>src-tauri/src/lib.rs\<close> registers.
  \<^item> \<open>Pane_Tree\<close>, \<open>Pane_Layout\<close>: \<open>lib/paneTree.ts\<close>, the binary tree of split panes, its refinement
    to a list of panes, its rectangles, saving and restoring.
  \<^item> \<open>Sessions_Store\<close>: \<open>state/sessionsStore.ts\<close>, the tabs with their panes, statuses and sessions,
    and the invariant of every reachable state.
  \<^item> \<open>Settings_Store\<close>: \<open>state/settingsStore.ts\<close> and the resize handles.
  \<^item> \<open>Command_History\<close>: \<open>state/commandHistoryStore.ts\<close>, recording, parsing and ranking.
  \<^item> \<open>Refetch\<close>, \<open>Entity_Stores\<close>: how the stores of hosts, snippets, tags and workspaces follow
    the backend. The locale \<open>guarded_refetch\<close> is the contract of a store that numbers its
    refetches; the stores of hosts and snippets, the VPN store and the panes of the file
    browser interpret it.
  \<^item> \<open>Group_Tree\<close>: \<open>lib/groupTree.ts\<close> and the sidebar \<open>HostTree.tsx\<close>; the locale \<open>collation\<close> is what
    it needs of \<open>localeCompare\<close>, and gives the two orders as comparators.
  \<^item> \<open>Friendly_Error\<close>: \<open>lib/friendlyError.ts\<close> and \<open>lib/updater.ts\<close>.
  \<^item> \<open>Vpn_Store\<close>: \<open>state/vpnStore.ts\<close>, with the gate and its polling loop.
  \<^item> \<open>Ai_Store\<close>: \<open>state/aiStore.ts\<close> and which buttons the chat offers; every asynchronous function
    is cut at its awaits and any interleaving of the pieces is a run.
  \<^item> \<open>Terminal_Input\<close>, \<open>Terminal_View\<close>, \<open>Terminal_Safety\<close>: \<open>components/terminal/TerminalView.tsx\<close>,
    the decoding of output, the tracking of typed lines, the shortcuts, and the state machine
    of the connection with its retries.
  \<^item> \<open>App_Shell\<close>, \<open>App_Workspace\<close>, \<open>Hosts_Grid\<close>: \<open>pages/AppShell.tsx\<close>, views, panels, tabs, the
    VPN gate, workspaces, the grid of hosts with dragging and searching, the CSV files, and
    \<open>components/common/CommandPalette.tsx\<close>.
  \<^item> \<open>Sftp_Browser\<close>: \<open>components/sftp/SftpBrowser.tsx\<close>.
  \<^item> \<open>Pane_Split_View\<close>: \<open>components/terminal/PaneSplitView.tsx\<close> with the dividers, on top of the
    rectangles of \<open>Pane_Layout\<close> and what React keeps mounted.
  \<^item> \<open>Host_Panel\<close>: \<open>components/panels/HostContextPanel.tsx\<close>, the statistics and quick commands.
  \<^item> \<open>Tag_Input\<close>, \<open>Host_Form\<close>, \<open>Store_Forms\<close>, \<open>Inline_Forms\<close>: the forms of \<open>components/forms\<close>. The forms
    for groups, identities, keys, snippets and VPN profiles are instances of one machine, whose
    contract is the locale \<open>form_contract\<close>; \<open>Inline_Forms\<close> puts the forms into
    \<open>components/panels/InlineFormPanel.tsx\<close> and the shell.
  \<^item> \<open>Vault_Lock\<close>: \<open>App.tsx\<close>, the idle timer and the lock overlay.
  \<^item> \<open>Vpn_Panel\<close>, \<open>Settings_Panel\<close>, \<open>Panels\<close>: the panels for VPN profiles, for the settings (pinned
    keys and AI keys), for workspaces and for the backup (\<open>components/panels\<close>).
  \<^item> \<open>Code_Blocks\<close>, \<open>Chat_Panel\<close>: \<open>lib/codeBlocks.ts\<close>, \<open>lib/aiCommandActions.ts\<close> and the components of
    \<open>components/ai\<close>, over the conversations of \<open>Ai_Store\<close>.
  \<^item> \<open>Updates\<close>: the update prompt and the section About.
  \<^item> \<open>Dialogs\<close>: \<open>components/common\<close>, questions before a deletion, the focus trap of a dialog, the
    context menu of a host and the notifications.
  \<^item> \<open>Shell_Views\<close>: what the shell shows, the host cards, tree rows, activity bar and menus, and which
    operation of the shell each of them starts.
  \<^item> \<open>Host_Icons\<close>: the keys of \<open>components/common/hostIcons.tsx\<close>, the picker and the mark on a card.

  Conventions. A handler that waits is split at its \<open>await\<close>: what comes after is a task, and the
  answer an event that other events may precede, or, in \<open>Vpn_Store\<close>, an argument together with
  what other tasks did meanwhile. Calls to the backend are collected in the order they
  are made. An error that is thrown is the left of a sum, or \<open>Some\<close> text. Sets and maps whose
  order is observable are lists. Strings are lists of characters; \<open>trim\<close> and \<open>toLowerCase\<close> are
  those of the Latin alphabet. JavaScript numbers are integers, reals or \<open>js_number\<close> (a real or
  NaN), whichever the code needs, and bytes are machine words.

  What the theorems show: invariants of every reachable state (tabs, pane trees, the shell and what
  it shows, the histories sent to a language model, the listings of the file browser, the saves of
  the forms); what never happens without the user (a deletion, the autonomous mode, an unlocked
  vault, a remounted terminal); each operation's effect, refusals and errors included; the types of
  what the forms send; termination and bounds of the loops; round trips (saved layouts,
  workspaces, code blocks, history files, base64); equivalence of two implementations (keystroke
  tracking against cutting into lines, the grid of cards against the sidebar's tree with a wider
  search, the idle timer against the time of the last input, the statistics of a host against
  the answers of the present connection); refinement of the pane tree to a list; what
  interleavings can do to a session, a store or a listing. Where the code does not do what it
  means to, a theorem of kind error says what happens instead, for instance that a form which
  stays open while another item is edited is saved into that item.

  Bounds and fuel. The gate polls at most 63 times, since the clock advances by 400 ms per
  poll and the deadline is 25 s away, so 63 units of fuel give a result. The recursion over
  groups is given a depth; more than the number of groups is enough when identifiers
  are distinct. A pane makes at most six connections without a success or a click, five of them
  retries. A tab has at most nine panes. The output tail keeps 256 characters. The command
  palette offers at most sixteen entries, eight hosts and eight actions.

  Parameters, which stand for code that is not in the repository: the stream of \<open>crypto.randomUUID\<close>
  (injective), the clock, \<open>localeCompare\<close> (a comparator), \<open>TextDecoder\<close>, \<open>Date.parse\<close>, the
  printing of numbers, \<open>JSON.stringify\<close> and \<open>JSON.parse\<close> (inverse on what was saved), the
  answers of dialogs, and everything the backend answers. \<open>Terminal_Safety\<close> relies on the
  protocol of \<open>src-tauri/src/ssh/session.rs\<close> (\<open>backend_ok\<close>: no error before the call that opened the
  channel is answered, one error at most, one \<open>Closed\<close>, which may come before that answer) and, apart from it,
  on messages being delivered before the pane connects again (\<open>in_time\<close>); without the second a
  session can be lost, as \<open>late_close_loses_session\<close> shows. \<open>Host_Form\<close> relies on the identifiers
  that it is given, by the stores and the selects, being UUIDs.

  Not modelled: the Rust backend under \<open>src-tauri\<close>, whose answers are arguments or events; xterm.js,
  the clipboard and the other plugins, whose calls are recorded; React's scheduler, of which only
  the documented rules are used (effects after a render, state kept under a key or a place); and
  what is markup only: class names, colours, the drawings of \<open>hostIcons.tsx\<close> and \<open>navIcons.tsx\<close>, the
  styled elements of \<open>ui.tsx\<close>, and scrolling into view. These have no state and decide nothing, so
  there is nothing to state about them.
\<close>

end
